(* ===== verification/Prelude.thy ===== *)
theory Prelude
  imports Main "HOL-Library.Word"
begin

text \<open>
  Shared vocabulary of the development: the machine types of the C sources, the error codes
  they return, the parts of the C string library they call (\<open>strstr\<close>, \<open>strchr\<close>, \<open>strrchr\<close>,
  \<open>atoi\<close>, \<open>strncasecmp\<close>), the byte order conversions, and the generic lemmas on lists and
  words that the component theories use.

  A C string is a HOL \<^typ>\<open>string\<close> without the terminating NUL; a pointer into a string is
  the suffix it points to. A raw buffer is a list of \<^typ>\<open>8 word\<close>.
\<close>

unbundle bit_operations_syntax

named_theorems layout "the bytes an encoder writes"
named_theorems keeps "an operation keeps its component's invariant"
named_theorems frame "the parts of the state an operation leaves alone"

type_synonym u8 = "8 word"
type_synonym u16 = "16 word"
type_synonym u32 = "32 word"
type_synonym u64 = "64 word"
type_synonym i16 = "16 word"
type_synonym bytes = "u8 list"

section \<open>Error codes\<close>

text \<open>
  The functions return \<open>0\<close> or an errno value; here \<open>None\<close> is \<open>0\<close>. \<open>EOS n\<close> stands for a code
  that the operating system chooses.
\<close>

datatype errno =
    EINVAL | ENOMEM | ENOENT | EACCES | EPERM | EAGAIN | EALREADY | ENODEV | EIO
  | EOVERFLOW | EBADMSG | ERANGE | ENOTCONN | EAFNOSUPPORT | EPROTO | EPROTONOSUPPORT | ETIMEDOUT
  | ECONNABORTED | ECONNRESET | ENODATA | ENOSYS | ENOSPC | EBADF | EADDRNOTAVAIL | EOS nat

text \<open>\<open>err |= f()\<close> is only ever tested against zero, so the first error stands for the sum.\<close>

definition or_err :: "errno option \<Rightarrow> errno option \<Rightarrow> errno option" where
  "or_err a b = (case a of None \<Rightarrow> b | Some e \<Rightarrow> Some e)"

lemma or_err_simps [simp]:
  "or_err None b = b" "or_err (Some e) b = Some e" "or_err a None = a"
  by (simp_all add: or_err_def split: option.splits)

section \<open>C strings\<close>

abbreviation NUL :: char where "NUL \<equiv> CHR 0x00"
abbreviation CR :: char where "CR \<equiv> CHR 0x0D"
abbreviation LF :: char where "LF \<equiv> CHR 0x0A"
abbreviation DQ :: char where "DQ \<equiv> CHR 0x22"
abbreviation BSL :: char where "BSL \<equiv> CHR 0x5C"
abbreviation crlf :: string where "crlf \<equiv> [CR, LF]"

definition c_str :: "string \<Rightarrow> string" where
  "c_str s = takeWhile (\<lambda>c. c \<noteq> NUL) s"

definition text_bytes :: "string \<Rightarrow> bytes" where
  "text_bytes s = map (\<lambda>c. word_of_nat (of_char c)) s"

definition bytes_text :: "bytes \<Rightarrow> string" where
  "bytes_text bs = map (\<lambda>b. char_of (unat b)) bs"

lemma bytes_text_text_bytes [simp]: "bytes_text (text_bytes s) = s"
proof -
  have "char_of (unat (word_of_nat (of_char c) :: u8)) = c" for c
    by (simp add: unat_of_nat)
  then show ?thesis
    by (simp add: bytes_text_def text_bytes_def o_def)
qed

lemma length_text_bytes [simp]: "length (text_bytes s) = length s"
  by (simp add: text_bytes_def)

lemma text_bytes_append [simp]: "text_bytes (s @ t) = text_bytes s @ text_bytes t"
  by (simp add: text_bytes_def)

lemma length_bytes_text [simp]: "length (bytes_text bs) = length bs"
  by (simp add: bytes_text_def)

definition starts_with :: "string \<Rightarrow> string \<Rightarrow> bool" where
  "starts_with p s \<longleftrightarrow> take (length p) s = p"

text \<open>The C searches return a pointer or NULL; here the offset of the hit.\<close>

fun strstr :: "string \<Rightarrow> string \<Rightarrow> nat option" where
  "strstr [] pat = (if pat = [] then Some 0 else None)"
| "strstr (c # s) pat =
     (if starts_with pat (c # s) then Some 0 else map_option Suc (strstr s pat))"

fun strchr :: "string \<Rightarrow> char \<Rightarrow> nat option" where
  "strchr [] ch = None"
| "strchr (c # s) ch = (if c = ch then Some 0 else map_option Suc (strchr s ch))"

definition strrchr :: "string \<Rightarrow> char \<Rightarrow> nat option" where
  "strrchr s ch = map_option (\<lambda>i. length s - 1 - i) (strchr (rev s) ch)"

definition tolower :: "char \<Rightarrow> char" where
  "tolower c =
     (let n = of_char c :: nat in if 65 \<le> n \<and> n \<le> 90 then char_of (n + 32) else c)"

text \<open>\<open>strncasecmp(s, t, n) == 0\<close> and \<open>strcasecmp(s, t) == 0\<close>.\<close>

definition strncaseeq :: "string \<Rightarrow> string \<Rightarrow> nat \<Rightarrow> bool" where
  "strncaseeq s t n \<longleftrightarrow> map tolower (take n s) = map tolower (take n t)"

definition strcaseeq :: "string \<Rightarrow> string \<Rightarrow> bool" where
  "strcaseeq s t \<longleftrightarrow> map tolower s = map tolower t"

definition is_digit :: "char \<Rightarrow> bool" where
  "is_digit c \<longleftrightarrow> 48 \<le> (of_char c :: nat) \<and> (of_char c :: nat) \<le> 57"

definition is_space :: "char \<Rightarrow> bool" where
  "is_space c \<longleftrightarrow> (of_char c :: nat) = 32 \<or> 9 \<le> (of_char c :: nat) \<and> (of_char c :: nat) \<le> 13"

definition digits_val :: "string \<Rightarrow> nat" where
  "digits_val ds = foldl (\<lambda>a d. 10 * a + ((of_char d :: nat) - 48)) 0 ds"

text \<open>
  \<open>atoi\<close>: white space, an optional sign, then the longest run of digits. Overflow of \<open>int\<close> is
  undefined in C; the model keeps the exact value and the callers cast it.
\<close>

definition atoi :: "string \<Rightarrow> int" where
  "atoi s =
     (let t = dropWhile is_space s in
      case t of
        [] \<Rightarrow> 0
      | c # r \<Rightarrow>
          if c = CHR ''-'' then - int (digits_val (takeWhile is_digit r))
          else if c = CHR ''+'' then int (digits_val (takeWhile is_digit r))
          else int (digits_val (takeWhile is_digit t)))"

section \<open>Number formatting\<close>

definition digit_char :: "nat \<Rightarrow> char" where
  "digit_char d = char_of (if d < 10 then 48 + d else 87 + d)"

definition digit_char_uc :: "nat \<Rightarrow> char" where
  "digit_char_uc d = char_of (if d < 10 then 48 + d else 55 + d)"

fun itoa_dec :: "nat \<Rightarrow> string" where
  "itoa_dec n = (if n < 10 then [digit_char n] else itoa_dec (n div 10) @ [digit_char (n mod 10)])"

fun itoa_hex :: "(nat \<Rightarrow> char) \<Rightarrow> nat \<Rightarrow> string" where
  "itoa_hex dc n = (if n < 16 then [dc n] else itoa_hex dc (n div 16) @ [dc (n mod 16)])"

declare itoa_dec.simps [simp del] itoa_hex.simps [simp del]

lemma of_char_digit_char: "d < 10 \<Longrightarrow> (of_char (digit_char d) :: nat) = 48 + d"
  by (simp add: digit_char_def)

lemma is_digit_digit_char: "d < 10 \<Longrightarrow> is_digit (digit_char d)"
  by (simp add: is_digit_def of_char_digit_char)

lemma digits_val_append:
  "digits_val (xs @ [d]) = 10 * digits_val xs + ((of_char d :: nat) - 48)"
  by (simp add: digits_val_def)

lemma itoa_dec_digits: "list_all is_digit (itoa_dec n)"
proof (induction n rule: itoa_dec.induct)
  case (1 n)
  then show ?case
    by (subst itoa_dec.simps) (simp add: is_digit_digit_char)
qed

lemma itoa_dec_nonempty [simp]: "itoa_dec n \<noteq> []"
  by (subst itoa_dec.simps) simp

lemma digits_val_itoa_dec [simp]: "digits_val (itoa_dec n) = n"
proof (induction n rule: itoa_dec.induct)
  case (1 n)
  show ?case
  proof (cases "n < 10")
    case True
    then show ?thesis
      by (subst itoa_dec.simps) (simp add: digits_val_def of_char_digit_char)
  next
    case False
    with 1 show ?thesis
      by (subst itoa_dec.simps) (simp add: digits_val_append of_char_digit_char)
  qed
qed

lemma takeWhile_digits_append:
  assumes "list_all is_digit ds" and "rest = [] \<or> \<not> is_digit (hd rest)"
  shows "takeWhile is_digit (ds @ rest) = ds"
  using assms by (induction ds) (auto simp: takeWhile_eq_Nil_iff)

lemma is_digit_not_special:
  "is_digit c \<Longrightarrow> \<not> is_space c \<and> c \<noteq> CHR ''-'' \<and> c \<noteq> CHR ''+''"
  by (auto simp: is_digit_def is_space_def)

text \<open>Reading back a printed number, whatever non-digit follows it.\<close>

lemma atoi_itoa_dec:
  assumes "rest = [] \<or> \<not> is_digit (hd rest)"
  shows "atoi (itoa_dec n @ rest) = int n"
proof -
  obtain c r where cr: "itoa_dec n = c # r"
    by (cases "itoa_dec n") auto
  have dig: "list_all is_digit (c # r)"
    using itoa_dec_digits [of n] cr by simp
  then have c: "\<not> is_space c" "c \<noteq> CHR ''-''" "c \<noteq> CHR ''+''"
    using is_digit_not_special by auto
  have "takeWhile is_digit ((c # r) @ rest) = c # r"
    using dig assms by (rule takeWhile_digits_append)
  then show ?thesis
    using c cr digits_val_itoa_dec [of n] by (auto simp: atoi_def Let_def)
qed

lemma exponent_pos:
  assumes "\<not> n < (b :: nat)" "n < b ^ k" "0 < k"
  obtains j where "k = Suc j" "0 < j"
  using assms by (cases k) (auto, metis mult.right_neutral neq0_conv power_0)

lemma itoa_dec_length: "n < 10 ^ k \<Longrightarrow> 0 < k \<Longrightarrow> length (itoa_dec n) \<le> k"
proof (induction n arbitrary: k rule: itoa_dec.induct)
  case (1 n)
  show ?case
  proof (cases "n < 10")
    case True
    with 1 show ?thesis by (subst itoa_dec.simps) simp
  next
    case False
    obtain j where j: "k = Suc j" "0 < j"
      using exponent_pos [OF False "1.prems"] by blast
    have "n div 10 < 10 ^ j"
      using "1.prems" j by (simp add: div_less_iff_less_mult mult.commute)
    with 1 False j have "length (itoa_dec (n div 10)) \<le> j" by simp
    with False j show ?thesis by (subst itoa_dec.simps) simp
  qed
qed

lemma itoa_hex_length: "n < 16 ^ k \<Longrightarrow> 0 < k \<Longrightarrow> length (itoa_hex dc n) \<le> k"
proof (induction dc n arbitrary: k rule: itoa_hex.induct)
  case (1 dc n)
  show ?case
  proof (cases "n < 16")
    case True
    with 1 show ?thesis by (subst itoa_hex.simps) simp
  next
    case False
    obtain j where j: "k = Suc j" "0 < j"
      using exponent_pos [OF False "1.prems"] by blast
    have "n div 16 < 16 ^ j"
      using "1.prems" j by (simp add: div_less_iff_less_mult mult.commute)
    with 1 False j have "length (itoa_hex dc (n div 16)) \<le> j" by simp
    with False j show ?thesis by (subst itoa_hex.simps) simp
  qed
qed

section \<open>Searching\<close>

lemma starts_with_self [simp]: "starts_with p (p @ s)"
  by (simp add: starts_with_def)

lemma starts_with_Nil [simp]: "starts_with [] s"
  by (simp add: starts_with_def)

lemma starts_with_Cons [simp]:
  "starts_with (c # p) s \<longleftrightarrow> (case s of [] \<Rightarrow> False | d # t \<Rightarrow> c = d \<and> starts_with p t)"
  by (cases s) (auto simp: starts_with_def)

lemma starts_with_length: "starts_with p s \<Longrightarrow> length p \<le> length s"
  by (metis starts_with_def length_take min.cobounded1)

lemma starts_withD: "starts_with p s \<Longrightarrow> s = p @ drop (length p) s"
  by (metis append_take_drop_id starts_with_def)

lemma strstr_bound: "strstr s pat = Some i \<Longrightarrow> i + length pat \<le> length s"
  by (induction s arbitrary: i)
     (auto split: if_splits simp: starts_with_length dest: starts_with_length)

lemma strstr_hit: "strstr s pat = Some i \<Longrightarrow> starts_with pat (drop i s)"
  by (induction s arbitrary: i) (auto split: if_splits)

lemma strstr_first: "strstr s pat = Some i \<Longrightarrow> j < i \<Longrightarrow> \<not> starts_with pat (drop j s)"
proof (induction s arbitrary: i j)
  case (Cons c s)
  then show ?case by (cases j) (auto split: if_splits)
qed (simp split: if_splits)

lemma strstr_None: "strstr s pat = None \<Longrightarrow> \<not> starts_with pat (drop j s)"
proof (induction s arbitrary: j)
  case Nil
  then show ?case by (cases pat) (auto split: if_splits)
next
  case (Cons c s)
  then show ?case by (cases j) (auto split: if_splits)
qed

lemma strstr_SomeI:
  assumes "starts_with pat (drop i s)" "i \<le> length s"
    and "\<And>j. j < i \<Longrightarrow> \<not> starts_with pat (drop j s)"
  shows "strstr s pat = Some i"
proof (cases "strstr s pat")
  case None
  with assms(1) show ?thesis using strstr_None by blast
next
  case (Some k)
  have "\<not> k < i" using assms(3) strstr_hit [OF Some] by blast
  moreover have "\<not> i < k" using strstr_first [OF Some] assms(1) by blast
  ultimately show ?thesis using Some by simp
qed

lemma strchr_bound: "strchr s ch = Some i \<Longrightarrow> i < length s"
  by (induction s arbitrary: i) (auto split: if_splits)

lemma strchr_hit: "strchr s ch = Some i \<Longrightarrow> s ! i = ch"
  by (induction s arbitrary: i) (auto split: if_splits)

lemma strchr_first: "strchr s ch = Some i \<Longrightarrow> ch \<notin> set (take i s)"
  by (induction s arbitrary: i) (auto split: if_splits)

lemma strchr_None_iff [simp]: "strchr s ch = None \<longleftrightarrow> ch \<notin> set s"
  by (induction s) (auto split: if_splits)

lemma strchr_append_hit [simp]: "ch \<notin> set s \<Longrightarrow> strchr (s @ ch # t) ch = Some (length s)"
  by (induction s) auto

lemma strchr_notin [simp]: "ch \<notin> set s \<Longrightarrow> strchr s ch = None"
  by simp

text \<open>A pattern that starts with a character absent from a prefix is found after it.\<close>

lemma strstr_append_hit:
  assumes "c \<notin> set s"
  shows "strstr (s @ (c # p) @ t) (c # p) = Some (length s)"
  using assms by (induction s) (auto simp: starts_with_def)

section \<open>Byte order\<close>

text \<open>
  The build target is little endian: \<open>htons\<close> and \<open>htonl\<close> swap the bytes, and a value written
  to memory starts with its least significant byte.
\<close>

definition mem_u16 :: "u16 \<Rightarrow> bytes" where
  "mem_u16 v = [ucast v, ucast (drop_bit 8 v)]"

definition mem_u32 :: "u32 \<Rightarrow> bytes" where
  "mem_u32 v = [ucast v, ucast (drop_bit 8 v), ucast (drop_bit 16 v), ucast (drop_bit 24 v)]"

definition val_u16 :: "bytes \<Rightarrow> u16" where
  "val_u16 bs = (case bs of [a, b] \<Rightarrow> ucast a OR push_bit 8 (ucast b) | _ \<Rightarrow> 0)"

definition val_u32 :: "bytes \<Rightarrow> u32" where
  "val_u32 bs =
     (case bs of
        [a, b, c, d] \<Rightarrow> ucast a OR push_bit 8 (ucast b) OR push_bit 16 (ucast c)
                          OR push_bit 24 (ucast d)
      | _ \<Rightarrow> 0)"

lemma length_mem [simp]: "length (mem_u16 v) = 2" "length (mem_u32 w) = 4"
  by (simp_all add: mem_u16_def mem_u32_def)

lemma val_mem_u16 [simp]: "val_u16 (mem_u16 v) = v"
  by (rule bit_word_eqI) (auto simp: val_u16_def mem_u16_def bit_simps)

text \<open>A bit position of a 32-bit word lies in one of its four bytes.\<close>

lemma byte_cases_32:
  assumes "n < LENGTH(32)"
  obtains "n < 8" | "8 \<le> n \<and> n < 16" | "16 \<le> n \<and> n < 24" | "24 \<le> n \<and> n < 32"
  using assms by fastforce

lemma val_mem_u32 [simp]: "val_u32 (mem_u32 v) = v"
proof (rule bit_word_eqI)
  fix n assume "n < LENGTH(32)"
  then show "bit (val_u32 (mem_u32 v)) n = bit v n"
    by (rule byte_cases_32) (auto simp: val_u32_def mem_u32_def bit_simps)
qed

lemma byte_bit_high [simp]: "8 \<le> n \<Longrightarrow> \<not> bit (a :: u8) n"
  using bit_imp_le_length [of a n] by auto

lemma mem_val_u16 [simp]: "mem_u16 (val_u16 [a, b]) = [a, b]"
  by (auto simp: val_u16_def mem_u16_def bit_simps intro!: bit_word_eqI)

lemma mem_val_u32 [simp]: "mem_u32 (val_u32 [a, b, c, d]) = [a, b, c, d]"
  by (auto simp: val_u32_def mem_u32_def bit_simps intro!: bit_word_eqI)

text \<open>\<open>htons\<close> and \<open>htonl\<close> (and \<open>ntohs\<close>, \<open>ntohl\<close>, the same functions) reverse the bytes.\<close>

definition htons :: "u16 \<Rightarrow> u16" where
  "htons v = val_u16 (rev (mem_u16 v))"

definition htonl :: "u32 \<Rightarrow> u32" where
  "htonl v = val_u32 (rev (mem_u32 v))"

lemma mem_u16_htons [layout]: "mem_u16 (htons v) = rev (mem_u16 v)"
  by (simp add: htons_def mem_u16_def [of v])

lemma mem_u32_htonl [layout]: "mem_u32 (htonl v) = rev (mem_u32 v)"
  by (simp add: htonl_def mem_u32_def [of v])

lemma htons_htons [simp]: "htons (htons v) = v"
  by (simp add: htons_def [of "htons v"] mem_u16_htons)

lemma htonl_htonl [simp]: "htonl (htonl v) = v"
  by (simp add: htonl_def [of "htonl v"] mem_u32_htonl)

section \<open>Exhausting bytes\<close>

text \<open>A decidable fact about one byte is checked on all 256 of them.\<close>

lemma all_bytes: "list_all P (map word_of_nat [0..<256]) \<Longrightarrow> P (b :: u8)"
proof -
  assume "list_all P (map word_of_nat [0..<256] :: u8 list)"
  then have "\<forall>n < 256. P (word_of_nat n :: u8)"
    by (simp add: list_all_iff)
  moreover have "unat b < 256"
    using unsigned_less [of b, where 'a = nat] by simp
  ultimately have "P (word_of_nat (unat b))" by blast
  then show "P b" by simp
qed

section \<open>Lists\<close>

lemma take_drop_append_drop: "a \<le> b \<Longrightarrow> take (b - a) (drop a xs) @ drop b xs = drop a xs"
  by (metis append_take_drop_id drop_drop le_add_diff_inverse2)

lemma dropWhile_append_not: "xs = [] \<or> \<not> P (hd xs) \<Longrightarrow> dropWhile P xs = xs"
  by (cases xs) auto

text \<open>64-bit values are two 32-bit halves, the lower one first.\<close>

definition mem_u64 :: "u64 \<Rightarrow> bytes" where
  "mem_u64 v = mem_u32 (ucast v) @ mem_u32 (ucast (drop_bit 32 v))"

definition val_u64 :: "bytes \<Rightarrow> u64" where
  "val_u64 bs = ucast (val_u32 (take 4 bs)) OR push_bit 32 (ucast (val_u32 (drop 4 bs)))"

definition htonll :: "u64 \<Rightarrow> u64" where
  "htonll v = val_u64 (rev (mem_u64 v))"

lemma length_mem_u64 [simp]: "length (mem_u64 v) = 8"
  by (simp add: mem_u64_def)

lemma val_mem_u64 [simp]: "val_u64 (mem_u64 v) = v"
  by (rule bit_word_eqI) (auto simp: val_u64_def mem_u64_def bit_simps)

lemma u64_halves:
  fixes a b :: u32
  shows "ucast (ucast a OR push_bit 32 (ucast b) :: u64) = a" "ucast (drop_bit 32 (ucast a OR push_bit 32 (ucast b) :: u64)) = b"
  by (rule bit_word_eqI; auto simp: bit_simps dest: bit_imp_le_length)+

lemma mem_u64_htonll [layout]: "mem_u64 (htonll v) = rev (mem_u64 v)"
proof -
  obtain a b c d where l: "mem_u32 (ucast v) = [a, b, c, d]" by (simp add: mem_u32_def)
  obtain e f g h where u: "mem_u32 (ucast (drop_bit 32 v)) = [e, f, g, h]" by (simp add: mem_u32_def)
  have m: "rev (mem_u64 v) = [h, g, f, e] @ [d, c, b, a]" by (simp add: mem_u64_def l u)
  have "val_u64 ([h, g, f, e] @ [d, c, b, a]) = ucast (val_u32 [h, g, f, e]) OR push_bit 32 (ucast (val_u32 [d, c, b, a]))"
    by (simp add: val_u64_def)
  then show ?thesis unfolding htonll_def m mem_u64_def [of "val_u64 _"] by (simp only: u64_halves mem_val_u32)
qed

lemma htonll_htonll [simp]: "htonll (htonll v) = v"
  by (simp add: htonll_def [of "htonll v"] mem_u64_htonll)

end
