(* ===== verification/Audio_In.thy ===== *)
theory Audio_In
  imports Prelude
begin

text \<open>
  Microphone capture (\<open>audio_in_win.c\<close>): the driver callback \<open>wave_in_proc\<close> appends captured samples
  to a ring buffer of 8000 samples, dropping the oldest when it is full; the media timers read from
  it. Both sides hold the critical section for the whole operation, so each operation is one step.

  The record \<open>audio_in\<close> is \<open>g_ain\<close>. What the multimedia driver answers (whether \<open>waveInOpen\<close> and
  \<open>waveInStart\<close> succeed, the tick counter) is an argument of the operations. The abstraction
  \<open>ain_samples\<close> reads the ring as a queue, oldest sample first.
\<close>

abbreviation RING_SIZE :: nat where "RING_SIZE \<equiv> 8000"

record wavehdr =
  wh_len :: nat
  wh_recorded :: nat
  wh_prepared :: bool
  wh_queued :: bool

record wavefmt =
  wf_channels :: int
  wf_srate :: int
  wf_bits :: int
  wf_align :: int
  wf_avg :: int

record audio_in =
  ai_hdrs :: "wavehdr list"
  ai_spb :: int
  ai_opened :: bool
  ai_ring :: "i16 list"
  ai_wr :: nat
  ai_rd :: nat
  ai_drop :: u32
  ai_last_log :: u32

text \<open>\<open>memset(&g_ain, 0, sizeof(g_ain))\<close>, also the initial value of the static object.\<close>

definition ain_zero :: audio_in where
  "ain_zero =
     \<lparr>ai_hdrs = replicate 4 \<lparr>wh_len = 0, wh_recorded = 0, wh_prepared = False, wh_queued = False\<rparr>,
      ai_spb = 0, ai_opened = False, ai_ring = replicate RING_SIZE 0, ai_wr = 0, ai_rd = 0,
      ai_drop = 0, ai_last_log = 0\<rparr>"

section \<open>Operations\<close>

text \<open>Software gain by ten with clipping to 16 bits.\<close>

definition mic_gain :: "i16 \<Rightarrow> i16" where
  "mic_gain x =
     (let s = sint x * 10
      in word_of_int (if s > 32767 then 32767 else if s < -32768 then -32768 else s))"

text \<open>One turn of the loop of \<open>enqueue_to_ring\<close>; \<open>now\<close> is what \<open>GetTickCount\<close> returns in this turn.\<close>

definition enqueue_one :: "u32 \<Rightarrow> i16 \<Rightarrow> audio_in \<Rightarrow> audio_in" where
  "enqueue_one now x g =
     (let wr = ai_wr g;
          nxt = (wr + 1) mod RING_SIZE;
          g1 = (if nxt = ai_rd g
                then g\<lparr>ai_rd := (ai_rd g + 1) mod RING_SIZE, ai_drop := ai_drop g + 1,
                       ai_last_log := (if now - ai_last_log g > 10000 then now else ai_last_log g)\<rparr>
                else g)
      in g1\<lparr>ai_ring := (ai_ring g1)[wr := mic_gain x], ai_wr := nxt\<rparr>)"

fun enqueue_to_ring :: "(nat \<Rightarrow> u32) \<Rightarrow> i16 list \<Rightarrow> audio_in \<Rightarrow> audio_in" where
  "enqueue_to_ring now [] g = g"
| "enqueue_to_ring now (x # xs) g = enqueue_to_ring (\<lambda>i. now (Suc i)) xs (enqueue_one (now 0) x g)"

text \<open>The driver callback for a filled buffer (\<open>WIM_DATA\<close>) of header \<open>k\<close>; other messages do nothing.\<close>

definition wave_in_proc :: "bool \<Rightarrow> (nat \<Rightarrow> u32) \<Rightarrow> nat \<Rightarrow> i16 list \<Rightarrow> audio_in \<Rightarrow> audio_in" where
  "wave_in_proc wim_data now k samples g =
     (if \<not> wim_data then g
      else (let g1 = (if length samples > 0 then enqueue_to_ring now samples g else g)
            in if ai_opened g1
               then g1\<lparr>ai_hdrs := (ai_hdrs g1)[k := (ai_hdrs g1 ! k)\<lparr>wh_recorded := 0, wh_queued := True\<rparr>]\<rparr>
               else g1))"

definition audio_in_close :: "audio_in \<Rightarrow> audio_in" where
  "audio_in_close g = (if \<not> ai_opened g then g else ain_zero)"

definition wave_format :: "int \<Rightarrow> int \<Rightarrow> wavefmt" where
  "wave_format srate channels =
     \<lparr>wf_channels = channels, wf_srate = srate, wf_bits = 16, wf_align = channels * 2,
      wf_avg = srate * channels * 2\<rparr>"

definition audio_in_open ::
  "(wavefmt \<Rightarrow> bool) \<Rightarrow> bool \<Rightarrow> int \<Rightarrow> int \<Rightarrow> int \<Rightarrow> audio_in \<Rightarrow> errno option \<times> audio_in" where
  "audio_in_open open_ok start_ok srate channels samples_per_frame g =
     (if ai_opened g then (None, g)
      else (let spb = (if samples_per_frame > 960 then 960 else samples_per_frame);
                g1 = ain_zero\<lparr>ai_spb := spb\<rparr>
            in if \<not> open_ok (wave_format srate channels) then (Some ENODEV, g1)
               else (let g2 = g1\<lparr>ai_hdrs := replicate 4 \<lparr>wh_len = nat (spb * 2), wh_recorded = 0,
                                    wh_prepared = True, wh_queued = True\<rparr>,
                                 ai_opened := True\<rparr>
                     in if \<not> start_ok then (Some ENODEV, audio_in_close g2) else (None, g2))))"

text \<open>The loop of \<open>audio_in_read\<close>: at most \<open>count\<close> samples while the ring is not empty.\<close>

fun audio_in_read :: "nat \<Rightarrow> audio_in \<Rightarrow> i16 list \<times> audio_in" where
  "audio_in_read 0 g = ([], g)"
| "audio_in_read (Suc count) g =
     (if ai_rd g \<noteq> ai_wr g
      then (let x = ai_ring g ! ai_rd g;
                (xs, g') = audio_in_read count (g\<lparr>ai_rd := (ai_rd g + 1) mod RING_SIZE\<rparr>)
            in (x # xs, g'))
      else ([], g))"

definition audio_in_available :: "audio_in \<Rightarrow> nat" where
  "audio_in_available g = (ai_wr g + RING_SIZE - ai_rd g) mod RING_SIZE"

definition audio_in_is_open :: "audio_in \<Rightarrow> bool" where
  "audio_in_is_open g = ai_opened g"

section \<open>Invariant and abstraction\<close>

definition ain_wf :: "audio_in \<Rightarrow> bool" where
  "ain_wf g \<longleftrightarrow> length (ai_ring g) = RING_SIZE \<and> ai_wr g < RING_SIZE \<and> ai_rd g < RING_SIZE"

definition ain_samples :: "audio_in \<Rightarrow> i16 list" where
  "ain_samples g =
     map (\<lambda>k. ai_ring g ! ((ai_rd g + k) mod RING_SIZE)) [0..<audio_in_available g]"

lemma ain_zero_wf [keeps, simp]: "ain_wf ain_zero"
  by (simp add: ain_wf_def ain_zero_def)

lemma ain_zero_samples [simp]: "ain_samples ain_zero = []"
  by (simp add: ain_samples_def audio_in_available_def ain_zero_def)

lemma length_ain_samples [simp]: "length (ain_samples g) = audio_in_available g"
  by (simp add: ain_samples_def)

lemma ring_mod: "a < RING_SIZE \<Longrightarrow> k \<le> RING_SIZE \<Longrightarrow>
    (a + k) mod RING_SIZE = (if a + k < RING_SIZE then a + k else a + k - RING_SIZE)"
  by (simp add: mod_if)

lemma ring_available:
  assumes "ain_wf g"
  shows "audio_in_available g =
     (if ai_rd g \<le> ai_wr g then ai_wr g - ai_rd g else ai_wr g + RING_SIZE - ai_rd g)"
  using assms by (auto simp: audio_in_available_def ain_wf_def mod_if)

lemma available_less: "audio_in_available g < RING_SIZE"
  by (simp add: audio_in_available_def)

lemma wr_position: "ain_wf g \<Longrightarrow> (ai_rd g + audio_in_available g) mod RING_SIZE = ai_wr g"
  by (auto simp: ring_available ain_wf_def mod_if)

lemma ring_positions_distinct:
  "a < RING_SIZE \<Longrightarrow> i < RING_SIZE \<Longrightarrow> j < RING_SIZE \<Longrightarrow>
   (a + i) mod RING_SIZE = (a + j) mod RING_SIZE \<longleftrightarrow> i = j"
  by (simp add: ring_mod split: if_splits) linarith

lemma ring_full_iff:
  "ain_wf g \<Longrightarrow> (ai_wr g + 1) mod RING_SIZE = ai_rd g \<longleftrightarrow> audio_in_available g = RING_SIZE - 1"
  by (auto simp: ring_available ain_wf_def mod_if split: if_splits)

lemma enqueue_one_wf [keeps]: "ain_wf g \<Longrightarrow> ain_wf (enqueue_one now x g)"
  by (simp add: enqueue_one_def ain_wf_def Let_def)

lemma enqueue_to_ring_wf [keeps]: "ain_wf g \<Longrightarrow> ain_wf (enqueue_to_ring now xs g)"
  by (induction now xs g rule: enqueue_to_ring.induct) (simp_all add: enqueue_one_wf)

lemma audio_in_read_wf [keeps]: "ain_wf g \<Longrightarrow> ain_wf (snd (audio_in_read n g))"
  by (induction n g rule: audio_in_read.induct) (auto simp: ain_wf_def Let_def split: prod.splits)

lemma audio_in_close_wf [keeps]: "ain_wf g \<Longrightarrow> ain_wf (audio_in_close g)"
  by (simp add: audio_in_close_def)

lemma audio_in_open_wf [keeps]: "ain_wf g \<Longrightarrow> ain_wf (snd (audio_in_open oo so r c s g))"
  by (simp add: audio_in_open_def Let_def audio_in_close_def ain_wf_def ain_zero_def)

lemma wave_in_proc_wf [keeps]: "ain_wf g \<Longrightarrow> ain_wf (wave_in_proc b now k xs g)"
  using enqueue_to_ring_wf [of g now xs] by (auto simp: wave_in_proc_def Let_def ain_wf_def)

section \<open>The ring is a bounded queue\<close>

lemma enqueue_one_room:
  assumes wf: "ain_wf g" and room: "audio_in_available g < RING_SIZE - 1"
  shows "ain_samples (enqueue_one now x g) = ain_samples g @ [mic_gain x]"
proof -
  let ?n = "audio_in_available g"
  let ?g = "g\<lparr>ai_ring := (ai_ring g)[ai_wr g := mic_gain x], ai_wr := (ai_wr g + 1) mod RING_SIZE\<rparr>"
  have e: "enqueue_one now x g = ?g"
    using room ring_full_iff [OF wf] by (simp add: enqueue_one_def Let_def)
  have wf': "ain_wf ?g" using wf by (simp add: ain_wf_def)
  have av: "audio_in_available ?g = Suc ?n"
    using wf room ring_available [OF wf] ring_available [OF wf']
    by (auto simp: ain_wf_def mod_if split: if_splits)
  have new: "(ai_rd g + ?n) mod RING_SIZE = ai_wr g" using wf by (rule wr_position)
  have old: "ai_wr g \<noteq> (ai_rd g + k) mod RING_SIZE" if "k < ?n" for k
    using ring_positions_distinct [of "ai_rd g" k ?n] that wf available_less [of g] new
    by (auto simp: ain_wf_def)
  show ?thesis
    unfolding e ain_samples_def av using wf by (simp add: new old ain_wf_def cong: map_cong)
qed

lemma enqueue_one_full:
  assumes wf: "ain_wf g" and full: "audio_in_available g = RING_SIZE - 1"
  shows "ain_samples (enqueue_one now x g) = tl (ain_samples g) @ [mic_gain x]"
proof -
  let ?r = "(ai_rd g + 1) mod RING_SIZE"
  let ?g = "enqueue_one now x g"
  have f: "(ai_wr g + 1) mod RING_SIZE = ai_rd g" using full ring_full_iff [OF wf] by simp
  have g: "ai_rd ?g = ?r" "ai_wr ?g = ai_rd g" "ai_ring ?g = (ai_ring g)[ai_wr g := mic_gain x]"
    using f by (simp_all add: enqueue_one_def Let_def)
  have av: "audio_in_available ?g = RING_SIZE - 1"
    using wf ring_available [OF enqueue_one_wf [OF wf]] by (auto simp: g ain_wf_def mod_if)
  have samples: "ain_samples ?g =
     map (\<lambda>k. (ai_ring g)[ai_wr g := mic_gain x] ! ((?r + k) mod RING_SIZE)) [0..<RING_SIZE - 1]"
    unfolding ain_samples_def av g ..
  have step: "(?r + k) mod RING_SIZE = (ai_rd g + Suc k) mod RING_SIZE" for k
    by (simp add: mod_add_left_eq)
  have other: "ai_wr g \<noteq> (ai_rd g + Suc k) mod RING_SIZE" if "k < 7998" for k
    using wr_position [OF wf] ring_positions_distinct [of "ai_rd g" "Suc k" "RING_SIZE - 1"] that wf full
    by (auto simp: ain_wf_def)
  have wr: "(ai_rd g + 7999) mod RING_SIZE = ai_wr g" using wr_position [OF wf] full by simp
  have "[0..<RING_SIZE - 1] = [0..<7998] @ [7998]"
    using upt_Suc_append [of 0 7998] by (simp del: upt_rec_numeral)
  then have "ain_samples (enqueue_one now x g) =
     map (\<lambda>k. ai_ring g ! ((ai_rd g + Suc k) mod RING_SIZE)) [0..<7998] @ [mic_gain x]"
    using wf wr other unfolding samples step by (simp add: ain_wf_def add.commute del: upt_rec_numeral cong: map_cong)
  moreover have "tl (ain_samples g) = map (\<lambda>k. ai_ring g ! ((ai_rd g + k) mod RING_SIZE)) (tl [0..<7999])"
    unfolding ain_samples_def full by (simp add: map_tl del: upt_rec_numeral tl_upt)
  moreover have "tl [0..<7999] = map Suc [0..<7998]"
    using map_Suc_upt [of 0 7998] tl_upt [of 0 7999] by (simp del: upt_rec_numeral)
  ultimately show ?thesis by (simp add: o_def del: upt_rec_numeral)
qed

text \<open>Keeping the newest \<open>n\<close> elements.\<close>

definition keep_last :: "nat \<Rightarrow> 'a list \<Rightarrow> 'a list" where
  "keep_last n xs = drop (length xs - n) xs"

lemma keep_last_short [simp]: "length xs \<le> n \<Longrightarrow> keep_last n xs = xs"
  by (simp add: keep_last_def)

lemma keep_last_append: "keep_last n (keep_last n xs @ ys) = keep_last n (xs @ ys)"
  by (cases "length xs \<le> n") (auto simp: keep_last_def add.commute)

lemma enqueue_one_samples:
  assumes "ain_wf g"
  shows "ain_samples (enqueue_one now x g) = keep_last (RING_SIZE - 1) (ain_samples g @ [mic_gain x])"
proof (cases "audio_in_available g = RING_SIZE - 1")
  case True
  then have "ain_samples g \<noteq> []" using length_ain_samples [of g] by fastforce
  with assms True show ?thesis
    by (simp add: enqueue_one_full keep_last_def drop_Suc)
next
  case False
  with available_less [of g] assms show ?thesis
    by (simp add: enqueue_one_room)
qed

lemma enqueue_to_ring_samples:
  "ain_wf g \<Longrightarrow>
   ain_samples (enqueue_to_ring now xs g) = keep_last (RING_SIZE - 1) (ain_samples g @ map mic_gain xs)"
proof (induction now xs g rule: enqueue_to_ring.induct)
  case (1 now g)
  then show ?case using available_less [of g] by simp
next
  case (2 now x xs g)
  then show ?case by (simp add: enqueue_one_wf enqueue_one_samples keep_last_append)
qed

lemma audio_in_read_one:
  assumes "ain_wf g" and "ai_rd g \<noteq> ai_wr g"
  shows "ain_samples g = ai_ring g ! ai_rd g # ain_samples (g\<lparr>ai_rd := (ai_rd g + 1) mod RING_SIZE\<rparr>)"
proof -
  let ?g = "g\<lparr>ai_rd := (ai_rd g + 1) mod RING_SIZE\<rparr>"
  have av: "audio_in_available g = Suc (audio_in_available ?g)"
    using assms by (auto simp: audio_in_available_def ain_wf_def mod_if split: if_splits)
  have "[0..<Suc n] = 0 # map Suc [0..<n]" for n
    by (simp add: upt_conv_Cons map_Suc_upt del: upt_Suc)
  then show ?thesis
    using assms by (simp add: ain_samples_def av o_def mod_add_left_eq ain_wf_def del: upt_Suc)
qed

lemma audio_in_read_samples:
  "ain_wf g \<Longrightarrow>
   fst (audio_in_read n g) = take n (ain_samples g)
   \<and> ain_samples (snd (audio_in_read n g)) = drop n (ain_samples g)"
proof (induction n g rule: audio_in_read.induct)
  case (2 n g)
  show ?case
  proof (cases "ai_rd g = ai_wr g")
    case True
    then have "ain_samples g = []" using 2 by (simp add: ain_samples_def ring_available)
    with True show ?thesis by simp
  next
    case False
    have "ain_wf (g\<lparr>ai_rd := (ai_rd g + 1) mod RING_SIZE\<rparr>)" using 2 by (simp add: ain_wf_def)
    with 2 False show ?thesis
      by (cases "audio_in_read n (g\<lparr>ai_rd := (ai_rd g + 1) mod RING_SIZE\<rparr>)")
        (simp add: audio_in_read_one)
  qed
qed simp

section \<open>What the readers rely on\<close>

text \<open>
  The contract of a source of samples: reading \<open>n\<close> samples returns the \<open>n\<close> oldest ones in order (all
  of them when there are fewer) and leaves the rest, and the announced amount is the amount that can
  be read.
\<close>

locale sample_source =
  fixes read :: "nat \<Rightarrow> 's \<Rightarrow> 'a list \<times> 's"
    and available :: "'s \<Rightarrow> nat"
    and contents :: "'s \<Rightarrow> 'a list"
    and invar :: "'s \<Rightarrow> bool"
  assumes read_result: "invar s \<Longrightarrow> fst (read n s) = take n (contents s)"
    and read_rest: "invar s \<Longrightarrow> contents (snd (read n s)) = drop n (contents s)"
    and read_invar: "invar s \<Longrightarrow> invar (snd (read n s))"
    and available_contents: "invar s \<Longrightarrow> available s = length (contents s)"
begin

lemma read_available:
  "invar s \<Longrightarrow> n \<le> available s \<Longrightarrow>
   length (fst (read n s)) = n \<and> available (snd (read n s)) = available s - n"
  by (simp add: read_result read_rest read_invar available_contents)

lemma reads_concat:
  "invar s \<Longrightarrow>
   fst (read m s) @ fst (read n (snd (read m s))) = take (m + n) (contents s)"
  by (simp add: read_result read_rest read_invar take_add)

lemma read_no_sample_lost: "invar s \<Longrightarrow> fst (read n s) @ contents (snd (read n s)) = contents s"
  by (simp add: read_result read_rest)

end

interpretation mic: sample_source audio_in_read audio_in_available ain_samples ain_wf
  by unfold_locales (simp_all add: audio_in_read_samples audio_in_read_wf)

lemma mic_gain_range: "sint (mic_gain x) = max (-32768) (min 32767 (sint x * 10))"
proof -
  have "sint (word_of_int k :: i16) = k" if "-32768 \<le> k" "k \<le> 32767" for k
    using that by (simp add: signed_take_bit_int_eq_self sint_sbintrunc')
  then show ?thesis by (simp add: mic_gain_def Let_def max_def min_def)
qed

text \<open>C17: \<open>enqueue_to_ring\<close> treats the ring as a queue that keeps the newest 7999 samples: after a
  callback delivered \<open>xs\<close>, the readable samples are the old ones followed by the amplified new ones,
  with exactly the oldest surplus dropped; nothing is reordered, duplicated or left in between, and
  the ring stays well formed.\<close>

theorem ring_keeps_newest:
  assumes "ain_wf g"
  shows "ain_samples (enqueue_to_ring now xs g)
           = keep_last (RING_SIZE - 1) (ain_samples g @ map mic_gain xs)
         \<and> ain_wf (enqueue_to_ring now xs g)"
  using assms by (simp only: enqueue_to_ring_samples enqueue_to_ring_wf simp_thms)

theorem ring_keeps_newest_witness:
  "ain_samples (enqueue_to_ring (\<lambda>_. 0) [1, 2] ain_zero)
     = keep_last (RING_SIZE - 1) (ain_samples ain_zero @ map mic_gain [1, 2])
   \<and> ain_wf (enqueue_to_ring (\<lambda>_. 0) [1, 2] ain_zero)"
  by (rule ring_keeps_newest [OF ain_zero_wf])

text \<open>\<open>audio_in_read\<close> returns the oldest samples in capture order, at most as many as asked for,
  and removes exactly those; \<open>audio_in_available\<close> announces the number that can still be read.\<close>

lemma ring_read_in_order:
  assumes "ain_wf g"
  shows "fst (audio_in_read n g) @ ain_samples (snd (audio_in_read n g)) = ain_samples g
         \<and> length (fst (audio_in_read n g)) = min n (audio_in_available g)
         \<and> audio_in_available (snd (audio_in_read n g)) = audio_in_available g - n"
  using mic.read_no_sample_lost [OF assms] audio_in_read_samples [OF assms, of n]
    mic.available_contents [OF mic.read_invar [OF assms], of n]
  by (simp add: min.commute)

lemma ring_read_in_order_witness:
  "fst (audio_in_read 160 ain_zero) @ ain_samples (snd (audio_in_read 160 ain_zero)) = ain_samples ain_zero
   \<and> length (fst (audio_in_read 160 ain_zero)) = min 160 (audio_in_available ain_zero)
   \<and> audio_in_available (snd (audio_in_read 160 ain_zero)) = audio_in_available ain_zero - 160"
  by (rule ring_read_in_order [OF ain_zero_wf])

text \<open>Opening a closed device starts with an empty ring; a failed open leaves it closed.\<close>

lemma audio_in_open_result:
  "\<not> ai_opened g \<Longrightarrow>
   ai_opened (snd (audio_in_open oo so r c s g)) = (fst (audio_in_open oo so r c s g) = None)
   \<and> ain_samples (snd (audio_in_open oo so r c s g)) = []"
  by (simp add: audio_in_open_def Let_def audio_in_close_def ain_samples_def audio_in_available_def ain_zero_def)

lemma audio_in_close_closed [simp]: "ain_wf g \<Longrightarrow> \<not> ai_opened (audio_in_close g)"
  by (simp add: audio_in_close_def ain_zero_def)

end
