(* ===== verification/G711.thy ===== *)
theory G711
  imports Prelude
begin

text \<open>
  The G.711 \<open>\<mu>\<close>-law codec on both sides of the intercom: the encoder \<open>g711_pcm2ulaw\<close> of libre's
  \<open>rem_g711.h\<close> with its table \<open>g711_l2u\<close> (\<open>rem/g711/g711.c\<close>), used when sending microphone audio, and
  the decoder \<open>ulaw_to_pcm\<close> of \<open>audio_out_win.c\<close>, used when playing received audio. A PCM sample is
  a 16-bit word read as signed.

  The 4096 entries of \<open>g711_l2u\<close> are runs of equal bytes; the model keeps the table as its list of
  runs, length and value.
\<close>

section \<open>Encoder\<close>

text \<open>\<open>n\<close> values from \<open>hi\<close> downwards, each repeated \<open>reps\<close> times.\<close>

definition l2u_segment :: "int \<Rightarrow> nat \<Rightarrow> int \<Rightarrow> (int \<times> u8) list" where
  "l2u_segment hi n reps = map (\<lambda>i. (reps, word_of_int (hi - int i))) [0..<n]"

text \<open>The table by its magnitude ranges: the first 1007 entries, the next 1024, the rest.\<close>

definition l2u_runs_low :: "(int \<times> u8) list" where
  "l2u_runs_low =
     l2u_segment 0xFE 15 1 @ l2u_segment 0xEF 16 2 @ l2u_segment 0xDF 16 4 @ l2u_segment 0xCF 16 8
     @ l2u_segment 0xBF 16 16 @ l2u_segment 0xAF 16 32"

definition l2u_runs_mid :: "(int \<times> u8) list" where
  "l2u_runs_mid = l2u_segment 0x9F 16 64"

definition l2u_runs_high :: "(int \<times> u8) list" where
  "l2u_runs_high = l2u_segment 0x8F 15 128 @ l2u_segment 0x80 1 145"

definition g711_l2u_runs :: "(int \<times> u8) list" where
  "g711_l2u_runs = l2u_runs_low @ l2u_runs_mid @ l2u_runs_high"

fun run_nth :: "(int \<times> u8) list \<Rightarrow> int \<Rightarrow> u8" where
  "run_nth [] i = 0"
| "run_nth ((n, v) # rs) i = (if i < n then v else run_nth rs (i - n))"

definition g711_l2u :: "int \<Rightarrow> u8" where
  "g711_l2u i = run_nth g711_l2u_runs i"

definition g711_pcm2ulaw :: "i16 \<Rightarrow> u8" where
  "g711_pcm2ulaw lx =
     (let l = sint lx;
          mask = (if l < 0 then 0x7F else 0xFF) :: u8;
          l = \<bar>l\<bar>
      in if l < 4 then 0xFF AND mask
         else g711_l2u ((l - 4) div 8) AND mask)"

section \<open>Decoder\<close>

definition ulaw_to_pcm :: "u8 \<Rightarrow> i16" where
  "ulaw_to_pcm c =
     (let u = NOT c;
          sign = (if u AND 0x80 \<noteq> 0 then -1 else 1) :: int;
          exponent = unat (drop_bit 4 u AND 0x07);
          mantissa = uint (u AND 0x0F);
          magnitude = (mantissa * 8 + 0x84) * 2 ^ exponent - 0x84
      in word_of_int (sign * magnitude))"

section \<open>Lemmas\<close>

lemma run_total: "sum_list (map fst g711_l2u_runs) = 4096"
  by code_simp

lemma run_nth_segment:
  assumes "0 < reps" and "0 \<le> i"
  shows "run_nth (l2u_segment hi n reps @ rs) i =
           (if i < int n * reps then word_of_int (hi - i div reps)
            else run_nth rs (i - int n * reps))"
  using assms
proof (induction n arbitrary: rs)
  case (Suc n)
  have split: "l2u_segment hi (Suc n) reps @ rs
      = l2u_segment hi n reps @ (reps, word_of_int (hi - int n)) # rs"
    by (simp add: l2u_segment_def)
  have "i div reps = int n" if "\<not> i < int n * reps" "i - int n * reps < reps"
    by (rule int_div_pos_eq [of i reps "int n" "i - int n * reps"]) (use that in \<open>simp_all add: mult.commute\<close>)
  then show ?case
    using Suc by (auto simp: split algebra_simps)
qed (simp add: l2u_segment_def)

text \<open>The table in closed form: segment by segment.\<close>

definition l2u_closed :: "int \<Rightarrow> u8" where
  "l2u_closed i =
     (if i < 15 then word_of_int (0xFE - i)
      else if i < 47 then word_of_int (0xEF - (i - 15) div 2)
      else if i < 111 then word_of_int (0xDF - (i - 47) div 4)
      else if i < 239 then word_of_int (0xCF - (i - 111) div 8)
      else if i < 495 then word_of_int (0xBF - (i - 239) div 16)
      else if i < 1007 then word_of_int (0xAF - (i - 495) div 32)
      else if i < 2031 then word_of_int (0x9F - (i - 1007) div 64)
      else if i < 3951 then word_of_int (0x8F - (i - 2031) div 128)
      else 0x80)"

lemma g711_l2u_closed: "0 \<le> i \<Longrightarrow> i < 4096 \<Longrightarrow> g711_l2u i = l2u_closed i"
  unfolding g711_l2u_def g711_l2u_runs_def l2u_runs_low_def l2u_runs_mid_def l2u_runs_high_def append_assoc
  by (simp add: run_nth_segment l2u_closed_def) (simp add: l2u_segment_def)

lemma run_nth_in:
  "0 \<le> i \<Longrightarrow> i < sum_list (map fst rs) \<Longrightarrow> run_nth rs i \<in> snd ` set rs"
  by (induction rs i rule: run_nth.induct) (auto split: if_splits)

lemma pcm_index_bound:
  assumes "\<not> \<bar>sint (lx :: i16)\<bar> < 4"
  shows "0 \<le> (\<bar>sint lx\<bar> - 4) div 8" "(\<bar>sint lx\<bar> - 4) div 8 < 4096"
proof -
  have "- 32768 \<le> sint lx" "sint lx < 32768"
    using sint_greater_eq [of lx] sint_less [of lx] by simp_all
  then have "\<bar>sint lx\<bar> \<le> 32768" by linarith
  with assms show "0 \<le> (\<bar>sint lx\<bar> - 4) div 8" "(\<bar>sint lx\<bar> - 4) div 8 < 4096"
    by linarith+
qed

definition pcm2ulaw_closed :: "i16 \<Rightarrow> u8" where
  "pcm2ulaw_closed lx =
     (let l = sint lx; mask = (if l < 0 then 0x7F else 0xFF) :: u8
      in if \<bar>l\<bar> < 4 then 0xFF AND mask else l2u_closed ((\<bar>l\<bar> - 4) div 8) AND mask)"

lemma g711_pcm2ulaw_closed: "g711_pcm2ulaw lx = pcm2ulaw_closed lx"
  using pcm_index_bound [of lx] g711_l2u_closed
  by (simp add: g711_pcm2ulaw_def pcm2ulaw_closed_def Let_def)

section \<open>Properties\<close>

text \<open>the encoder's table access stays inside the 4096 entries for every 16-bit sample,
  the most negative one included, and the byte it returns carries the sample's sign in its top bit.
\<close>

lemma g711_encode_in_table:
  "(\<bar>sint (lx :: i16)\<bar> < 4 \<or>
      0 \<le> (\<bar>sint lx\<bar> - 4) div 8 \<and> (\<bar>sint lx\<bar> - 4) div 8 < sum_list (map fst g711_l2u_runs))
   \<and> (bit (g711_pcm2ulaw lx) 7 \<longleftrightarrow> 0 \<le> sint lx)"
proof -
  have "list_all (\<lambda>r. bit (snd r) 7) g711_l2u_runs" by code_simp
  then have top: "bit v 7" if "v \<in> snd ` set g711_l2u_runs" for v
    using that by (auto simp: list_all_iff)
  have m: "bit (v AND 0x7F) 7 = False" "bit (v AND 0xFF) 7 = bit v 7" for v :: u8
    by (simp_all add: bit_and_iff)
  have "bit (g711_l2u i) 7" if "0 \<le> i" "i < 4096" for i
    using run_nth_in [of i g711_l2u_runs] that by (simp add: g711_l2u_def run_total top)
  then have "bit (g711_pcm2ulaw lx) 7 \<longleftrightarrow> 0 \<le> sint lx"
    using pcm_index_bound [of lx] by (auto simp: g711_pcm2ulaw_def Let_def m)
  then show ?thesis
    using pcm_index_bound [of lx] by (auto simp: run_total)
qed

text \<open>
  encoding a decoded byte gives the byte back, for each of the 256 codes; only the code of
  negative zero, 0x7F, comes back as the code of positive zero. Decoding followed by encoding is
  therefore lossless: relaying received audio does not degrade it.
\<close>

lemma ulaw_roundtrip:
  "g711_pcm2ulaw (ulaw_to_pcm u) = (if u = 0x7F then 0xFF else u)"
proof -
  have "list_all (\<lambda>u. pcm2ulaw_closed (ulaw_to_pcm u) = (if u = 0x7F then 0xFF else u))
          (map word_of_nat [0..<256] :: u8 list)"
    by (simp add: upt_rec ulaw_to_pcm_def pcm2ulaw_closed_def l2u_closed_def mask_eq_exp_minus_1)
  then show ?thesis unfolding g711_pcm2ulaw_closed by (rule all_bytes)
qed

end
