(* ===== verification/Audio_Out.thy ===== *)
theory Audio_Out
  imports Prelude G711 Audio_In
begin

text \<open>
  Loudspeaker output (\<open>audio_out_win.c\<close>): four wave headers with buffers of 960 samples used in turn.
  \<open>audio_out_play\<close> decodes a \<open>\<mu>\<close>-law payload into the next buffer and hands it to the driver; it drops
  the payload when the driver still plays that buffer.

  The record \<open>audio_out\<close> is \<open>g_aout\<close>. The answers of \<open>waveOutOpen\<close> and \<open>waveOutWrite\<close> are arguments;
  a successful write makes the driver own the header (\<open>WHDR_DONE\<close> cleared) until it reports the end of
  the playback, \<open>wave_out_done\<close>.
\<close>

abbreviation OUT_BUFFERS :: nat where "OUT_BUFFERS \<equiv> 4"
abbreviation OUT_MAX_SAMPLES :: nat where "OUT_MAX_SAMPLES \<equiv> 960"

record wave_out_hdr =
  wo_len :: nat
  wo_done :: bool

record audio_out =
  ao_hdrs :: "wave_out_hdr list"
  ao_bufs :: "i16 list list"
  ao_next :: nat
  ao_srate :: int
  ao_channels :: int
  ao_opened :: bool

definition aout_zero :: audio_out where
  "aout_zero =
     \<lparr>ao_hdrs = replicate OUT_BUFFERS \<lparr>wo_len = 0, wo_done = False\<rparr>,
      ao_bufs = replicate OUT_BUFFERS (replicate OUT_MAX_SAMPLES 0),
      ao_next = 0, ao_srate = 0, ao_channels = 0, ao_opened = False\<rparr>"

definition audio_out_open :: "(wavefmt \<Rightarrow> bool) \<Rightarrow> int \<Rightarrow> int \<Rightarrow> int \<Rightarrow> audio_out \<Rightarrow> errno option \<times> audio_out"
  where
  "audio_out_open open_ok srate channels samples_per_frame g =
     (if ao_opened g then (None, g)
      else if \<not> open_ok (wave_format srate channels) then (Some ENODEV, aout_zero)
      else (None, aout_zero\<lparr>ao_hdrs := replicate OUT_BUFFERS \<lparr>wo_len = OUT_MAX_SAMPLES * 2, wo_done = True\<rparr>,
                            ao_srate := srate, ao_channels := channels, ao_opened := True\<rparr>))"

definition audio_out_close :: "audio_out \<Rightarrow> audio_out" where
  "audio_out_close g = (if \<not> ao_opened g then g else aout_zero)"

text \<open>The driver finished playing header \<open>k\<close>; the callback \<open>wave_out_proc\<close> itself does nothing.\<close>

definition wave_out_done :: "nat \<Rightarrow> audio_out \<Rightarrow> audio_out" where
  "wave_out_done k g =
     (if k < length (ao_hdrs g) then g\<lparr>ao_hdrs := (ao_hdrs g)[k := (ao_hdrs g ! k)\<lparr>wo_done := True\<rparr>]\<rparr> else g)"

definition wave_out_proc :: "bool \<Rightarrow> audio_out \<Rightarrow> audio_out" where
  "wave_out_proc wom_done g = g"

text \<open>The loop \<open>dst[i] = ulaw_to_pcm(pcmu[i])\<close> for \<open>i < len\<close> from index \<open>i\<close> on.\<close>

fun decode_into :: "nat \<Rightarrow> bytes \<Rightarrow> i16 list \<Rightarrow> i16 list" where
  "decode_into i [] dst = dst"
| "decode_into i (u # us) dst = decode_into (Suc i) us (dst[i := ulaw_to_pcm u])"

text \<open>The first component is what \<open>waveOutWrite\<close> is given: the first \<open>dwBufferLength\<close> bytes of the buffer.\<close>

definition audio_out_play :: "bool \<Rightarrow> bytes \<Rightarrow> audio_out \<Rightarrow> i16 list option \<times> audio_out" where
  "audio_out_play write_ok pcmu g =
     (if \<not> ao_opened g \<or> length pcmu = 0 then (None, g)
      else (let len = (if length pcmu > OUT_MAX_SAMPLES then OUT_MAX_SAMPLES else length pcmu);
                k = ao_next g
            in if \<not> wo_done (ao_hdrs g ! k) then (None, g)
               else (let dst = decode_into 0 (take len pcmu) (ao_bufs g ! k)
                     in (Some (take len dst),
                         g\<lparr>ao_bufs := (ao_bufs g)[k := dst],
                           ao_hdrs := (ao_hdrs g)[k := \<lparr>wo_len = len * 2, wo_done = \<not> write_ok\<rparr>],
                           ao_next := (ao_next g + 1) mod OUT_BUFFERS\<rparr>))))"

section \<open>Invariant\<close>

definition aout_wf :: "audio_out \<Rightarrow> bool" where
  "aout_wf g \<longleftrightarrow>
     length (ao_hdrs g) = OUT_BUFFERS \<and> length (ao_bufs g) = OUT_BUFFERS \<and> ao_next g < OUT_BUFFERS
     \<and> (\<forall>b \<in> set (ao_bufs g). length b = OUT_MAX_SAMPLES)
     \<and> (\<forall>h \<in> set (ao_hdrs g). wo_len h \<le> OUT_MAX_SAMPLES * 2)"

lemma decode_into_length [simp]: "length (decode_into i us dst) = length dst"
  by (induction i us dst rule: decode_into.induct) auto

lemma decode_into_eq:
  "i + length us \<le> length dst \<Longrightarrow>
   decode_into i us dst = take i dst @ map ulaw_to_pcm us @ drop (i + length us) dst"
proof (induction i us dst rule: decode_into.induct)
  case (2 i u us dst)
  then have "decode_into (Suc i) us (dst[i := ulaw_to_pcm u])
      = take (Suc i) (dst[i := ulaw_to_pcm u]) @ map ulaw_to_pcm us
        @ drop (Suc i + length us) (dst[i := ulaw_to_pcm u])" by simp
  with 2(2) show ?case by (simp add: take_Suc_conv_app_nth)
qed simp

lemma aout_zero_wf [keeps]: "aout_wf aout_zero"
  by (simp add: aout_wf_def aout_zero_def)

lemma audio_out_open_wf [keeps]: "aout_wf g \<Longrightarrow> aout_wf (snd (audio_out_open ok r c s g))"
  by (simp add: audio_out_open_def aout_wf_def aout_zero_def)

lemma audio_out_close_wf [keeps]: "aout_wf g \<Longrightarrow> aout_wf (audio_out_close g)"
  by (simp add: audio_out_close_def aout_zero_wf)

lemma wave_out_done_wf [keeps]: "aout_wf g \<Longrightarrow> aout_wf (wave_out_done k g)"
  by (auto simp: wave_out_done_def aout_wf_def dest!: subsetD [OF set_update_subset_insert])

lemma audio_out_play_wf [keeps]: "aout_wf g \<Longrightarrow> aout_wf (snd (audio_out_play ok us g))"
  by (auto simp: audio_out_play_def aout_wf_def Let_def dest!: subsetD [OF set_update_subset_insert])

lemma audio_out_close_closed [simp]: "\<not> ao_opened (audio_out_close g)"
  by (simp add: audio_out_close_def aout_zero_def)

lemma audio_out_play_opened [simp]: "ao_opened (snd (audio_out_play ok us g)) = ao_opened g"
  by (simp add: audio_out_play_def Let_def)

lemma audio_out_open_opened:
  "ao_opened (snd (audio_out_open ok r c s g)) = (fst (audio_out_open ok r c s g) = None)"
  by (simp add: audio_out_open_def aout_zero_def)

section \<open>Properties\<close>

text \<open>Playing a payload on an open device with a free next buffer hands the driver exactly the decoded
  first 960 bytes of the payload, leaves the three other buffers and headers alone and moves on to
  the next buffer in turn; a closed device, an empty payload or a busy buffer leave the whole state
  unchanged, so a buffer the driver still plays is never overwritten.\<close>

lemma audio_out_play_spec:
  assumes "aout_wf g"
  shows "(if ao_opened g \<and> us \<noteq> [] \<and> wo_done (ao_hdrs g ! ao_next g)
          then fst (audio_out_play ok us g) = Some (map ulaw_to_pcm (take OUT_MAX_SAMPLES us))
               \<and> ao_next (snd (audio_out_play ok us g)) = (ao_next g + 1) mod OUT_BUFFERS
               \<and> (\<forall>k. k \<noteq> ao_next g \<longrightarrow>
                    ao_bufs (snd (audio_out_play ok us g)) ! k = ao_bufs g ! k
                    \<and> ao_hdrs (snd (audio_out_play ok us g)) ! k = ao_hdrs g ! k)
          else audio_out_play ok us g = (None, g))"
proof -
  let ?len = "if length us > OUT_MAX_SAMPLES then OUT_MAX_SAMPLES else length us"
  have len: "take ?len us = take OUT_MAX_SAMPLES us" "length (take ?len us) = ?len" by auto
  have "length (ao_bufs g ! ao_next g) = OUT_MAX_SAMPLES"
    using assms by (auto simp: aout_wf_def)
  then have "take ?len (decode_into 0 (take ?len us) (ao_bufs g ! ao_next g)) = map ulaw_to_pcm (take ?len us)"
    by (subst decode_into_eq) auto
  with len show ?thesis by (auto simp: audio_out_play_def Let_def)
qed

lemma audio_out_play_spec_witness:
  "fst (audio_out_play True [0xFF, 0x00] (snd (audio_out_open (\<lambda>_. True) 8000 1 160 aout_zero)))
     = Some [0, -32124]"
proof -
  let ?g = "snd (audio_out_open (\<lambda>_. True) 8000 1 160 aout_zero)"
  have "aout_wf ?g" by (intro audio_out_open_wf aout_zero_wf)
  from audio_out_play_spec [OF this, of "[0xFF, 0x00]" True] show ?thesis
    by (simp add: audio_out_open_def aout_zero_def ulaw_to_pcm_def mask_eq_exp_minus_1)
qed

end
