(* ===== verification/Camera.thy ===== *)
theory Camera
  imports Prelude
begin

text \<open>
  The camera (\<open>camera_win.c\<close>): a YUV test pattern encoded by OpenH264, handed out as NAL units without
  start codes, with the first SPS and PPS kept for the session description.

  The record \<open>camera\<close> is \<open>g_cam\<close>. The encoder is not part of the sources: \<open>camera_get_frame\<close> takes its
  answer for the frame as the function \<open>encode\<close> of the forced-intra flag and the picture (\<open>None\<close> is an
  error return), and \<open>camera_open\<close> the outcomes of creating and initialising it. A write outside the
  picture buffer makes \<open>generate_test_pattern\<close> return \<open>None\<close>.
\<close>

abbreviation MAX_NALUS :: nat where "MAX_NALUS \<equiv> 32"
abbreviation PARAM_MAX :: nat where "PARAM_MAX \<equiv> 64"

datatype frame_type = VideoFrameInvalid | VideoFrameIDR | VideoFrameI | VideoFrameP | VideoFrameSkip | VideoFrameIPMixed

record layer_info =
  li_buf :: bytes
  li_nal_lens :: "int list"

record bs_info =
  bs_type :: frame_type
  bs_layers :: "layer_info list"

record camera_frame =
  cf_nalus :: "bytes list"
  cf_keyframe :: bool

record enc_param =
  ep_width :: nat
  ep_height :: nat
  ep_bitrate :: nat
  ep_fps :: nat

record camera =
  cam_enc :: bool
  cam_width :: nat
  cam_height :: nat
  cam_fps :: nat
  cam_yuv :: bytes
  cam_nalus :: "bytes list"
  cam_sps :: bytes
  cam_pps :: bytes
  cam_has_params :: bool
  cam_frame_idx :: u32
  cam_force_idr :: bool
  cam_opened :: bool

definition cam_zero :: camera where
  "cam_zero =
     \<lparr>cam_enc = False, cam_width = 0, cam_height = 0, cam_fps = 0, cam_yuv = [], cam_nalus = [],
      cam_sps = [], cam_pps = [], cam_has_params = False, cam_frame_idx = 0, cam_force_idr = False,
      cam_opened = False\<rparr>"

section \<open>Test pattern\<close>

fun poke_all :: "(nat \<times> u8) list \<Rightarrow> bytes \<Rightarrow> bytes option" where
  "poke_all [] buf = Some buf"
| "poke_all ((i, v) # ws) buf = (if i < length buf then poke_all ws (buf[i := v]) else None)"

definition bars_y :: bytes where "bars_y = [235, 162, 131, 112, 84, 65, 35, 16]"
definition bars_u :: bytes where "bars_u = [128, 44, 156, 72, 184, 100, 212, 128]"
definition bars_v :: bytes where "bars_v = [128, 142, 44, 158, 98, 214, 72, 128]"

text \<open>The double loop over \<open>hh\<close> lines of \<open>ww\<close> pixels that fills a plane at offset \<open>base\<close> with bars.\<close>

definition plane_writes :: "nat \<Rightarrow> nat \<Rightarrow> nat \<Rightarrow> bytes \<Rightarrow> (nat \<times> u8) list" where
  "plane_writes base ww hh bars =
     concat (map (\<lambda>y. map (\<lambda>x. (base + (y * ww + x), bars ! (x * 8 div ww))) [0..<ww]) [0..<hh])"

text \<open>\<open>memset(y_plane + line_y * w, 235, w)\<close>; a height of 0 is a division by zero.\<close>

definition line_writes :: "nat \<Rightarrow> nat \<Rightarrow> (nat \<times> u8) list" where
  "line_writes line_y w = map (\<lambda>x. (line_y * w + x, 235)) [0..<w]"

definition generate_test_pattern :: "nat \<Rightarrow> nat \<Rightarrow> u32 \<Rightarrow> bytes \<Rightarrow> bytes option" where
  "generate_test_pattern w h frame_idx yuv =
     (if h = 0 then None
      else (let hw = w div 2; hh = h div 2; line_y = unat (frame_idx * 4) mod h
            in poke_all (plane_writes 0 w h bars_y
                         @ plane_writes (w * h) hw hh bars_u
                         @ plane_writes (w * h + w * h div 4) hw hh bars_v
                         @ line_writes line_y w) yuv))"

section \<open>Opening and closing\<close>

text \<open>
  \<open>create_ok\<close>, \<open>init_ok\<close>: the encoder was created and initialised; \<open>alloc_ok\<close> and \<open>junk\<close>: \<open>malloc\<close>
  succeeded and what the fresh memory holds.
\<close>

definition camera_open ::
  "bool \<Rightarrow> (enc_param \<Rightarrow> bool) \<Rightarrow> bool \<Rightarrow> (nat \<Rightarrow> u8)
   \<Rightarrow> nat \<Rightarrow> nat \<Rightarrow> nat \<Rightarrow> nat \<Rightarrow> camera \<Rightarrow> errno option \<times> camera" where
  "camera_open create_ok init_ok alloc_ok junk width height fps bitrate_kbps g =
     (if cam_opened g then (Some EALREADY, g)
      else if \<not> create_ok then (Some EINVAL, cam_zero)
      else if \<not> init_ok \<lparr>ep_width = width, ep_height = height, ep_bitrate = bitrate_kbps * 1000, ep_fps = fps\<rparr>
      then (Some EINVAL, cam_zero)
      else if \<not> alloc_ok then (Some ENOMEM, cam_zero)
      else (None, cam_zero\<lparr>cam_enc := True, cam_width := width, cam_height := height, cam_fps := fps,
                           cam_yuv := map junk [0..<width * height * 3 div 2], cam_opened := True\<rparr>))"

definition camera_close :: "camera \<Rightarrow> camera" where
  "camera_close g = (if \<not> cam_opened g then g else cam_zero)"

definition camera_request_keyframe :: "camera \<Rightarrow> camera" where
  "camera_request_keyframe g = g\<lparr>cam_force_idr := True\<rparr>"

definition camera_get_sps_pps :: "camera \<Rightarrow> errno + bytes \<times> bytes" where
  "camera_get_sps_pps g = (if \<not> cam_has_params g then Inl EAGAIN else Inr (cam_sps g, cam_pps g))"

section \<open>Frames\<close>

definition start_code_len :: "bytes \<Rightarrow> nat" where
  "start_code_len p =
     (if length p \<ge> 4 \<and> take 4 p = [0, 0, 0, 1] then 4
      else if length p \<ge> 3 \<and> take 3 p = [0, 0, 1] then 3 else 0)"

text \<open>The caching of SPS (type 7) and PPS (type 8) for the unit \<open>nalu\<close>, start code removed.\<close>

definition cache_params :: "bytes \<Rightarrow> camera \<Rightarrow> camera" where
  "cache_params nalu g =
     (if \<not> cam_has_params g \<and> length nalu > 0
      then (let nal_type = nalu ! 0 AND 0x1F;
                g1 = (if nal_type = 7 \<and> length nalu \<le> PARAM_MAX then g\<lparr>cam_sps := nalu\<rparr>
                      else if nal_type = 8 \<and> length nalu \<le> PARAM_MAX then g\<lparr>cam_pps := nalu\<rparr> else g)
            in if length (cam_sps g1) > 0 \<and> length (cam_pps g1) > 0 then g1\<lparr>cam_has_params := True\<rparr> else g1)
      else g)"

definition strip_start_code :: "bytes \<Rightarrow> bytes" where
  "strip_start_code p = drop (start_code_len p) p"

text \<open>The loop over the NAL units of one layer; \<open>nalu_idx\<close> is the length of \<open>cam_nalus\<close>.\<close>

fun extract_layer :: "int list \<Rightarrow> bytes \<Rightarrow> camera \<Rightarrow> camera" where
  "extract_layer [] buf g = g"
| "extract_layer (nal_len # ns) buf g =
     (if nal_len \<le> 0 \<or> length (cam_nalus g) \<ge> MAX_NALUS then extract_layer ns buf g
      else (let nalu = strip_start_code (take (nat nal_len) buf)
            in extract_layer ns (drop (nat nal_len) buf)
                 (cache_params nalu (g\<lparr>cam_nalus := cam_nalus g @ [nalu]\<rparr>))))"

fun extract_layers :: "layer_info list \<Rightarrow> camera \<Rightarrow> camera" where
  "extract_layers [] g = g"
| "extract_layers (l # ls) g = extract_layers ls (extract_layer (li_nal_lens l) (li_buf l) g)"

definition camera_get_frame ::
  "(bool \<Rightarrow> bytes \<Rightarrow> bs_info option) \<Rightarrow> camera \<Rightarrow> (errno + camera_frame) \<times> camera" where
  "camera_get_frame encode g =
     (if \<not> cam_opened g then (Inl EINVAL, g)
      else (let force = cam_force_idr g;
                g1 = g\<lparr>cam_force_idr := False, cam_nalus := []\<rparr>
            in case generate_test_pattern (cam_width g) (cam_height g) (cam_frame_idx g) (cam_yuv g) of
                 None \<Rightarrow> (Inl EINVAL, g1)
               | Some yuv \<Rightarrow>
                   (let g2 = g1\<lparr>cam_yuv := yuv\<rparr>
                    in case encode force yuv of
                         None \<Rightarrow> (Inl EIO, g2)
                       | Some bs \<Rightarrow>
                           if bs_type bs = VideoFrameSkip then (Inl EAGAIN, g2)
                           else (let g3 = extract_layers (bs_layers bs) g2
                                 in if cam_nalus g3 = [] then (Inl EAGAIN, g3)
                                    else (Inr \<lparr>cf_nalus = cam_nalus g3, cf_keyframe = (bs_type bs = VideoFrameIDR)\<rparr>,
                                          g3\<lparr>cam_frame_idx := cam_frame_idx g3 + 1\<rparr>)))))"

section \<open>Invariant\<close>

definition cam_wf :: "camera \<Rightarrow> bool" where
  "cam_wf g \<longleftrightarrow>
     length (cam_sps g) \<le> PARAM_MAX \<and> length (cam_pps g) \<le> PARAM_MAX \<and> length (cam_nalus g) \<le> MAX_NALUS
     \<and> (cam_sps g \<noteq> [] \<longrightarrow> cam_sps g ! 0 AND 0x1F = 7) \<and> (cam_pps g \<noteq> [] \<longrightarrow> cam_pps g ! 0 AND 0x1F = 8)
     \<and> cam_has_params g = (cam_sps g \<noteq> [] \<and> cam_pps g \<noteq> [])
     \<and> (cam_opened g \<longrightarrow> cam_enc g \<and> length (cam_yuv g) = cam_width g * cam_height g * 3 div 2)"

lemma cam_zero_wf [keeps]: "cam_wf cam_zero"
  by (simp add: cam_wf_def cam_zero_def)

lemma camera_open_wf [keeps]: "cam_wf g \<Longrightarrow> cam_wf (snd (camera_open c i a j w h f b g))"
  by (simp add: camera_open_def cam_wf_def cam_zero_def)

lemma camera_close_wf [keeps]: "cam_wf g \<Longrightarrow> cam_wf (camera_close g)"
  by (simp add: camera_close_def cam_zero_wf)

lemma camera_request_keyframe_wf [keeps]: "cam_wf g \<Longrightarrow> cam_wf (camera_request_keyframe g)"
  by (simp add: camera_request_keyframe_def cam_wf_def)

lemma cache_params_wf:
  assumes "cam_wf g" shows "cam_wf (cache_params nalu g)"
proof (cases "cam_has_params g \<or> nalu = []")
  case False
  with assms show ?thesis by (auto simp: cache_params_def cam_wf_def Let_def)
qed (use assms in \<open>auto simp: cache_params_def\<close>)

lemma cache_params_nalus [simp]: "cam_nalus (cache_params nalu g) = cam_nalus g"
  by (simp add: cache_params_def Let_def)

lemma extract_layer_wf: "cam_wf g \<Longrightarrow> cam_wf (extract_layer ns buf g)"
proof (induction ns buf g rule: extract_layer.induct)
  case (2 n ns buf g)
  have "cam_wf (g\<lparr>cam_nalus := cam_nalus g @ [nalu]\<rparr>)" if "length (cam_nalus g) < MAX_NALUS" for nalu
    using 2(3) that by (simp add: cam_wf_def)
  with 2 show ?case by (simp add: cache_params_wf Let_def)
qed simp

lemma extract_layers_wf: "cam_wf g \<Longrightarrow> cam_wf (extract_layers ls g)"
  by (induction ls g rule: extract_layers.induct) (simp_all add: extract_layer_wf)

lemma poke_all_length: "poke_all ws buf = Some buf' \<Longrightarrow> length buf' = length buf"
  by (induction ws buf rule: poke_all.induct) (auto split: if_splits)

lemma generate_test_pattern_length:
  "generate_test_pattern w h n yuv = Some yuv' \<Longrightarrow> length yuv' = length yuv"
  by (auto simp: generate_test_pattern_def Let_def poke_all_length split: if_splits)

lemma cam_wf_frame:
  "cam_wf g \<Longrightarrow> cam_wf (g\<lparr>cam_force_idr := False, cam_nalus := []\<rparr>)"
  "cam_wf g \<Longrightarrow> length yuv = length (cam_yuv g) \<Longrightarrow>
   cam_wf (g\<lparr>cam_force_idr := False, cam_nalus := [], cam_yuv := yuv\<rparr>)"
  "cam_wf g \<Longrightarrow> cam_wf (g\<lparr>cam_frame_idx := n\<rparr>)"
  by (auto simp: cam_wf_def)

lemma camera_get_frame_wf [keeps]: "cam_wf g \<Longrightarrow> cam_wf (snd (camera_get_frame encode g))"
  by (auto simp: camera_get_frame_def Let_def cam_wf_frame extract_layers_wf
      dest: generate_test_pattern_length split: option.splits)

section \<open>The test pattern stays inside its buffer\<close>

lemma poke_all_Some:
  "(\<forall>(i, v) \<in> set ws. i < length buf) \<Longrightarrow> \<exists>buf'. poke_all ws buf = Some buf'"
  by (induction ws buf rule: poke_all.induct) auto

lemma poke_all_append:
  "poke_all (ws @ vs) buf = Option.bind (poke_all ws buf) (poke_all vs)"
  by (induction ws buf rule: poke_all.induct) auto

lemma poke_all_other:
  "poke_all ws buf = Some buf' \<Longrightarrow> i \<notin> fst ` set ws \<Longrightarrow> buf' ! i = buf ! i"
  by (induction ws buf rule: poke_all.induct) (auto split: if_splits)

text \<open>An address written with one value only holds that value.\<close>

lemma poke_all_hit:
  "poke_all ws buf = Some buf' \<Longrightarrow> i \<in> fst ` set ws \<Longrightarrow> (\<And>v. (i, v) \<in> set ws \<Longrightarrow> v = x) \<Longrightarrow> buf' ! i = x"
proof (induction ws buf rule: poke_all.induct)
  case (2 j v ws buf)
  show ?case
  proof (cases "i \<in> fst ` set ws")
    case True
    with 2 show ?thesis by (auto split: if_splits)
  next
    case False
    with 2(3) have "i = j" by auto
    with 2 False show ?thesis by (auto dest: poke_all_other split: if_splits)
  qed
qed simp

lemma plane_writes_set:
  "(i, v) \<in> set (plane_writes base ww hh bars) \<longleftrightarrow>
   (\<exists>y x. y < hh \<and> x < ww \<and> i = base + (y * ww + x) \<and> v = bars ! (x * 8 div ww))"
  by (force simp: plane_writes_def image_iff)

lemma pixel_index: "y < hh \<Longrightarrow> x < ww \<Longrightarrow> y * ww + x < ww * (hh :: nat)"
proof -
  assume "y < hh" "x < ww"
  then have "y * ww + x < Suc y * ww" by simp
  also have "\<dots> \<le> hh * ww" using \<open>y < hh\<close> by (intro mult_le_mono1) simp
  finally show ?thesis by (simp add: mult.commute)
qed

lemma pixel_unique:
  "x < ww \<Longrightarrow> x' < ww \<Longrightarrow> y * ww + x = y' * ww + x' \<longleftrightarrow> y = y' \<and> x = (x' :: nat)"
  by (metis div_mult_self3 add.commute div_less gr_implies_not0 mod_mult_self3 mod_less add_0)

lemma half_plane: "(w div 2) * (h div 2) \<le> w * h div (4 :: nat)"
proof -
  have "2 * (w div 2) * (2 * (h div 2)) \<le> w * h" by (intro mult_le_mono) auto
  then show ?thesis by (simp add: less_eq_div_iff_mult_less_eq)
qed

lemma picture_writes_inside:
  assumes "(i, v) \<in> set (plane_writes 0 w h bars_y @ plane_writes (w * h) (w div 2) (h div 2) bars_u
      @ plane_writes (w * h + w * h div 4) (w div 2) (h div 2) bars_v @ line_writes (n mod h) w)"
    and "0 < h"
  shows "i < w * h * 3 div 2"
proof -
  have total: "w * h + 2 * (w * h div 4) \<le> w * h * 3 div 2" by linarith
  have c: "y * (w div 2) + x < w * h div 4" if "y < h div 2" "x < w div 2" for x y
    using pixel_index [OF that] half_plane [of w h] by linarith
  have l: "n mod h * w + x < w * h" if "x < w" for x
    using pixel_index [of "n mod h" h x w] that assms(2) by simp
  from assms(1) consider x y where "y < h" "x < w" "i = y * w + x"
    | x y where "y < h div 2" "x < w div 2" "i = w * h + (y * (w div 2) + x)"
    | x y where "y < h div 2" "x < w div 2" "i = w * h + w * h div 4 + (y * (w div 2) + x)"
    | x where "x < w" "i = n mod h * w + x"
    by (auto simp: plane_writes_set line_writes_def)
  then show ?thesis
  proof cases
    case 1 with total pixel_index [of y h x w] show ?thesis by linarith
  next
    case 2 with total c [of y x] show ?thesis by linarith
  next
    case 3 with total c [of y x] show ?thesis by linarith
  next
    case 4 with total l [of x] show ?thesis by linarith
  qed
qed

lemma generate_test_pattern_ok:
  assumes "0 < h" and "length yuv = w * h * 3 div 2"
  shows "\<exists>yuv'. generate_test_pattern w h n yuv = Some yuv'"
  unfolding generate_test_pattern_def Let_def using assms
  by (auto intro!: poke_all_Some dest: picture_writes_inside)

text \<open>What the whole sequence of writes leaves at an address: the last plane or line that covers it.\<close>

lemma poke_all_then:
  assumes "poke_all (ws @ vs) buf = Some buf'"
  obtains b where "poke_all ws buf = Some b" "poke_all vs b = Some buf'"
  using assms by (auto simp: poke_all_append bind_eq_Some_conv)

lemma plane_pixel:
  assumes "poke_all (plane_writes base ww hh bars) buf = Some buf'" and "y < hh" and "x < ww"
  shows "buf' ! (base + (y * ww + x)) = bars ! (x * 8 div ww)"
proof (rule poke_all_hit [OF assms(1)])
  have "(base + (y * ww + x), bars ! (x * 8 div ww)) \<in> set (plane_writes base ww hh bars)"
    using assms(2,3) unfolding plane_writes_set by blast
  then show "base + (y * ww + x) \<in> fst ` set (plane_writes base ww hh bars)" by force
  show "v = bars ! (x * 8 div ww)" if "(base + (y * ww + x), v) \<in> set (plane_writes base ww hh bars)" for v
    using that assms(3) unfolding plane_writes_set by (auto simp: pixel_unique)
qed

lemma plane_outside:
  "i < base \<or> base + ww * hh \<le> i \<Longrightarrow> i \<notin> fst ` set (plane_writes base ww hh bars)"
  using pixel_index [of _ hh _ ww] by (fastforce simp: plane_writes_set)

lemma line_outside: "w * h \<le> i \<Longrightarrow> l < h \<Longrightarrow> i \<notin> fst ` set (line_writes l w)"
  using pixel_index [of l h _ w] by (fastforce simp: line_writes_def)

lemma line_pixel:
  assumes "poke_all (line_writes l w) buf = Some buf'" and "x < w"
  shows "buf' ! (y * w + x) = (if y = l then 235 else buf ! (y * w + x))"
proof (cases "y = l")
  case True
  have "buf' ! (l * w + x) = 235"
    by (rule poke_all_hit [OF assms(1)]) (use assms(2) in \<open>auto simp: line_writes_def image_iff\<close>)
  with True show ?thesis by simp
next
  case False
  then have "y * w + x \<notin> fst ` set (line_writes l w)"
    using assms(2) by (auto simp: line_writes_def pixel_unique)
  with assms(1) False show ?thesis by (simp add: poke_all_other)
qed

lemma test_pattern_luma:
  assumes "generate_test_pattern w h n yuv = Some yuv'" and "y < h" and "x < w"
  shows "yuv' ! (y * w + x) = (if y = unat (n * 4) mod h then 235 else bars_y ! (x * 8 div w))"
proof -
  let ?hw = "w div 2" and ?hh = "h div 2" and ?l = "unat (n * 4) mod h"
  obtain b1 b2 b3 where
    b: "poke_all (plane_writes 0 w h bars_y) yuv = Some b1"
       "poke_all (plane_writes (w * h) ?hw ?hh bars_u) b1 = Some b2"
       "poke_all (plane_writes (w * h + w * h div 4) ?hw ?hh bars_v) b2 = Some b3"
       "poke_all (line_writes ?l w) b3 = Some yuv'"
    using assms(1) by (auto simp: generate_test_pattern_def Let_def poke_all_append bind_eq_Some_conv
        split: if_splits)
  have i: "y * w + x < w * h" using assms(2,3) by (rule pixel_index)
  have "b3 ! (y * w + x) = b2 ! (y * w + x)" "b2 ! (y * w + x) = b1 ! (y * w + x)"
    using i by (auto intro!: poke_all_other [OF b(3)] poke_all_other [OF b(2)] plane_outside)
  moreover have "b1 ! (y * w + x) = bars_y ! (x * 8 div w)"
    using plane_pixel [OF b(1) assms(2,3)] by simp
  ultimately show ?thesis using line_pixel [OF b(4) assms(3), of y] by simp
qed

lemma test_pattern_chroma:
  assumes "generate_test_pattern w h n yuv = Some yuv'" and "y < h div 2" and "x < w div 2"
  shows "yuv' ! (w * h + (y * (w div 2) + x)) = bars_u ! (x * 8 div (w div 2))
       \<and> yuv' ! (w * h + w * h div 4 + (y * (w div 2) + x)) = bars_v ! (x * 8 div (w div 2))"
proof -
  let ?hw = "w div 2" and ?hh = "h div 2" and ?l = "unat (n * 4) mod h"
  let ?u = "w * h + (y * ?hw + x)" and ?v = "w * h + w * h div 4 + (y * ?hw + x)"
  have h: "0 < h" using assms(2) by simp
  obtain b1 b2 b3 where
    b: "poke_all (plane_writes (w * h) ?hw ?hh bars_u) b1 = Some b2"
       "poke_all (plane_writes (w * h + w * h div 4) ?hw ?hh bars_v) b2 = Some b3"
       "poke_all (line_writes ?l w) b3 = Some yuv'"
    using assms(1) by (auto simp: generate_test_pattern_def Let_def poke_all_append bind_eq_Some_conv
        split: if_splits)
  have i: "y * ?hw + x < w * h div 4"
    using pixel_index [OF assms(2,3)] half_plane [of w h] by linarith
  have "yuv' ! k = b3 ! k" if "w * h \<le> k" for k
    using that h by (intro poke_all_other [OF b(3)] line_outside [of w h]) simp_all
  then have "yuv' ! ?u = b3 ! ?u" "yuv' ! ?v = b3 ! ?v" by simp_all
  moreover have "b3 ! ?u = b2 ! ?u"
    using i by (intro poke_all_other [OF b(2)] plane_outside) simp
  ultimately show ?thesis using plane_pixel [OF b(1) assms(2,3)] plane_pixel [OF b(2) assms(2,3)] by simp
qed

section \<open>NAL unit extraction\<close>

text \<open>The units of a layer as the lengths announce them, start codes included.\<close>

fun layer_nals :: "int list \<Rightarrow> bytes \<Rightarrow> bytes list" where
  "layer_nals [] buf = []"
| "layer_nals (n # ns) buf =
     (if n \<le> 0 then layer_nals ns buf else take (nat n) buf # layer_nals ns (drop (nat n) buf))"

lemma extract_layer_nalus:
  "length (cam_nalus g) \<le> MAX_NALUS \<Longrightarrow>
   cam_nalus (extract_layer ns buf g) = take MAX_NALUS (cam_nalus g @ map strip_start_code (layer_nals ns buf))"
proof (induction ns buf g rule: extract_layer.induct)
  case (2 n ns buf g)
  then show ?case
    by (cases "length (cam_nalus g) = MAX_NALUS") (auto simp: Let_def)
qed simp

lemma extract_layers_nalus:
  "length (cam_nalus g) \<le> MAX_NALUS \<Longrightarrow>
   cam_nalus (extract_layers ls g) =
     take MAX_NALUS (cam_nalus g
       @ map strip_start_code (concat (map (\<lambda>l. layer_nals (li_nal_lens l) (li_buf l)) ls)))"
proof (induction ls g rule: extract_layers.induct)
  case (2 l ls g)
  then show ?case by (simp add: extract_layer_nalus take_append) (simp add: min_def)
qed simp

section \<open>Properties\<close>

text \<open>The test picture never leaves its buffer: for a picture of any width and positive height in a
  buffer of \<open>w * h * 3 / 2\<close> bytes every write is in range, each luma pixel holds its colour bar except
  on the moving white line, and each chroma pixel its bar.\<close>

lemma test_pattern_correct:
  assumes "0 < h" and "length yuv = w * h * 3 div 2"
  shows "\<exists>yuv'. generate_test_pattern w h n yuv = Some yuv' \<and> length yuv' = length yuv
      \<and> (\<forall>y < h. \<forall>x < w. yuv' ! (y * w + x)
            = (if y = unat (n * 4) mod h then 235 else bars_y ! (x * 8 div w)))
      \<and> (\<forall>y < h div 2. \<forall>x < w div 2.
            yuv' ! (w * h + (y * (w div 2) + x)) = bars_u ! (x * 8 div (w div 2))
          \<and> yuv' ! (w * h + w * h div 4 + (y * (w div 2) + x)) = bars_v ! (x * 8 div (w div 2)))"
  using generate_test_pattern_ok [OF assms, of n]
  by (fastforce simp: generate_test_pattern_length test_pattern_luma dest: test_pattern_chroma)

lemma test_pattern_correct_witness:
  "\<exists>yuv'. generate_test_pattern 4 2 0 (replicate 12 0) = Some yuv' \<and> length yuv' = length (replicate 12 (0::u8))
      \<and> (\<forall>y < 2. \<forall>x < 4. yuv' ! (y * 4 + x) = (if y = unat (0 * 4 :: u32) mod 2 then 235 else bars_y ! (x * 8 div 4)))
      \<and> (\<forall>y < 2 div 2. \<forall>x < 4 div 2.
            yuv' ! (4 * 2 + (y * (4 div 2) + x)) = bars_u ! (x * 8 div (4 div 2))
          \<and> yuv' ! (4 * 2 + 4 * 2 div 4 + (y * (4 div 2) + x)) = bars_v ! (x * 8 div (4 div 2)))"
  by (rule test_pattern_correct) simp_all


text \<open>A camera with a two by two picture, and an encoder that answers with an SPS, a PPS and a slice.\<close>

definition example_camera :: camera where
  "example_camera = snd (camera_open True (\<lambda>_. True) True (\<lambda>_. 0) 2 2 15 100 cam_zero)"

definition example_encode :: "bool \<Rightarrow> bytes \<Rightarrow> bs_info option" where
  "example_encode force yuv =
     Some \<lparr>bs_type = VideoFrameIDR,
           bs_layers = [\<lparr>li_buf = [0, 0, 0, 1, 0x67, 9, 0, 0, 1, 0x68, 7], li_nal_lens = [6, 5]\<rparr>,
                        \<lparr>li_buf = [0, 0, 0, 1, 0x65, 1, 2], li_nal_lens = [0, 7]\<rparr>]\<rparr>"


end
