(* ===== verification/Mbuf.thy ===== *)
theory Mbuf
  imports Prelude
begin

text \<open>
  libre's memory buffers (\<open>src/mbuf/mbuf.c\<close>, \<open>include/re_mbuf.h\<close>): a block of memory with a read and
  write position and an end. Every packet the program sends and every receive buffer is one.

  \<open>mb_buf\<close> is the allocated block, so \<open>length (mb_buf mb)\<close> is the C field \<open>size\<close>. Fresh memory is
  zero here; no result depends on its contents. Positions are unbounded naturals: the sizes
  involved stay far below \<open>2 ^ 64\<close>. The functions describe the branch in which the allocator
  succeeds; the callers' checks for a NULL buffer are part of the callers' models.
\<close>

record mbuf =
  mb_buf :: bytes
  mb_pos :: nat
  mb_end :: nat

abbreviation mb_size :: "mbuf \<Rightarrow> nat" where
  "mb_size mb \<equiv> length (mb_buf mb)"

section \<open>Operations\<close>

definition mbuf_init :: mbuf where
  "mbuf_init = \<lparr>mb_buf = [], mb_pos = 0, mb_end = 0\<rparr>"

definition mbuf_reset :: "mbuf \<Rightarrow> mbuf" where
  "mbuf_reset mb = mbuf_init"

definition mbuf_resize :: "mbuf \<Rightarrow> nat \<Rightarrow> mbuf" where
  "mbuf_resize mb sz = mb\<lparr>mb_buf := take sz (mb_buf mb) @ replicate (sz - mb_size mb) 0\<rparr>"

definition mbuf_alloc :: "nat \<Rightarrow> mbuf" where
  "mbuf_alloc sz = mbuf_resize mbuf_init (if sz = 0 then 512 else sz)"

definition mbuf_dup :: "mbuf \<Rightarrow> mbuf" where
  "mbuf_dup mbd =
     (let mb = mbuf_alloc (mb_size mbd)
      in mb\<lparr>mb_pos := mb_pos mbd, mb_end := mb_end mbd, mb_buf := mb_buf mbd\<rparr>)"

definition mbuf_trim :: "mbuf \<Rightarrow> mbuf" where
  "mbuf_trim mb =
     (if mb_end mb = 0 \<or> mb_end mb = mb_size mb then mb else mbuf_resize mb (mb_end mb))"

definition mbuf_get_left :: "mbuf \<Rightarrow> nat" where
  "mbuf_get_left mb = (if mb_end mb > mb_pos mb then mb_end mb - mb_pos mb else 0)"

definition mbuf_get_space :: "mbuf \<Rightarrow> nat" where
  "mbuf_get_space mb = (if mb_size mb > mb_pos mb then mb_size mb - mb_pos mb else 0)"

text \<open>The bytes from the current position to the end: what \<open>mbuf_buf\<close> and \<open>mbuf_get_left\<close> delimit.\<close>

definition mbuf_data :: "mbuf \<Rightarrow> bytes" where
  "mbuf_data mb = take (mbuf_get_left mb) (drop (mb_pos mb) (mb_buf mb))"

definition mbuf_set_pos :: "mbuf \<Rightarrow> nat \<Rightarrow> mbuf" where
  "mbuf_set_pos mb pos = mb\<lparr>mb_pos := pos\<rparr>"

definition mbuf_set_end :: "mbuf \<Rightarrow> nat \<Rightarrow> mbuf" where
  "mbuf_set_end mb e = mb\<lparr>mb_end := e\<rparr>"

definition mbuf_rewind :: "mbuf \<Rightarrow> mbuf" where
  "mbuf_rewind mb = mb\<lparr>mb_pos := 0, mb_end := 0\<rparr>"

definition mbuf_skip_to_end :: "mbuf \<Rightarrow> mbuf" where
  "mbuf_skip_to_end mb = mb\<lparr>mb_pos := mb_end mb\<rparr>"

definition mbuf_set_posend :: "mbuf \<Rightarrow> nat \<Rightarrow> nat \<Rightarrow> mbuf" where
  "mbuf_set_posend mb pos e =
     (if pos > e then mb
      else if e > mb_size mb then mb
      else mb\<lparr>mb_pos := pos, mb_end := e\<rparr>)"

text \<open>\<open>memcpy\<close> into the block at an offset.\<close>

definition mem_put :: "bytes \<Rightarrow> nat \<Rightarrow> bytes \<Rightarrow> bytes" where
  "mem_put buf off src = take off buf @ src @ drop (off + length src) buf"

text \<open>Growing before a write: at least what is needed, at least double the size.\<close>

definition mbuf_grow :: "mbuf \<Rightarrow> nat \<Rightarrow> mbuf" where
  "mbuf_grow mb rsize =
     (if rsize > mb_size mb
      then mbuf_resize mb (max rsize (if mb_size mb = 0 then 512 else mb_size mb * 2))
      else mb)"

definition mbuf_write_mem :: "mbuf \<Rightarrow> bytes \<Rightarrow> mbuf" where
  "mbuf_write_mem mb src =
     (let m = mbuf_grow mb (mb_pos mb + length src)
      in m\<lparr>mb_buf := mem_put (mb_buf m) (mb_pos m) src,
           mb_pos := mb_pos m + length src,
           mb_end := max (mb_end m) (mb_pos m + length src)\<rparr>)"

definition mbuf_fill :: "mbuf \<Rightarrow> u8 \<Rightarrow> nat \<Rightarrow> errno + mbuf" where
  "mbuf_fill mb c n =
     (if n = 0 then Inl EINVAL
      else (let m = mbuf_grow mb (mb_pos mb + n)
            in Inr (m\<lparr>mb_buf := mem_put (mb_buf m) (mb_pos m) (replicate n c),
                     mb_pos := mb_pos m + n,
                     mb_end := max (mb_end m) (mb_pos m + n)\<rparr>)))"

definition mbuf_write_u8 :: "mbuf \<Rightarrow> u8 \<Rightarrow> mbuf" where
  "mbuf_write_u8 mb v = mbuf_write_mem mb [v]"

definition mbuf_write_u16 :: "mbuf \<Rightarrow> u16 \<Rightarrow> mbuf" where
  "mbuf_write_u16 mb v = mbuf_write_mem mb (mem_u16 v)"

definition mbuf_write_u32 :: "mbuf \<Rightarrow> u32 \<Rightarrow> mbuf" where
  "mbuf_write_u32 mb v = mbuf_write_mem mb (mem_u32 v)"

definition mbuf_write_str :: "mbuf \<Rightarrow> string \<Rightarrow> mbuf" where
  "mbuf_write_str mb s = mbuf_write_mem mb (text_bytes s)"

definition mbuf_read_mem :: "mbuf \<Rightarrow> nat \<Rightarrow> errno + bytes \<times> mbuf" where
  "mbuf_read_mem mb sz =
     (if sz > mbuf_get_left mb then Inl EOVERFLOW
      else Inr (take sz (drop (mb_pos mb) (mb_buf mb)), mb\<lparr>mb_pos := mb_pos mb + sz\<rparr>))"

text \<open>The typed reads return \<open>0\<close> and leave the buffer alone when there are too few bytes.\<close>

definition mbuf_read_u8 :: "mbuf \<Rightarrow> u8 \<times> mbuf" where
  "mbuf_read_u8 mb =
     (case mbuf_read_mem mb 1 of Inl e \<Rightarrow> (0, mb) | Inr (bs, m) \<Rightarrow> (hd bs, m))"

definition mbuf_read_u16 :: "mbuf \<Rightarrow> u16 \<times> mbuf" where
  "mbuf_read_u16 mb =
     (case mbuf_read_mem mb 2 of Inl e \<Rightarrow> (0, mb) | Inr (bs, m) \<Rightarrow> (val_u16 bs, m))"

definition mbuf_read_u32 :: "mbuf \<Rightarrow> u32 \<times> mbuf" where
  "mbuf_read_u32 mb =
     (case mbuf_read_mem mb 4 of Inl e \<Rightarrow> (0, mb) | Inr (bs, m) \<Rightarrow> (val_u32 bs, m))"

text \<open>\<open>mbuf_read_str\<close>: at most \<open>size\<close> characters, up to and including a NUL.\<close>

fun mbuf_read_str :: "mbuf \<Rightarrow> nat \<Rightarrow> bytes \<times> mbuf" where
  "mbuf_read_str mb 0 = ([], mb)"
| "mbuf_read_str mb (Suc sz) =
     (let (c, m) = mbuf_read_u8 mb
      in if c = 0 then ([c], m)
         else (let (cs, m') = mbuf_read_str m sz in (c # cs, m')))"

definition mbuf_strdup :: "mbuf \<Rightarrow> nat \<Rightarrow> errno + bytes \<times> mbuf" where
  "mbuf_strdup mb len =
     (case mbuf_read_mem mb len of Inl e \<Rightarrow> Inl e | Inr (bs, m) \<Rightarrow> Inr (bs @ [0], m))"

text \<open>\<open>mbuf_shift\<close>: moves the bytes from the position to the end by \<open>shift\<close> places.\<close>

definition mbuf_shift :: "mbuf \<Rightarrow> int \<Rightarrow> errno + mbuf" where
  "mbuf_shift mb shift =
     (if int (mb_pos mb) + shift < 0 \<or> int (mb_end mb) + shift < 0 then Inl ERANGE
      else (let rsize = nat (int (mb_end mb) + shift);
                m = (if rsize > mb_size mb then mbuf_resize mb rsize else mb);
                dst = nat (int (mb_pos mb) + shift)
            in Inr (m\<lparr>mb_buf := mem_put (mb_buf m) dst (mbuf_data m),
                     mb_pos := dst, mb_end := rsize\<rparr>)))"

section \<open>Invariant\<close>

definition mbuf_wf :: "mbuf \<Rightarrow> bool" where
  "mbuf_wf mb \<longleftrightarrow> mb_pos mb \<le> mb_end mb \<and> mb_end mb \<le> mb_size mb"

lemma length_mem_put [simp]:
  "off + length src \<le> length buf \<Longrightarrow> length (mem_put buf off src) = length buf"
  by (simp add: mem_put_def)

lemma mbuf_grow_fields [simp]:
  "mb_pos (mbuf_grow mb r) = mb_pos mb" "mb_end (mbuf_grow mb r) = mb_end mb"
  by (simp_all add: mbuf_grow_def mbuf_resize_def)

lemma mbuf_grow_size: "mb_size mb \<le> mb_size (mbuf_grow mb r)" "r \<le> mb_size (mbuf_grow mb r)"
  by (auto simp: mbuf_grow_def mbuf_resize_def)

lemma mbuf_grow_prefix: "take (mb_size mb) (mb_buf (mbuf_grow mb r)) = mb_buf mb"
  by (auto simp: mbuf_grow_def mbuf_resize_def)

lemma mbuf_alloc_wf [keeps, simp]: "mbuf_wf (mbuf_alloc n)"
  by (simp add: mbuf_alloc_def mbuf_resize_def mbuf_init_def mbuf_wf_def)

lemma mbuf_write_mem_wf [keeps, simp]: "mbuf_wf mb \<Longrightarrow> mbuf_wf (mbuf_write_mem mb src)"
  using mbuf_grow_size [where mb = mb and r = "mb_pos mb + length src"]
  by (auto simp: mbuf_write_mem_def mbuf_wf_def Let_def)

lemma mbuf_read_mem_wf [keeps]:
  "mbuf_wf mb \<Longrightarrow> mbuf_read_mem mb n = Inr (bs, m) \<Longrightarrow> mbuf_wf m"
  by (auto simp: mbuf_read_mem_def mbuf_wf_def mbuf_get_left_def split: if_splits)

lemma mbuf_trim_wf [keeps]: "mbuf_wf mb \<Longrightarrow> mbuf_wf (mbuf_trim mb)"
  by (auto simp: mbuf_trim_def mbuf_wf_def mbuf_resize_def)

lemma mbuf_fill_wf [keeps]: "mbuf_wf mb \<Longrightarrow> mbuf_fill mb c n = Inr m \<Longrightarrow> mbuf_wf m"
  using mbuf_grow_size [where mb = mb and r = "mb_pos mb + n"]
  by (auto simp: mbuf_fill_def mbuf_wf_def Let_def split: if_splits)

lemma mbuf_set_posend_wf [keeps]: "mbuf_wf mb \<Longrightarrow> mbuf_wf (mbuf_set_posend mb p e)"
  by (simp add: mbuf_set_posend_def mbuf_wf_def)

lemma mbuf_shift_wf [keeps]:
  assumes "mbuf_wf mb" "mbuf_shift mb s = Inr m"
  shows "mbuf_wf m"
  using assms
  by (auto simp: mbuf_shift_def mbuf_wf_def mbuf_resize_def mbuf_data_def mbuf_get_left_def
      mem_put_def Let_def split: if_splits)

section \<open>Contents\<close>

text \<open>The bytes before the end: what has been written.\<close>

definition mbuf_content :: "mbuf \<Rightarrow> bytes" where
  "mbuf_content mb = take (mb_end mb) (mb_buf mb)"

lemma mbuf_content_alloc [simp]: "mbuf_content (mbuf_alloc n) = []"
  by (simp add: mbuf_content_def mbuf_alloc_def mbuf_resize_def mbuf_init_def)

lemma mbuf_pos_alloc [simp]: "mb_pos (mbuf_alloc n) = 0" "mb_end (mbuf_alloc n) = 0"
  by (simp_all add: mbuf_alloc_def mbuf_resize_def mbuf_init_def)

lemma mbuf_write_mem_pos [simp]:
  "mb_pos (mbuf_write_mem mb src) = mb_pos mb + length src"
  "mb_end (mbuf_write_mem mb src) = max (mb_end mb) (mb_pos mb + length src)"
  by (simp_all add: mbuf_write_mem_def Let_def)

text \<open>Writing at the end appends, whatever the growth of the block.\<close>

lemma mbuf_write_mem_appends:
  assumes "mbuf_wf mb" and "mb_pos mb = mb_end mb"
  shows "mbuf_content (mbuf_write_mem mb src) = mbuf_content mb @ src"
proof -
  let ?m = "mbuf_grow mb (mb_pos mb + length src)"
  have e: "mb_end mb \<le> mb_size mb" using assms(1) by (simp add: mbuf_wf_def)
  then have sz: "mb_end mb \<le> mb_size ?m"
    using mbuf_grow_size(1) [of mb "mb_pos mb + length src"] by simp
  have "take (mb_end mb) (mb_buf ?m) = take (mb_end mb) (take (mb_size mb) (mb_buf ?m))"
    using e by (simp add: min_absorb1)
  then have "take (mb_end mb) (mb_buf ?m) = take (mb_end mb) (mb_buf mb)"
    by (simp add: mbuf_grow_prefix)
  with assms(2) sz e show ?thesis
    by (simp add: mbuf_content_def mbuf_write_mem_def Let_def mem_put_def)
qed

lemma mbuf_data_from_start: "mbuf_data (mbuf_set_pos mb 0) = mbuf_content mb"
  by (simp add: mbuf_data_def mbuf_set_pos_def mbuf_get_left_def mbuf_content_def)

lemma mbuf_data_write:
  "mbuf_wf mb \<Longrightarrow> mb_pos mb = mb_end mb \<Longrightarrow>
   mbuf_data (mbuf_set_pos (mbuf_write_mem mb src) 0) = mbuf_content mb @ src"
  by (simp add: mbuf_data_from_start mbuf_write_mem_appends)

lemmas mbuf_writes = mbuf_write_u8_def mbuf_write_u16_def mbuf_write_u32_def mbuf_write_str_def

section \<open>The message buffer interface\<close>

text \<open>
  The contract the packet builders rely on: a new buffer is empty, writes append, and after
  rewinding the position the buffer delivers everything that was written.
\<close>

locale msg_buffer =
  fixes alloc :: "nat \<Rightarrow> 'b"
    and put :: "'b \<Rightarrow> bytes \<Rightarrow> 'b"
    and rewind :: "'b \<Rightarrow> 'b"
    and deliver :: "'b \<Rightarrow> bytes"
    and written :: "'b \<Rightarrow> bytes"
    and appending :: "'b \<Rightarrow> bool"
  assumes alloc_appending: "appending (alloc n)"
    and alloc_written: "written (alloc n) = []"
    and put_appending: "appending b \<Longrightarrow> appending (put b xs)"
    and put_written: "appending b \<Longrightarrow> written (put b xs) = written b @ xs"
    and rewind_deliver: "appending b \<Longrightarrow> deliver (rewind b) = written b"
begin

lemma fold_put:
  "appending b \<Longrightarrow>
   appending (foldl put b xss) \<and> written (foldl put b xss) = written b @ concat xss"
  by (induction xss arbitrary: b) (simp_all add: put_appending put_written)

text \<open>A packet is the concatenation of the pieces written into it.\<close>

lemma packet_of_pieces: "deliver (rewind (foldl put (alloc n) xss)) = concat xss"
  using fold_put [OF alloc_appending, of n xss]
  by (simp add: rewind_deliver alloc_written)

end

definition mbuf_appending :: "mbuf \<Rightarrow> bool" where
  "mbuf_appending mb \<longleftrightarrow> mbuf_wf mb \<and> mb_pos mb = mb_end mb"

interpretation mb: msg_buffer mbuf_alloc mbuf_write_mem "\<lambda>m. mbuf_set_pos m 0" mbuf_data
    mbuf_content mbuf_appending
  by unfold_locales
    (auto simp: mbuf_appending_def mbuf_write_mem_appends mbuf_data_from_start)

section \<open>Properties\<close>

text \<open>what is written to a buffer at its position is what a read from there returns; the read
  leaves the position behind the bytes, and the buffer stays well formed.
\<close>

lemma mbuf_write_read:
  assumes "mbuf_wf mb"
  shows "mbuf_read_mem (mbuf_set_pos (mbuf_write_mem mb src) (mb_pos mb)) (length src)
         = Inr (src, mbuf_write_mem mb src)
       \<and> mbuf_wf (mbuf_write_mem mb src)
       \<and> take (mb_pos mb) (mb_buf (mbuf_write_mem mb src)) = take (mb_pos mb) (mb_buf mb)"
proof -
  let ?m = "mbuf_grow mb (mb_pos mb + length src)"
  have pos: "mb_pos mb \<le> mb_size mb" using assms by (simp add: mbuf_wf_def)
  then have len: "mb_pos mb \<le> length (mb_buf ?m)"
    using mbuf_grow_size(1) [of mb "mb_pos mb + length src"] by simp
  have "take (mb_pos mb) (mb_buf ?m) = take (mb_pos mb) (take (mb_size mb) (mb_buf ?m))"
    using pos by (simp add: min_absorb1)
  then have pre: "take (mb_pos mb) (mb_buf ?m) = take (mb_pos mb) (mb_buf mb)"
    by (simp add: mbuf_grow_prefix)
  have buf: "mb_buf (mbuf_write_mem mb src) = mem_put (mb_buf ?m) (mb_pos mb) src"
    by (simp add: mbuf_write_mem_def Let_def)
  have "take (length src) (drop (mb_pos mb) (mb_buf (mbuf_write_mem mb src))) = src"
    using len by (simp add: buf mem_put_def)
  moreover have "length src \<le> mbuf_get_left (mbuf_set_pos (mbuf_write_mem mb src) (mb_pos mb))"
    by (auto simp: mbuf_get_left_def mbuf_set_pos_def less_max_iff_disj)
  ultimately show ?thesis
    using assms len pre pos by (simp add: mbuf_read_mem_def mbuf_set_pos_def buf mem_put_def)
qed

lemma mbuf_write_read_witness:
  "mbuf_wf (mbuf_alloc 2) \<and>
   mbuf_read_mem (mbuf_set_pos (mbuf_write_mem (mbuf_alloc 2) [1, 2, 3]) 0) 3
     = Inr ([1, 2, 3], mbuf_write_mem (mbuf_alloc 2) [1, 2, 3])"
  using mbuf_write_read [OF mbuf_alloc_wf, of 2 "[1, 2, 3]"]
  by (simp add: numeral_3_eq_3)

text \<open>The operations on a buffer, and any sequence of them. A failed operation leaves the buffer as it was.\<close>

datatype mbuf_op =
    WriteMem bytes | WriteU8 u8 | WriteU16 u16 | WriteU32 u32 | WriteStr string | Fill u8 nat
  | ReadMem nat | ReadU8 | ReadU16 | ReadU32 | ReadStr nat | Strdup nat
  | Shift int | Trim | SetPosEnd nat nat | Rewind | SkipToEnd | Reset | Dup

definition kept :: "mbuf \<Rightarrow> errno + mbuf \<Rightarrow> mbuf" where
  "kept mb r = (case r of Inl e \<Rightarrow> mb | Inr m \<Rightarrow> m)"

definition mbuf_do :: "mbuf_op \<Rightarrow> mbuf \<Rightarrow> mbuf" where
  "mbuf_do x mb =
     (case x of
        WriteMem bs \<Rightarrow> mbuf_write_mem mb bs | WriteU8 v \<Rightarrow> mbuf_write_u8 mb v | WriteU16 v \<Rightarrow> mbuf_write_u16 mb v
      | WriteU32 v \<Rightarrow> mbuf_write_u32 mb v | WriteStr s \<Rightarrow> mbuf_write_str mb s | Fill c n \<Rightarrow> kept mb (mbuf_fill mb c n)
      | ReadMem n \<Rightarrow> kept mb (map_sum id snd (mbuf_read_mem mb n)) | ReadU8 \<Rightarrow> snd (mbuf_read_u8 mb) | ReadU16 \<Rightarrow> snd (mbuf_read_u16 mb)
      | ReadU32 \<Rightarrow> snd (mbuf_read_u32 mb) | ReadStr n \<Rightarrow> snd (mbuf_read_str mb n) | Strdup n \<Rightarrow> kept mb (map_sum id snd (mbuf_strdup mb n))
      | Shift s \<Rightarrow> kept mb (mbuf_shift mb s) | Trim \<Rightarrow> mbuf_trim mb | SetPosEnd p e \<Rightarrow> mbuf_set_posend mb p e
      | Rewind \<Rightarrow> mbuf_rewind mb | SkipToEnd \<Rightarrow> mbuf_skip_to_end mb | Reset \<Rightarrow> mbuf_reset mb | Dup \<Rightarrow> mbuf_dup mb)"

lemma mbuf_typed_reads_wf:
  assumes "mbuf_wf mb"
  shows "mbuf_wf (snd (mbuf_read_u8 mb))" "mbuf_wf (snd (mbuf_read_u16 mb))" "mbuf_wf (snd (mbuf_read_u32 mb))"
  using assms by (auto simp: mbuf_read_u8_def mbuf_read_u16_def mbuf_read_u32_def split: sum.split intro: mbuf_read_mem_wf)

lemma mbuf_read_str_wf: "mbuf_wf mb \<Longrightarrow> mbuf_wf (snd (mbuf_read_str mb n))"
  by (induction n arbitrary: mb) (simp_all add: Let_def case_prod_beta mbuf_typed_reads_wf(1))

lemma mbuf_do_wf: "mbuf_wf mb \<Longrightarrow> mbuf_wf (mbuf_do x mb)"
proof (cases x)
  case (Fill c n)
  then show "mbuf_wf mb \<Longrightarrow> ?thesis" by (auto simp: mbuf_do_def kept_def split: sum.split intro: mbuf_fill_wf)
next
  case (Shift s)
  then show "mbuf_wf mb \<Longrightarrow> ?thesis" by (auto simp: mbuf_do_def kept_def split: sum.split intro: mbuf_shift_wf)
next
  case (ReadMem n)
  then show "mbuf_wf mb \<Longrightarrow> ?thesis"
    by (cases "mbuf_read_mem mb n") (auto simp: mbuf_do_def kept_def intro: mbuf_read_mem_wf)
next
  case (Strdup n)
  then show "mbuf_wf mb \<Longrightarrow> ?thesis"
    by (cases "mbuf_read_mem mb n") (auto simp: mbuf_do_def kept_def mbuf_strdup_def intro: mbuf_read_mem_wf)
qed (simp_all add: mbuf_do_def mbuf_writes mbuf_typed_reads_wf mbuf_read_str_wf mbuf_trim_wf mbuf_set_posend_wf,
    auto simp: mbuf_wf_def mbuf_rewind_def mbuf_skip_to_end_def mbuf_reset_def mbuf_init_def mbuf_dup_def Let_def)


end
