(* ===== verification/Rtp.thy ===== *)
theory Rtp
  imports Mbuf
begin

text \<open>
  The RTP header codec of libre (\<open>src/rtp/rtp.c\<close>), which frames every media packet the intercom
  sends and parses those it receives. The header is a \<open>struct rtp_header\<close> (\<open>include/re_rtp.h\<close>); the
  array of contributing sources is the list \<open>rh_csrc\<close>.
\<close>

record rtp_header =
  rh_ver :: u8
  rh_pad :: bool
  rh_ext :: bool
  rh_cc :: u8
  rh_m :: bool
  rh_pt :: u8
  rh_seq :: u16
  rh_ts :: u32
  rh_ssrc :: u32
  rh_csrc :: "u32 list"
  rh_x_type :: u16
  rh_x_len :: u16

text \<open>\<open>memset(&hdr, 0, sizeof(hdr))\<close>\<close>

definition rtp_header_zero :: rtp_header where
  "rtp_header_zero =
     \<lparr>rh_ver = 0, rh_pad = False, rh_ext = False, rh_cc = 0, rh_m = False, rh_pt = 0,
      rh_seq = 0, rh_ts = 0, rh_ssrc = 0, rh_csrc = replicate 16 0, rh_x_type = 0, rh_x_len = 0\<rparr>"

definition rtp_byte0 :: "u8 \<Rightarrow> bool \<Rightarrow> bool \<Rightarrow> u8 \<Rightarrow> u8" where
  "rtp_byte0 ver pad ext cc =
     push_bit 6 (ver AND 2) OR push_bit 5 (of_bool pad) OR push_bit 4 (of_bool ext) OR (cc AND 0x0F)"

definition rtp_byte1 :: "bool \<Rightarrow> u8 \<Rightarrow> u8" where
  "rtp_byte1 m pt = push_bit 7 (of_bool m) OR (pt AND 0x7F)"

definition rtp_hdr_encode :: "mbuf \<Rightarrow> rtp_header \<Rightarrow> mbuf" where
  "rtp_hdr_encode mb hdr =
     (let m0 = mbuf_write_mem mb [rtp_byte0 (rh_ver hdr) (rh_pad hdr) (rh_ext hdr) (rh_cc hdr),
                                  rtp_byte1 (rh_m hdr) (rh_pt hdr)];
          m1 = mbuf_write_u16 m0 (htons (rh_seq hdr));
          m2 = mbuf_write_u32 m1 (htonl (rh_ts hdr));
          m3 = mbuf_write_u32 m2 (htonl (rh_ssrc hdr))
      in foldl (\<lambda>m i. mbuf_write_u32 m (htonl (rh_csrc hdr ! i))) m3 [0..<unat (rh_cc hdr)])"

fun read_csrcs :: "nat \<Rightarrow> mbuf \<Rightarrow> u32 list \<times> mbuf" where
  "read_csrcs 0 mb = ([], mb)"
| "read_csrcs (Suc n) mb =
     (let (v, m) = mbuf_read_u32 mb; (vs, m') = read_csrcs n m in (htonl v # vs, m'))"

definition rtp_hdr_decode :: "mbuf \<Rightarrow> errno + rtp_header \<times> mbuf" where
  "rtp_hdr_decode mb =
     (if mbuf_get_left mb < 12 then Inl EBADMSG
      else case mbuf_read_mem mb 2 of
        Inl e \<Rightarrow> Inl e
      | Inr (buf, m0) \<Rightarrow>
          (let b0 = buf ! 0; b1 = buf ! 1;
               (sq, m1) = mbuf_read_u16 m0;
               (tm, m2) = mbuf_read_u32 m1;
               (sc, m3) = mbuf_read_u32 m2;
               hdr = \<lparr>rh_ver = drop_bit 6 b0 AND 3, rh_pad = (drop_bit 5 b0 AND 1 = 1),
                      rh_ext = (drop_bit 4 b0 AND 1 = 1), rh_cc = b0 AND 0x0F,
                      rh_m = (drop_bit 7 b1 AND 1 = 1), rh_pt = b1 AND 0x7F,
                      rh_seq = htons sq, rh_ts = htonl tm, rh_ssrc = htonl sc,
                      rh_csrc = [], rh_x_type = 0, rh_x_len = 0\<rparr>
           in if mbuf_get_left m3 < unat (rh_cc hdr) * 4 then Inl EBADMSG
              else (let (cs, m4) = read_csrcs (unat (rh_cc hdr)) m3;
                        hdr = hdr\<lparr>rh_csrc := cs\<rparr>
                    in if \<not> rh_ext hdr then Inr (hdr, m4)
                       else if mbuf_get_left m4 < 4 then Inl EBADMSG
                       else (let (ty, m5) = mbuf_read_u16 m4;
                                 (ln, m6) = mbuf_read_u16 m5;
                                 hdr = hdr\<lparr>rh_x_type := htons ty, rh_x_len := htons ln\<rparr>
                             in if mbuf_get_left m6 < unat (rh_x_len hdr) * 4 then Inl EBADMSG
                                else Inr (hdr, m6\<lparr>mb_pos := mb_pos m6 + unat (rh_x_len hdr) * 4\<rparr>)))))"

section \<open>The encoded bytes\<close>

definition rtp_hdr_bytes :: "rtp_header \<Rightarrow> bytes" where
  "rtp_hdr_bytes hdr =
     [rtp_byte0 (rh_ver hdr) (rh_pad hdr) (rh_ext hdr) (rh_cc hdr), rtp_byte1 (rh_m hdr) (rh_pt hdr)]
     @ rev (mem_u16 (rh_seq hdr)) @ rev (mem_u32 (rh_ts hdr)) @ rev (mem_u32 (rh_ssrc hdr))
     @ concat (map (\<lambda>i. rev (mem_u32 (rh_csrc hdr ! i))) [0..<unat (rh_cc hdr)])"

lemma foldl_write_map:
  "foldl (\<lambda>m i. mbuf_write_u32 m (f i)) mb is = foldl mbuf_write_mem mb (map (\<lambda>i. mem_u32 (f i)) is)"
  by (induction "is" arbitrary: mb) (simp_all add: mbuf_write_u32_def)

text \<open>The encoder only writes, so it is an instance of the message buffer contract.\<close>

lemma rtp_hdr_encode_writes:
  "rtp_hdr_encode mb hdr = foldl mbuf_write_mem mb
     ([rtp_byte0 (rh_ver hdr) (rh_pad hdr) (rh_ext hdr) (rh_cc hdr), rtp_byte1 (rh_m hdr) (rh_pt hdr)]
      # rev (mem_u16 (rh_seq hdr)) # rev (mem_u32 (rh_ts hdr)) # rev (mem_u32 (rh_ssrc hdr))
      # map (\<lambda>i. rev (mem_u32 (rh_csrc hdr ! i))) [0..<unat (rh_cc hdr)])"
  by (simp add: rtp_hdr_encode_def Let_def foldl_write_map layout)
     (simp add: mbuf_write_u16_def mbuf_write_u32_def layout)

lemma rtp_hdr_encode_appends:
  assumes "mbuf_appending mb"
  shows "mbuf_appending (rtp_hdr_encode mb hdr)"
    and "mbuf_content (rtp_hdr_encode mb hdr) = mbuf_content mb @ rtp_hdr_bytes hdr"
  using mb.fold_put [OF assms] by (simp_all only: rtp_hdr_encode_writes) (simp add: rtp_hdr_bytes_def)

lemma length_concat_csrc:
  "length (concat (map (\<lambda>i. rev (mem_u32 (f i))) is)) = 4 * length is"
  by (induction "is") simp_all

lemma length_rtp_hdr_bytes [simp]: "length (rtp_hdr_bytes hdr) = 12 + 4 * unat (rh_cc hdr)"
  by (simp add: rtp_hdr_bytes_def length_concat_csrc)

section \<open>Reading back\<close>

lemma mbuf_read_data:
  assumes "mbuf_wf mb" and "mbuf_data mb = xs @ ys"
  shows "mbuf_read_mem mb (length xs) = Inr (xs, mb\<lparr>mb_pos := mb_pos mb + length xs\<rparr>)"
    and "mbuf_wf (mb\<lparr>mb_pos := mb_pos mb + length xs\<rparr>)"
    and "mbuf_data (mb\<lparr>mb_pos := mb_pos mb + length xs\<rparr>) = ys"
proof -
  let ?d = "drop (mb_pos mb) (mb_buf mb)"
  let ?n = "mb_end mb - mb_pos mb"
  have n: "mbuf_get_left mb = ?n" by (simp add: mbuf_get_left_def)
  have d: "take ?n ?d = xs @ ys" using assms(2) by (simp add: mbuf_data_def n)
  have l: "?n \<le> length ?d" using assms(1) by (auto simp: mbuf_wf_def)
  then have len: "?n = length xs + length ys"
    using arg_cong [OF d, of length] by simp
  have "take (length xs) ?d = take (length xs) (take ?n ?d)" using len by simp
  then have t: "take (length xs) ?d = xs" by (simp add: d)
  then show "mbuf_read_mem mb (length xs) = Inr (xs, mb\<lparr>mb_pos := mb_pos mb + length xs\<rparr>)"
    by (simp add: mbuf_read_mem_def n len)
  show "mbuf_wf (mb\<lparr>mb_pos := mb_pos mb + length xs\<rparr>)"
    using assms(1) len by (auto simp: mbuf_wf_def)
  have "take (length ys) (drop (length xs) ?d) = drop (length xs) (take ?n ?d)"
    using len by (simp add: drop_take)
  then have "take (length ys) (drop (length xs) ?d) = ys" by (simp add: d)
  moreover have "mb_end mb - (mb_pos mb + length xs) = length ys" using len by simp
  ultimately show "mbuf_data (mb\<lparr>mb_pos := mb_pos mb + length xs\<rparr>) = ys"
    by (auto simp: mbuf_data_def mbuf_get_left_def add.commute)
qed

lemma mbuf_read_u16_data:
  assumes "mbuf_wf mb" and "mbuf_data mb = rev (mem_u16 v) @ ys"
  obtains m where "mbuf_read_u16 mb = (htons v, m)" "mbuf_wf m" "mbuf_data m = ys"
  using mbuf_read_data [OF assms]
  by (simp add: mbuf_read_u16_def numeral_2_eq_2 htons_def)

lemma mbuf_read_u32_data:
  assumes "mbuf_wf mb" and "mbuf_data mb = rev (mem_u32 v) @ ys"
  obtains m where "mbuf_read_u32 mb = (htonl v, m)" "mbuf_wf m" "mbuf_data m = ys"
  using mbuf_read_data [OF assms] by (simp add: mbuf_read_u32_def htonl_def)

lemma read_csrcs_data:
  assumes "mbuf_wf mb" and "mbuf_data mb = concat (map (\<lambda>v. rev (mem_u32 v)) vs) @ ys"
  obtains m where "read_csrcs (length vs) mb = (vs, m)" "mbuf_wf m" "mbuf_data m = ys"
  using assms
proof (induction vs arbitrary: mb thesis)
  case (Cons v vs)
  obtain m where m: "mbuf_read_u32 mb = (htonl v, m)" "mbuf_wf m"
    "mbuf_data m = concat (map (\<lambda>v. rev (mem_u32 v)) vs) @ ys"
    using Cons.prems(2,3) by (auto elim: mbuf_read_u32_data)
  obtain m' where "read_csrcs (length vs) m = (vs, m')" "mbuf_wf m'" "mbuf_data m' = ys"
    using Cons.IH [of m] m by blast
  with m Cons.prems(1) show ?case by simp
qed simp

lemma mbuf_get_left_data: "mbuf_wf mb \<Longrightarrow> mbuf_get_left mb = length (mbuf_data mb)"
  by (auto simp: mbuf_data_def mbuf_get_left_def mbuf_wf_def)

text \<open>The bit fields of the first two bytes come back, checked on every byte.\<close>

lemma rtp_byte0_fields:
  assumes "ver = 0 \<or> ver = 2" and "cc < 16"
  shows "drop_bit 6 (rtp_byte0 ver pad ext cc) AND 3 = ver"
    and "(drop_bit 5 (rtp_byte0 ver pad ext cc) AND 1 = 1) = pad"
    and "(drop_bit 4 (rtp_byte0 ver pad ext cc) AND 1 = 1) = ext"
    and "rtp_byte0 ver pad ext cc AND 0x0F = cc"
proof -
  have "list_all (\<lambda>c. c < 16 \<longrightarrow>
      list_all (\<lambda>v. list_all (\<lambda>p. list_all (\<lambda>e.
        drop_bit 6 (rtp_byte0 v p e c) AND 3 = v \<and> (drop_bit 5 (rtp_byte0 v p e c) AND 1 = 1) = p \<and>
        (drop_bit 4 (rtp_byte0 v p e c) AND 1 = 1) = e \<and> rtp_byte0 v p e c AND 0x0F = c)
      [False, True]) [False, True]) [0, 2]) (map word_of_nat [0..<256] :: u8 list)"
    by code_simp
  from all_bytes [OF this, of cc] assms
  have "drop_bit 6 (rtp_byte0 ver pad ext cc) AND 3 = ver \<and>
      (drop_bit 5 (rtp_byte0 ver pad ext cc) AND 1 = 1) = pad \<and>
      (drop_bit 4 (rtp_byte0 ver pad ext cc) AND 1 = 1) = ext \<and> rtp_byte0 ver pad ext cc AND 0x0F = cc"
    by (cases pad; cases ext) auto
  then show "drop_bit 6 (rtp_byte0 ver pad ext cc) AND 3 = ver"
    "(drop_bit 5 (rtp_byte0 ver pad ext cc) AND 1 = 1) = pad"
    "(drop_bit 4 (rtp_byte0 ver pad ext cc) AND 1 = 1) = ext"
    "rtp_byte0 ver pad ext cc AND 0x0F = cc" by auto
qed

lemma rtp_byte1_fields:
  assumes "pt < 128"
  shows "(drop_bit 7 (rtp_byte1 m pt) AND 1 = 1) = m" and "rtp_byte1 m pt AND 0x7F = pt"
proof -
  have "list_all (\<lambda>p. p < 128 \<longrightarrow> list_all (\<lambda>m. (drop_bit 7 (rtp_byte1 m p) AND 1 = 1) = m \<and>
      rtp_byte1 m p AND 0x7F = p) [False, True]) (map word_of_nat [0..<256] :: u8 list)"
    by code_simp
  from all_bytes [OF this, of pt] assms
  show "(drop_bit 7 (rtp_byte1 m pt) AND 1 = 1) = m" and "rtp_byte1 m pt AND 0x7F = pt"
    by (cases m; simp)+
qed

text \<open>A header whose fields fit the wire format, without an extension.\<close>

definition rtp_hdr_encodable :: "rtp_header \<Rightarrow> bool" where
  "rtp_hdr_encodable h \<longleftrightarrow>
     (rh_ver h = 0 \<or> rh_ver h = 2) \<and> \<not> rh_ext h \<and> rh_cc h < 16 \<and> rh_pt h < 128
     \<and> length (rh_csrc h) = unat (rh_cc h) \<and> rh_x_type h = 0 \<and> rh_x_len h = 0"

lemma rtp_hdr_bytes_csrc:
  assumes "length (rh_csrc h) = unat (rh_cc h)"
  shows "concat (map (\<lambda>i. rev (mem_u32 (rh_csrc h ! i))) [0..<unat (rh_cc h)])
         = concat (map (\<lambda>v. rev (mem_u32 v)) (rh_csrc h))"
proof -
  have "map (\<lambda>i. rev (mem_u32 (rh_csrc h ! i))) [0..<length (rh_csrc h)]
        = map (\<lambda>v. rev (mem_u32 v)) (rh_csrc h)"
    by (rule nth_equalityI) simp_all
  with assms show ?thesis by simp
qed

lemma rtp_hdr_decode_data:
  assumes wf: "mbuf_wf mb" and d: "mbuf_data mb = rtp_hdr_bytes h @ payload"
    and enc: "rtp_hdr_encodable h"
  obtains m where "rtp_hdr_decode mb = Inr (h, m)" "mbuf_wf m" "mbuf_data m = payload"
proof -
  let ?b0 = "rtp_byte0 (rh_ver h) (rh_pad h) False (rh_cc h)"
  let ?b1 = "rtp_byte1 (rh_m h) (rh_pt h)"
  let ?cs = "concat (map (\<lambda>v. rev (mem_u32 v)) (rh_csrc h))"
  have lc: "length (rh_csrc h) = unat (rh_cc h)" using enc by (simp add: rtp_hdr_encodable_def)
  have d': "mbuf_data mb = [?b0, ?b1] @ rev (mem_u16 (rh_seq h)) @ rev (mem_u32 (rh_ts h))
      @ rev (mem_u32 (rh_ssrc h)) @ ?cs @ payload"
    using d enc by (simp add: rtp_hdr_bytes_def rtp_hdr_bytes_csrc [OF lc] rtp_hdr_encodable_def)
  obtain m0 where m0: "mbuf_read_mem mb 2 = Inr ([?b0, ?b1], m0)" "mbuf_wf m0"
      "mbuf_data m0 = rev (mem_u16 (rh_seq h)) @ rev (mem_u32 (rh_ts h))
        @ rev (mem_u32 (rh_ssrc h)) @ ?cs @ payload"
    using mbuf_read_data [OF wf d'] by (simp add: numeral_2_eq_2)
  obtain m1 where m1: "mbuf_read_u16 m0 = (htons (rh_seq h), m1)" "mbuf_wf m1"
      "mbuf_data m1 = rev (mem_u32 (rh_ts h)) @ rev (mem_u32 (rh_ssrc h)) @ ?cs @ payload"
    using m0(2,3) by (rule mbuf_read_u16_data)
  obtain m2 where m2: "mbuf_read_u32 m1 = (htonl (rh_ts h), m2)" "mbuf_wf m2"
      "mbuf_data m2 = rev (mem_u32 (rh_ssrc h)) @ ?cs @ payload"
    using m1(2,3) by (rule mbuf_read_u32_data)
  obtain m3 where m3: "mbuf_read_u32 m2 = (htonl (rh_ssrc h), m3)" "mbuf_wf m3"
      "mbuf_data m3 = ?cs @ payload"
    using m2(2,3) by (rule mbuf_read_u32_data)
  obtain m4 where m4: "read_csrcs (length (rh_csrc h)) m3 = (rh_csrc h, m4)" "mbuf_wf m4"
      "mbuf_data m4 = payload"
    using m3(2,3) by (rule read_csrcs_data)
  have left: "\<not> mbuf_get_left mb < 12"
    using mbuf_get_left_data [OF wf] d by simp
  have "length ?cs = 4 * length (rh_csrc h)"
    by (induction "rh_csrc h") (simp_all add: length_concat sum_list_triv o_def)
  then have left3: "\<not> mbuf_get_left m3 < unat (rh_cc h) * 4"
    using mbuf_get_left_data [OF m3(2)] m3(3) lc by simp
  have bits: "drop_bit 6 ?b0 AND 3 = rh_ver h" "(drop_bit 5 ?b0 AND 1 = 1) = rh_pad h"
      "(drop_bit 4 ?b0 AND 1 = 1) = False" "?b0 AND 0x0F = rh_cc h"
      "(drop_bit 7 ?b1 AND 1 = 1) = rh_m h" "?b1 AND 0x7F = rh_pt h"
    using enc by (simp_all add: rtp_hdr_encodable_def rtp_byte0_fields rtp_byte1_fields)
  have "rtp_hdr_decode mb = Inr (h, m4)"
    using enc left left3 m4(1) lc
    by (simp add: rtp_hdr_decode_def m0(1) m1(1) m2(1) m3(1) bits rtp_hdr_encodable_def Let_def)
  from this m4(2,3) show ?thesis by (rule that)
qed

section \<open>Packets\<close>

text \<open>
  How every sender builds a packet: \<open>mbuf_alloc\<close>, \<open>rtp_hdr_encode\<close>, the payload pieces, and the
  position back to the start.
\<close>

definition rtp_packet :: "rtp_header \<Rightarrow> bytes list \<Rightarrow> bytes" where
  "rtp_packet hdr pieces =
     mbuf_data (mbuf_set_pos (foldl mbuf_write_mem
       (rtp_hdr_encode (mbuf_alloc (12 + length (concat pieces))) hdr) pieces) 0)"

lemma rtp_packet_bytes [layout]: "rtp_packet hdr pieces = rtp_hdr_bytes hdr @ concat pieces"
proof -
  have "mbuf_appending (rtp_hdr_encode (mbuf_alloc n) hdr)" for n
    by (rule rtp_hdr_encode_appends(1)) (rule mb.alloc_appending)
  from mb.fold_put [OF this] show ?thesis
    unfolding rtp_packet_def
    by (simp add: mb.rewind_deliver rtp_hdr_encode_appends(2) mb.alloc_appending mb.alloc_written)
qed

text \<open>A buffer that holds the packet \<open>p\<close> and is about to be read.\<close>

definition packet_mbuf :: "bytes \<Rightarrow> mbuf" where
  "packet_mbuf p = \<lparr>mb_buf = p, mb_pos = 0, mb_end = length p\<rparr>"

lemma packet_mbuf_data [simp]: "mbuf_data (packet_mbuf p) = p" "mbuf_wf (packet_mbuf p)"
  by (simp_all add: packet_mbuf_def mbuf_data_def mbuf_get_left_def mbuf_wf_def)

section \<open>Properties\<close>

text \<open>
  C37: an RTP packet built by the senders decodes to the header it was built from (for any
  representable header: version 0 or 2, up to 15 contributing sources, a 7-bit payload type),
  and the bytes left in the buffer are exactly the payload.
\<close>

theorem rtp_packet_roundtrip:
  assumes "rtp_hdr_encodable h"
    and "mbuf_wf mb" and "mbuf_data mb = rtp_packet h pieces"
  shows "\<exists>m. rtp_hdr_decode mb = Inr (h, m) \<and> mbuf_wf m \<and> mbuf_data m = concat pieces"
proof -
  have "mbuf_data mb = rtp_hdr_bytes h @ concat pieces"
    using assms(3) by (simp add: rtp_packet_bytes)
  with assms(2) obtain m where "rtp_hdr_decode mb = Inr (h, m)" "mbuf_wf m" "mbuf_data m = concat pieces"
    using assms(1) by (rule rtp_hdr_decode_data)
  then show ?thesis by blast
qed

definition rtp_example :: rtp_header where
  "rtp_example = rtp_header_zero\<lparr>rh_ver := 2, rh_m := True, rh_pt := 107, rh_seq := 0x1234,
     rh_ts := 0xDEADBEEF, rh_cc := 1, rh_csrc := [7]\<rparr>"

theorem rtp_packet_roundtrip_witness:
  "\<exists>m. rtp_hdr_decode (mbuf_write_mem (mbuf_alloc 0) (rtp_packet rtp_example [[1, 2], [3]])\<lparr>mb_pos := 0\<rparr>)
       = Inr (rtp_example, m) \<and> mbuf_data m = [1, 2, 3]"
proof -
  let ?p = "rtp_packet rtp_example [[1, 2], [3]]"
  let ?mb = "mbuf_write_mem (mbuf_alloc 0) ?p\<lparr>mb_pos := 0\<rparr>"
  have e: "rtp_hdr_encodable rtp_example"
    by (simp add: rtp_hdr_encodable_def rtp_example_def rtp_header_zero_def)
  have w: "mbuf_wf ?mb"
    using mbuf_write_mem_wf [OF mbuf_alloc_wf, of 0 ?p] by (simp add: mbuf_wf_def)
  have d: "mbuf_data ?mb = ?p"
    using mbuf_data_write [of "mbuf_alloc 0" ?p] by (simp add: mbuf_set_pos_def)
  show ?thesis using rtp_packet_roundtrip [OF e w d] by auto
qed

end
