(* ===== verification/H264_Rtp.thy ===== *)
theory H264_Rtp
  imports Rtp
begin

text \<open>
  The packetisation of H.264 units into RTP (RFC 6184) that \<open>session.c\<close> (\<open>send_h264_nalu_rtp\<close>) and
  \<open>rtsp_server.c\<close> (\<open>send_h264_nalu_to_client\<close>) share: a unit of at most \<open>RTP_MTU\<close> bytes is a packet of its
  own, a longer one is cut into FU-A fragments. \<open>h264_nalu_packets\<close> is that common code; the two senders
  are built from it in their own theories and differ in where the packets go.

  The receiver of the specification, \<open>reassemble\<close>, follows RFC 6184; it is not part of the program.
\<close>

abbreviation RTP_MTU :: nat where "RTP_MTU \<equiv> 1200"
abbreviation PT_PCMU :: u8 where "PT_PCMU \<equiv> 0"
abbreviation PT_H264 :: u8 where "PT_H264 \<equiv> 107"
abbreviation AUDIO_SRATE :: int where "AUDIO_SRATE \<equiv> 8000"
abbreviation AUDIO_PTIME :: nat where "AUDIO_PTIME \<equiv> 20"
abbreviation AUDIO_SAMPLES :: nat where "AUDIO_SAMPLES \<equiv> 160"
abbreviation VIDEO_WIDTH :: nat where "VIDEO_WIDTH \<equiv> 320"
abbreviation VIDEO_HEIGHT :: nat where "VIDEO_HEIGHT \<equiv> 240"
abbreviation VIDEO_FPS :: nat where "VIDEO_FPS \<equiv> 15"
abbreviation VIDEO_PTIME :: nat where "VIDEO_PTIME \<equiv> 1000 div VIDEO_FPS"
abbreviation VIDEO_CLOCK :: nat where "VIDEO_CLOCK \<equiv> 90000"

section \<open>The senders' packets\<close>

text \<open>The header every media packet gets: zeroed, then version, marker, type, sequence, time, source.\<close>

definition media_header :: "bool \<Rightarrow> u8 \<Rightarrow> u16 \<Rightarrow> u32 \<Rightarrow> u32 \<Rightarrow> rtp_header" where
  "media_header m pt sq ts ssrc =
     rtp_header_zero\<lparr>rh_ver := 2, rh_m := m, rh_pt := pt, rh_seq := sq, rh_ts := ts, rh_ssrc := ssrc\<rparr>"

text \<open>
  The fragmentation loop from fragment number \<open>k\<close> on, with \<open>payload\<close> what is left to send; \<open>alloc k\<close> tells
  whether the buffer of fragment \<open>k\<close> could be allocated. The result is the packets handed to the
  transport and the next sequence number.
\<close>

function fu_loop ::
  "(nat \<Rightarrow> bool) \<Rightarrow> nat \<Rightarrow> u32 \<Rightarrow> u32 \<Rightarrow> u8 \<Rightarrow> u8 \<Rightarrow> bool \<Rightarrow> bool \<Rightarrow> u16 \<Rightarrow> bytes \<Rightarrow> bytes list \<times> u16" where
  "fu_loop alloc k ts ssrc fu_indicator nal_type is_last first sq payload =
     (if payload = [] then ([], sq)
      else (let chunk = (if length payload > RTP_MTU - 2 then RTP_MTU - 2 else length payload);
                last_frag = (chunk \<ge> length payload);
                hdr = media_header (last_frag \<and> is_last) PT_H264 sq ts ssrc;
                fu0 = nal_type AND 0x1F;
                fu1 = (if first then fu0 OR 0x80 else fu0);
                fu_header = (if last_frag then fu1 OR 0x40 else fu1)
            in if \<not> alloc k then ([], sq)
               else (let (ps, sq') = fu_loop alloc (Suc k) ts ssrc fu_indicator nal_type is_last False (sq + 1)
                                       (drop chunk payload)
                     in (rtp_packet hdr [[fu_indicator], [fu_header], take chunk payload] # ps, sq'))))"
  by pat_completeness auto
termination
  by (relation "measure (\<lambda>(_, _, _, _, _, _, _, _, _, payload). length payload)") auto

declare fu_loop.simps [simp del]

definition h264_nalu_packets ::
  "(nat \<Rightarrow> bool) \<Rightarrow> u32 \<Rightarrow> u32 \<Rightarrow> u16 \<Rightarrow> bytes \<Rightarrow> bool \<Rightarrow> bytes list \<times> u16" where
  "h264_nalu_packets alloc ts ssrc sq nalu is_last =
     (if length nalu < 1 then ([], sq)
      else (let nal_header = nalu ! 0
            in if length nalu \<le> RTP_MTU
               then (if \<not> alloc 0 then ([], sq)
                     else ([rtp_packet (media_header is_last PT_H264 sq ts ssrc) [nalu]], sq + 1))
               else fu_loop alloc 0 ts ssrc ((nal_header AND 0xE0) OR 28) (nal_header AND 0x1F) is_last True sq
                      (drop 1 nalu)))"

text \<open>
  The loop of the video timers over the units of a frame; \<open>alloc i\<close> are the allocations for unit \<open>i\<close>, and
  only the last unit is sent with \<open>is_last\<close>.
\<close>

fun send_frame ::
  "((nat \<Rightarrow> bool) \<Rightarrow> 's \<Rightarrow> bytes \<Rightarrow> bool \<Rightarrow> bytes list \<times> 's) \<Rightarrow> (nat \<Rightarrow> nat \<Rightarrow> bool) \<Rightarrow> 's \<Rightarrow> bytes list
   \<Rightarrow> bytes list \<times> 's" where
  "send_frame send alloc s [] = ([], s)"
| "send_frame send alloc s (n # ns) =
     (let (ps, s1) = send (alloc 0) s n (ns = []);
          (qs, s2) = send_frame send (\<lambda>i. alloc (Suc i)) s1 ns
      in (ps @ qs, s2))"

section \<open>The receiver of the specification\<close>

text \<open>A received datagram: its header and payload.\<close>

definition rtp_open :: "bytes \<Rightarrow> (rtp_header \<times> bytes) option" where
  "rtp_open p =
     (case rtp_hdr_decode (mbuf_set_pos (mbuf_write_mem (mbuf_alloc 0) p) 0) of
        Inl _ \<Rightarrow> None
      | Inr (h, m) \<Rightarrow> Some (h, mbuf_data m))"

text \<open>Reassembly of units from the payloads in sequence; \<open>cur\<close> is the unit being collected.\<close>

fun reassemble :: "bytes option \<Rightarrow> bytes list \<Rightarrow> bytes list option" where
  "reassemble cur [] = (if cur = None then Some [] else None)"
| "reassemble cur (p # ps) =
     (if p = [] then None
      else if p ! 0 AND 0x1F = 28
      then (if length p < 2 then None
            else (case (if p ! 1 AND 0x80 \<noteq> 0
                        then (if cur = None then Some [(p ! 0 AND 0xE0) OR (p ! 1 AND 0x1F)] else None)
                        else cur) of
                    None \<Rightarrow> None
                  | Some b \<Rightarrow>
                      if p ! 1 AND 0x40 \<noteq> 0
                      then map_option (Cons (b @ drop 2 p)) (reassemble None ps)
                      else reassemble (Some (b @ drop 2 p)) ps))
      else if cur = None then map_option (Cons p) (reassemble None ps) else None)"

text \<open>Units that may be sent as they are: not empty, and not of the types reserved for aggregation and fragments.\<close>

definition nal_unit :: "bytes \<Rightarrow> bool" where
  "nal_unit n \<longleftrightarrow> n \<noteq> [] \<and> n ! 0 AND 0x1F < 24"

section \<open>Payloads without headers\<close>

function fu_payloads :: "u8 \<Rightarrow> u8 \<Rightarrow> bool \<Rightarrow> bytes \<Rightarrow> bytes list" where
  "fu_payloads ind nt first payload =
     (if payload = [] then []
      else (let chunk = min (RTP_MTU - 2) (length payload);
                fu = nt OR (if first then 0x80 else 0) OR (if length payload \<le> RTP_MTU - 2 then 0x40 else 0)
            in (ind # fu # take chunk payload) # fu_payloads ind nt False (drop chunk payload)))"
  by pat_completeness auto
termination
  by (relation "measure (\<lambda>(_, _, _, payload). length payload)") auto

declare fu_payloads.simps [simp del]

definition nalu_payloads :: "bytes \<Rightarrow> bytes list" where
  "nalu_payloads nalu =
     (if nalu = [] then []
      else if length nalu \<le> RTP_MTU then [nalu]
      else fu_payloads ((nalu ! 0 AND 0xE0) OR 28) (nalu ! 0 AND 0x1F) True (drop 1 nalu))"

text \<open>Payloads as packets with consecutive sequence numbers, the marker on the last one when asked for.\<close>

fun number_packets :: "u32 \<Rightarrow> u32 \<Rightarrow> bool \<Rightarrow> u16 \<Rightarrow> bytes list \<Rightarrow> bytes list" where
  "number_packets ts ssrc mark sq [] = []"
| "number_packets ts ssrc mark sq (p # ps) =
     rtp_packet (media_header (mark \<and> ps = []) PT_H264 sq ts ssrc) [p] # number_packets ts ssrc mark (sq + 1) ps"

lemma fu_payloads_Nil [simp]: "fu_payloads ind nt first [] = []"
  by (simp add: fu_payloads.simps)

lemma fu_payloads_empty [simp]: "fu_payloads ind nt first payload = [] \<longleftrightarrow> payload = []"
  by (subst fu_payloads.simps) (simp add: Let_def)

lemma fu_loop_numbers:
  assumes "nt = nt AND 0x1F"
  shows "fu_loop (\<lambda>_. True) k ts ssrc ind nt mark first sq payload =
     (number_packets ts ssrc mark sq (fu_payloads ind nt first payload),
      sq + of_nat (length (fu_payloads ind nt first payload)))"
  using assms
proof (induction "\<lambda>_ :: nat. True" k ts ssrc ind nt mark first sq payload rule: fu_loop.induct)
  case (1 k ts ssrc ind nt mark first sq payload)
  show ?case
  proof (cases "payload = []")
    case False
    let ?chunk = "if length payload > RTP_MTU - 2 then RTP_MTU - 2 else length payload"
    have chunk: "min (RTP_MTU - 2) (length payload) = ?chunk" by auto
    have rest: "drop ?chunk payload = [] \<longleftrightarrow> length payload \<le> RTP_MTU - 2" by auto
    note IH = 1(1) [OF False refl refl refl refl refl refl _ 1(2)]
    show ?thesis
      apply (subst fu_loop.simps)
      apply (subst fu_payloads.simps)
      apply (subst (2) fu_payloads.simps)
      using False IH 1(2) rest
      by (auto simp: Let_def chunk rtp_packet_bytes or.assoc split: if_splits)
  qed (simp add: fu_loop.simps)
qed

lemma h264_nalu_numbers:
  assumes "\<And>k. alloc k"
  shows "h264_nalu_packets alloc ts ssrc sq nalu mark =
     (number_packets ts ssrc mark sq (nalu_payloads nalu), sq + of_nat (length (nalu_payloads nalu)))"
proof -
  have "alloc = (\<lambda>_. True)" using assms by auto
  then show ?thesis
    by (auto simp: h264_nalu_packets_def nalu_payloads_def Let_def fu_loop_numbers and.assoc Suc_le_eq)
qed

lemma nalu_payloads_empty [simp]: "nalu_payloads nalu = [] \<longleftrightarrow> nalu = []"
  by (auto simp: nalu_payloads_def)

section \<open>Packets\<close>

lemma length_number_packets [simp]: "length (number_packets ts ssrc mark sq ps) = length ps"
  by (induction ts ssrc mark sq ps rule: number_packets.induct) auto

lemma number_packets_append:
  "qs \<noteq> [] \<Longrightarrow>
   number_packets ts ssrc mark sq (ps @ qs) =
     number_packets ts ssrc False sq ps @ number_packets ts ssrc mark (sq + of_nat (length ps)) qs"
  by (induction ts ssrc mark sq ps rule: number_packets.induct) (auto simp: ac_simps)

lemma number_packets_nth:
  "i < length ps \<Longrightarrow>
   number_packets ts ssrc mark sq ps ! i =
     rtp_packet (media_header (mark \<and> i = length ps - 1) PT_H264 (sq + of_nat i) ts ssrc) [ps ! i]"
proof (induction ts ssrc mark sq ps arbitrary: i rule: number_packets.induct)
  case (2 ts ssrc mark sq p ps)
  show ?case
  proof (cases i)
    case 0 then show ?thesis by (cases ps) auto
  next
    case (Suc j)
    with 2 have j: "j < length ps" by simp
    then have "j = length ps - 1 \<longleftrightarrow> Suc j = length ps" by auto
    with 2(1) [OF j] Suc show ?thesis by (simp add: ac_simps)
  qed
qed simp

text \<open>The header as the receiver sees it: the contributing sources it does not carry are absent.\<close>

abbreviation received_header :: "bool \<Rightarrow> u8 \<Rightarrow> u16 \<Rightarrow> u32 \<Rightarrow> u32 \<Rightarrow> rtp_header" where
  "received_header m pt sq ts ssrc \<equiv> media_header m pt sq ts ssrc\<lparr>rh_csrc := []\<rparr>"

lemma media_header_bytes:
  "rtp_hdr_bytes (media_header m pt sq ts ssrc) = rtp_hdr_bytes (received_header m pt sq ts ssrc)"
  by (simp add: rtp_hdr_bytes_def media_header_def rtp_header_zero_def)

lemma media_header_length [simp]: "length (rtp_hdr_bytes (media_header m pt sq ts ssrc)) = 12"
  by (simp add: rtp_hdr_bytes_def media_header_def rtp_header_zero_def)

lemma media_header_cc [simp]: "rh_cc (media_header m pt sq ts ssrc) = 0"
  by (simp add: media_header_def rtp_header_zero_def)

lemma rtp_open_packet:
  assumes "pt < 128"
  shows "rtp_open (rtp_packet (media_header m pt sq ts ssrc) ps) = Some (received_header m pt sq ts ssrc, concat ps)"
proof -
  let ?h = "received_header m pt sq ts ssrc" and ?p = "rtp_packet (media_header m pt sq ts ssrc) ps"
  let ?mb = "mbuf_set_pos (mbuf_write_mem (mbuf_alloc 0) ?p) 0"
  have e: "rtp_hdr_encodable ?h"
    using assms by (simp add: rtp_hdr_encodable_def media_header_def rtp_header_zero_def)
  have w: "mbuf_wf ?mb"
    using mbuf_write_mem_wf [OF mbuf_alloc_wf, of 0 ?p] by (simp add: mbuf_wf_def mbuf_set_pos_def)
  have d: "mbuf_data ?mb = rtp_hdr_bytes ?h @ concat ps"
    using mbuf_data_write [of "mbuf_alloc 0" ?p]
    by (simp add: rtp_packet_bytes media_header_bytes)
  obtain m where "rtp_hdr_decode ?mb = Inr (?h, m)" "mbuf_data m = concat ps"
    using rtp_hdr_decode_data [OF w d e] by blast
  then show ?thesis by (simp add: rtp_open_def)
qed

section \<open>Reassembly inverts fragmentation\<close>

lemma fu_header_bits:
  assumes "nt = nt AND 0x1F" and "s = 0 \<or> s = 0x80" and "e = 0 \<or> e = (0x40 :: u8)"
  shows "((nt OR s OR e) AND 0x80 \<noteq> 0) = (s \<noteq> 0)" "((nt OR s OR e) AND 0x40 \<noteq> 0) = (e \<noteq> 0)"
    "(nt OR s OR e) AND 0x1F = nt"
proof -
  have "list_all (\<lambda>n :: u8. list_all (\<lambda>s. list_all (\<lambda>e.
          (((n AND 0x1F OR s OR e) AND 0x80 \<noteq> 0) = (s \<noteq> 0)) \<and>
          (((n AND 0x1F OR s OR e) AND 0x40 \<noteq> 0) = (e \<noteq> 0)) \<and>
          (n AND 0x1F OR s OR e) AND 0x1F = n AND 0x1F) [0, 0x40]) [0, 0x80])
        (map word_of_nat [0..<256])"
    by (simp add: upt_rec)
  then have "list_all (\<lambda>s. list_all (\<lambda>e.
          (((nt AND 0x1F OR s OR e) AND 0x80 \<noteq> 0) = (s \<noteq> 0)) \<and>
          (((nt AND 0x1F OR s OR e) AND 0x40 \<noteq> 0) = (e \<noteq> 0)) \<and>
          (nt AND 0x1F OR s OR e) AND 0x1F = nt AND 0x1F) [0, 0x40]) [0, 0x80]"
    by (rule all_bytes)
  with assms show "((nt OR s OR e) AND 0x80 \<noteq> 0) = (s \<noteq> 0)" "((nt OR s OR e) AND 0x40 \<noteq> 0) = (e \<noteq> 0)"
    "(nt OR s OR e) AND 0x1F = nt" by auto
qed

lemma fu_indicator_bits: "((b AND 0xE0) OR 28 :: u8) AND 0x1F = 28" "((b AND 0xE0) OR 28 :: u8) AND 0xE0 = b AND 0xE0"
  "(b AND 0xE0) OR (b AND 0x1F) = (b :: u8)"
proof -
  have "list_all (\<lambda>b :: u8. ((b AND 0xE0) OR 28) AND 0x1F = 28 \<and> ((b AND 0xE0) OR 28) AND 0xE0 = b AND 0xE0
          \<and> (b AND 0xE0) OR (b AND 0x1F) = b) (map word_of_nat [0..<256])"
    by (simp add: upt_rec)
  from all_bytes [OF this] show "((b AND 0xE0) OR 28) AND 0x1F = 28" "((b AND 0xE0) OR 28) AND 0xE0 = b AND 0xE0"
    "(b AND 0xE0) OR (b AND 0x1F) = b" by auto
qed

lemma reassemble_continue:
  assumes "ind AND 0x1F = 28" and "nt = nt AND 0x1F" and "payload \<noteq> []"
  shows "reassemble (Some b) (fu_payloads ind nt False payload @ rest) =
           map_option (Cons (b @ payload)) (reassemble None rest)"
  using assms
proof (induction ind nt False payload arbitrary: b rule: fu_payloads.induct)
  case (1 ind nt payload)
  have bits: "(nt OR 0x40) AND 0x80 = 0" "(nt OR 0x40) AND 0x40 \<noteq> 0" "nt AND 0x80 = 0" "nt AND 0x40 = 0"
    using fu_header_bits [where nt = nt and s = 0 and e = "0x40"] fu_header_bits [where nt = nt and s = 0 and e = 0]
      1(3) by auto
  show ?case
  proof (cases "length payload \<le> RTP_MTU - 2")
    case True
    with 1(2-4) show ?thesis
      by (subst fu_payloads.simps) (simp add: Let_def bits)
  next
    case False
    then have "drop (RTP_MTU - 2) payload \<noteq> []" by simp
    from 1(1) [OF 1(4) refl refl, of "b @ take (RTP_MTU - 2) payload"] this False 1(2-4) show ?thesis
      by (subst fu_payloads.simps) (simp add: Let_def bits)
  qed
qed

lemma reassemble_fu:
  assumes "length nalu > RTP_MTU"
  shows "reassemble None (nalu_payloads nalu @ rest) = map_option (Cons nalu) (reassemble None rest)"
proof -
  obtain b payload where n: "nalu = b # payload" using assms by (cases nalu) auto
  let ?ind = "(b AND 0xE0) OR 28" and ?nt = "b AND 0x1F"
  have nt: "?nt = ?nt AND 0x1F" by (simp add: and.assoc)
  have *: "drop (RTP_MTU - 2) payload \<noteq> []" "\<not> length payload \<le> RTP_MTU - 2" "payload \<noteq> []"
    using assms n by auto
  have bits: "(?nt OR 0x80) AND 0x80 \<noteq> 0" "(?nt OR 0x80) AND 0x40 = 0" "(?nt OR 0x80) AND 0x1F = ?nt"
    using fu_header_bits [OF nt, where s = "0x80" and e = 0] by simp_all
  have hd: "(?ind AND 0xE0) OR ?nt = b" by (simp only: fu_indicator_bits)
  have p: "nalu_payloads nalu =
      (?ind # (?nt OR 0x80) # take (RTP_MTU - 2) payload) # fu_payloads ?ind ?nt False (drop (RTP_MTU - 2) payload)"
    using assms * n by (simp add: nalu_payloads_def) (subst fu_payloads.simps, simp add: Let_def)
  have "reassemble None (nalu_payloads nalu @ rest) =
      reassemble (Some ([b] @ take (RTP_MTU - 2) payload))
        (fu_payloads ?ind ?nt False (drop (RTP_MTU - 2) payload) @ rest)"
    unfolding p by (simp add: fu_indicator_bits(1) bits hd del: word_bw_assocs)
  then show ?thesis
    using reassemble_continue [OF fu_indicator_bits(1) nt *(1)] n by simp
qed

lemma reassemble_nalu:
  assumes "nal_unit nalu"
  shows "reassemble None (nalu_payloads nalu @ rest) = map_option (Cons nalu) (reassemble None rest)"
proof (cases "length nalu \<le> RTP_MTU")
  case True
  moreover have "nalu ! 0 AND 0x1F \<noteq> 28" using assms by (auto simp: nal_unit_def)
  ultimately show ?thesis using assms by (simp add: nalu_payloads_def nal_unit_def)
qed (simp add: reassemble_fu)

lemma reassemble_frame:
  "\<forall>n \<in> set nalus. nal_unit n \<Longrightarrow> reassemble None (concat (map nalu_payloads nalus)) = Some nalus"
  by (induction nalus) (simp_all add: reassemble_nalu)

lemma fu_payloads_bound: "p \<in> set (fu_payloads ind nt first payload) \<Longrightarrow> length p \<le> RTP_MTU"
proof (induction ind nt first payload rule: fu_payloads.induct)
  case (1 ind nt first payload)
  from 1(2) have "payload \<noteq> []" by (cases "payload = []") auto
  with 1 show ?case by (subst (asm) (2) fu_payloads.simps) (auto simp: Let_def)
qed

lemma nalu_payloads_bound: "p \<in> set (nalu_payloads nalu) \<Longrightarrow> length p \<le> RTP_MTU"
  by (auto simp: nalu_payloads_def dest: fu_payloads_bound split: if_splits)

section \<open>Frames\<close>

text \<open>
  What a sender delivers for a frame: every packet opens, the units come back in order, the headers
  carry consecutive sequence numbers, one time stamp and source, and the marker on the last packet only,
  and no packet is larger than the header and \<open>RTP_MTU\<close>.
\<close>

definition frame_delivered :: "u32 \<Rightarrow> u32 \<Rightarrow> u16 \<Rightarrow> bytes list \<Rightarrow> bytes list \<Rightarrow> bool" where
  "frame_delivered ts ssrc sq nalus ps \<longleftrightarrow>
     (\<exists>hs. map rtp_open ps = map Some hs
       \<and> reassemble None (map snd hs) = Some nalus
       \<and> (\<forall>i < length hs. fst (hs ! i) = received_header (i = length hs - 1) PT_H264 (sq + of_nat i) ts ssrc))
     \<and> (\<forall>p \<in> set ps. length p \<le> 12 + RTP_MTU)"

lemma numbered_frame_delivered:
  assumes "\<forall>n \<in> set nalus. nal_unit n"
  shows "frame_delivered ts ssrc sq nalus (number_packets ts ssrc True sq (concat (map nalu_payloads nalus)))"
proof -
  let ?qs = "concat (map nalu_payloads nalus)"
  let ?ps = "number_packets ts ssrc True sq ?qs"
  let ?hs = "map (\<lambda>i. (received_header (i = length ?qs - 1) PT_H264 (sq + of_nat i) ts ssrc, ?qs ! i)) [0..<length ?qs]"
  have "map rtp_open ?ps = map Some ?hs"
    by (rule nth_equalityI) (simp_all add: number_packets_nth rtp_open_packet)
  moreover have "map snd ?hs = ?qs" by (rule nth_equalityI) simp_all
  moreover have "length p \<le> 12 + RTP_MTU" if p: "p \<in> set ?ps" for p
  proof -
    from p obtain i where i: "i < length ?qs" "p = ?ps ! i" by (auto simp: in_set_conv_nth)
    then have "?qs ! i \<in> set ?qs" using nth_mem by blast
    then have "length (?qs ! i) \<le> RTP_MTU" by (auto dest: nalu_payloads_bound)
    with i show ?thesis by (simp add: number_packets_nth rtp_packet_bytes)
  qed
  ultimately show ?thesis
    unfolding frame_delivered_def using reassemble_frame [OF assms] by (intro conjI exI [of _ ?hs]) simp_all
qed

text \<open>
  The contract of a sender of units: its packets and its sequence number are those of
  \<open>h264_nalu_packets\<close> for its current stream state, time stamp and source stay.
\<close>

locale nalu_sender =
  fixes send :: "(nat \<Rightarrow> bool) \<Rightarrow> 's \<Rightarrow> bytes \<Rightarrow> bool \<Rightarrow> bytes list \<times> 's"
    and sq_of :: "'s \<Rightarrow> u16" and ts_of :: "'s \<Rightarrow> u32" and ssrc_of :: "'s \<Rightarrow> u32"
  assumes send_packets:
      "(fst (send alloc s nalu mark), sq_of (snd (send alloc s nalu mark)))
         = h264_nalu_packets alloc (ts_of s) (ssrc_of s) (sq_of s) nalu mark"
    and send_ts: "ts_of (snd (send alloc s nalu mark)) = ts_of s"
    and send_ssrc: "ssrc_of (snd (send alloc s nalu mark)) = ssrc_of s"
begin

lemma send_numbers:
  assumes "\<And>k. alloc k"
  shows "fst (send alloc s nalu mark) = number_packets (ts_of s) (ssrc_of s) mark (sq_of s) (nalu_payloads nalu)"
    and "sq_of (snd (send alloc s nalu mark)) = sq_of s + of_nat (length (nalu_payloads nalu))"
  using send_packets [of alloc s nalu mark] by (simp_all add: h264_nalu_numbers assms)

lemma frame_numbers:
  assumes "\<And>i k. alloc i k" and "\<forall>n \<in> set nalus. n \<noteq> []"
  shows "fst (send_frame send alloc s nalus)
           = number_packets (ts_of s) (ssrc_of s) True (sq_of s) (concat (map nalu_payloads nalus))
       \<and> sq_of (snd (send_frame send alloc s nalus))
           = sq_of s + of_nat (length (concat (map nalu_payloads nalus)))
       \<and> ts_of (snd (send_frame send alloc s nalus)) = ts_of s
       \<and> ssrc_of (snd (send_frame send alloc s nalus)) = ssrc_of s"
  using assms
proof (induction nalus arbitrary: s alloc)
  case (Cons n ns)
  obtain ps s1 where 1: "send (alloc 0) s n (ns = []) = (ps, s1)" by fastforce
  obtain qs s2 where 2: "send_frame send (\<lambda>i. alloc (Suc i)) s1 ns = (qs, s2)" by fastforce
  have s1: "ps = number_packets (ts_of s) (ssrc_of s) (ns = []) (sq_of s) (nalu_payloads n)"
    "sq_of s1 = sq_of s + of_nat (length (nalu_payloads n))" "ts_of s1 = ts_of s" "ssrc_of s1 = ssrc_of s"
    using send_numbers [of "alloc 0" s n "ns = []"] send_ts [of "alloc 0" s n "ns = []"]
      send_ssrc [of "alloc 0" s n "ns = []"] Cons(2) 1 by auto
  have IH: "qs = number_packets (ts_of s) (ssrc_of s) True (sq_of s1) (concat (map nalu_payloads ns))"
    "sq_of s2 = sq_of s1 + of_nat (length (concat (map nalu_payloads ns)))" "ts_of s2 = ts_of s"
    "ssrc_of s2 = ssrc_of s"
    using Cons(1) [of "\<lambda>i. alloc (Suc i)" s1, OF Cons(2)] Cons(3) 2 s1(3,4) by auto
  show ?case
  proof (cases "ns = []")
    case True
    with 1 2 s1 show ?thesis by simp
  next
    case False
    then obtain m ms where "ns = m # ms" by (cases ns) auto
    with Cons(3) have ne: "concat (map nalu_payloads ns) \<noteq> []" by simp
    show ?thesis
      using False 1 2 s1 IH by (simp add: number_packets_append [OF ne])
  qed
qed simp

lemma frame_delivery:
  assumes "\<And>i k. alloc i k" and "\<forall>n \<in> set nalus. nal_unit n"
  shows "frame_delivered (ts_of s) (ssrc_of s) (sq_of s) nalus (fst (send_frame send alloc s nalus))"
proof -
  have "\<forall>n \<in> set nalus. n \<noteq> []" using assms(2) by (auto simp: nal_unit_def)
  with frame_numbers [of alloc nalus s] assms numbered_frame_delivered [OF assms(2)] show ?thesis by simp
qed

end

text \<open>When a buffer cannot be allocated the loop stops: the packets sent are the first ones of the unit.\<close>

lemma fu_loop_prefix:
  "\<exists>n. fst (fu_loop alloc k ts ssrc ind nt mark first sq payload)
     = take n (fst (fu_loop (\<lambda>_. True) k ts ssrc ind nt mark first sq payload))"
proof (induction alloc k ts ssrc ind nt mark first sq payload rule: fu_loop.induct)
  case (1 alloc k ts ssrc ind nt mark first sq payload)
  show ?case
  proof (cases "payload = [] \<or> \<not> alloc k")
    case True
    then have "fst (fu_loop alloc k ts ssrc ind nt mark first sq payload) = []"
      by (subst fu_loop.simps) (auto simp: Let_def)
    then show ?thesis by (metis take_0)
  next
    case False
    let ?chunk = "if length payload > RTP_MTU - 2 then RTP_MTU - 2 else length payload"
    from 1 False obtain n where
      "fst (fu_loop alloc (Suc k) ts ssrc ind nt mark False (sq + 1) (drop ?chunk payload))
       = take n (fst (fu_loop (\<lambda>_. True) (Suc k) ts ssrc ind nt mark False (sq + 1) (drop ?chunk payload)))"
      by blast
    with False have "fst (fu_loop alloc k ts ssrc ind nt mark first sq payload)
       = take (Suc n) (fst (fu_loop (\<lambda>_. True) k ts ssrc ind nt mark first sq payload))"
      apply (subst fu_loop.simps)
      apply (subst (2) fu_loop.simps)
      by (cases "1198 < length payload") (simp_all add: Let_def case_prod_beta)
    then show ?thesis by blast
  qed
qed

lemma h264_nalu_prefix:
  "\<exists>n. fst (h264_nalu_packets alloc ts ssrc sq nalu mark)
     = take n (fst (h264_nalu_packets (\<lambda>_. True) ts ssrc sq nalu mark))"
proof (cases "length nalu \<le> RTP_MTU")
  case True
  have "fst (h264_nalu_packets alloc ts ssrc sq nalu mark)
     = take (if alloc 0 then 1 else 0) (fst (h264_nalu_packets (\<lambda>_. True) ts ssrc sq nalu mark))"
    using True by (simp add: h264_nalu_packets_def Let_def)
  then show ?thesis by blast
qed (auto simp: h264_nalu_packets_def Let_def fu_loop_prefix intro: exI [of _ 0])

end
