(* ===== verification/Libre_Fmt.thy ===== *)
theory Libre_Fmt
  imports Prelude
begin

text \<open>
  The string formatting of libre that the program uses: \<open>re_snprintf\<close> with its print handler
  (\<open>src/fmt/print.c\<close>), the conversions \<open>%s %u %d %zu %02x %08x %08X\<close> as the sequences of pieces that
  \<open>vhprintf\<close> hands to the print handler, and \<open>str_ncpy\<close> (\<open>src/fmt/str.c\<close>).

  Unlike the C library's \<open>snprintf\<close>, the handler refuses a piece that does not fit as a whole and
  \<open>vhprintf\<close> stops there: the output is cut at a piece boundary and the result is \<open>-1\<close>.
\<close>

section \<open>Bounded printing\<close>

text \<open>\<open>print_chunks l cs\<close>: the pieces that fit into \<open>l\<close> bytes, and whether all of them did.\<close>

fun print_chunks :: "nat \<Rightarrow> string list \<Rightarrow> string \<times> bool" where
  "print_chunks l [] = ([], True)"
| "print_chunks l (c # cs) =
     (if length c > l then ([], False)
      else (let (s, ok) = print_chunks (l - length c) cs in (c @ s, ok)))"

text \<open>The returned count is \<open>None\<close> where the C function returns \<open>-1\<close>.\<close>

definition re_snprintf :: "nat \<Rightarrow> string list \<Rightarrow> string \<times> nat option" where
  "re_snprintf sz cs =
     (if sz = 0 then ([], None)
      else (let (s, ok) = print_chunks (sz - 1) cs
            in (s, if ok then Some (length s) else None)))"

definition str_ncpy :: "string \<Rightarrow> nat \<Rightarrow> string" where
  "str_ncpy src n = take (n - 1) src"

section \<open>Conversions\<close>

definition fmt_u :: "nat \<Rightarrow> string list" where
  "fmt_u n = [itoa_dec n]"

definition fmt_d :: "int \<Rightarrow> string list" where
  "fmt_d i = (if i < 0 then [''-'', itoa_dec (nat (- i))] else [itoa_dec (nat i)])"

text \<open>\<open>write_padded\<close> emits each padding character as a piece of its own.\<close>

definition fmt_pad0 :: "nat \<Rightarrow> string \<Rightarrow> string list" where
  "fmt_pad0 w ds = replicate (w - length ds) ''0'' @ [ds]"

definition fmt_08x :: "u32 \<Rightarrow> string list" where
  "fmt_08x v = fmt_pad0 8 (itoa_hex digit_char (unat v))"

definition fmt_08X :: "u32 \<Rightarrow> string list" where
  "fmt_08X v = fmt_pad0 8 (itoa_hex digit_char_uc (unat v))"

definition fmt_02x :: "u8 \<Rightarrow> string" where
  "fmt_02x v = concat (fmt_pad0 2 (itoa_hex digit_char (unat v)))"

section \<open>Lemmas\<close>

lemma print_chunks_length: "length (fst (print_chunks l cs)) \<le> l"
  by (induction l cs rule: print_chunks.induct) (auto split: prod.splits)

lemma print_chunks_aligned:
  "\<exists>k \<le> length cs. fst (print_chunks l cs) = concat (take k cs)
     \<and> (snd (print_chunks l cs) \<longleftrightarrow> k = length cs)"
proof (induction l cs rule: print_chunks.induct)
  case (2 l c cs)
  show ?case
  proof (cases "length c > l")
    case True
    then show ?thesis by (intro exI [of _ 0]) simp
  next
    case False
    with 2 obtain k where "k \<le> length cs"
      "fst (print_chunks (l - length c) cs) = concat (take k cs)"
      "snd (print_chunks (l - length c) cs) \<longleftrightarrow> k = length cs" by auto
    with False show ?thesis by (intro exI [of _ "Suc k"]) (auto split: prod.splits)
  qed
qed simp

lemma print_chunks_fits: "length (concat cs) \<le> l \<Longrightarrow> print_chunks l cs = (concat cs, True)"
  by (induction l cs rule: print_chunks.induct) auto

lemma re_snprintf_length: "0 < sz \<Longrightarrow> length (fst (re_snprintf sz cs)) < sz"
  using print_chunks_length [of "sz - 1" cs]
  by (auto simp: re_snprintf_def split: prod.splits)

lemma re_snprintf_fits:
  "length (concat cs) < sz \<Longrightarrow> re_snprintf sz cs = (concat cs, Some (length (concat cs)))"
  by (auto simp: re_snprintf_def print_chunks_fits)

text \<open>What does not fit makes the call fail, and the output is then a shorter text, cut between two pieces.\<close>

lemma re_snprintf_overflow:
  assumes "sz \<le> length (concat cs)"
  shows "snd (re_snprintf sz cs) = None"
proof (cases "sz = 0")
  case False
  have "\<not> snd (print_chunks (sz - 1) cs)"
  proof
    assume "snd (print_chunks (sz - 1) cs)"
    with print_chunks_aligned [of cs "sz - 1"] have "fst (print_chunks (sz - 1) cs) = concat cs" by auto
    with print_chunks_length [of "sz - 1" cs] assms False show False by simp
  qed
  with False show ?thesis by (simp add: re_snprintf_def case_prod_beta Let_def)
qed (simp add: re_snprintf_def)

lemma length_fmt_pad0: "length ds \<le> w \<Longrightarrow> length (concat (fmt_pad0 w ds)) = w"
  by (simp add: fmt_pad0_def length_concat sum_list_replicate)

lemma length_fmt_02x [simp]: "length (fmt_02x v) = 2"
proof -
  have "unat v < 16 ^ 2" using unsigned_less [of v, where 'a = nat] by simp
  then show ?thesis by (simp add: fmt_02x_def length_fmt_pad0 itoa_hex_length)
qed

lemma length_fmt_08 [simp]:
  "length (concat (fmt_08x v)) = 8" "length (concat (fmt_08X v)) = 8"
proof -
  have "unat v < 16 ^ 8" using unsigned_less [of v, where 'a = nat] by simp
  then show "length (concat (fmt_08x v)) = 8" "length (concat (fmt_08X v)) = 8"
    by (simp_all add: fmt_08x_def fmt_08X_def length_fmt_pad0 itoa_hex_length)
qed

lemma length_str_ncpy: "0 < n \<Longrightarrow> length (str_ncpy s n) < n"
  by (simp add: str_ncpy_def)

lemma str_ncpy_fits: "length s < n \<Longrightarrow> str_ncpy s n = s"
  by (simp add: str_ncpy_def)

lemma length_fmt_u_u32 [simp]: "length (concat (fmt_u (unat (v :: u32)))) \<le> 10"
proof -
  have "unat v < 10 ^ 10" using unsigned_less [of v, where 'a = nat] by simp
  then show ?thesis by (simp add: fmt_u_def itoa_dec_length)
qed

lemma length_fmt_u_u16 [simp]: "length (concat (fmt_u (unat (v :: u16)))) \<le> 5"
proof -
  have "unat v < 10 ^ 5" using unsigned_less [of v, where 'a = nat] by simp
  then show ?thesis by (simp add: fmt_u_def itoa_dec_length)
qed

lemma length_fmt_u_u8 [simp]: "length (concat (fmt_u (unat (v :: u8)))) \<le> 3"
proof -
  have "unat v < 10 ^ 3" using unsigned_less [of v, where 'a = nat] by simp
  then show ?thesis by (simp add: fmt_u_def itoa_dec_length)
qed

section \<open>Properties\<close>

text \<open>\<open>re_snprintf\<close> never writes past its buffer: the text and its terminator fit the given size; the text
  is always a whole number of the printed pieces, all of them exactly when the call reports success, and
  then the reported count is the length of the text.\<close>

lemma re_snprintf_bounded:
  assumes "0 < sz"
  shows "length (fst (re_snprintf sz cs)) < sz
      \<and> (\<exists>k \<le> length cs. fst (re_snprintf sz cs) = concat (take k cs)
           \<and> (if k = length cs then snd (re_snprintf sz cs) = Some (length (concat cs)) else snd (re_snprintf sz cs) = None))"
proof -
  obtain k where k: "k \<le> length cs" "fst (print_chunks (sz - 1) cs) = concat (take k cs)"
    "snd (print_chunks (sz - 1) cs) \<longleftrightarrow> k = length cs"
    using print_chunks_aligned [of cs "sz - 1"] by blast
  then have "fst (re_snprintf sz cs) = concat (take k cs)"
    "if k = length cs then snd (re_snprintf sz cs) = Some (length (concat cs)) else snd (re_snprintf sz cs) = None"
    using assms by (auto simp: re_snprintf_def case_prod_beta Let_def)
  with k(1) re_snprintf_length [OF assms] show ?thesis by blast
qed

lemma re_snprintf_bounded_witness: "length (fst (re_snprintf 4 [''ab'', ''cd''])) < 4"
  using re_snprintf_bounded [of 4 "[''ab'', ''cd'']"] by simp

end
