(* ===== verification/Rtsp_Auth.thy ===== *)
theory Rtsp_Auth
  imports Prelude Libre_Fmt "HOL-Library.Sublist"
begin

text \<open>
  Digest authentication of the RTSP server (\<open>rtsp_auth.c\<close>). The record \<open>rtsp_auth\<close> is \<open>g_auth\<close>. MD5 is
  provided by libre's wrapper of a cryptographic library and is a parameter \<open>md5\<close> of the definitions;
  \<open>rnd i\<close> is the \<open>i\<close>-th value \<open>rand()\<close> returns while a nonce is generated.
\<close>

abbreviation NONCE_LEN :: nat where "NONCE_LEN \<equiv> 32"

definition REALM :: string where "REALM = ''SmartLockIntercom''"

record rtsp_auth =
  au_username :: string
  au_password :: string
  au_nonce :: string
  au_enabled :: bool

definition auth_zero :: rtsp_auth where
  "auth_zero = \<lparr>au_username = [], au_password = [], au_nonce = [], au_enabled = False\<rparr>"

definition generate_nonce :: "(nat \<Rightarrow> nat) \<Rightarrow> nat \<Rightarrow> string" where
  "generate_nonce rnd len = map (\<lambda>i. ''0123456789abcdef'' ! (rnd i mod 16)) [0..<len]"

text \<open>A missing argument is \<open>None\<close>.\<close>

definition rtsp_auth_init :: "(nat \<Rightarrow> nat) \<Rightarrow> string option \<Rightarrow> string option \<Rightarrow> rtsp_auth \<Rightarrow> rtsp_auth" where
  "rtsp_auth_init rnd username password st =
     (case (username, password) of
        (Some u, Some p) \<Rightarrow>
          if u = [] \<or> p = [] then st\<lparr>au_enabled := False\<rparr>
          else st\<lparr>au_username := str_ncpy u 64, au_password := str_ncpy p 64,
                  au_nonce := generate_nonce rnd NONCE_LEN, au_enabled := True\<rparr>
      | _ \<Rightarrow> st\<lparr>au_enabled := False\<rparr>)"

definition rtsp_auth_enabled :: "rtsp_auth \<Rightarrow> bool" where
  "rtsp_auth_enabled st = au_enabled st"

definition md5_hex :: "(bytes \<Rightarrow> bytes) \<Rightarrow> string \<Rightarrow> string" where
  "md5_hex md5 s = concat (map fmt_02x (md5 (text_bytes s)))"

definition parse_digest_field :: "string \<Rightarrow> string \<Rightarrow> nat \<Rightarrow> errno + string" where
  "parse_digest_field hdr field out_sz =
     (let quoted = fst (re_snprintf 64 [field, ''='' @ [DQ]])
      in case strstr hdr quoted of
           None \<Rightarrow>
             (let bare = fst (re_snprintf 64 [field, ''=''])
              in case strstr hdr bare of
                   None \<Rightarrow> Inl ENOENT
                 | Some p \<Rightarrow>
                     (let start = drop (p + length bare) hdr;
                          v = takeWhile (\<lambda>c. c \<noteq> CHR '','' \<and> c \<noteq> CHR '' '' \<and> c \<noteq> CR) start
                      in Inr (take (out_sz - 1) v)))
         | Some p \<Rightarrow>
             (let start = drop (p + length quoted) hdr
              in case strchr start DQ of
                   None \<Rightarrow> Inl EINVAL
                 | Some e \<Rightarrow> Inr (take (out_sz - 1) (take e start))))"

text \<open>
  The comparison loop over the first 32 characters of the \<open>response\<close> buffer. A shorter response ends with
  its NUL inside these 32, which differs from every digit of \<open>expected\<close>; what follows it is not decisive.
\<close>

definition response_matches :: "string \<Rightarrow> string \<Rightarrow> bool" where
  "response_matches response expected \<longleftrightarrow>
     list_all (\<lambda>i. (response @ replicate 64 NUL) ! i = (expected @ [NUL]) ! i) [0..<NONCE_LEN]"

text \<open>The expected response, with each string printed into its buffer.\<close>

definition expected_response :: "(bytes \<Rightarrow> bytes) \<Rightarrow> rtsp_auth \<Rightarrow> string \<Rightarrow> string \<Rightarrow> string \<Rightarrow> string \<Rightarrow> string" where
  "expected_response md5 st method realm nonce req_uri =
     (let ha1 = md5_hex md5 (fst (re_snprintf 256 [au_username st, '':'', realm, '':'', au_password st]));
          ha2 = md5_hex md5 (fst (re_snprintf 256 [method, '':'', req_uri]))
      in md5_hex md5 (fst (re_snprintf 512 [ha1, '':'', nonce, '':'', ha2])))"

definition rtsp_auth_check ::
  "(bytes \<Rightarrow> bytes) \<Rightarrow> (nat \<Rightarrow> nat) \<Rightarrow> string \<Rightarrow> string \<Rightarrow> string option \<Rightarrow> rtsp_auth
   \<Rightarrow> errno option \<times> rtsp_auth" where
  "rtsp_auth_check md5 rnd method uri auth_hdr st =
     (if \<not> au_enabled st then (None, st)
      else case auth_hdr of
        None \<Rightarrow> (Some EACCES, st)
      | Some hdr \<Rightarrow>
          if \<not> strncaseeq hdr ''Digest '' 7 then (Some EACCES, st)
          else case (parse_digest_field hdr ''username'' 64, parse_digest_field hdr ''realm'' 64,
                     parse_digest_field hdr ''nonce'' 64, parse_digest_field hdr ''response'' 64,
                     parse_digest_field hdr ''uri'' 256) of
            (Inr username, Inr realm, Inr nonce, Inr response, Inr req_uri) \<Rightarrow>
              if username \<noteq> au_username st then (Some EACCES, st)
              else if nonce \<noteq> au_nonce st then (Some EACCES, st)
              else if \<not> response_matches response (expected_response md5 st method realm nonce req_uri)
              then (Some EACCES, st)
              else (None, st\<lparr>au_nonce := generate_nonce rnd NONCE_LEN\<rparr>)
          | _ \<Rightarrow> (Some EACCES, st))"

definition rtsp_auth_challenge :: "nat \<Rightarrow> rtsp_auth \<Rightarrow> string \<times> nat option" where
  "rtsp_auth_challenge buf_sz st =
     re_snprintf buf_sz [''WWW-Authenticate: Digest realm='' @ [DQ], REALM, DQ # '', nonce='' @ [DQ],
                         au_nonce st, DQ # crlf]"

section \<open>Invariant\<close>

definition hex_digit :: "char \<Rightarrow> bool" where
  "hex_digit c \<longleftrightarrow> c \<in> set ''0123456789abcdef''"

definition auth_wf :: "rtsp_auth \<Rightarrow> bool" where
  "auth_wf st \<longleftrightarrow>
     length (au_username st) < 64 \<and> length (au_password st) < 64
     \<and> (au_enabled st \<longrightarrow> length (au_nonce st) = NONCE_LEN \<and> list_all hex_digit (au_nonce st)
        \<and> au_username st \<noteq> [] \<and> au_password st \<noteq> [])"

lemma length_generate_nonce [simp]: "length (generate_nonce rnd n) = n"
  by (simp add: generate_nonce_def)

lemma generate_nonce_hex: "list_all hex_digit (generate_nonce rnd n)"
proof -
  have "''0123456789abcdef'' ! (k mod 16) \<in> set ''0123456789abcdef''" for k :: nat
    by (rule nth_mem) simp
  then show ?thesis by (simp add: generate_nonce_def list_all_iff hex_digit_def)
qed

lemma auth_zero_wf [keeps]: "auth_wf auth_zero"
  by (simp add: auth_wf_def auth_zero_def)

lemma rtsp_auth_init_wf [keeps]: "auth_wf st \<Longrightarrow> auth_wf (rtsp_auth_init rnd u p st)"
  using length_str_ncpy [of 64] generate_nonce_hex [of rnd NONCE_LEN]
  by (auto simp: rtsp_auth_init_def auth_wf_def str_ncpy_def split: option.splits)

lemma rtsp_auth_check_wf [keeps]: "auth_wf st \<Longrightarrow> auth_wf (snd (rtsp_auth_check md5 rnd m u h st))"
  using generate_nonce_hex [of rnd NONCE_LEN]
  by (auto simp: rtsp_auth_check_def auth_wf_def Let_def split: option.splits sum.splits)

section \<open>Digests\<close>

lemma fmt_02x_hex: "list_all hex_digit (fmt_02x b)"
proof -
  have "list_all (\<lambda>b. list_all hex_digit (fmt_02x b)) (map word_of_nat [0..<256])"
    by (simp add: upt_rec fmt_02x_def fmt_pad0_def itoa_hex.simps digit_char_def hex_digit_def char_of_def bit_0)
  then show ?thesis by (rule all_bytes)
qed

lemma length_md5_hex: "length (md5 (text_bytes s)) = 16 \<Longrightarrow> length (md5_hex md5 s) = NONCE_LEN"
  by (simp add: md5_hex_def length_concat o_def sum_list_triv)

lemma md5_hex_hex: "list_all hex_digit (md5_hex md5 s)"
  using fmt_02x_hex by (simp add: md5_hex_def list_all_iff)

lemma hex_digit_not: "hex_digit c \<Longrightarrow> c \<noteq> NUL \<and> c \<noteq> DQ \<and> c \<noteq> CHR ''=''"
  by (auto simp: hex_digit_def)

lemma response_matches_take:
  assumes "length expected = NONCE_LEN" and "list_all hex_digit expected"
  shows "response_matches response expected \<longleftrightarrow> take NONCE_LEN response = expected"
proof
  assume m: "response_matches response expected"
  have eq: "(response @ replicate 64 NUL) ! i = expected ! i" if "i < NONCE_LEN" for i
    using m that assms(1) by (auto simp: response_matches_def list_all_iff nth_append)
  have "NONCE_LEN \<le> length response"
  proof (rule ccontr)
    assume short: "\<not> NONCE_LEN \<le> length response"
    then have "expected ! length response = NUL" using eq [of "length response"] by (simp add: nth_append)
    moreover have "hex_digit (expected ! length response)"
      using assms short by (simp add: list_all_length)
    ultimately show False using hex_digit_not by blast
  qed
  then show "take NONCE_LEN response = expected"
    using assms(1) eq by (intro nth_equalityI) (auto simp: nth_append)
next
  assume t: "take NONCE_LEN response = expected"
  with assms(1) have "NONCE_LEN \<le> length response" by auto
  with t show "response_matches response expected"
    by (auto simp: response_matches_def list_all_iff nth_append)
qed

text \<open>
  The response RFC 2617 asks for: \<open>MD5(HA1:nonce:HA2)\<close> with \<open>HA1 = MD5(user:realm:password)\<close> and
  \<open>HA2 = MD5(method:uri)\<close>.
\<close>

definition digest_response :: "(bytes \<Rightarrow> bytes) \<Rightarrow> string \<Rightarrow> string \<Rightarrow> string \<Rightarrow> string \<Rightarrow> string \<Rightarrow> string \<Rightarrow> string" where
  "digest_response md5 user realm password nonce method uri =
     md5_hex md5 (md5_hex md5 (user @ '':'' @ realm @ '':'' @ password) @ '':'' @ nonce @ '':''
                  @ md5_hex md5 (method @ '':'' @ uri))"

lemma expected_response_digest:
  assumes "\<And>x. length (md5 x) = 16" and "auth_wf st" and "length realm < 64" and "length nonce < 64"
    and "length method + length req_uri < 255"
  shows "expected_response md5 st method realm nonce req_uri
       = digest_response md5 (au_username st) realm (au_password st) nonce method req_uri"
proof -
  have 1: "fst (re_snprintf 256 [au_username st, '':'', realm, '':'', au_password st])
      = au_username st @ '':'' @ realm @ '':'' @ au_password st"
    using assms(2,3) by (subst re_snprintf_fits) (auto simp: auth_wf_def)
  have 2: "fst (re_snprintf 256 [method, '':'', req_uri]) = method @ '':'' @ req_uri"
    using assms(5) by (subst re_snprintf_fits) auto
  have 3: "fst (re_snprintf 512 [md5_hex md5 a, '':'', nonce, '':'', md5_hex md5 b])
      = md5_hex md5 a @ '':'' @ nonce @ '':'' @ md5_hex md5 b" for a b
    using assms(1,4) by (subst re_snprintf_fits) (auto simp: length_md5_hex)
  show ?thesis by (simp add: expected_response_def digest_response_def Let_def 1 2 3)
qed

lemma expected_response_hex:
  assumes "\<And>x. length (md5 x) = 16"
  shows "length (expected_response md5 st m r n u) = NONCE_LEN"
    "list_all hex_digit (expected_response md5 st m r n u)"
  using assms by (simp_all add: expected_response_def Let_def length_md5_hex md5_hex_hex)

lemma parse_digest_field_length:
  "parse_digest_field hdr field n = Inr v \<Longrightarrow> 0 < n \<Longrightarrow> length v < n"
  by (auto simp: parse_digest_field_def Let_def split: option.splits)

text \<open>A URI that does not fit the buffer of \<open>HA2\<close> is left out of it as a whole: the digest no longer depends on it.\<close>

lemma long_uri_not_covered:
  assumes "length method < 255" and "255 \<le> length method + length u" and "255 \<le> length method + length u'"
  shows "expected_response md5 st method realm nonce u = expected_response md5 st method realm nonce u'"
proof -
  have "fst (re_snprintf 256 [method, '':'', x]) = method @ '':''" if "255 \<le> length method + length x" for x
    using assms(1) that by (simp add: re_snprintf_def)
  with assms show ?thesis by (simp add: expected_response_def)
qed

section \<open>Finding the fields of a header\<close>

lemma takeWhile_quote: "DQ \<notin> set a \<Longrightarrow> takeWhile (\<lambda>x. x \<noteq> DQ) (a @ DQ # r) = a"
  by (induction a) auto

text \<open>A search for a pattern that ends with its only quote looks at one quoted segment after the other.\<close>

lemma strstr_segment:
  assumes "DQ \<notin> set seg" and "DQ \<notin> set q"
  shows "strstr (seg @ DQ # rest) (q @ [DQ]) =
     (if suffix q seg then Some (length seg - length q)
      else map_option (\<lambda>n. n + Suc (length seg)) (strstr rest (q @ [DQ])))"
  using assms(1)
proof (induction seg)
  case Nil
  show ?case by (cases q) (use assms(2) in \<open>auto simp: option.map_comp o_def\<close>)
next
  case (Cons c seg)
  show ?case
  proof (cases "q = c # seg")
    case True
    then show ?thesis by (simp add: starts_with_def)
  next
    case False
    have "\<not> starts_with (q @ [DQ]) (c # seg @ DQ # rest)"
    proof
      assume sw: "starts_with (q @ [DQ]) (c # seg @ DQ # rest)"
      then have "q @ DQ # drop (length q + 1) (c # seg @ DQ # rest) = (c # seg) @ DQ # rest"
        using starts_withD [OF sw] by simp
      from arg_cong [OF this, of "takeWhile (\<lambda>x. x \<noteq> DQ)"] have "q = c # seg"
        by (simp only: takeWhile_quote [OF assms(2)] takeWhile_quote [OF Cons(2)])
      with False show False by blast
    qed
    then show ?thesis
      using Cons False by (auto simp: suffix_Cons Suc_diff_le suffix_length_le option.map_comp o_def)
  qed
qed

text \<open>Segments separated by quotes; the odd ones are the quoted values.\<close>

fun quote_join :: "string list \<Rightarrow> string" where
  "quote_join [] = []"
| "quote_join [s] = s"
| "quote_join (s # t # r) = s @ DQ # quote_join (t # r)"

lemma quote_join_field:
  assumes "\<forall>s \<in> set (pre @ [s, v]). DQ \<notin> set s" and "DQ \<notin> set q" and "suffix q s" and "\<forall>t \<in> set pre. \<not> suffix q t"
  shows "\<exists>p. strstr (quote_join (pre @ s # v # w # post)) (q @ [DQ]) = Some p
           \<and> drop (p + Suc (length q)) (quote_join (pre @ s # v # w # post)) = v @ DQ # quote_join (w # post)"
  using assms
proof (induction pre)
  case Nil
  then have "length q \<le> length s" by (simp add: suffix_length_le)
  with Nil show ?case by (simp add: strstr_segment)
next
  case (Cons t pre)
  then obtain p where p: "strstr (quote_join (pre @ s # v # w # post)) (q @ [DQ]) = Some p"
    "drop (p + Suc (length q)) (quote_join (pre @ s # v # w # post)) = v @ DQ # quote_join (w # post)"
    by auto
  have j: "quote_join ((t # pre) @ s # v # w # post) = t @ DQ # quote_join (pre @ s # v # w # post)"
    by (cases pre) simp_all
  have "drop (p + Suc (length t) + Suc (length q)) (t @ DQ # quote_join (pre @ s # v # w # post))
      = v @ DQ # quote_join (w # post)"
    using p(2) by (simp add: ac_simps)
  moreover have "strstr (t @ DQ # quote_join (pre @ s # v # w # post)) (q @ [DQ]) = Some (p + Suc (length t))"
    using p(1) Cons(2-5) by (simp add: strstr_segment)
  ultimately show ?case unfolding j by blast
qed

lemma parse_quoted:
  assumes "length f < 60" and "DQ \<notin> set f" and "suffix (f @ ''='') s"
    and "\<forall>s \<in> set (pre @ [s, v]). DQ \<notin> set s" and "\<forall>t \<in> set pre. \<not> suffix (f @ ''='') t" and "length v < n"
  shows "parse_digest_field (quote_join (pre @ s # v # w # post)) f n = Inr v"
proof -
  have pat: "fst (re_snprintf 64 [f, ''='' @ [DQ]]) = (f @ ''='') @ [DQ]"
    using assms(1) by (subst re_snprintf_fits) auto
  have q: "DQ \<notin> set (f @ ''='')" using assms(2) by simp
  from quote_join_field [OF assms(4) q assms(3,5), of w post] obtain p where
    p: "strstr (quote_join (pre @ s # v # w # post)) ((f @ ''='') @ [DQ]) = Some p"
    and d: "drop (p + Suc (length (f @ ''=''))) (quote_join (pre @ s # v # w # post)) = v @ DQ # quote_join (w # post)"
    by blast
  have "DQ \<notin> set v" using assms(4) by simp
  with d assms(6) show ?thesis unfolding parse_digest_field_def pat Let_def p by simp
qed

text \<open>A header as a client writes it.\<close>

definition digest_header :: "string \<Rightarrow> string \<Rightarrow> string \<Rightarrow> string \<Rightarrow> string \<Rightarrow> string" where
  "digest_header user realm nonce uri response =
     quote_join [''Digest username='', user, '', realm='', realm, '', nonce='', nonce, '', uri='', uri,
                 '', response='', response, []]"

text \<open>A value that needs no escaping in the header.\<close>

definition plain_value :: "string \<Rightarrow> bool" where
  "plain_value v \<longleftrightarrow> DQ \<notin> set v \<and> CHR ''='' \<notin> set v"

lemma plain_not_suffix: "plain_value v \<Longrightarrow> CHR ''='' \<in> set q \<Longrightarrow> \<not> suffix q v"
  by (auto simp: plain_value_def suffix_def)

lemma plain_no_quote: "plain_value v \<Longrightarrow> DQ \<notin> set v"
  by (simp add: plain_value_def)

lemma hex_plain: "list_all hex_digit v \<Longrightarrow> plain_value v"
  using hex_digit_not by (auto simp: plain_value_def list_all_iff)

lemma REALM_plain: "plain_value REALM" by (simp add: plain_value_def REALM_def)

lemma digest_header_fields:
  assumes "plain_value user" "plain_value realm" "plain_value nonce" "plain_value uri" "plain_value response"
    and "length user < 64" "length realm < 64" "length nonce < 64" "length uri < 256" "length response < 64"
  shows "parse_digest_field (digest_header user realm nonce uri response) ''username'' 64 = Inr user"
    "parse_digest_field (digest_header user realm nonce uri response) ''realm'' 64 = Inr realm"
    "parse_digest_field (digest_header user realm nonce uri response) ''nonce'' 64 = Inr nonce"
    "parse_digest_field (digest_header user realm nonce uri response) ''uri'' 256 = Inr uri"
    "parse_digest_field (digest_header user realm nonce uri response) ''response'' 64 = Inr response"
proof -
  let ?h = "digest_header user realm nonce uri response"
  note side = plain_no_quote plain_not_suffix suffix_Cons
  have "?h = quote_join ([] @ ''Digest username='' # user # '', realm='' # [realm, '', nonce='', nonce, '', uri='', uri, '', response='', response, []])"
    by (simp only: digest_header_def append.simps)
  then show "parse_digest_field ?h ''username'' 64 = Inr user"
    using assms by (simp only:) (rule parse_quoted, simp_all add: side)
  have "?h = quote_join ([''Digest username='', user] @ '', realm='' # realm # '', nonce='' # [nonce, '', uri='', uri, '', response='', response, []])"
    by (simp only: digest_header_def append.simps)
  then show "parse_digest_field ?h ''realm'' 64 = Inr realm"
    using assms by (simp only:) (rule parse_quoted, simp_all add: side)
  have "?h = quote_join ([''Digest username='', user, '', realm='', realm] @ '', nonce='' # nonce # '', uri='' # [uri, '', response='', response, []])"
    by (simp only: digest_header_def append.simps)
  then show "parse_digest_field ?h ''nonce'' 64 = Inr nonce"
    using assms by (simp only:) (rule parse_quoted, simp_all add: side)
  have "?h = quote_join ([''Digest username='', user, '', realm='', realm, '', nonce='', nonce] @ '', uri='' # uri # '', response='' # [response, []])"
    by (simp only: digest_header_def append.simps)
  then show "parse_digest_field ?h ''uri'' 256 = Inr uri"
    using assms by (simp only:) (rule parse_quoted, simp_all add: side)
  have "?h = quote_join ([''Digest username='', user, '', realm='', realm, '', nonce='', nonce, '', uri='', uri] @ '', response='' # response # [] # [])"
    by (simp only: digest_header_def append.simps)
  then show "parse_digest_field ?h ''response'' 64 = Inr response"
    using assms by (simp only:) (rule parse_quoted, simp_all add: side)
qed

section \<open>Properties\<close>

lemma rtsp_auth_check_Some:
  "rtsp_auth_check md5 rnd method uri (Some hdr) st =
     (if \<not> au_enabled st then (None, st)
      else if strncaseeq hdr ''Digest '' 7
           \<and> parse_digest_field hdr ''username'' 64 = Inr (au_username st)
           \<and> parse_digest_field hdr ''nonce'' 64 = Inr (au_nonce st)
           \<and> (\<exists>realm response req_uri. parse_digest_field hdr ''realm'' 64 = Inr realm
                \<and> parse_digest_field hdr ''response'' 64 = Inr response
                \<and> parse_digest_field hdr ''uri'' 256 = Inr req_uri
                \<and> response_matches response (expected_response md5 st method realm (au_nonce st) req_uri))
      then (None, st\<lparr>au_nonce := generate_nonce rnd NONCE_LEN\<rparr>)
      else (Some EACCES, st))"
  by (auto simp: rtsp_auth_check_def split: sum.splits)


lemma digest_accepted:
  assumes "\<And>x. length (md5 x) = 16" and "auth_wf st" and "au_enabled st"
    and "plain_value (au_username st)" and "plain_value uri" and "length method + length uri < 255"
  shows "rtsp_auth_check md5 rnd method uri
           (Some (digest_header (au_username st) REALM (au_nonce st) uri
              (digest_response md5 (au_username st) REALM (au_password st) (au_nonce st) method uri))) st
         = (None, st\<lparr>au_nonce := generate_nonce rnd NONCE_LEN\<rparr>)"
proof -
  let ?r = "digest_response md5 (au_username st) REALM (au_password st) (au_nonce st) method uri"
  let ?h = "digest_header (au_username st) REALM (au_nonce st) uri ?r"
  have r: "length ?r = NONCE_LEN" "list_all hex_digit ?r"
    using assms(1) by (simp_all add: digest_response_def length_md5_hex md5_hex_hex)
  have wf: "length (au_username st) < 64" "length (au_nonce st) < 64" "list_all hex_digit (au_nonce st)"
    using assms(2,3) by (simp_all add: auth_wf_def)
  have realm: "length REALM < 64" by (simp add: REALM_def)
  have "parse_digest_field ?h ''username'' 64 = Inr (au_username st)" "parse_digest_field ?h ''realm'' 64 = Inr REALM"
    "parse_digest_field ?h ''nonce'' 64 = Inr (au_nonce st)" "parse_digest_field ?h ''uri'' 256 = Inr uri"
    "parse_digest_field ?h ''response'' 64 = Inr ?r"
    using digest_header_fields [OF assms(4) REALM_plain hex_plain [OF wf(3)] assms(5) hex_plain [OF r(2)] wf(1) realm wf(2)]
      r(1) assms(6) by simp_all
  moreover have "strncaseeq ?h ''Digest '' 7" by (simp add: digest_header_def strncaseeq_def)
  moreover have "response_matches ?r (expected_response md5 st method REALM (au_nonce st) uri)"
    using expected_response_digest [OF assms(1,2) realm wf(2) assms(6)] r
    by (simp add: response_matches_take)
  ultimately show ?thesis using assms(3) by (simp add: rtsp_auth_check_Some)
qed


text \<open>C14: An accepted header cannot be used again: once the nonce has been replaced by a different one, the
  same header is refused for every method, and the refusal leaves the state unchanged.\<close>

theorem auth_no_replay:
  assumes "au_enabled st" and "rtsp_auth_check md5 rnd method uri (Some hdr) st = (None, st')"
    and "generate_nonce rnd NONCE_LEN \<noteq> au_nonce st"
  shows "rtsp_auth_check md5 rnd' method' uri' (Some hdr) st' = (Some EACCES, st')"
proof -
  have "parse_digest_field hdr ''nonce'' 64 = Inr (au_nonce st)"
    and st': "st' = st\<lparr>au_nonce := generate_nonce rnd NONCE_LEN\<rparr>"
    using assms(1,2) by (simp_all add: rtsp_auth_check_Some split: if_splits)
  then have "parse_digest_field hdr ''nonce'' 64 \<noteq> Inr (au_nonce st')" using assms(3) by simp
  with assms(1) st' show ?thesis by (simp only: rtsp_auth_check_Some) simp
qed

text \<open>An authentication state and a digest of constant value, for concrete instances.\<close>

definition example_auth :: rtsp_auth where
  "example_auth = rtsp_auth_init (\<lambda>_. 1) (Some ''admin'') (Some ''secret'') auth_zero"

definition flat_md5 :: "bytes \<Rightarrow> bytes" where
  "flat_md5 x = replicate 16 (word_of_nat (length x))"

lemma example_auth_facts:
  "auth_wf example_auth" "au_enabled example_auth" "au_username example_auth = ''admin''"
  "au_nonce example_auth = generate_nonce (\<lambda>_. 1) NONCE_LEN" "length (flat_md5 x) = 16"
proof -
  show "auth_wf example_auth" unfolding example_auth_def by (intro rtsp_auth_init_wf auth_zero_wf)
qed (simp_all add: example_auth_def flat_md5_def rtsp_auth_init_def str_ncpy_def)



lemma nonces_differ: "generate_nonce (\<lambda>_. 0) NONCE_LEN \<noteq> generate_nonce (\<lambda>_. 1) NONCE_LEN"
proof
  assume "generate_nonce (\<lambda>_. 0) NONCE_LEN = generate_nonce (\<lambda>_. 1) NONCE_LEN"
  from arg_cong [OF this, of "\<lambda>s. s ! 0"] show False by (simp add: generate_nonce_def)
qed

theorem auth_no_replay_witness:
  "let hdr = digest_header ''admin'' REALM (au_nonce example_auth) ''/live''
        (digest_response flat_md5 ''admin'' REALM (au_password example_auth) (au_nonce example_auth) ''PLAY'' ''/live'');
       st' = snd (rtsp_auth_check flat_md5 (\<lambda>_. 0) ''PLAY'' ''/live'' (Some hdr) example_auth)
   in rtsp_auth_check flat_md5 (\<lambda>_. 2) ''PLAY'' ''/live'' (Some hdr) st' = (Some EACCES, st')"
proof -
  let ?hdr = "digest_header ''admin'' REALM (au_nonce example_auth) ''/live''
        (digest_response flat_md5 ''admin'' REALM (au_password example_auth) (au_nonce example_auth) ''PLAY'' ''/live'')"
  have "rtsp_auth_check flat_md5 (\<lambda>_. 0) ''PLAY'' ''/live'' (Some ?hdr) example_auth
      = (None, example_auth\<lparr>au_nonce := generate_nonce (\<lambda>_. 0) NONCE_LEN\<rparr>)"
    using digest_accepted [of flat_md5 example_auth "''/live''" "''PLAY''" "\<lambda>_. 0"] example_auth_facts
    by (simp add: plain_value_def)
  from auth_no_replay [OF _ this, of "\<lambda>_. 2" "''PLAY''" "''/live''"] this example_auth_facts nonces_differ
  show ?thesis by (simp add: Let_def)
qed

end
