(* ===== verification/Libre_Sa.thy ===== *)
theory Libre_Sa
  imports Prelude Libre_Fmt
begin

text \<open>
  Socket addresses of the library (\<open>src/sa/sa.c\<close>) as far as the program uses them: construction from text,
  ports, the tests on addresses, and their printed form (\<open>%j\<close> and \<open>%J\<close> of \<open>src/fmt/print.c\<close>). The pointer-length
  helpers of \<open>src/fmt/pl.c\<close> they need are here, too; a pointer-length string is a string.

  A \<open>struct sa\<close> is its family with the address, and the port, both in host order. The IPv4 text format
  of \<open>inet_pton\<close> and \<open>inet_ntop\<close> is defined; the IPv6 formats and scoped link-local addresses are the
  system's and come in as a record of functions. UNIX domain sockets are not part of the program's build.
\<close>

section \<open>Addresses\<close>

datatype host = AF_UNSPEC | AF_INET u32 | AF_INET6 bytes

record sockaddr =
  sa_host :: host
  sa_prt :: u16

record inet_sys =
  is_pton6 :: "string \<Rightarrow> bytes option"
  is_ntop6 :: "bytes \<Rightarrow> string option"
  is_addrinfo :: "string \<Rightarrow> host option"

definition sa_zero :: sockaddr where
  "sa_zero = \<lparr>sa_host = AF_UNSPEC, sa_prt = 0\<rparr>"

definition sa_set_in :: "u32 \<Rightarrow> u16 \<Rightarrow> sockaddr" where
  "sa_set_in addr port = \<lparr>sa_host = AF_INET addr, sa_prt = port\<rparr>"

definition sa_set_port :: "sockaddr \<Rightarrow> u16 \<Rightarrow> sockaddr" where
  "sa_set_port sa port = (case sa_host sa of AF_UNSPEC \<Rightarrow> sa | _ \<Rightarrow> sa\<lparr>sa_prt := port\<rparr>)"

definition sa_port :: "sockaddr \<Rightarrow> u16" where
  "sa_port sa = (case sa_host sa of AF_UNSPEC \<Rightarrow> 0 | _ \<Rightarrow> sa_prt sa)"

text \<open>\<open>sa_isset\<close> and \<open>sa_cmp\<close> with the flags for the address and for the port.\<close>

definition sa_isset :: "sockaddr \<Rightarrow> bool \<Rightarrow> bool \<Rightarrow> bool" where
  "sa_isset sa addr port =
     (case sa_host sa of
        AF_INET ip \<Rightarrow> (addr \<longrightarrow> ip \<noteq> 0) \<and> (port \<longrightarrow> sa_prt sa \<noteq> 0)
      | AF_INET6 a \<Rightarrow> (addr \<longrightarrow> a \<noteq> replicate 16 0) \<and> (port \<longrightarrow> sa_prt sa \<noteq> 0)
      | AF_UNSPEC \<Rightarrow> False)"

definition sa_cmp :: "sockaddr \<Rightarrow> sockaddr \<Rightarrow> bool \<Rightarrow> bool \<Rightarrow> bool" where
  "sa_cmp l r addr port =
     (case (sa_host l, sa_host r) of
        (AF_INET a, AF_INET b) \<Rightarrow> (addr \<longrightarrow> a = b) \<and> (port \<longrightarrow> sa_prt l = sa_prt r)
      | (AF_INET6 a, AF_INET6 b) \<Rightarrow> (addr \<longrightarrow> a = b) \<and> (port \<longrightarrow> sa_prt l = sa_prt r)
      | _ \<Rightarrow> False)"

definition sa_is_linklocal :: "sockaddr \<Rightarrow> bool" where
  "sa_is_linklocal sa =
     (case sa_host sa of
        AF_INET ip \<Rightarrow> ip AND 0xFFFF0000 = 0xA9FE0000
      | AF_INET6 a \<Rightarrow> a ! 0 = 0xFE \<and> a ! 1 AND 0xC0 = 0x80
      | AF_UNSPEC \<Rightarrow> False)"

definition sa_is_loopback :: "sockaddr \<Rightarrow> bool" where
  "sa_is_loopback sa =
     (case sa_host sa of
        AF_INET ip \<Rightarrow> ip AND 0xFF000000 = 0x7F000000
      | AF_INET6 a \<Rightarrow> a = replicate 15 0 @ [1]
      | AF_UNSPEC \<Rightarrow> False)"

definition sa_is_multicast :: "sockaddr \<Rightarrow> bool" where
  "sa_is_multicast sa =
     (case sa_host sa of
        AF_INET ip \<Rightarrow> ip AND 0xF0000000 = 0xE0000000
      | AF_INET6 a \<Rightarrow> a ! 0 = 0xFF
      | AF_UNSPEC \<Rightarrow> False)"

definition sa_is_any :: "sockaddr \<Rightarrow> bool" where
  "sa_is_any sa =
     (case sa_host sa of AF_INET ip \<Rightarrow> ip = 0 | AF_INET6 a \<Rightarrow> a = replicate 16 0 | AF_UNSPEC \<Rightarrow> False)"

section \<open>Text\<close>

text \<open>The IPv4 format: four decimal numbers up to 255 without leading zeros, separated by dots.\<close>

fun split_dots :: "string \<Rightarrow> string list" where
  "split_dots [] = [[]]"
| "split_dots (c # s) =
     (if c = CHR ''.'' then [] # split_dots s
      else case split_dots s of [] \<Rightarrow> [[c]] | p # ps \<Rightarrow> (c # p) # ps)"

definition octet :: "string \<Rightarrow> nat option" where
  "octet s =
     (if s \<noteq> [] \<and> length s \<le> 3 \<and> list_all is_digit s \<and> digits_val s \<le> 255 \<and> (hd s = CHR ''0'' \<longrightarrow> length s = 1)
      then Some (digits_val s) else None)"

definition inet_pton4 :: "string \<Rightarrow> u32 option" where
  "inet_pton4 s =
     (case map octet (split_dots s) of
        [Some a, Some b, Some c, Some d] \<Rightarrow> Some (word_of_nat (((a * 256 + b) * 256 + c) * 256 + d))
      | _ \<Rightarrow> None)"

definition inet_ntop4 :: "u32 \<Rightarrow> string" where
  "inet_ntop4 ip =
     (let n = unat ip
      in itoa_dec (n div 256 div 256 div 256) @ ''.'' @ itoa_dec (n div 256 div 256 mod 256) @ ''.''
         @ itoa_dec (n div 256 mod 256) @ ''.'' @ itoa_dec (n mod 256))"

definition v4mapped :: "bytes \<Rightarrow> bool" where
  "v4mapped a \<longleftrightarrow> take 12 a = replicate 10 0 @ [0xFF, 0xFF]"

definition sa_pton :: "inet_sys \<Rightarrow> string \<Rightarrow> errno + host" where
  "sa_pton sys addr =
     (case inet_pton4 addr of
        Some ip \<Rightarrow> Inr (AF_INET ip)
      | None \<Rightarrow>
          if starts_with ''fe80:'' addr \<and> strrchr addr CHR ''%'' \<noteq> None
          then (case is_addrinfo sys addr of Some h \<Rightarrow> Inr h | None \<Rightarrow> Inl (EOS 0))
          else (case is_pton6 sys addr of
                  Some a \<Rightarrow>
                    Inr (if v4mapped a
                         then AF_INET (word_of_nat (((unat (a ! 12) * 256 + unat (a ! 13)) * 256 + unat (a ! 14)) * 256 + unat (a ! 15)))
                         else AF_INET6 a)
                | None \<Rightarrow> Inl EINVAL))"

definition sa_set_str :: "inet_sys \<Rightarrow> string \<Rightarrow> u16 \<Rightarrow> errno + sockaddr" where
  "sa_set_str sys addr port =
     (case sa_pton sys addr of
        Inl e \<Rightarrow> Inl e
      | Inr AF_UNSPEC \<Rightarrow> Inl (EOS 1)
      | Inr h \<Rightarrow> Inr \<lparr>sa_host = h, sa_prt = port\<rparr>)"

definition pl_strcpy :: "string \<Rightarrow> nat \<Rightarrow> string" where
  "pl_strcpy pl sz = take (min (length pl) (sz - 1)) pl"

definition sa_set :: "inet_sys \<Rightarrow> string \<Rightarrow> u16 \<Rightarrow> errno + sockaddr" where
  "sa_set sys addr port = sa_set_str sys (c_str (pl_strcpy addr 64)) port"

text \<open>\<open>pl_u32\<close> reads its digits from the last one on.\<close>

fun pl_u32_loop :: "string \<Rightarrow> u32 \<Rightarrow> u32 \<Rightarrow> u32" where
  "pl_u32_loop [] mul v = v"
| "pl_u32_loop (c # r) mul v =
     (if \<not> is_digit c then 0 else pl_u32_loop r (mul * 10) (v + mul * word_of_nat (of_char c - 48)))"

definition pl_u32 :: "string \<Rightarrow> u32" where
  "pl_u32 s = pl_u32_loop (rev s) 1 0"

definition sa_decode :: "inet_sys \<Rightarrow> string \<Rightarrow> errno + sockaddr" where
  "sa_decode sys str =
     (if str = [] then Inl EINVAL
      else (let bracket = (if hd str = CHR ''['' then strchr str CHR '']'' else None);
                parts = (case bracket of
                           Some i \<Rightarrow> Some (take (i - 1) (drop 1 str), i + 1)
                         | None \<Rightarrow> (case strchr str CHR '':'' of Some i \<Rightarrow> Some (take i str, i) | None \<Rightarrow> None))
            in case parts of
                 None \<Rightarrow> Inl EINVAL
               | Some (addr, c) \<Rightarrow>
                   if length str < c + 2 then Inl EINVAL
                   else if str ! c \<noteq> CHR '':'' then Inl EINVAL
                   else sa_set sys addr (ucast (pl_u32 (drop (c + 1) str)))))"

definition sa_ntop :: "inet_sys \<Rightarrow> sockaddr \<Rightarrow> string option" where
  "sa_ntop sys sa =
     (case sa_host sa of AF_INET ip \<Rightarrow> Some (inet_ntop4 ip) | AF_INET6 a \<Rightarrow> is_ntop6 sys a | AF_UNSPEC \<Rightarrow> None)"

text \<open>The pieces that \<open>%j\<close> and \<open>%J\<close> print.\<close>

definition fmt_j :: "inet_sys \<Rightarrow> sockaddr \<Rightarrow> string list" where
  "fmt_j sys sa = (case sa_ntop sys sa of None \<Rightarrow> [''?''] | Some a \<Rightarrow> [a])"

definition fmt_J :: "inet_sys \<Rightarrow> sockaddr \<Rightarrow> string list" where
  "fmt_J sys sa =
     (case sa_ntop sys sa of
        None \<Rightarrow> [''?'']
      | Some a \<Rightarrow>
          (case sa_host sa of AF_INET6 _ \<Rightarrow> [''['', a, '']''] | _ \<Rightarrow> [a]) @ ['':'', itoa_dec (unat (sa_port sa))])"

section \<open>Properties\<close>

lemma split_dots_nonempty: "split_dots s \<noteq> []"
  by (induction s) (auto split: list.split)

lemma split_dots_part: "CHR ''.'' \<notin> set p \<Longrightarrow> split_dots (p @ CHR ''.'' # s) = p # split_dots s"
  by (induction p) auto

lemma split_dots_last: "CHR ''.'' \<notin> set p \<Longrightarrow> split_dots p = [p]"
  by (induction p) auto

lemma itoa_dec_no_char: "\<not> is_digit c \<Longrightarrow> c \<notin> set (itoa_dec n)"
  using itoa_dec_digits [of n] by (auto simp: list_all_iff)

lemma hd_itoa_dec: "0 < n \<Longrightarrow> hd (itoa_dec n) \<noteq> CHR ''0''"
proof (induction n rule: itoa_dec.induct)
  case (1 n)
  show ?case
  proof (cases "n < 10")
    case True
    then have "(of_char (digit_char n) :: nat) = 48 + n" by (rule of_char_digit_char)
    with 1(2) have "digit_char n \<noteq> CHR ''0''" by auto
    with True show ?thesis by (subst itoa_dec.simps) simp
  next
    case False
    with 1(1) have "hd (itoa_dec (n div 10)) \<noteq> CHR ''0''" by simp
    with False show ?thesis by (subst itoa_dec.simps) simp
  qed
qed

lemma octet_itoa: "n < 256 \<Longrightarrow> octet (itoa_dec n) = Some n"
proof -
  assume n: "n < 256"
  have "hd (itoa_dec n) = CHR ''0'' \<longrightarrow> length (itoa_dec n) = 1"
    using hd_itoa_dec [of n] by (cases "n = 0") (auto simp: itoa_dec.simps [of 0])
  with n itoa_dec_length [of n 3] show ?thesis by (simp add: octet_def itoa_dec_digits)
qed

lemma inet_pton4_ntop4: "inet_pton4 (inet_ntop4 ip) = Some ip"
proof -
  let ?n = "unat ip"
  have n: "?n < 256 * 256 * 256 * 256" using unsigned_less [of ip, where 'a = nat] by simp
  have dot: "CHR ''.'' \<notin> set (itoa_dec k)" for k by (rule itoa_dec_no_char) (simp add: is_digit_def)
  have a: "?n div 256 div 256 div 256 < 256" using n by (simp add: div_mult2_eq [symmetric] less_mult_imp_div_less)
  have "split_dots (inet_ntop4 ip) = [itoa_dec (?n div 256 div 256 div 256), itoa_dec (?n div 256 div 256 mod 256),
      itoa_dec (?n div 256 mod 256), itoa_dec (?n mod 256)]"
    by (simp add: inet_ntop4_def Let_def split_dots_part split_dots_last dot)
  moreover have "((?n div 256 div 256 div 256 * 256 + ?n div 256 div 256 mod 256) * 256 + ?n div 256 mod 256) * 256 + ?n mod 256 = ?n"
    by (simp only: div_mult_mod_eq)
  ultimately show ?thesis using a by (simp add: inet_pton4_def octet_itoa)
qed

lemma pl_u32_loop_val:
  "list_all is_digit s \<Longrightarrow> pl_u32_loop (rev s) mul v = v + mul * word_of_nat (digits_val s)"
proof (induction s arbitrary: mul v rule: rev_induct)
  case (snoc d s)
  then show ?case by (simp add: digits_val_append algebra_simps)
qed (simp add: digits_val_def)

lemma pl_u32_itoa: "pl_u32 (itoa_dec n) = word_of_nat n"
  by (simp add: pl_u32_def pl_u32_loop_val itoa_dec_digits)

lemma length_inet_ntop4: "length (inet_ntop4 ip) \<le> 15"
proof -
  have l: "length (itoa_dec k) \<le> 3" if "k < 256" for k using itoa_dec_length [of k 3] that by simp
  have "unat ip div 256 div 256 div 256 < 256"
    using unsigned_less [of ip, where 'a = nat] by (simp add: div_mult2_eq [symmetric] less_mult_imp_div_less)
  then show ?thesis using l [of "unat ip div 256 div 256 div 256"] l [of "unat ip div 256 div 256 mod 256"]
      l [of "unat ip div 256 mod 256"] l [of "unat ip mod 256"] by (simp add: inet_ntop4_def Let_def)
qed

lemma inet_ntop4_chars: "set (inet_ntop4 ip) \<subseteq> {c. is_digit c} \<union> {CHR ''.''}"
  using itoa_dec_digits by (auto simp: inet_ntop4_def Let_def list_all_iff)

text \<open>An address survives printing and parsing: what \<open>%J\<close> prints for an IPv4 address and port is decoded by
  \<open>sa_decode\<close> to the same address and port, for every address and port.\<close>

lemma sa_print_decode:
  "sa_decode sys (concat (fmt_J sys (sa_set_in ip port))) = Inr (sa_set_in ip port)"
proof -
  let ?a = "inet_ntop4 ip" and ?p = "itoa_dec (unat port)"
  have chars: "c \<notin> set ?a" if "\<not> is_digit c" "c \<noteq> CHR ''.''" for c using inet_ntop4_chars [of ip] that by auto
  have t: "concat (fmt_J sys (sa_set_in ip port)) = ?a @ CHR '':'' # ?p"
    by (simp add: fmt_J_def sa_set_in_def sa_ntop_def sa_port_def)
  have ne: "?a \<noteq> []" by (simp add: inet_ntop4_def Let_def)
  have "hd (?a @ CHR '':'' # ?p) \<in> set ?a" using ne by simp
  then have br: "hd (?a @ CHR '':'' # ?p) \<noteq> CHR ''[''" using chars [of "CHR ''[''"] by (auto simp: is_digit_def)
  have co: "strchr (?a @ CHR '':'' # ?p) CHR '':'' = Some (length ?a)"
    using chars [of "CHR '':''"] by (simp add: is_digit_def)
  have nul: "takeWhile (\<lambda>c. c \<noteq> NUL) ?a = ?a" using chars [of NUL] by (auto simp: is_digit_def takeWhile_eq_all_conv)
  have "sa_set sys ?a port = Inr (sa_set_in ip port)"
    using length_inet_ntop4 [of ip]
    by (simp add: nul sa_set_def pl_strcpy_def c_str_def sa_set_str_def sa_pton_def inet_pton4_ntop4 sa_set_in_def)
  moreover have "ucast (pl_u32 ?p) = port"
    unfolding pl_u32_itoa by transfer (simp add: take_bit_of_nat)
  ultimately show ?thesis using ne br co by (simp add: t sa_decode_def Let_def nth_append Suc_le_eq)
qed

end
