(* ===== verification/World.thy ===== *)
theory World
  imports Prelude Audio_In Audio_Out Camera H264_Rtp Rtsp_Auth Libre_Sa
begin

text \<open>
  What the program's components share at run time: the three media devices (\<open>g_cam\<close>, \<open>g_ain\<close>,
  \<open>g_aout\<close>), the traffic they produce, and the answers of the code outside the sources.

  An \<open>env\<close> holds those answers (memory allocation, random numbers, sockets, drivers, the H.264 encoder,
  MD5) as functions of a call counter \<open>dv_tick\<close>; every call takes the current counter value and advances
  it, so no answer is used twice and a theorem that quantifies over \<open>env\<close> covers every behaviour of the
  environment. \<open>dv_sent\<close> records in order what left the program.
\<close>

section \<open>Environment and devices\<close>

datatype net_event =
    TcpSend nat bytes
  | UdpSend u16 sockaddr bytes
  | TcpClosed nat
  | Speaker "i16 list"

record env =
  en_md5 :: "bytes \<Rightarrow> bytes"
  en_rand :: "nat \<Rightarrow> nat \<Rightarrow> nat"
  en_rand_u32 :: "nat \<Rightarrow> u32"
  en_alloc :: "nat \<Rightarrow> bool"
  en_alloc_nalu :: "nat \<Rightarrow> nat \<Rightarrow> nat \<Rightarrow> bool"
  en_cam_create :: "nat \<Rightarrow> bool"
  en_cam_init :: "nat \<Rightarrow> enc_param \<Rightarrow> bool"
  en_junk :: "nat \<Rightarrow> nat \<Rightarrow> u8"
  en_encode :: "nat \<Rightarrow> bool \<Rightarrow> bytes \<Rightarrow> bs_info option"
  en_ain_open :: "nat \<Rightarrow> wavefmt \<Rightarrow> bool"
  en_ain_start :: "nat \<Rightarrow> bool"
  en_aout_open :: "nat \<Rightarrow> wavefmt \<Rightarrow> bool"
  en_aout_write :: "nat \<Rightarrow> bool"
  en_tcp_send :: "nat \<Rightarrow> errno option"
  en_udp_send :: "nat \<Rightarrow> errno option"
  en_udp_listen :: "nat \<Rightarrow> errno + u16"
  en_tcp_listen :: "nat \<Rightarrow> errno + u16"
  en_tcp_accept :: "nat \<Rightarrow> errno option"
  en_peer :: "nat \<Rightarrow> sockaddr"
  en_local_ip :: "nat \<Rightarrow> sockaddr option"
  en_inet :: inet_sys
  en_resolve :: "nat \<Rightarrow> string \<Rightarrow> u16 \<Rightarrow> sockaddr option"
  en_tcp_connect :: "nat \<Rightarrow> sockaddr \<Rightarrow> errno + nat"
  en_stun_alloc :: "nat \<Rightarrow> errno option"
  en_stun_request :: "nat \<Rightarrow> sockaddr \<Rightarrow> errno option"
  en_http_listen :: "nat \<Rightarrow> errno option"
  en_fopen :: "nat \<Rightarrow> string \<Rightarrow> (int \<times> bytes) option"
  en_jiffies :: "nat \<Rightarrow> u64"

record devices =
  dv_tick :: nat
  dv_cam :: camera
  dv_ain :: audio_in
  dv_aout :: audio_out
  dv_sent :: "net_event list"

definition tick :: "'a devices_scheme \<Rightarrow> 'a devices_scheme" where
  "tick w = w\<lparr>dv_tick := dv_tick w + 1\<rparr>"

definition emit :: "net_event \<Rightarrow> 'a devices_scheme \<Rightarrow> 'a devices_scheme" where
  "emit e w = w\<lparr>dv_sent := dv_sent w @ [e]\<rparr>"

section \<open>Device calls\<close>

definition dev_camera_open :: "env \<Rightarrow> 'a devices_scheme \<Rightarrow> errno option \<times> 'a devices_scheme" where
  "dev_camera_open env w =
     (let t = dv_tick w;
          (e, c) = camera_open (en_cam_create env t) (en_cam_init env t) (en_alloc env t) (en_junk env t)
                     VIDEO_WIDTH VIDEO_HEIGHT VIDEO_FPS 300 (dv_cam w)
      in (e, (tick w)\<lparr>dv_cam := c\<rparr>))"

definition dev_camera_close :: "'a devices_scheme \<Rightarrow> 'a devices_scheme" where
  "dev_camera_close w = w\<lparr>dv_cam := camera_close (dv_cam w)\<rparr>"

definition dev_request_keyframe :: "'a devices_scheme \<Rightarrow> 'a devices_scheme" where
  "dev_request_keyframe w = w\<lparr>dv_cam := camera_request_keyframe (dv_cam w)\<rparr>"

definition dev_get_frame :: "env \<Rightarrow> 'a devices_scheme \<Rightarrow> (errno + camera_frame) \<times> 'a devices_scheme" where
  "dev_get_frame env w =
     (let (r, c) = camera_get_frame (en_encode env (dv_tick w)) (dv_cam w) in (r, (tick w)\<lparr>dv_cam := c\<rparr>))"

definition dev_audio_in_open :: "env \<Rightarrow> 'a devices_scheme \<Rightarrow> errno option \<times> 'a devices_scheme" where
  "dev_audio_in_open env w =
     (let t = dv_tick w;
          (e, a) = audio_in_open (en_ain_open env t) (en_ain_start env t) AUDIO_SRATE 1 (int AUDIO_SAMPLES) (dv_ain w)
      in (e, (tick w)\<lparr>dv_ain := a\<rparr>))"

definition dev_audio_in_close :: "'a devices_scheme \<Rightarrow> 'a devices_scheme" where
  "dev_audio_in_close w = w\<lparr>dv_ain := audio_in_close (dv_ain w)\<rparr>"

definition dev_audio_in_read :: "nat \<Rightarrow> 'a devices_scheme \<Rightarrow> i16 list \<times> 'a devices_scheme" where
  "dev_audio_in_read n w = (let (xs, a) = audio_in_read n (dv_ain w) in (xs, w\<lparr>dv_ain := a\<rparr>))"

definition dev_audio_out_open :: "env \<Rightarrow> 'a devices_scheme \<Rightarrow> errno option \<times> 'a devices_scheme" where
  "dev_audio_out_open env w =
     (let (e, a) = audio_out_open (en_aout_open env (dv_tick w)) AUDIO_SRATE 1 (int AUDIO_SAMPLES) (dv_aout w)
      in (e, (tick w)\<lparr>dv_aout := a\<rparr>))"

definition dev_audio_out_close :: "'a devices_scheme \<Rightarrow> 'a devices_scheme" where
  "dev_audio_out_close w = w\<lparr>dv_aout := audio_out_close (dv_aout w)\<rparr>"

definition dev_audio_out_play :: "env \<Rightarrow> bytes \<Rightarrow> 'a devices_scheme \<Rightarrow> 'a devices_scheme" where
  "dev_audio_out_play env pcmu w =
     (let (s, a) = audio_out_play (en_aout_write env (dv_tick w)) pcmu (dv_aout w);
          w1 = (tick w)\<lparr>dv_aout := a\<rparr>
      in case s of None \<Rightarrow> w1 | Some xs \<Rightarrow> emit (Speaker xs) w1)"

text \<open>\<open>tcp_send\<close> on connection \<open>c\<close>, \<open>udp_send\<close> on the socket bound to a port (a missing socket is an error).\<close>

definition dev_tcp_send :: "env \<Rightarrow> nat \<Rightarrow> bytes \<Rightarrow> 'a devices_scheme \<Rightarrow> errno option \<times> 'a devices_scheme" where
  "dev_tcp_send env c bs w =
     (case en_tcp_send env (dv_tick w) of
        None \<Rightarrow> (None, emit (TcpSend c bs) (tick w))
      | Some e \<Rightarrow> (Some e, tick w))"

definition dev_udp_send :: "env \<Rightarrow> u16 option \<Rightarrow> sockaddr \<Rightarrow> bytes \<Rightarrow> 'a devices_scheme \<Rightarrow> 'a devices_scheme" where
  "dev_udp_send env us dst bs w =
     (case us of
        None \<Rightarrow> w
      | Some port \<Rightarrow>
          (case en_udp_send env (dv_tick w) of
             None \<Rightarrow> emit (UdpSend port dst bs) (tick w)
           | Some e \<Rightarrow> tick w))"

section \<open>Frames of the device calls\<close>

lemma tick_fields [simp]:
  "dv_cam (tick w) = dv_cam w" "dv_ain (tick w) = dv_ain w" "dv_aout (tick w) = dv_aout w"
  "dv_sent (tick w) = dv_sent w" "devices.more (tick w) = devices.more w"
  by (simp_all add: tick_def)

lemma emit_fields [simp]:
  "dv_cam (emit e w) = dv_cam w" "dv_ain (emit e w) = dv_ain w" "dv_aout (emit e w) = dv_aout w"
  "dv_tick (emit e w) = dv_tick w" "dv_sent (emit e w) = dv_sent w @ [e]"
  "devices.more (emit e w) = devices.more w"
  by (simp_all add: emit_def)

lemmas dev_defs = dev_camera_open_def dev_camera_close_def dev_request_keyframe_def dev_get_frame_def
  dev_audio_in_open_def dev_audio_in_close_def dev_audio_in_read_def dev_audio_out_open_def
  dev_audio_out_close_def dev_audio_out_play_def dev_tcp_send_def dev_udp_send_def

text \<open>The devices' own invariants, together.\<close>

definition dev_wf :: "'a devices_scheme \<Rightarrow> bool" where
  "dev_wf w \<longleftrightarrow> cam_wf (dv_cam w) \<and> ain_wf (dv_ain w) \<and> aout_wf (dv_aout w)"

definition devices_zero :: devices where
  "devices_zero = \<lparr>dv_tick = 0, dv_cam = cam_zero, dv_ain = ain_zero, dv_aout = aout_zero, dv_sent = []\<rparr>"

lemma dev_wf_ops [keeps]:
  "dev_wf w \<Longrightarrow> dev_wf (snd (dev_camera_open env w))"
  "dev_wf w \<Longrightarrow> dev_wf (dev_camera_close w)"
  "dev_wf w \<Longrightarrow> dev_wf (dev_request_keyframe w)"
  "dev_wf w \<Longrightarrow> dev_wf (snd (dev_get_frame env w))"
  "dev_wf w \<Longrightarrow> dev_wf (snd (dev_audio_in_open env w))"
  "dev_wf w \<Longrightarrow> dev_wf (dev_audio_in_close w)"
  "dev_wf w \<Longrightarrow> dev_wf (snd (dev_audio_in_read n w))"
  "dev_wf w \<Longrightarrow> dev_wf (snd (dev_audio_out_open env w))"
  "dev_wf w \<Longrightarrow> dev_wf (dev_audio_out_close w)"
  "dev_wf w \<Longrightarrow> dev_wf (dev_audio_out_play env bs w)"
  "dev_wf w \<Longrightarrow> dev_wf (snd (dev_tcp_send env c bs w))"
  "dev_wf w \<Longrightarrow> dev_wf (dev_udp_send env us dst bs w)"
  "dev_wf w \<Longrightarrow> dev_wf (tick w)"
  "dev_wf w \<Longrightarrow> dev_wf (emit e w)"
  by (simp_all add: dev_wf_def dev_defs Let_def case_prod_beta keeps split: option.split)

section \<open>Environments\<close>

text \<open>The network and the allocator answer without error.\<close>

definition network_up :: "env \<Rightarrow> bool" where
  "network_up env \<longleftrightarrow>
     (\<forall>t. en_alloc env t) \<and> (\<forall>t i k. en_alloc_nalu env t i k) \<and> (\<forall>t. en_tcp_send env t = None) \<and> (\<forall>t. en_udp_send env t = None)"

lemma dev_udp_sends:
  "network_up env \<Longrightarrow>
   dv_sent (foldl (\<lambda>v p. dev_udp_send env (Some port) dst p v) w ps) = dv_sent w @ map (UdpSend port dst) ps"
  by (induction ps arbitrary: w) (simp_all add: dev_udp_send_def network_up_def)

text \<open>An environment in which every call succeeds, for concrete instances.\<close>

definition good_env :: env where
  "good_env =
     \<lparr>en_md5 = flat_md5, en_rand = (\<lambda>_ _. 0), en_rand_u32 = (\<lambda>t. word_of_nat t), en_alloc = (\<lambda>_. True),
      en_alloc_nalu = (\<lambda>_ _ _. True), en_cam_create = (\<lambda>_. True), en_cam_init = (\<lambda>_ _. True), en_junk = (\<lambda>_ _. 0),
      en_encode = (\<lambda>_. example_encode), en_ain_open = (\<lambda>_ _. True), en_ain_start = (\<lambda>_. True),
      en_aout_open = (\<lambda>_ _. True), en_aout_write = (\<lambda>_. True), en_tcp_send = (\<lambda>_. None), en_udp_send = (\<lambda>_. None),
      en_udp_listen = (\<lambda>t. Inr (word_of_nat (40000 + t))), en_tcp_listen = (\<lambda>_. Inr 8554), en_tcp_accept = (\<lambda>_. None),
      en_peer = (\<lambda>_. sa_set_in 0x0A000005 50000), en_local_ip = (\<lambda>_. Some (sa_set_in 0x0A000002 0)),
      en_inet = \<lparr>is_pton6 = (\<lambda>_. None), is_ntop6 = (\<lambda>_. None), is_addrinfo = (\<lambda>_. None)\<rparr>,
      en_resolve = (\<lambda>_ _ port. Some (sa_set_in 0x0A000009 port)), en_tcp_connect = (\<lambda>t _. Inr (1000 + t)),
      en_stun_alloc = (\<lambda>_. None), en_stun_request = (\<lambda>_ _. None), en_http_listen = (\<lambda>_. None),
      en_fopen = (\<lambda>_ _. Some (2, [0x68, 0x69])), en_jiffies = (\<lambda>t. word_of_nat (1000 * t))\<rparr>"

lemma good_env_up: "network_up good_env"
  by (simp add: network_up_def good_env_def)

end
