(* ===== verification/Rtsp_Parse.thy ===== *)
theory Rtsp_Parse
  imports Prelude Libre_Fmt Mbuf
begin

text \<open>
  The text side of the RTSP server (\<open>rtsp_server.c\<close>): requests are parsed into a \<open>struct rtsp_req\<close>, the
  transport header is searched for ports and channels, replies are printed, and RTP packets are framed
  for the RTSP connection. Nothing here touches the state of the server.

  A request is the C string at the start of the receive buffer; \<open>len\<close> is the length of the request in
  it. The fixed arrays of \<open>struct rtsp_req\<close> are strings of bounded length.
\<close>

section \<open>Requests\<close>

record rtsp_req =
  rq_method :: string
  rq_uri :: string
  rq_cseq :: int
  rq_transport :: string
  rq_session :: string
  rq_authorization :: string

definition rtsp_req_zero :: rtsp_req where
  "rtsp_req_zero =
     \<lparr>rq_method = [], rq_uri = [], rq_cseq = 0, rq_transport = [], rq_session = [], rq_authorization = []\<rparr>"

text \<open>
  \<open>memcpy\<close> of \<open>v\<close> over a zeroed or already filled field: no terminator is written, so the tail of a longer
  earlier value stays.
\<close>

definition overlay :: "string \<Rightarrow> string \<Rightarrow> string" where
  "overlay v old = v @ drop (length v) old"

text \<open>
  The value of a header whose name and colon take \<open>n\<close> characters, in the line \<open>l\<close> that ends at offset
  \<open>eol\<close>: leading spaces are skipped, and it is cut to fit an array of \<open>sz\<close> bytes.
\<close>

definition header_value :: "string \<Rightarrow> nat \<Rightarrow> nat \<Rightarrow> nat \<Rightarrow> string" where
  "header_value l eol n sz =
     (let off = n + length (takeWhile (\<lambda>c. c = CHR '' '') (drop n l));
          len = eol - off
      in take (if len \<ge> sz then sz - 1 else len) (drop off l))"

definition parse_header_line :: "string \<Rightarrow> nat \<Rightarrow> rtsp_req \<Rightarrow> rtsp_req" where
  "parse_header_line l eol req =
     (if strncaseeq l ''CSeq:'' 5 then req\<lparr>rq_cseq := atoi (drop 5 l)\<rparr>
      else if strncaseeq l ''Transport:'' 10
      then req\<lparr>rq_transport := overlay (header_value l eol 10 256) (rq_transport req)\<rparr>
      else if strncaseeq l ''Session:'' 8
      then req\<lparr>rq_session := overlay (header_value l eol 8 32) (rq_session req)\<rparr>
      else if strncaseeq l ''Authorization:'' 14
      then req\<lparr>rq_authorization := overlay (header_value l eol 14 512) (rq_authorization req)\<rparr>
      else req)"

text \<open>The header loop: \<open>line\<close> starts at a line end, \<open>left\<close> is its distance to the end of the request.\<close>

function parse_headers :: "string \<Rightarrow> nat \<Rightarrow> rtsp_req \<Rightarrow> rtsp_req" where
  "parse_headers line left req =
     (if left \<le> 2 then req
      else (let l = drop 2 line
            in case strstr l crlf of
                 None \<Rightarrow> req
               | Some eol \<Rightarrow> parse_headers (drop eol l) (left - 2 - eol) (parse_header_line l eol req)))"
  by pat_completeness auto
termination by (relation "measure (\<lambda>(_, left, _). left)") auto

declare parse_headers.simps [simp del]

definition parse_rtsp_request :: "string \<Rightarrow> nat \<Rightarrow> rtsp_req" where
  "parse_rtsp_request buf len =
     (case strchr (take len buf) CHR '' '' of
        None \<Rightarrow> rtsp_req_zero
      | Some mlen \<Rightarrow>
          (let r1 = rtsp_req_zero\<lparr>rq_method := take (if mlen \<ge> 16 then 15 else mlen) buf\<rparr>;
               rest = drop (mlen + 1) (take len buf)
           in case strchr rest CHR '' '' of
                None \<Rightarrow> r1
              | Some ulen \<Rightarrow>
                  (let r2 = r1\<lparr>rq_uri := take (if ulen \<ge> 256 then 255 else ulen) rest\<rparr>
                   in case strstr buf crlf of
                        None \<Rightarrow> r2
                      | Some p \<Rightarrow> parse_headers (drop p buf) (len - p) r2)))"

section \<open>Transport\<close>

definition u16_of_int :: "int \<Rightarrow> u16" where "u16_of_int i = word_of_int i"
definition u8_of_int :: "int \<Rightarrow> u8" where "u8_of_int i = word_of_int i"

definition parse_client_port :: "string \<Rightarrow> errno + u16 \<times> u16" where
  "parse_client_port transport =
     (case strstr transport ''client_port='' of
        None \<Rightarrow> Inl ENOENT
      | Some i \<Rightarrow>
          (let p = drop (i + 12) transport;
               rtp_port = u16_of_int (atoi p)
           in Inr (rtp_port,
                   case strchr p CHR ''-'' of
                     Some d \<Rightarrow> u16_of_int (atoi (drop (d + 1) p))
                   | None \<Rightarrow> rtp_port + 1)))"

definition parse_interleaved :: "string \<Rightarrow> errno + u8 \<times> u8" where
  "parse_interleaved transport =
     (case strstr transport ''interleaved='' of
        None \<Rightarrow> Inl ENOENT
      | Some i \<Rightarrow>
          (let p = drop (i + 12) transport;
               rtp_ch = u8_of_int (atoi p)
           in Inr (rtp_ch,
                   case strchr p CHR ''-'' of
                     Some d \<Rightarrow> u8_of_int (atoi (drop (d + 1) p))
                   | None \<Rightarrow> rtp_ch + 1)))"

definition is_tcp_transport :: "string \<Rightarrow> bool" where
  "is_tcp_transport transport \<longleftrightarrow>
     strstr transport ''RTP/AVP/TCP'' \<noteq> None \<or> strstr transport ''interleaved='' \<noteq> None"

section \<open>Replies\<close>

text \<open>\<open>rtsp_reply\<close> up to the call of \<open>tcp_send\<close>: the bytes of the response.\<close>

definition rtsp_reply_text :: "string \<Rightarrow> int \<Rightarrow> int \<Rightarrow> string \<Rightarrow> string option \<Rightarrow> string \<Rightarrow> string" where
  "rtsp_reply_text session_id cseq code reason extra_hdrs body =
     ''RTSP/1.0 '' @ concat (fmt_d code) @ '' '' @ reason @ crlf
     @ ''CSeq: '' @ concat (fmt_d cseq) @ crlf
     @ (if session_id \<noteq> [] \<and> code \<ge> 200 \<and> code < 300 then ''Session: '' @ session_id @ '';timeout=60'' @ crlf else [])
     @ (case extra_hdrs of None \<Rightarrow> [] | Some h \<Rightarrow> h)
     @ (if length body > 0
        then ''Content-Length: '' @ itoa_dec (length body) @ crlf @ crlf @ body
        else crlf)"

text \<open>\<open>tcp_interleaved_send\<close> up to the call of \<open>tcp_send\<close>.\<close>

definition interleaved_frame :: "u8 \<Rightarrow> bytes \<Rightarrow> bytes" where
  "interleaved_frame channel rtp =
     (let rtp_len = length rtp;
          m0 = mbuf_write_u8 (mbuf_alloc (4 + rtp_len)) 0x24;
          m1 = mbuf_write_u8 m0 channel;
          m2 = mbuf_write_u8 m1 (word_of_nat (drop_bit 8 rtp_len));
          m3 = mbuf_write_u8 m2 (word_of_nat (take_bit 8 rtp_len));
          m4 = mbuf_write_mem m3 rtp
      in mbuf_data (mbuf_set_pos m4 0))"

section \<open>Bounds\<close>

text \<open>Every field of the request fits its array with the terminator.\<close>

definition req_wf :: "rtsp_req \<Rightarrow> bool" where
  "req_wf req \<longleftrightarrow>
     length (rq_method req) < 16 \<and> length (rq_uri req) < 256 \<and> length (rq_transport req) < 256
     \<and> length (rq_session req) < 32 \<and> length (rq_authorization req) < 512"

lemma length_header_value: "0 < sz \<Longrightarrow> length (header_value l eol n sz) < sz"
  by (auto simp: header_value_def Let_def)

lemma length_overlay [simp]: "length (overlay v old) = max (length v) (length old)"
  by (simp add: overlay_def)

lemma overlay_Nil [simp]: "overlay v [] = v"
  by (simp add: overlay_def)

lemma parse_header_line_wf [keeps]: "req_wf req \<Longrightarrow> req_wf (parse_header_line l eol req)"
  by (simp add: parse_header_line_def req_wf_def length_header_value)

lemma parse_headers_wf [keeps]: "req_wf req \<Longrightarrow> req_wf (parse_headers line left req)"
proof (induction line left req rule: parse_headers.induct)
  case (1 line left req)
  then show ?case
    by (subst parse_headers.simps) (auto simp: Let_def parse_header_line_wf split: option.split)
qed

lemma parse_rtsp_request_wf [keeps]: "req_wf (parse_rtsp_request buf len)"
  by (auto simp: parse_rtsp_request_def Let_def split: option.splits intro!: parse_headers_wf)
    (auto simp: req_wf_def rtsp_req_zero_def)

section \<open>Round trip\<close>

lemma strstr_crlf: "CR \<notin> set s \<Longrightarrow> strstr (s @ CR # LF # t) crlf = Some (length s)"
  using strstr_append_hit [of CR s "[LF]" t] by simp

lemma parse_headers_line:
  assumes "CR \<notin> set h" and "2 < left"
  shows "parse_headers (CR # LF # h @ CR # LF # rest) left req =
     parse_headers (CR # LF # rest) (left - 2 - length h) (parse_header_line (h @ CR # LF # rest) (length h) req)"
  using assms by (subst parse_headers.simps) (simp add: strstr_crlf)

lemma parse_headers_end: "left \<le> 2 \<Longrightarrow> parse_headers line left req = req"
  by (subst parse_headers.simps) simp

lemmas header_names = strncaseeq_def tolower_def

lemma parse_header_line_empty: "parse_header_line (CR # t) n req = req"
  by (simp add: parse_header_line_def header_names char_of_def bit_0)

lemma parse_headers_blank: "parse_headers (CR # LF # CR # LF # rest) 4 req = req"
  using parse_headers_line [of "[]" 4 rest req] by (simp add: parse_header_line_empty parse_headers_end)

text \<open>A value that a header carries unchanged: it does not start with a space and stays on its line.\<close>

definition header_text :: "string \<Rightarrow> bool" where
  "header_text v \<longleftrightarrow> CR \<notin> set v \<and> (v = [] \<or> hd v \<noteq> CHR '' '')"

lemma header_value_exact:
  assumes "header_text v" and "length v < sz" and "length name = n"
  shows "header_value (name @ CHR '' '' # v @ CR # rest) (n + 1 + length v) n sz = v"
proof -
  have "takeWhile (\<lambda>c. c = CHR '' '') (CHR '' '' # v @ CR # rest) = [CHR '' '']"
    using assms(1) by (cases v) (auto simp: header_text_def)
  with assms(2,3) show ?thesis by (simp add: header_value_def Let_def)
qed

lemma parse_header_line_names:
  "parse_header_line (''CSeq: '' @ t) n req = req\<lparr>rq_cseq := atoi (CHR '' '' # t)\<rparr>"
  "parse_header_line (''Transport: '' @ t) n req =
     req\<lparr>rq_transport := overlay (header_value (''Transport: '' @ t) n 10 256) (rq_transport req)\<rparr>"
  "parse_header_line (''Session: '' @ t) n req =
     req\<lparr>rq_session := overlay (header_value (''Session: '' @ t) n 8 32) (rq_session req)\<rparr>"
  "parse_header_line (''Authorization: '' @ t) n req =
     req\<lparr>rq_authorization := overlay (header_value (''Authorization: '' @ t) n 14 512) (rq_authorization req)\<rparr>"
  by (simp_all add: parse_header_line_def header_names)

lemma atoi_space: "atoi (CHR '' '' # t) = atoi t"
  by (simp add: atoi_def is_space_def)

definition request_text :: "rtsp_req \<Rightarrow> nat \<Rightarrow> string" where
  "request_text r cseq =
     rq_method r @ '' '' @ rq_uri r @ '' RTSP/1.0'' @ crlf
     @ ''CSeq: '' @ itoa_dec cseq @ crlf
     @ ''Transport: '' @ rq_transport r @ crlf
     @ ''Session: '' @ rq_session r @ crlf
     @ ''Authorization: '' @ rq_authorization r @ crlf @ crlf"

lemma itoa_dec_no_CR: "CR \<notin> set (itoa_dec n)"
  using itoa_dec_digits [of n] by (auto simp: list_all_iff is_digit_def)

lemma parse_cseq_line:
  "2 < left \<Longrightarrow>
   parse_headers (CR # LF # (''CSeq: '' @ itoa_dec n) @ CR # LF # rest) left req =
     parse_headers (CR # LF # rest) (left - 2 - length (''CSeq: '' @ itoa_dec n)) (req\<lparr>rq_cseq := int n\<rparr>)"
proof -
  assume left: "2 < left"
  have cr: "CR \<notin> set (''CSeq: '' @ itoa_dec n)" using itoa_dec_no_CR [of n] by simp
  have num: "atoi (CHR '' '' # itoa_dec n @ CR # r) = int n" for r
    using atoi_itoa_dec [of "CR # r" n] by (simp add: atoi_space is_digit_def)
  show ?thesis
    unfolding parse_headers_line [OF cr left] by (simp only: append_assoc parse_header_line_names num)
qed

text \<open>A line with one of the string valued headers.\<close>

lemma parse_value_line:
  assumes "header_text v" and "length v < sz" and "length name = n" and "CR \<notin> set name" and "2 < left"
    and line: "\<And>t e. parse_header_line (name @ CHR '' '' # t) e req = upd (header_value (name @ CHR '' '' # t) e n sz)"
  shows "parse_headers (CR # LF # (name @ CHR '' '' # v) @ CR # LF # rest) left req =
     parse_headers (CR # LF # rest) (left - 2 - length (name @ CHR '' '' # v)) (upd v)"
proof -
  have cr: "CR \<notin> set (name @ CHR '' '' # v)" using assms(1,4) by (simp add: header_text_def)
  have len: "length (name @ CHR '' '' # v) = n + 1 + length v" using assms(3) by simp
  have "parse_header_line (name @ CHR '' '' # v @ CR # LF # rest) (n + 1 + length v) req = upd v"
    unfolding line by (simp only: header_value_exact [OF assms(1-3)])
  then show ?thesis
    unfolding parse_headers_line [OF cr assms(5)] len by (simp only: append_assoc append_Cons)
qed

lemma parse_headers_request:
  assumes "header_text t" "header_text s" "header_text a" "length t < 256" "length s < 32" "length a < 512"
    and "rq_transport req = []" "rq_session req = []" "rq_authorization req = []"
  shows "parse_headers (CR # LF # (''CSeq: '' @ itoa_dec n) @ CR # LF # (''Transport: '' @ t) @ CR # LF
      # (''Session: '' @ s) @ CR # LF # (''Authorization: '' @ a) @ CR # LF # CR # LF # rest)
      (53 + length (itoa_dec n) + length t + length s + length a) req =
     req\<lparr>rq_cseq := int n, rq_transport := t, rq_session := s, rq_authorization := a\<rparr>"
proof -
  let ?r1 = "req\<lparr>rq_cseq := int n\<rparr>"
  let ?r2 = "?r1\<lparr>rq_transport := t\<rparr>"
  let ?r3 = "?r2\<lparr>rq_session := s\<rparr>"
  let ?la = "CR # LF # (''Authorization: '' @ a) @ CR # LF # CR # LF # rest"
  let ?ls = "CR # LF # (''Session: '' @ s) @ ?la"
  let ?lt = "CR # LF # (''Transport: '' @ t) @ ?ls"
  let ?L = "45 + length t + length s + length a"
  have 1: "parse_headers (CR # LF # (''CSeq: '' @ itoa_dec n) @ ?lt) (8 + length (itoa_dec n) + ?L) req
      = parse_headers ?lt ?L ?r1"
    by (subst parse_cseq_line) (simp_all add: add.assoc)
  have 2: "parse_headers ?lt ?L ?r1 = parse_headers ?ls (32 + length s + length a) ?r2"
    using parse_value_line [OF assms(1,4), of "''Transport:''" 10 ?L ?r1 "\<lambda>v. ?r1\<lparr>rq_transport := v\<rparr>"]
    by (simp add: parse_header_line_def header_names char_of_def bit_0 assms add.assoc)
  have 3: "parse_headers ?ls (32 + length s + length a) ?r2 = parse_headers ?la (21 + length a) ?r3"
    using parse_value_line [OF assms(2,5), of "''Session:''" 8 "32 + length s + length a" ?r2 "\<lambda>v. ?r2\<lparr>rq_session := v\<rparr>"]
    by (simp add: parse_header_line_def header_names char_of_def bit_0 assms add.assoc)
  have 4: "parse_headers ?la (21 + length a) ?r3 = ?r3\<lparr>rq_authorization := a\<rparr>"
    using parse_value_line [OF assms(3,6), of "''Authorization:''" 14 "21 + length a" ?r3 "\<lambda>v. ?r3\<lparr>rq_authorization := v\<rparr>"]
    by (simp add: parse_header_line_def header_names char_of_def bit_0 assms parse_headers_blank add.assoc)
  have "53 + length (itoa_dec n) + length t + length s + length a = 8 + length (itoa_dec n) + ?L" by simp
  with 1 2 3 4 show ?thesis by (simp only:)
qed

lemma drop_exact: "drop (length xs) (xs @ ys) = ys"
  by simp

lemma strchr_take: "ch \<notin> set s \<Longrightarrow> length s < n \<Longrightarrow> strchr (take n (s @ ch # t)) ch = Some (length s)"
  by (simp add: take_Cons')

lemma parse_request_text:
  assumes req: "req_wf r" and cseq: "rq_cseq r = int n"
    and line: "CHR '' '' \<notin> set (rq_method r)" "CHR '' '' \<notin> set (rq_uri r)" "CR \<notin> set (rq_method r)" "CR \<notin> set (rq_uri r)"
    and hdrs: "header_text (rq_transport r)" "header_text (rq_session r)" "header_text (rq_authorization r)"
  shows "parse_rtsp_request (request_text r n @ rest) (length (request_text r n)) = r"
proof -
  let ?m = "rq_method r" and ?u = "rq_uri r" and ?t = "rq_transport r" and ?s = "rq_session r"
    and ?a = "rq_authorization r"
  let ?hd = "(''CSeq: '' @ itoa_dec n) @ CR # LF # (''Transport: '' @ ?t) @ CR # LF # (''Session: '' @ ?s) @ CR # LF
      # (''Authorization: '' @ ?a) @ CR # LF # CR # LF # rest"
  let ?buf = "request_text r n @ rest" and ?len = "length (request_text r n)"
  have buf: "?buf = (?m @ '' '' @ ?u @ '' RTSP/1.0'') @ CR # LF # ?hd" by (simp add: request_text_def)
  have len: "?len = length ?m + length ?u + 10 + (53 + length (itoa_dec n) + length ?t + length ?s + length ?a)"
    by (simp add: request_text_def)
  have sp1: "strchr (take ?len ?buf) CHR '' '' = Some (length ?m)"
    using strchr_take [OF line(1), of ?len "?u @ '' RTSP/1.0'' @ CR # LF # ?hd"] by (simp add: buf len)
  have "drop (length ?m + 1) (request_text r n) = ?u @ CHR '' '' # drop (length ?m + length ?u + 2) (request_text r n)"
    unfolding request_text_def by simp
  then have rest: "drop (length ?m + 1) (take ?len ?buf) =
      ?u @ CHR '' '' # drop (length ?m + length ?u + 2) (request_text r n)" by simp
  have sp2: "strchr (drop (length ?m + 1) (take ?len ?buf)) CHR '' '' = Some (length ?u)"
    unfolding rest using line(2) by simp
  have first: "strstr ?buf crlf = Some (length ?m + length ?u + 10)"
    unfolding buf using strstr_crlf [of "?m @ '' '' @ ?u @ '' RTSP/1.0''" ?hd] line(3,4) by simp
  have L: "length ?m + length ?u + 10 = length (?m @ '' '' @ ?u @ '' RTSP/1.0'')" by simp
  have "drop (length ?m + length ?u + 10) ?buf = CR # LF # ?hd"
    unfolding buf L by (rule drop_exact)
  moreover have "?len - (length ?m + length ?u + 10) = 53 + length (itoa_dec n) + length ?t + length ?s + length ?a"
    by (simp add: len)
  moreover have "take (length ?m) ?buf = ?m" "take (length ?u) (drop (length ?m + 1) (take ?len ?buf)) = ?u"
    unfolding rest by (simp_all add: buf)
  moreover have "length ?m < 16" "length ?u < 256" "length ?t < 256" "length ?s < 32" "length ?a < 512"
    using req by (simp_all add: req_wf_def)
  ultimately show ?thesis
    unfolding parse_rtsp_request_def
    using sp1 sp2 first cseq parse_headers_request [OF hdrs, of "rtsp_req_zero\<lparr>rq_method := ?m, rq_uri := ?u\<rparr>" n rest]
    by (simp add: Let_def rtsp_req_zero_def del: drop_append take_append)
qed

section \<open>Transport parameters and frames\<close>

lemma u16_of_int_uint [simp]: "u16_of_int (uint v) = v"
  by (simp add: u16_of_int_def)

lemma u8_of_int_uint [simp]: "u8_of_int (uint v) = v"
  by (simp add: u8_of_int_def)

text \<open>Two numbers with a dash between them, as the transport header carries ports and channels.\<close>

lemma atoi_pair:
  assumes "rest = [] \<or> \<not> is_digit (hd rest)"
  shows "atoi (itoa_dec a @ CHR ''-'' # itoa_dec b @ rest) = int a"
    and "strchr (itoa_dec a @ CHR ''-'' # itoa_dec b @ rest) CHR ''-'' = Some (length (itoa_dec a))"
    and "atoi (drop (length (itoa_dec a) + 1) (itoa_dec a @ CHR ''-'' # itoa_dec b @ rest)) = int b"
proof -
  show "atoi (itoa_dec a @ CHR ''-'' # itoa_dec b @ rest) = int a"
    by (rule atoi_itoa_dec) (simp add: is_digit_def)
  have "CHR ''-'' \<notin> set (itoa_dec a)"
    using itoa_dec_digits [of a] by (auto simp: list_all_iff is_digit_def)
  then show "strchr (itoa_dec a @ CHR ''-'' # itoa_dec b @ rest) CHR ''-'' = Some (length (itoa_dec a))" by simp
  show "atoi (drop (length (itoa_dec a) + 1) (itoa_dec a @ CHR ''-'' # itoa_dec b @ rest)) = int b"
    using atoi_itoa_dec [OF assms, of b] by simp
qed

lemma parse_client_port_pair:
  assumes "strstr transport ''client_port='' = Some i" and "rest = [] \<or> \<not> is_digit (hd rest)"
    and "drop (i + 12) transport = itoa_dec (unat a) @ CHR ''-'' # itoa_dec (unat b) @ rest"
  shows "parse_client_port transport = Inr (a, b)"
  using atoi_pair [OF assms(2), of "unat a" "unat b"] assms(1,3) by (simp add: parse_client_port_def Let_def)

lemma parse_interleaved_pair:
  assumes "strstr transport ''interleaved='' = Some i" and "rest = [] \<or> \<not> is_digit (hd rest)"
    and "drop (i + 12) transport = itoa_dec (unat a) @ CHR ''-'' # itoa_dec (unat b) @ rest"
  shows "parse_interleaved transport = Inr (a, b)"
  using atoi_pair [OF assms(2), of "unat a" "unat b"] assms(1,3) by (simp add: parse_interleaved_def Let_def)

lemma interleaved_frame_bytes [layout]:
  "interleaved_frame ch rtp =
     [0x24, ch, word_of_nat (drop_bit 8 (length rtp)), word_of_nat (take_bit 8 (length rtp))] @ rtp"
proof -
  have "interleaved_frame ch rtp =
      mbuf_data (mbuf_set_pos (foldl mbuf_write_mem (mbuf_alloc (4 + length rtp))
        [[0x24], [ch], [word_of_nat (drop_bit 8 (length rtp))], [word_of_nat (take_bit 8 (length rtp))], rtp]) 0)"
    by (simp add: interleaved_frame_def Let_def mbuf_write_u8_def)
  then show ?thesis unfolding mb.packet_of_pieces by simp
qed

text \<open>The length a receiver computes from the two bytes of the frame header.\<close>

definition frame_length :: "u8 \<Rightarrow> u8 \<Rightarrow> nat" where
  "frame_length hi lo = unat hi * 256 + unat lo"

lemma frame_length_bytes:
  assumes "n < 65536"
  shows "frame_length (word_of_nat (drop_bit 8 n)) (word_of_nat (take_bit 8 n)) = n"
proof -
  have "drop_bit 8 n < 256" using assms by (simp add: drop_bit_eq_div div_less_iff_less_mult)
  moreover have "take_bit 8 n < 256" using take_bit_nat_less_exp [of 8 n] by simp
  ultimately show ?thesis
    by (simp add: frame_length_def unat_of_nat drop_bit_eq_div take_bit_eq_mod)
qed

section \<open>Properties\<close>

text \<open>Whatever bytes a client sends, every field \<open>parse_rtsp_request\<close> fills fits its array with its
  terminator: method, URI, transport, session and authorization.\<close>

lemma parse_request_bounds:
  "length (rq_method (parse_rtsp_request buf len)) < 16 \<and> length (rq_uri (parse_rtsp_request buf len)) < 256
   \<and> length (rq_transport (parse_rtsp_request buf len)) < 256
   \<and> length (rq_session (parse_rtsp_request buf len)) < 32
   \<and> length (rq_authorization (parse_rtsp_request buf len)) < 512"
  using parse_rtsp_request_wf [of buf len] by (simp only: req_wf_def simp_thms)


definition example_req :: rtsp_req where
  "example_req =
     \<lparr>rq_method = ''SETUP'', rq_uri = ''rtsp://10.0.0.2/live/trackID=0'', rq_cseq = 3,
      rq_transport = ''RTP/AVP/TCP;unicast;interleaved=0-1'', rq_session = [], rq_authorization = []\<rparr>"


end
