(* ===== verification/Base64.thy ===== *)
theory Base64
  imports Prelude
begin

text \<open>
  libre's Base-64 codec (\<open>src/base64/b64.c\<close>). The RTSP server encodes the H.264 parameter sets with
  it for the SDP attribute \<open>sprop-parameter-sets\<close>; the client decodes them.
\<close>

definition b64_table :: string where
  "b64_table = ''ABCDEFGHIJKLMNOPQRSTUVWXYZabcdefghijklmnopqrstuvwxyz0123456789+/''"

text \<open>\<open>b64_table[v >> k & 0x3f]\<close>\<close>

definition b64_char :: "u32 \<Rightarrow> char" where
  "b64_char v = b64_table ! unat (v AND 0x3F)"

text \<open>One turn of the encoder's loop: three input bytes, fewer at the end, to four characters.\<close>

definition b64_group :: "u8 \<Rightarrow> u8 option \<Rightarrow> u8 option \<Rightarrow> string" where
  "b64_group a b c =
     (let v = push_bit 16 (ucast a) OR (case b of None \<Rightarrow> 0 | Some x \<Rightarrow> push_bit 8 (ucast x))
              OR (case c of None \<Rightarrow> 0 | Some x \<Rightarrow> ucast x) :: u32;
          pad = (if b = None then 1 else 0) + (if c = None then 1 else 0 :: nat)
      in [b64_char (drop_bit 18 v), b64_char (drop_bit 12 v),
          if pad \<ge> 2 then CHR ''='' else b64_char (drop_bit 6 v),
          if pad \<ge> 1 then CHR ''='' else b64_char v])"

fun b64_encode_loop :: "bytes \<Rightarrow> string" where
  "b64_encode_loop [] = []"
| "b64_encode_loop [a] = b64_group a None None"
| "b64_encode_loop [a, b] = b64_group a (Some b) None"
| "b64_encode_loop (a # b # c # r) = b64_group a (Some b) (Some c) @ b64_encode_loop r"

definition base64_encode :: "bytes \<Rightarrow> nat \<Rightarrow> errno + string" where
  "base64_encode inp olen =
     (if olen < 4 * ((length inp + 2) div 3) then Inl EOVERFLOW else Inr (b64_encode_loop inp))"

definition b64val :: "char \<Rightarrow> u32" where
  "b64val c =
     (let n = of_char c :: nat in
      if 65 \<le> n \<and> n \<le> 90 then word_of_nat (n - 65)
      else if 97 \<le> n \<and> n \<le> 122 then word_of_nat (n - 97 + 26)
      else if 48 \<le> n \<and> n \<le> 57 then word_of_nat (n - 48 + 52)
      else if c = CHR ''+'' \<or> c = CHR ''-'' then 62
      else if c = CHR ''/'' \<or> c = CHR ''_'' then 63
      else if c = CHR ''='' then 2 ^ 24
      else 0)"

text \<open>One turn of the decoder's loop; a missing third or fourth character counts as padding.\<close>

definition b64_ungroup :: "u32 \<Rightarrow> u32 \<Rightarrow> u32 \<Rightarrow> u32 \<Rightarrow> bytes" where
  "b64_ungroup a b c d =
     (let v = push_bit 18 a OR push_bit 12 b OR push_bit 6 c OR d
      in [ucast (drop_bit 16 v)]
         @ (if v AND 2 ^ 30 = 0 then [ucast (drop_bit 8 v)] else [])
         @ (if v AND 2 ^ 24 = 0 then [ucast v] else []))"

fun b64_decode_loop :: "string \<Rightarrow> bytes" where
  "b64_decode_loop (a # b # c # d # r) =
     b64_ungroup (b64val a) (b64val b) (b64val c) (b64val d) @ b64_decode_loop r"
| "b64_decode_loop [a, b, c] = b64_ungroup (b64val a) (b64val b) (b64val c) (2 ^ 24)"
| "b64_decode_loop [a, b] = b64_ungroup (b64val a) (b64val b) (2 ^ 24) (2 ^ 24)"
| "b64_decode_loop _ = []"

definition base64_decode :: "string \<Rightarrow> nat \<Rightarrow> errno + bytes" where
  "base64_decode inp olen =
     (if olen < 3 * (length inp div 4) then Inl EOVERFLOW else Inr (b64_decode_loop inp))"

section \<open>Lemmas\<close>

lemma b64_table_val: "i < 64 \<Longrightarrow> b64val (b64_table ! i) = word_of_nat i"
proof -
  assume i: "i < 64"
  have "map b64val b64_table = map word_of_nat [0..<64]"
    by (simp add: b64_table_def b64val_def upt_rec)
  then have "map b64val b64_table ! i = word_of_nat i" using i by simp
  moreover have "length b64_table = 64" by (simp add: b64_table_def)
  ultimately show ?thesis using i by simp
qed

lemma b64val_char [simp]: "b64val (b64_char v) = take_bit 6 v"
proof -
  have "v AND 0x3F = take_bit 6 v" by (simp add: take_bit_eq_mask mask_eq_exp_minus_1)
  moreover have "unat (take_bit 6 v) < 64"
    using take_bit_nat_less_exp [of 6 "unat v"] by (simp add: unsigned_take_bit_eq)
  ultimately show ?thesis by (simp add: b64_char_def b64_table_val)
qed

lemma b64val_pad [simp]: "b64val CHR ''='' = push_bit 24 1"
  by (simp add: b64val_def push_bit_eq_mult)

lemma bit_u32_of_u8 [simp]: "8 \<le> n \<Longrightarrow> \<not> bit (ucast (a :: u8) :: u32) n"
  by (simp add: bit_ucast_iff)

lemma and_exp_zero: "v AND 2 ^ n = 0 \<longleftrightarrow> \<not> bit (v :: u32) n"
  by (rule and_exp_eq_0_iff_not_bit)

text \<open>Four six-bit groups of a 24-bit value put it together again.\<close>

lemma b64_recombine:
  fixes v :: u32
  assumes "\<And>n. 24 \<le> n \<Longrightarrow> \<not> bit v n"
  shows "push_bit 18 (take_bit 6 (drop_bit 18 v)) OR push_bit 12 (take_bit 6 (drop_bit 12 v))
         OR push_bit 6 (take_bit 6 (drop_bit 6 v)) OR take_bit 6 v = v"
proof (rule bit_word_eqI)
  fix n assume "n < LENGTH(32)"
  have "n < 6 \<or> 6 \<le> n \<and> n < 12 \<or> 12 \<le> n \<and> n < 18 \<or> 18 \<le> n \<and> n < 24 \<or> 24 \<le> n" by linarith
  then show "bit (push_bit 18 (take_bit 6 (drop_bit 18 v)) OR push_bit 12 (take_bit 6 (drop_bit 12 v))
         OR push_bit 6 (take_bit 6 (drop_bit 6 v)) OR take_bit 6 v) n = bit v n"
    using assms [of n] by (auto simp: bit_simps)
qed

lemma byte_positions:
  assumes "n < LENGTH(8)"
  obtains "n = 0" | "n = 1" | "n = 2" | "n = 3" | "n = 4" | "n = 5" | "n = 6" | "n = 7"
  using assms by fastforce

lemma b64_ungroup_bits:
  "b64_ungroup a b c d =
     (let v = push_bit 18 a OR push_bit 12 b OR push_bit 6 c OR d
      in [ucast (drop_bit 16 v)] @ (if bit v 30 then [] else [ucast (drop_bit 8 v)])
         @ (if bit v 24 then [] else [ucast v]))"
  unfolding b64_ungroup_def and_exp_zero by (simp add: Let_def)

lemma b64_ungroup_group3:
  "b64_decode_loop (b64_group a (Some b) (Some c) @ r) = [a, b, c] @ b64_decode_loop r"
proof -
  let ?v = "push_bit 16 (ucast a) OR push_bit 8 (ucast b) OR ucast c :: u32"
  have hi: "\<not> bit ?v n" if "24 \<le> n" for n
    using that by (auto simp: bit_simps)
  have "b64_decode_loop (b64_group a (Some b) (Some c) @ r) =
      b64_ungroup (take_bit 6 (drop_bit 18 ?v)) (take_bit 6 (drop_bit 12 ?v))
        (take_bit 6 (drop_bit 6 ?v)) (take_bit 6 ?v) @ b64_decode_loop r"
    by (simp add: b64_group_def Let_def)
  then have "b64_decode_loop (b64_group a (Some b) (Some c) @ r)
      = [ucast (drop_bit 16 ?v), ucast (drop_bit 8 ?v), ucast ?v] @ b64_decode_loop r"
    using hi [of 24] hi [of 30]
    by (simp only: b64_ungroup_bits b64_recombine [OF hi] Let_def if_False append.simps simp_thms
        numeral_le_iff semiring_norm)
  moreover have "ucast (drop_bit 16 ?v) = a" "ucast (drop_bit 8 ?v) = b" "ucast ?v = c"
    by (auto simp: bit_simps intro!: bit_word_eqI)
  ultimately show ?thesis by simp
qed

lemma b64_ungroup_group2: "b64_decode_loop (b64_group a (Some b) None) = [a, b]"
proof -
  let ?v = "push_bit 16 (ucast a) OR push_bit 8 (ucast b) :: u32"
  let ?w = "push_bit 18 (take_bit 6 (drop_bit 18 ?v)) OR push_bit 12 (take_bit 6 (drop_bit 12 ?v))
         OR push_bit 6 (take_bit 6 (drop_bit 6 ?v)) OR push_bit 24 1"
  have bits: "bit ?w 24" "\<not> bit ?w 30" by (auto simp: bit_simps)
  have "b64_decode_loop (b64_group a (Some b) None) =
      b64_ungroup (take_bit 6 (drop_bit 18 ?v)) (take_bit 6 (drop_bit 12 ?v))
        (take_bit 6 (drop_bit 6 ?v)) (push_bit 24 1)"
    by (simp add: b64_group_def Let_def)
  then have "b64_decode_loop (b64_group a (Some b) None) = [ucast (drop_bit 16 ?w), ucast (drop_bit 8 ?w)]"
    by (simp only: b64_ungroup_bits Let_def bits if_True if_False append.simps simp_thms)
  moreover have "ucast (drop_bit 16 ?w) = a"
  proof (rule bit_word_eqI)
    fix n assume "n < LENGTH(8)"
    then show "bit (ucast (drop_bit 16 ?w) :: u8) n = bit a n" by (cases rule: byte_positions) (simp_all add: bit_simps)
  qed
  moreover have "ucast (drop_bit 8 ?w) = b"
  proof (rule bit_word_eqI)
    fix n assume "n < LENGTH(8)"
    then show "bit (ucast (drop_bit 8 ?w) :: u8) n = bit b n" by (cases rule: byte_positions) (simp_all add: bit_simps)
  qed
  ultimately show ?thesis by simp
qed

lemma b64_ungroup_group1: "b64_decode_loop (b64_group a None None) = [a]"
proof -
  let ?v = "push_bit 16 (ucast a) :: u32"
  let ?w = "push_bit 18 (take_bit 6 (drop_bit 18 ?v)) OR push_bit 12 (take_bit 6 (drop_bit 12 ?v))
         OR push_bit 6 (push_bit 24 1) OR push_bit 24 1"
  have bits: "bit ?w 24" "bit ?w 30" by (auto simp: bit_simps)
  have "b64_decode_loop (b64_group a None None) =
      b64_ungroup (take_bit 6 (drop_bit 18 ?v)) (take_bit 6 (drop_bit 12 ?v)) (push_bit 24 1) (push_bit 24 1)"
    by (simp add: b64_group_def Let_def)
  then have "b64_decode_loop (b64_group a None None) = [ucast (drop_bit 16 ?w)]"
    by (simp only: b64_ungroup_bits Let_def bits if_True if_False append.simps simp_thms)
  moreover have "ucast (drop_bit 16 ?w) = a"
  proof (rule bit_word_eqI)
    fix n assume "n < LENGTH(8)"
    then show "bit (ucast (drop_bit 16 ?w) :: u8) n = bit a n" by (cases rule: byte_positions) (simp_all add: bit_simps)
  qed
  ultimately show ?thesis by simp
qed

lemma b64_loop_roundtrip: "b64_decode_loop (b64_encode_loop xs) = xs"
  by (induction xs rule: b64_encode_loop.induct)
     (simp_all add: b64_ungroup_group1 b64_ungroup_group2 b64_ungroup_group3)

lemma length_b64_group [simp]: "length (b64_group a b c) = 4"
  by (simp add: b64_group_def Let_def)

lemma length_b64_encode_loop: "length (b64_encode_loop xs) = 4 * ((length xs + 2) div 3)"
  by (induction xs rule: b64_encode_loop.induct) (simp, simp, simp, simp, presburger)

section \<open>Properties\<close>

text \<open>
  whenever the output buffer is large enough, Base-64 encoding succeeds, writes
  exactly \<open>4 * ceil (n / 3)\<close> characters, and decoding these characters returns the input; when the
  buffer is too small the encoder reports \<open>EOVERFLOW\<close> and writes nothing.
\<close>

lemma base64_roundtrip:
  "(if olen < 4 * ((length xs + 2) div 3) then base64_encode xs olen = Inl EOVERFLOW
    else \<exists>s. base64_encode xs olen = Inr s \<and> length s = 4 * ((length xs + 2) div 3)
           \<and> length s \<le> olen \<and> base64_decode s (3 * ((length xs + 2) div 3)) = Inr xs)"
  by (simp add: base64_encode_def base64_decode_def b64_loop_roundtrip length_b64_encode_loop)

end
