(* ===== verification/Rtsp_Server.thy ===== *)
theory Rtsp_Server
  imports World Rtsp_Auth Rtsp_Parse Base64
begin

text \<open>
  The RTSP server (\<open>rtsp_server.c\<close>): the clients and their state machine, the request handlers, the
  receive loop with its interleaved frames, the shared media timers and the server's life cycle.

  \<open>rtsp_world\<close> extends the devices by \<open>g_rtsp\<close> and the authentication state. A client is found by the
  number of its connection in \<open>rw_clients\<close>, the server's list in its order; freeing a client
  (\<open>mem_deref\<close>) runs \<open>client_destructor\<close>. A timer is \<open>Some ms\<close> while it runs. A receive buffer is the bytes
  between the start and the end of its \<open>mbuf\<close>. Log output is not modelled.
\<close>

section \<open>State\<close>

datatype rtsp_state = RTSP_IDLE | RTSP_READY | RTSP_PLAYING

record rtsp_client =
  cl_rbuf :: "bytes option"
  cl_state :: rtsp_state
  cl_session_id :: string
  cl_interleaved :: bool
  cl_rtp_video :: "u16 option"
  cl_video_dest :: sockaddr
  cl_video_srv_port :: u16
  cl_video_interleaved :: u8
  cl_video_interleaved_rtcp :: u8
  cl_video_ssrc :: u32
  cl_video_ts :: u32
  cl_video_seq :: u16
  cl_rtp_audio :: "u16 option"
  cl_audio_dest :: sockaddr
  cl_audio_srv_port :: u16
  cl_audio_interleaved :: u8
  cl_audio_interleaved_rtcp :: u8
  cl_audio_ssrc :: u32
  cl_audio_ts :: u32
  cl_audio_seq :: u16
  cl_video_setup :: bool
  cl_audio_setup :: bool
  cl_backchannel_setup :: bool
  cl_backchannel_interleaved :: u8
  cl_backchannel_interleaved_rtcp :: u8
  cl_audio_out_opened :: bool
  cl_tmr_timeout :: "nat option"

text \<open>A client as the connection handlers leave it: zeroed, with the two channels unused and the timeout started.\<close>

definition new_client :: rtsp_client where
  "new_client =
     \<lparr>cl_rbuf = None, cl_state = RTSP_IDLE, cl_session_id = [], cl_interleaved = False,
      cl_rtp_video = None, cl_video_dest = sa_zero, cl_video_srv_port = 0,
      cl_video_interleaved = 0, cl_video_interleaved_rtcp = 0, cl_video_ssrc = 0, cl_video_ts = 0, cl_video_seq = 0,
      cl_rtp_audio = None, cl_audio_dest = sa_zero, cl_audio_srv_port = 0,
      cl_audio_interleaved = 0, cl_audio_interleaved_rtcp = 0, cl_audio_ssrc = 0, cl_audio_ts = 0, cl_audio_seq = 0,
      cl_video_setup = False, cl_audio_setup = False, cl_backchannel_setup = False,
      cl_backchannel_interleaved = 0xFF, cl_backchannel_interleaved_rtcp = 0xFF, cl_audio_out_opened = False,
      cl_tmr_timeout = Some 60000\<rparr>"

record rtsp_world = devices +
  rw_auth :: rtsp_auth
  rw_listening :: bool
  rw_clients :: "(nat \<times> rtsp_client) list"
  rw_tmr_audio :: "nat option"
  rw_tmr_video :: "nat option"
  rw_camera_opened :: bool
  rw_video_frame_count :: u32
  rw_port :: u16
  rw_local_ip :: string
  rw_mic_opened :: bool

definition cli_get :: "nat \<Rightarrow> 'a rtsp_world_scheme \<Rightarrow> rtsp_client option" where
  "cli_get c w = map_of (rw_clients w) c"

definition cli_upd :: "nat \<Rightarrow> (rtsp_client \<Rightarrow> rtsp_client) \<Rightarrow> 'a rtsp_world_scheme \<Rightarrow> 'a rtsp_world_scheme" where
  "cli_upd c f w = w\<lparr>rw_clients := map (\<lambda>(i, x). (i, if i = c then f x else x)) (rw_clients w)\<rparr>"

section \<open>Clients and media\<close>

definition has_playing_clients :: "'a rtsp_world_scheme \<Rightarrow> bool" where
  "has_playing_clients w = list_ex (\<lambda>(i, cli). cl_state cli = RTSP_PLAYING) (rw_clients w)"

definition maybe_stop_media :: "'a rtsp_world_scheme \<Rightarrow> 'a rtsp_world_scheme" where
  "maybe_stop_media w =
     (if \<not> has_playing_clients w
      then w\<lparr>rw_tmr_video := None, rw_tmr_audio := None, rw_video_frame_count := 0\<rparr>
      else w)"

text \<open>\<open>mem_deref(cli)\<close> for a client in the list.\<close>

definition client_destructor :: "nat \<Rightarrow> 'a rtsp_world_scheme \<Rightarrow> 'a rtsp_world_scheme" where
  "client_destructor c w =
     (case cli_get c w of
        None \<Rightarrow> w
      | Some cli \<Rightarrow>
          (let w1 = (if cl_audio_out_opened cli then dev_audio_out_close w else w);
               w2 = w1\<lparr>rw_clients := filter (\<lambda>(i, x). i \<noteq> c) (rw_clients w1)\<rparr>
           in emit (TcpClosed c) w2))"

definition stop_if_playing :: "nat \<Rightarrow> 'a rtsp_world_scheme \<Rightarrow> 'a rtsp_world_scheme" where
  "stop_if_playing c w =
     (case cli_get c w of
        None \<Rightarrow> w
      | Some cli \<Rightarrow>
          if cl_state cli = RTSP_PLAYING
          then maybe_stop_media (cli_upd c (\<lambda>x. x\<lparr>cl_state := RTSP_IDLE\<rparr>) w)
          else w)"

definition session_timeout_handler :: "nat \<Rightarrow> 'a rtsp_world_scheme \<Rightarrow> 'a rtsp_world_scheme" where
  "session_timeout_handler c w = client_destructor c (stop_if_playing c w)"

definition start_mic :: "env \<Rightarrow> 'a rtsp_world_scheme \<Rightarrow> 'a rtsp_world_scheme" where
  "start_mic env w =
     (if \<not> rw_mic_opened w
      then (case dev_audio_in_open env w of
              (Some e, w1) \<Rightarrow> w1
            | (None, w1) \<Rightarrow> w1\<lparr>rw_mic_opened := True\<rparr>)
      else w)"

definition ensure_media_started :: "env \<Rightarrow> 'a rtsp_world_scheme \<Rightarrow> 'a rtsp_world_scheme" where
  "ensure_media_started env w =
     (let (ok, w1) =
            (if \<not> rw_camera_opened w
             then (case dev_camera_open env w of
                     (None, w1) \<Rightarrow> (True, w1\<lparr>rw_camera_opened := True\<rparr>)
                   | (Some e, w1) \<Rightarrow> if e = EALREADY then (True, w1\<lparr>rw_camera_opened := True\<rparr>) else (False, w1))
             else (True, w))
      in if \<not> ok then w1
         else (start_mic env w1)\<lparr>rw_tmr_video := Some VIDEO_PTIME, rw_tmr_audio := Some AUDIO_PTIME\<rparr>)"

definition alloc_rtp_socket :: "env \<Rightarrow> 'a rtsp_world_scheme \<Rightarrow> (errno + u16) \<times> 'a rtsp_world_scheme" where
  "alloc_rtp_socket env w = (en_udp_listen env (dv_tick w), tick w)"

section \<open>Sending\<close>

definition rtsp_reply ::
  "env \<Rightarrow> nat \<Rightarrow> int \<Rightarrow> int \<Rightarrow> string \<Rightarrow> string option \<Rightarrow> string \<Rightarrow> 'a rtsp_world_scheme
   \<Rightarrow> errno option \<times> 'a rtsp_world_scheme" where
  "rtsp_reply env c cseq code reason extra_hdrs body w =
     (case cli_get c w of
        None \<Rightarrow> (Some EINVAL, w)
      | Some cli \<Rightarrow>
          if \<not> en_alloc env (dv_tick w) then (Some ENOMEM, tick w)
          else dev_tcp_send env c
                 (text_bytes (rtsp_reply_text (cl_session_id cli) cseq code reason extra_hdrs body)) (tick w))"

definition tcp_interleaved_send :: "env \<Rightarrow> nat \<Rightarrow> u8 \<Rightarrow> bytes \<Rightarrow> 'a rtsp_world_scheme \<Rightarrow> errno option \<times> 'a rtsp_world_scheme"
  where
  "tcp_interleaved_send env c channel rtp w =
     (if \<not> en_alloc env (dv_tick w) then (Some ENOMEM, tick w)
      else dev_tcp_send env c (interleaved_frame channel rtp) (tick w))"

text \<open>The choice between the two transports at the end of every media packet; the result is not looked at.\<close>

definition send_media ::
  "env \<Rightarrow> nat \<Rightarrow> bool \<Rightarrow> u8 \<Rightarrow> u16 option \<Rightarrow> sockaddr \<Rightarrow> 'a rtsp_world_scheme \<Rightarrow> bytes \<Rightarrow> 'a rtsp_world_scheme" where
  "send_media env c interleaved channel us dst w p =
     (if interleaved then snd (tcp_interleaved_send env c channel p w) else dev_udp_send env us dst p w)"

text \<open>\<open>send_h264_nalu_to_client\<close>: the packets of a unit and the client's next sequence number.\<close>

definition send_h264_nalu_to_client :: "(nat \<Rightarrow> bool) \<Rightarrow> rtsp_client \<Rightarrow> bytes \<Rightarrow> bool \<Rightarrow> bytes list \<times> rtsp_client" where
  "send_h264_nalu_to_client alloc cli nalu is_last =
     (let (ps, sq) = h264_nalu_packets alloc (cl_video_ts cli) (cl_video_ssrc cli) (cl_video_seq cli) nalu is_last
      in (ps, cli\<lparr>cl_video_seq := sq\<rparr>))"

text \<open>The frame loop with the advance of the time stamp, for one client.\<close>

definition send_video_to_client :: "env \<Rightarrow> bytes list \<Rightarrow> nat \<Rightarrow> 'a rtsp_world_scheme \<Rightarrow> 'a rtsp_world_scheme" where
  "send_video_to_client env nalus c w =
     (case cli_get c w of
        None \<Rightarrow> w
      | Some cli \<Rightarrow>
          (let (ps, cli') = send_frame send_h264_nalu_to_client (en_alloc_nalu env (dv_tick w)) cli nalus;
               w1 = foldl (send_media env c (cl_interleaved cli) (cl_video_interleaved cli) (cl_rtp_video cli)
                            (cl_video_dest cli)) (tick w) ps
           in cli_upd c (\<lambda>_. cli'\<lparr>cl_video_ts := cl_video_ts cli + word_of_nat (VIDEO_CLOCK div VIDEO_FPS)\<rparr>) w1))"

text \<open>\<open>AUDIO_SAMPLES\<close> samples from the microphone, the missing ones zero, encoded.\<close>

definition mic_frame :: "'a rtsp_world_scheme \<Rightarrow> bytes \<times> 'a rtsp_world_scheme" where
  "mic_frame w =
     (let (xs, w1) = (if rw_mic_opened w then dev_audio_in_read AUDIO_SAMPLES w else ([], w));
          pcm = xs @ replicate (AUDIO_SAMPLES - length xs) 0
      in (map g711_pcm2ulaw pcm, w1))"

definition send_audio_to_client :: "env \<Rightarrow> bytes \<Rightarrow> nat \<Rightarrow> 'a rtsp_world_scheme \<Rightarrow> 'a rtsp_world_scheme" where
  "send_audio_to_client env pcmu c w =
     (case cli_get c w of
        None \<Rightarrow> w
      | Some cli \<Rightarrow>
          if \<not> en_alloc env (dv_tick w) then tick w
          else (let p = rtp_packet (media_header False PT_PCMU (cl_audio_seq cli) (cl_audio_ts cli) (cl_audio_ssrc cli)) [pcmu];
                    w1 = send_media env c (cl_interleaved cli) (cl_audio_interleaved cli) (cl_rtp_audio cli)
                           (cl_audio_dest cli) (tick w) p
                in cli_upd c (\<lambda>x. x\<lparr>cl_audio_seq := cl_audio_seq cli + 1,
                                     cl_audio_ts := cl_audio_ts cli + word_of_nat AUDIO_SAMPLES\<rparr>) w1))"

end
