(* ===== verification/Rtsp_Handlers.thy ===== *)
theory Rtsp_Handlers
  imports Rtsp_Server
begin

text \<open>
  The RTSP request handlers, the dispatcher with the authentication gate, the receive loop, the
  connection and timer callbacks and the life cycle of the server (\<open>rtsp_server.c\<close>, from
  \<open>handle_options\<close> on). Every handler is a function from the world to the world; long handlers are
  split where the source has its blocks.
\<close>

section \<open>OPTIONS and DESCRIBE\<close>

definition handle_options :: "env \<Rightarrow> nat \<Rightarrow> rtsp_req \<Rightarrow> 'a rtsp_world_scheme \<Rightarrow> 'a rtsp_world_scheme" where
  "handle_options env c req w =
     snd (rtsp_reply env c (rq_cseq req) 200 ''OK''
            (Some (''Public: OPTIONS, DESCRIBE, SETUP, PLAY, TEARDOWN, GET_PARAMETER'' @ crlf)) [] w)"

text \<open>The first block of \<open>handle_describe\<close>: make sure that the parameter sets are known.\<close>

definition describe_params :: "env \<Rightarrow> 'a rtsp_world_scheme \<Rightarrow> 'a rtsp_world_scheme" where
  "describe_params env w =
     (case camera_get_sps_pps (dv_cam w) of
        Inr _ \<Rightarrow> w
      | Inl _ \<Rightarrow>
          (let (err, w1) = dev_camera_open env w;
               w2 = (if err = None \<or> err = Some EALREADY
                     then snd (dev_get_frame env (dev_request_keyframe w1)) else w1)
           in if \<not> rw_camera_opened w2 \<and> err = None then w2\<lparr>rw_camera_opened := True\<rparr> else w2))"

definition describe_sprop :: "camera \<Rightarrow> string" where
  "describe_sprop cam =
     (case camera_get_sps_pps cam of
        Inl _ \<Rightarrow> []
      | Inr (sps, pps) \<Rightarrow>
          (case (base64_encode sps 127, base64_encode pps 127) of
             (Inr s, Inr p) \<Rightarrow> fst (re_snprintf 256 ['';sprop-parameter-sets='', s, '','', p])
           | _ \<Rightarrow> []))"

definition sdp_text :: "string \<Rightarrow> string \<Rightarrow> string \<times> nat option" where
  "sdp_text local_ip sprop =
     re_snprintf 2048
       ([''v=0'' @ crlf @ ''o=- 0 0 IN IP4 '', local_ip,
         crlf @ ''s=Smart Lock Intercom'' @ crlf @ ''c=IN IP4 0.0.0.0'' @ crlf @ ''t=0 0'' @ crlf
         @ ''m=video 0 RTP/AVP ''] @ fmt_d (uint PT_H264)
        @ [crlf @ ''a=rtpmap:''] @ fmt_d (uint PT_H264)
        @ ['' H264/90000'' @ crlf @ ''a=fmtp:''] @ fmt_d (uint PT_H264)
        @ ['' profile-level-id=42e01f;packetization-mode=1'', sprop,
           crlf @ ''a=control:trackID=0'' @ crlf @ ''m=audio 0 RTP/AVP ''] @ fmt_d (uint PT_PCMU)
        @ [crlf @ ''a=rtpmap:''] @ fmt_d (uint PT_PCMU)
        @ ['' PCMU/8000'' @ crlf @ ''a=ptime:''] @ fmt_d (int AUDIO_PTIME)
        @ [crlf @ ''a=control:trackID=1'' @ crlf @ ''m=audio 0 RTP/AVP ''] @ fmt_d (uint PT_PCMU)
        @ [crlf @ ''a=rtpmap:''] @ fmt_d (uint PT_PCMU)
        @ ['' PCMU/8000'' @ crlf @ ''a=ptime:''] @ fmt_d (int AUDIO_PTIME)
        @ [crlf @ ''a=sendonly'' @ crlf @ ''a=control:trackID=2'' @ crlf])"

definition handle_describe :: "env \<Rightarrow> nat \<Rightarrow> rtsp_req \<Rightarrow> 'a rtsp_world_scheme \<Rightarrow> 'a rtsp_world_scheme" where
  "handle_describe env c req w =
     (let w1 = describe_params env w;
          sdp = fst (sdp_text (rw_local_ip w1) (describe_sprop (dv_cam w1)));
          desc_hdrs = fst (re_snprintf 512 [''Content-Type: application/sdp'' @ crlf @ ''Content-Base: '',
                                            rq_uri req, ''/'' @ crlf])
      in snd (rtsp_reply env c (rq_cseq req) 200 ''OK'' (Some desc_hdrs) sdp w1))"

section \<open>SETUP\<close>

definition has_track :: "string \<Rightarrow> string \<Rightarrow> bool" where
  "has_track uri pat =
     (case strstr uri pat of
        None \<Rightarrow> False
      | Some i \<Rightarrow> (let r = drop (i + 9) uri in r = [] \<or> hd r \<in> set ''/&; ''))"

text \<open>The flags \<open>is_video\<close>, \<open>is_audio\<close>, \<open>is_backchannel\<close> with the default for a URI without a track.\<close>

definition setup_tracks :: "rtsp_client \<Rightarrow> string \<Rightarrow> bool \<times> bool \<times> bool" where
  "setup_tracks cli uri =
     (let v = has_track uri ''trackID=0''; a = has_track uri ''trackID=1''; b = has_track uri ''trackID=2''
      in if \<not> v \<and> \<not> a \<and> \<not> b
         then (if \<not> cl_video_setup cli then (True, a, b) else (v, True, b))
         else (v, a, b))"

definition transport_tcp :: "u8 \<Rightarrow> u8 \<Rightarrow> u32 option \<Rightarrow> string" where
  "transport_tcp rtp_ch rtcp_ch ssrc =
     fst (re_snprintf 256
       ([''Transport: RTP/AVP/TCP;unicast;interleaved=''] @ fmt_u (unat rtp_ch) @ [''-''] @ fmt_u (unat rtcp_ch)
        @ (case ssrc of None \<Rightarrow> [crlf] | Some v \<Rightarrow> ['';ssrc=''] @ fmt_08X v @ [crlf])))"

definition setup_tcp :: "env \<Rightarrow> nat \<Rightarrow> bool \<Rightarrow> bool \<Rightarrow> string \<Rightarrow> 'a rtsp_world_scheme \<Rightarrow> string \<times> 'a rtsp_world_scheme" where
  "setup_tcp env c is_video is_backchannel transport w =
     (let (rtp_ch, rtcp_ch) =
            (case parse_interleaved transport of
               Inr p \<Rightarrow> p
             | Inl _ \<Rightarrow> if is_video then (0, 1) else (2, 3));
          w0 = cli_upd c (\<lambda>x. x\<lparr>cl_interleaved := True\<rparr>) w;
          ssrc = en_rand_u32 env (dv_tick w0)
      in if is_video
         then (transport_tcp rtp_ch rtcp_ch (Some ssrc),
              cli_upd c (\<lambda>x. x\<lparr>cl_video_interleaved := rtp_ch, cl_video_interleaved_rtcp := rtcp_ch,
                               cl_video_ssrc := ssrc, cl_video_setup := True\<rparr>) (tick w0))
         else if is_backchannel
         then (transport_tcp rtp_ch rtcp_ch None,
              cli_upd c (\<lambda>x. x\<lparr>cl_backchannel_interleaved := rtp_ch, cl_backchannel_interleaved_rtcp := rtcp_ch,
                               cl_backchannel_setup := True\<rparr>) w0)
         else (transport_tcp rtp_ch rtcp_ch (Some ssrc),
              cli_upd c (\<lambda>x. x\<lparr>cl_audio_interleaved := rtp_ch, cl_audio_interleaved_rtcp := rtcp_ch,
                               cl_audio_ssrc := ssrc, cl_audio_setup := True\<rparr>) (tick w0)))"

definition transport_udp :: "u16 \<Rightarrow> u16 \<Rightarrow> u16 \<Rightarrow> u32 \<Rightarrow> string" where
  "transport_udp client_rtp client_rtcp srv_port ssrc =
     fst (re_snprintf 256
       ([''Transport: RTP/AVP;unicast;client_port=''] @ fmt_u (unat client_rtp) @ [''-''] @ fmt_u (unat client_rtcp)
        @ ['';server_port=''] @ fmt_u (unat srv_port) @ [''-''] @ fmt_u (unat srv_port + 1)
        @ ['';ssrc=''] @ fmt_08X ssrc @ [crlf]))"

definition unsupported_transport :: "env \<Rightarrow> nat \<Rightarrow> rtsp_req \<Rightarrow> 'a rtsp_world_scheme \<Rightarrow> 'a rtsp_world_scheme" where
  "unsupported_transport env c req w =
     snd (rtsp_reply env c (rq_cseq req) 461 ''Unsupported Transport'' None [] w)"

text \<open>The UDP blocks for one of the two media: \<open>Inl\<close> when a reply has been sent already.\<close>

definition setup_udp_video ::
  "env \<Rightarrow> nat \<Rightarrow> rtsp_client \<Rightarrow> rtsp_req \<Rightarrow> sockaddr \<Rightarrow> u16 \<Rightarrow> u16 \<Rightarrow> 'a rtsp_world_scheme
   \<Rightarrow> 'a rtsp_world_scheme + string \<times> 'a rtsp_world_scheme" where
  "setup_udp_video env c cli req peer client_rtp client_rtcp w =
     (let sock = (if cl_rtp_video cli = None
                  then (case alloc_rtp_socket env w of
                          (Inl e, w1) \<Rightarrow> Inl w1
                        | (Inr port, w1) \<Rightarrow>
                            Inr (Some port, port, en_rand_u32 env (dv_tick w1), tick w1))
                  else Inr (cl_rtp_video cli, cl_video_srv_port cli, cl_video_ssrc cli, w))
      in case sock of
           Inl w1 \<Rightarrow> Inl (snd (rtsp_reply env c (rq_cseq req) 500 ''Internal Error'' None [] w1))
         | Inr (us, port, ssrc, w1) \<Rightarrow>
             Inr (transport_udp client_rtp client_rtcp port ssrc,
                  cli_upd c (\<lambda>x. x\<lparr>cl_rtp_video := us, cl_video_srv_port := port, cl_video_ssrc := ssrc,
                                    cl_video_dest := sa_set_port peer client_rtp, cl_video_setup := True\<rparr>) w1))"

definition setup_udp_audio ::
  "env \<Rightarrow> nat \<Rightarrow> rtsp_client \<Rightarrow> rtsp_req \<Rightarrow> sockaddr \<Rightarrow> u16 \<Rightarrow> u16 \<Rightarrow> 'a rtsp_world_scheme
   \<Rightarrow> 'a rtsp_world_scheme + string \<times> 'a rtsp_world_scheme" where
  "setup_udp_audio env c cli req peer client_rtp client_rtcp w =
     (let sock = (if cl_rtp_audio cli = None
                  then (case alloc_rtp_socket env w of
                          (Inl e, w1) \<Rightarrow> Inl w1
                        | (Inr port, w1) \<Rightarrow>
                            Inr (Some port, port, en_rand_u32 env (dv_tick w1), tick w1))
                  else Inr (cl_rtp_audio cli, cl_audio_srv_port cli, cl_audio_ssrc cli, w))
      in case sock of
           Inl w1 \<Rightarrow> Inl (snd (rtsp_reply env c (rq_cseq req) 500 ''Internal Error'' None [] w1))
         | Inr (us, port, ssrc, w1) \<Rightarrow>
             Inr (transport_udp client_rtp client_rtcp port ssrc,
                  cli_upd c (\<lambda>x. x\<lparr>cl_rtp_audio := us, cl_audio_srv_port := port, cl_audio_ssrc := ssrc,
                                    cl_audio_dest := sa_set_port peer client_rtp, cl_audio_setup := True\<rparr>) w1))"

definition setup_udp ::
  "env \<Rightarrow> nat \<Rightarrow> rtsp_client \<Rightarrow> bool \<Rightarrow> bool \<Rightarrow> rtsp_req \<Rightarrow> 'a rtsp_world_scheme
   \<Rightarrow> 'a rtsp_world_scheme + string \<times> 'a rtsp_world_scheme" where
  "setup_udp env c cli is_video is_backchannel req w =
     (if is_backchannel then Inl (unsupported_transport env c req w)
      else (let peer = en_peer env c
            in if \<not> sa_is_loopback peer then Inl (unsupported_transport env c req w)
               else case parse_client_port (rq_transport req) of
                      Inl _ \<Rightarrow> Inl (unsupported_transport env c req w)
                    | Inr (client_rtp, client_rtcp) \<Rightarrow>
                        if is_video then setup_udp_video env c cli req peer client_rtp client_rtcp w
                        else setup_udp_audio env c cli req peer client_rtp client_rtcp w))"

text \<open>The end of \<open>handle_setup\<close>: a session number for a new session, the state, the reply.\<close>

definition setup_finish :: "env \<Rightarrow> nat \<Rightarrow> rtsp_req \<Rightarrow> string \<Rightarrow> 'a rtsp_world_scheme \<Rightarrow> 'a rtsp_world_scheme" where
  "setup_finish env c req transport_resp w =
     (let sid = fst (re_snprintf 16 (fmt_08x (en_rand_u32 env (dv_tick w))));
          w1 = cli_upd c (\<lambda>x. x\<lparr>cl_session_id := (if cl_session_id x = [] then sid else cl_session_id x),
                                 cl_state := RTSP_READY\<rparr>) (tick w)
      in snd (rtsp_reply env c (rq_cseq req) 200 ''OK'' (Some transport_resp) [] w1))"

definition handle_setup :: "env \<Rightarrow> nat \<Rightarrow> rtsp_req \<Rightarrow> 'a rtsp_world_scheme \<Rightarrow> 'a rtsp_world_scheme" where
  "handle_setup env c req w =
     (case cli_get c w of
        None \<Rightarrow> w
      | Some cli \<Rightarrow>
          (let (is_video, is_audio, is_backchannel) = setup_tracks cli (rq_uri req)
           in if is_tcp_transport (rq_transport req)
              then (let (resp, w1) = setup_tcp env c is_video is_backchannel (rq_transport req) w in setup_finish env c req resp w1)
              else case setup_udp env c cli is_video is_backchannel req w of
                     Inl w1 \<Rightarrow> w1
                   | Inr (resp, w1) \<Rightarrow> setup_finish env c req resp w1))"

section \<open>PLAY and TEARDOWN\<close>

definition strip_slashes :: "string \<Rightarrow> string" where
  "strip_slashes s = rev (dropWhile (\<lambda>ch. ch = CHR ''/'') (rev s))"

text \<open>The two formats of the RTP-Info header, printed into \<open>rtp_info\<close>.\<close>

definition play_rtp_info :: "rtsp_client \<Rightarrow> string \<Rightarrow> string \<times> nat option" where
  "play_rtp_info cli uri =
     (let base_uri = strip_slashes (fst (re_snprintf 256 [uri]));
          tracks = [''Range: npt=0.000-'' @ crlf @ ''RTP-Info: url='', base_uri, ''/trackID=0;seq='']
                   @ fmt_u (unat (cl_video_seq cli)) @ ['';rtptime=''] @ fmt_u (unat (cl_video_ts cli))
                   @ ['',url='', base_uri, ''/trackID=1;seq=''] @ fmt_u (unat (cl_audio_seq cli))
                   @ ['';rtptime=''] @ fmt_u (unat (cl_audio_ts cli))
      in re_snprintf 512
           (if cl_backchannel_setup cli
            then tracks @ ['',url='', base_uri, ''/trackID=2;seq=0;rtptime=0'' @ crlf]
            else tracks @ [crlf]))"

definition play_open_speaker :: "env \<Rightarrow> nat \<Rightarrow> rtsp_client \<Rightarrow> 'a rtsp_world_scheme \<Rightarrow> 'a rtsp_world_scheme" where
  "play_open_speaker env c cli w =
     (if cl_backchannel_setup cli \<and> \<not> cl_audio_out_opened cli
      then (case dev_audio_out_open env w of
              (None, w1) \<Rightarrow> cli_upd c (\<lambda>x. x\<lparr>cl_audio_out_opened := True\<rparr>) w1
            | (Some e, w1) \<Rightarrow> w1)
      else w)"

text \<open>The first video frame, sent without waiting for the timer.\<close>

definition play_first_video :: "env \<Rightarrow> nat \<Rightarrow> 'a rtsp_world_scheme \<Rightarrow> 'a rtsp_world_scheme" where
  "play_first_video env c w =
     (case dev_get_frame env w of
        (Inl e, w1) \<Rightarrow> w1
      | (Inr f, w1) \<Rightarrow>
          (send_video_to_client env (cf_nalus f) c w1)\<lparr>rw_video_frame_count := rw_video_frame_count w1 + 1\<rparr>)"

definition play_first_audio :: "env \<Rightarrow> nat \<Rightarrow> rtsp_client \<Rightarrow> 'a rtsp_world_scheme \<Rightarrow> 'a rtsp_world_scheme" where
  "play_first_audio env c cli w =
     (if cl_audio_setup cli
      then (let (pcmu, w1) = mic_frame w in send_audio_to_client env pcmu c w1)
      else w)"

definition handle_play :: "env \<Rightarrow> nat \<Rightarrow> rtsp_req \<Rightarrow> 'a rtsp_world_scheme \<Rightarrow> 'a rtsp_world_scheme" where
  "handle_play env c req w =
     (case cli_get c w of
        None \<Rightarrow> w
      | Some cli \<Rightarrow>
          if cl_state cli \<noteq> RTSP_READY \<and> cl_state cli \<noteq> RTSP_PLAYING
          then snd (rtsp_reply env c (rq_cseq req) 455 ''Method Not Valid in This State'' None [] w)
          else (let w1 = cli_upd c (\<lambda>x. x\<lparr>cl_state := RTSP_PLAYING\<rparr>) w;
                    w2 = dev_request_keyframe (ensure_media_started env w1);
                    rtp_info = fst (play_rtp_info cli (rq_uri req));
                    w3 = play_open_speaker env c cli w2;
                    w4 = snd (rtsp_reply env c (rq_cseq req) 200 ''OK'' (Some rtp_info) [] w3)
                in play_first_audio env c cli (play_first_video env c w4)))"

definition handle_teardown :: "env \<Rightarrow> nat \<Rightarrow> rtsp_req \<Rightarrow> 'a rtsp_world_scheme \<Rightarrow> 'a rtsp_world_scheme" where
  "handle_teardown env c req w =
     (let w1 = snd (rtsp_reply env c (rq_cseq req) 200 ''OK'' None [] w);
          w2 = maybe_stop_media (cli_upd c (\<lambda>x. x\<lparr>cl_state := RTSP_IDLE\<rparr>) w1)
      in client_destructor c w2)"

section \<open>Dispatch\<close>

text \<open>The result tells whether the client was freed. The first block is the authentication gate.\<close>

definition auth_gate :: "env \<Rightarrow> rtsp_req \<Rightarrow> 'a rtsp_world_scheme \<Rightarrow> bool \<times> 'a rtsp_world_scheme" where
  "auth_gate env req w =
     (if rtsp_auth_enabled (rw_auth w) \<and> rq_method req \<noteq> ''OPTIONS'' \<and> rq_method req \<noteq> ''GET_PARAMETER''
      then (let auth = (if rq_authorization req = [] then None else Some (rq_authorization req));
                (e, a) = rtsp_auth_check (en_md5 env) (en_rand env (dv_tick w)) (rq_method req) (rq_uri req) auth (rw_auth w)
            in (e = None, (tick w)\<lparr>rw_auth := a\<rparr>))
      else (True, w))"

definition restart_timeout :: "nat \<Rightarrow> rtsp_req \<Rightarrow> 'a rtsp_world_scheme \<Rightarrow> 'a rtsp_world_scheme" where
  "restart_timeout c req w =
     (if rq_method req \<in> set [''OPTIONS'', ''DESCRIBE'', ''SETUP'', ''PLAY'', ''GET_PARAMETER'']
      then cli_upd c (\<lambda>x. x\<lparr>cl_tmr_timeout := Some 60000\<rparr>) w else w)"

definition dispatch_rtsp :: "env \<Rightarrow> nat \<Rightarrow> string \<Rightarrow> nat \<Rightarrow> 'a rtsp_world_scheme \<Rightarrow> bool \<times> 'a rtsp_world_scheme" where
  "dispatch_rtsp env c buf len w =
     (let req = parse_rtsp_request buf len;
          (ok, w1) = auth_gate env req w
      in if \<not> ok
         then (False, snd (rtsp_reply env c (rq_cseq req) 401 ''Unauthorized''
                             (Some (fst (rtsp_auth_challenge 256 (rw_auth w1)))) [] w1))
         else if rq_method req = ''TEARDOWN'' then (True, handle_teardown env c req w1)
         else (False, restart_timeout c req
                (if rq_method req = ''OPTIONS'' then handle_options env c req w1
                 else if rq_method req = ''DESCRIBE'' then handle_describe env c req w1
                 else if rq_method req = ''SETUP'' then handle_setup env c req w1
                 else if rq_method req = ''PLAY'' then handle_play env c req w1
                 else if rq_method req = ''GET_PARAMETER''
                 then snd (rtsp_reply env c (rq_cseq req) 200 ''OK'' None [] w1)
                 else snd (rtsp_reply env c (rq_cseq req) 405 ''Method Not Allowed'' None [] w1))))"

section \<open>Receiving\<close>

text \<open>The payload of a backchannel frame after its variable-length RTP header, if there is any.\<close>

definition backchannel_payload :: "bytes \<Rightarrow> bytes" where
  "backchannel_payload rtp =
     (let cc = unat (rtp ! 0 AND 0x0F);
          ext = (drop_bit 4 (rtp ! 0) AND 1 = 1);
          hdr_len = 12 + cc * 4;
          hdr_len' = (if ext \<and> length rtp \<ge> hdr_len + 4
                      then hdr_len + 4 + frame_length (rtp ! (hdr_len + 2)) (rtp ! (hdr_len + 3)) * 4
                      else hdr_len)
      in if length rtp > hdr_len' then drop hdr_len' rtp else [])"

definition recv_frame :: "env \<Rightarrow> nat \<Rightarrow> u8 \<Rightarrow> bytes \<Rightarrow> 'a rtsp_world_scheme \<Rightarrow> 'a rtsp_world_scheme" where
  "recv_frame env c channel rtp w =
     (case cli_get c w of
        None \<Rightarrow> w
      | Some cli \<Rightarrow>
          if cl_backchannel_setup cli \<and> channel = cl_backchannel_interleaved cli \<and> length rtp \<ge> 12
             \<and> backchannel_payload rtp \<noteq> [] \<and> cl_audio_out_opened cli
          then dev_audio_out_play env (backchannel_payload rtp) w
          else w)"

definition set_rbuf :: "nat \<Rightarrow> bytes \<Rightarrow> 'a rtsp_world_scheme \<Rightarrow> 'a rtsp_world_scheme" where
  "set_rbuf c bs w = cli_upd c (\<lambda>x. x\<lparr>cl_rbuf := Some bs\<rparr>) w"

text \<open>The loop of \<open>rtsp_recv_handler\<close> over the buffered bytes \<open>data\<close>.\<close>

function rtsp_process :: "env \<Rightarrow> nat \<Rightarrow> bytes \<Rightarrow> 'a rtsp_world_scheme \<Rightarrow> 'a rtsp_world_scheme" where
  "rtsp_process env c data w =
     (if data = [] then w
      else if data ! 0 = 0x24
      then (if length data < 4 then w
            else (let total = 4 + frame_length (data ! 2) (data ! 3)
                  in if length data < total then w
                     else rtsp_process env c (drop total data)
                            (set_rbuf c (drop total data)
                               (recv_frame env c (data ! 1) (take (total - 4) (drop 4 data)) w))))
      else (let text = c_str (bytes_text data)
            in case strstr text (crlf @ crlf) of
                 None \<Rightarrow> w
               | Some eor \<Rightarrow>
                   (let req_len = eor + 4;
                        (freed, w1) = dispatch_rtsp env c text req_len w
                    in if freed then w1
                       else rtsp_process env c (drop req_len data) (set_rbuf c (drop req_len data) w1))))"
  by pat_completeness auto
termination
  by (relation "measure (\<lambda>(_, _, data, _). length data)") (auto simp: frame_length_def)

declare rtsp_process.simps [simp del]

definition rtsp_recv_handler :: "env \<Rightarrow> nat \<Rightarrow> bytes \<Rightarrow> 'a rtsp_world_scheme \<Rightarrow> 'a rtsp_world_scheme" where
  "rtsp_recv_handler env c bs w =
     (case cli_get c w of
        None \<Rightarrow> w
      | Some cli \<Rightarrow>
          if cl_rbuf cli = None \<and> \<not> en_alloc env (dv_tick w) then tick w
          else (let w0 = tick w;
                    rbuf = (case cl_rbuf cli of None \<Rightarrow> [] | Some b \<Rightarrow> b);
                    data = (if en_alloc env (dv_tick w0) then rbuf @ bs else rbuf);
                    w1 = set_rbuf c data (tick w0)
                in if length data > 16384 then client_destructor c w1
                   else rtsp_process env c data w1))"

section \<open>Connections\<close>

definition rtsp_estab_handler :: "nat \<Rightarrow> 'a rtsp_world_scheme \<Rightarrow> 'a rtsp_world_scheme" where
  "rtsp_estab_handler c w = w"

definition rtsp_close_handler :: "nat \<Rightarrow> 'a rtsp_world_scheme \<Rightarrow> 'a rtsp_world_scheme" where
  "rtsp_close_handler c w = client_destructor c (stop_if_playing c w)"

definition rtsp_conn_handler :: "env \<Rightarrow> nat \<Rightarrow> 'a rtsp_world_scheme \<Rightarrow> 'a rtsp_world_scheme" where
  "rtsp_conn_handler env c w =
     (if \<not> en_alloc env (dv_tick w) then tick w
      else case en_tcp_accept env (dv_tick w) of
        Some e \<Rightarrow> tick w
      | None \<Rightarrow> (tick w)\<lparr>rw_clients := rw_clients w @ [(c, new_client)]\<rparr>)"

definition rtsp_accept_relay_conn :: "env \<Rightarrow> nat \<Rightarrow> 'a rtsp_world_scheme \<Rightarrow> 'a rtsp_world_scheme" where
  "rtsp_accept_relay_conn env c w =
     (if \<not> en_alloc env (dv_tick w) then emit (TcpClosed c) (tick w)
      else (tick w)\<lparr>rw_clients := rw_clients w @ [(c, new_client)]\<rparr>)"

section \<open>Media timers\<close>

text \<open>The drain loop of \<open>audio_send_timer\<close>: \<open>skip\<close> samples still to discard.\<close>

function drain_mic :: "nat \<Rightarrow> 'a rtsp_world_scheme \<Rightarrow> 'a rtsp_world_scheme" where
  "drain_mic skip w =
     (if skip = 0 then w
      else (let (xs, w1) = dev_audio_in_read (if skip > AUDIO_SAMPLES then AUDIO_SAMPLES else skip) w
            in if length xs = 0 then w1 else drain_mic (skip - length xs) w1))"
  by pat_completeness auto
termination by (relation "measure fst") auto

declare drain_mic.simps [simp del]

definition drain_excess :: "'a rtsp_world_scheme \<Rightarrow> 'a rtsp_world_scheme" where
  "drain_excess w =
     (if rw_mic_opened w
      then (let avail = audio_in_available (dv_ain w)
            in if avail > AUDIO_SAMPLES * 2 then drain_mic (avail - AUDIO_SAMPLES) w else w)
      else w)"

definition audio_send_timer :: "env \<Rightarrow> 'a rtsp_world_scheme \<Rightarrow> 'a rtsp_world_scheme" where
  "audio_send_timer env w =
     (let w0 = w\<lparr>rw_tmr_audio := Some AUDIO_PTIME\<rparr>
      in if \<not> has_playing_clients w0 then w0
         else (let (pcmu, w1) = mic_frame (drain_excess w0)
               in foldl (\<lambda>v (c, cli). if cl_state cli \<noteq> RTSP_PLAYING \<or> \<not> cl_audio_setup cli then v
                                       else send_audio_to_client env pcmu c v) w1 (rw_clients w1)))"

definition video_send_timer :: "env \<Rightarrow> 'a rtsp_world_scheme \<Rightarrow> 'a rtsp_world_scheme" where
  "video_send_timer env w =
     (let w0 = w\<lparr>rw_tmr_video := Some VIDEO_PTIME\<rparr>
      in if \<not> has_playing_clients w0 then w0
         else (let n = rw_video_frame_count w0;
                   w1 = (if n > 0 \<and> unat n mod (VIDEO_FPS * 2) = 0 then dev_request_keyframe w0 else w0)
               in case dev_get_frame env w1 of
                    (Inl e, w2) \<Rightarrow> w2
                  | (Inr f, w2) \<Rightarrow>
                      (let w3 = foldl (\<lambda>v (c, cli). if cl_state cli \<noteq> RTSP_PLAYING \<or> \<not> cl_video_setup cli then v
                                                   else send_video_to_client env (cf_nalus f) c v) w2 (rw_clients w2)
                       in w3\<lparr>rw_video_frame_count := n + 1\<rparr>)))"

section \<open>Life cycle\<close>

definition rtsp_server_init :: "env \<Rightarrow> 'a rtsp_world_scheme \<Rightarrow> errno option \<times> 'a rtsp_world_scheme" where
  "rtsp_server_init env w =
     (let w0 = (tick w)\<lparr>rw_listening := False, rw_clients := [], rw_tmr_audio := None, rw_tmr_video := None,
                        rw_camera_opened := False, rw_video_frame_count := 0, rw_port := 0, rw_local_ip := [],
                        rw_mic_opened := False\<rparr>
      in case en_tcp_listen env (dv_tick w) of
           Inl e \<Rightarrow> (Some e, w0)
         | Inr port \<Rightarrow>
             (None, w0\<lparr>rw_listening := True, rw_port := port,
                        rw_local_ip := (case en_local_ip env (dv_tick w) of
                                          Some sa \<Rightarrow> fst (re_snprintf 64 (fmt_j (en_inet env) sa))
                                        | None \<Rightarrow> str_ncpy ''0.0.0.0'' 64)\<rparr>))"

definition rtsp_server_close :: "'a rtsp_world_scheme \<Rightarrow> 'a rtsp_world_scheme" where
  "rtsp_server_close w =
     (let w1 = w\<lparr>rw_tmr_audio := None, rw_tmr_video := None\<rparr>;
          w2 = foldl (\<lambda>v (c, cli). client_destructor c v) w1 (rw_clients w1);
          w3 = w2\<lparr>rw_listening := False\<rparr>;
          w4 = (if rw_camera_opened w3 then (dev_camera_close w3)\<lparr>rw_camera_opened := False\<rparr> else w3)
      in if rw_mic_opened w4 then (dev_audio_in_close w4)\<lparr>rw_mic_opened := False\<rparr> else w4)"

end
