(* ===== verification/Rtsp_Inv.thy ===== *)
theory Rtsp_Inv
  imports Rtsp_Handlers
begin

text \<open>
  The invariant of the RTSP server and its preservation by every handler, timer and callback; the
  reachable states of the server as an inductive relation; and what follows for the protocol: the
  authentication gate, the state machine of PLAY and TEARDOWN, delivery of video and audio, bounded
  buffers.
\<close>

section \<open>Invariant\<close>

definition client_wf :: "rtsp_client \<Rightarrow> bool" where
  "client_wf x \<longleftrightarrow>
     (\<forall>b. cl_rbuf x = Some b \<longrightarrow> length b \<le> 16384)
     \<and> (cl_video_setup x \<longrightarrow> cl_interleaved x \<or> cl_rtp_video x \<noteq> None)
     \<and> (cl_audio_setup x \<longrightarrow> cl_interleaved x \<or> cl_rtp_audio x \<noteq> None)
     \<and> (cl_backchannel_setup x \<longrightarrow> cl_interleaved x)
     \<and> (cl_audio_out_opened x \<longrightarrow> cl_backchannel_setup x)
     \<and> length (cl_session_id x) < 16
     \<and> (cl_state x \<noteq> RTSP_IDLE \<longrightarrow>
          cl_session_id x \<noteq> [] \<and> (cl_video_setup x \<or> cl_audio_setup x \<or> cl_backchannel_setup x))
     \<and> cl_tmr_timeout x = Some 60000"

text \<open>
  \<open>own\<close> tells whether the server has the camera to itself. A call (\<open>session.c\<close>) closes the camera under the server, so
  with calls only the other clauses stand. \<open>rest\<close> is any property of the rest of the program's state, which the server
  must not touch.
\<close>

definition rtsp_inv :: "bool \<Rightarrow> 'a set \<Rightarrow> 'a rtsp_world_scheme \<Rightarrow> bool" where
  "rtsp_inv own rest w \<longleftrightarrow>
     dev_wf w \<and> auth_wf (rw_auth w)
     \<and> distinct (map fst (rw_clients w)) \<and> (\<forall>p \<in> set (rw_clients w). client_wf (snd p))
     \<and> (rw_mic_opened w \<longrightarrow> ai_opened (dv_ain w))
     \<and> (own \<and> rw_camera_opened w \<longrightarrow> cam_opened (dv_cam w))
     \<and> length (rw_local_ip w) < 64 \<and> rtsp_world.more w \<in> rest"

section \<open>Device calls leave the server's own state alone\<close>

definition rtsp_state_of ::
  "'a rtsp_world_scheme \<Rightarrow> rtsp_auth \<times> bool \<times> (nat \<times> rtsp_client) list \<times> nat option \<times> nat option \<times> bool \<times> u32 \<times> u16
     \<times> string \<times> bool \<times> 'a" where
  "rtsp_state_of w = (rw_auth w, rw_listening w, rw_clients w, rw_tmr_audio w, rw_tmr_video w, rw_camera_opened w,
     rw_video_frame_count w, rw_port w, rw_local_ip w, rw_mic_opened w, rtsp_world.more w)"

lemma rtsp_state_of_ops [frame, simp]:
  "rtsp_state_of (tick w) = rtsp_state_of w"
  "rtsp_state_of (emit e w) = rtsp_state_of w"
  "rtsp_state_of (snd (dev_camera_open env w)) = rtsp_state_of w"
  "rtsp_state_of (dev_camera_close w) = rtsp_state_of w"
  "rtsp_state_of (dev_request_keyframe w) = rtsp_state_of w"
  "rtsp_state_of (snd (dev_get_frame env w)) = rtsp_state_of w"
  "rtsp_state_of (snd (dev_audio_in_open env w)) = rtsp_state_of w"
  "rtsp_state_of (dev_audio_in_close w) = rtsp_state_of w"
  "rtsp_state_of (snd (dev_audio_in_read n w)) = rtsp_state_of w"
  "rtsp_state_of (snd (dev_audio_out_open env w)) = rtsp_state_of w"
  "rtsp_state_of (dev_audio_out_close w) = rtsp_state_of w"
  "rtsp_state_of (dev_audio_out_play env bs w) = rtsp_state_of w"
  "rtsp_state_of (snd (dev_tcp_send env c bs w)) = rtsp_state_of w"
  "rtsp_state_of (dev_udp_send env us dst bs w) = rtsp_state_of w"
  by (simp_all add: rtsp_state_of_def dev_defs tick_def emit_def Let_def case_prod_beta split: option.split)

lemma rtsp_state_of_eqD:
  assumes "rtsp_state_of w' = rtsp_state_of w"
  shows "rw_auth w' = rw_auth w" "rw_listening w' = rw_listening w" "rw_clients w' = rw_clients w"
    "rw_tmr_audio w' = rw_tmr_audio w" "rw_tmr_video w' = rw_tmr_video w" "rw_camera_opened w' = rw_camera_opened w"
    "rw_video_frame_count w' = rw_video_frame_count w" "rw_port w' = rw_port w" "rw_local_ip w' = rw_local_ip w"
    "rw_mic_opened w' = rw_mic_opened w" "cli_get c w' = cli_get c w" "has_playing_clients w' = has_playing_clients w"
    "rtsp_world.more w' = rtsp_world.more w"
  using assms by (simp_all add: rtsp_state_of_def cli_get_def has_playing_clients_def)

lemmas rtsp_fields [simp] = rtsp_state_of_ops [THEN rtsp_state_of_eqD(1)] rtsp_state_of_ops [THEN rtsp_state_of_eqD(2)]
  rtsp_state_of_ops [THEN rtsp_state_of_eqD(3)] rtsp_state_of_ops [THEN rtsp_state_of_eqD(4)] rtsp_state_of_ops [THEN rtsp_state_of_eqD(5)]
  rtsp_state_of_ops [THEN rtsp_state_of_eqD(6)] rtsp_state_of_ops [THEN rtsp_state_of_eqD(7)] rtsp_state_of_ops [THEN rtsp_state_of_eqD(8)]
  rtsp_state_of_ops [THEN rtsp_state_of_eqD(9)] rtsp_state_of_ops [THEN rtsp_state_of_eqD(10)] rtsp_state_of_ops [THEN rtsp_state_of_eqD(11)]
  rtsp_state_of_ops [THEN rtsp_state_of_eqD(12)] rtsp_state_of_ops [THEN rtsp_state_of_eqD(13)]

text \<open>Which device calls keep a device open.\<close>

lemma devices_stay_open [simp]:
  "dv_ain (snd (dev_camera_open env w)) = dv_ain w" "dv_aout (snd (dev_camera_open env w)) = dv_aout w"
  "dv_ain (dev_request_keyframe w) = dv_ain w" "dv_aout (dev_request_keyframe w) = dv_aout w"
  "dv_ain (snd (dev_get_frame env w)) = dv_ain w" "dv_aout (snd (dev_get_frame env w)) = dv_aout w"
  "dv_cam (snd (dev_audio_in_open env w)) = dv_cam w"
  "dv_cam (snd (dev_audio_in_read n w)) = dv_cam w"
  "dv_cam (snd (dev_audio_out_open env w)) = dv_cam w" "dv_ain (snd (dev_audio_out_open env w)) = dv_ain w"
  "dv_cam (dev_audio_out_close w) = dv_cam w" "dv_ain (dev_audio_out_close w) = dv_ain w"
  "dv_cam (dev_audio_out_play env bs w) = dv_cam w" "dv_ain (dev_audio_out_play env bs w) = dv_ain w"
  "dv_cam (snd (dev_tcp_send env c bs w)) = dv_cam w" "dv_ain (snd (dev_tcp_send env c bs w)) = dv_ain w"
  "dv_aout (snd (dev_tcp_send env c bs w)) = dv_aout w"
  "dv_cam (dev_udp_send env us dst bs w) = dv_cam w" "dv_ain (dev_udp_send env us dst bs w) = dv_ain w"
  "dv_aout (dev_udp_send env us dst bs w) = dv_aout w"
  by (simp_all add: dev_defs Let_def case_prod_beta split: option.split)

lemma extract_layer_opened [simp]: "cam_opened (extract_layer ns buf g) = cam_opened g"
  by (induction ns buf g rule: extract_layer.induct) (auto simp: cache_params_def Let_def)

lemma extract_layers_opened [simp]: "cam_opened (extract_layers ls g) = cam_opened g"
  by (induction ls g rule: extract_layers.induct) auto

lemma camera_opened_ops [simp]:
  "cam_opened (dv_cam (dev_request_keyframe w)) = cam_opened (dv_cam w)"
  "cam_opened (dv_cam (snd (dev_get_frame env w))) = cam_opened (dv_cam w)"
  "cam_opened (dv_cam w) \<Longrightarrow> cam_opened (dv_cam (snd (dev_camera_open env w)))"
  by (auto simp: dev_defs camera_request_keyframe_def camera_get_frame_def camera_open_def Let_def case_prod_beta
      split: option.splits)

lemma audio_in_read_opened [simp]: "ai_opened (snd (audio_in_read n g)) = ai_opened g"
  by (induction n g rule: audio_in_read.induct) (auto simp: Let_def case_prod_beta)

lemma mic_opened_ops [simp]:
  "ai_opened (dv_ain (snd (dev_audio_in_read n w))) = ai_opened (dv_ain w)"
  "ai_opened (dv_ain w) \<Longrightarrow> ai_opened (dv_ain (snd (dev_audio_in_open env w)))"
  by (simp_all add: dev_defs audio_in_open_def Let_def case_prod_beta)

lemma camera_open_result:
  "fst (dev_camera_open env w) = None \<or> fst (dev_camera_open env w) = Some EALREADY
   \<Longrightarrow> cam_opened (dv_cam (snd (dev_camera_open env w)))"
  by (auto simp: dev_camera_open_def camera_open_def Let_def case_prod_beta split: if_splits)

lemma mic_open_result:
  "fst (dev_audio_in_open env w) = None \<Longrightarrow> ai_opened (dv_ain (snd (dev_audio_in_open env w)))"
  by (auto simp: dev_audio_in_open_def audio_in_open_def Let_def case_prod_beta split: if_splits)

section \<open>Clients\<close>

lemma cli_get_upd [simp]: "cli_get c (cli_upd d f w) = (if c = d then map_option f (cli_get c w) else cli_get c w)"
proof -
  have "map_of (map (\<lambda>(i, x). (i, if i = d then f x else x)) l) c
      = (if c = d then map_option f (map_of l c) else map_of l c)" for l
    by (induction l) auto
  then show ?thesis by (simp add: cli_get_def cli_upd_def)
qed

lemma cli_upd_fields [simp]:
  "rw_auth (cli_upd c f w) = rw_auth w" "rw_listening (cli_upd c f w) = rw_listening w"
  "rw_tmr_audio (cli_upd c f w) = rw_tmr_audio w" "rw_tmr_video (cli_upd c f w) = rw_tmr_video w"
  "rw_camera_opened (cli_upd c f w) = rw_camera_opened w"
  "rw_video_frame_count (cli_upd c f w) = rw_video_frame_count w" "rw_port (cli_upd c f w) = rw_port w"
  "rw_local_ip (cli_upd c f w) = rw_local_ip w" "rw_mic_opened (cli_upd c f w) = rw_mic_opened w"
  "rtsp_world.more (cli_upd c f w) = rtsp_world.more w"
  "dv_cam (cli_upd c f w) = dv_cam w" "dv_ain (cli_upd c f w) = dv_ain w" "dv_aout (cli_upd c f w) = dv_aout w"
  "dv_sent (cli_upd c f w) = dv_sent w" "dv_tick (cli_upd c f w) = dv_tick w"
  "map fst (rw_clients (cli_upd c f w)) = map fst (rw_clients w)" "dev_wf (cli_upd c f w) = dev_wf w"
  by (simp_all add: cli_upd_def dev_wf_def o_def case_prod_beta)

lemma inv_client: "rtsp_inv own rest w \<Longrightarrow> cli_get c w = Some x \<Longrightarrow> client_wf x"
  by (auto simp: rtsp_inv_def cli_get_def dest!: map_of_SomeD)

lemma inv_cli_upd:
  assumes "rtsp_inv own rest w" and "\<And>x. cli_get c w = Some x \<Longrightarrow> client_wf x \<Longrightarrow> client_wf (f x)"
  shows "rtsp_inv own rest (cli_upd c f w)"
proof -
  have "client_wf (snd p)" if p: "p \<in> set (rw_clients (cli_upd c f w))" for p
  proof -
    from p obtain i x where x: "(i, x) \<in> set (rw_clients w)" "p = (i, if i = c then f x else x)"
      by (auto simp: cli_upd_def)
    have "cli_get i w = Some x"
      using assms(1) x(1) by (simp add: rtsp_inv_def cli_get_def)
    moreover have "client_wf x" using assms(1) x(1) by (auto simp: rtsp_inv_def)
    ultimately show ?thesis using x(2) assms(2) by auto
  qed
  with assms(1) show ?thesis by (simp add: rtsp_inv_def)
qed

lemma inv_devices:
  assumes "rtsp_inv own rest w" and "rtsp_state_of w' = rtsp_state_of w" and "dev_wf w'"
    and "ai_opened (dv_ain w) \<Longrightarrow> ai_opened (dv_ain w')" and "cam_opened (dv_cam w) \<Longrightarrow> cam_opened (dv_cam w')"
  shows "rtsp_inv own rest w'"
  using assms rtsp_state_of_eqD [OF assms(2)] by (simp add: rtsp_inv_def)

lemma inv_dev_wf: "rtsp_inv own rest w \<Longrightarrow> dev_wf w"
  by (simp add: rtsp_inv_def)

lemma inv_dev_ops [keeps]:
  assumes "rtsp_inv own rest w"
  shows "rtsp_inv own rest (tick w)" "rtsp_inv own rest (emit e w)" "rtsp_inv own rest (snd (dev_camera_open env w))"
    "rtsp_inv own rest (dev_request_keyframe w)" "rtsp_inv own rest (snd (dev_get_frame env w))"
    "rtsp_inv own rest (snd (dev_audio_in_open env w))" "rtsp_inv own rest (snd (dev_audio_in_read n w))"
    "rtsp_inv own rest (snd (dev_audio_out_open env w))" "rtsp_inv own rest (dev_audio_out_close w)"
    "rtsp_inv own rest (dev_audio_out_play env bs w)" "rtsp_inv own rest (snd (dev_tcp_send env c bs w))"
    "rtsp_inv own rest (dev_udp_send env us dst bs w)"
  by (rule inv_devices [OF assms]; simp add: dev_wf_ops inv_dev_wf [OF assms])+

section \<open>Every operation keeps the invariant\<close>

lemma inv_more [keeps]:
  assumes "rtsp_inv own rest w"
  shows "rtsp_inv own rest (w\<lparr>rw_tmr_video := a\<rparr>)" "rtsp_inv own rest (w\<lparr>rw_tmr_audio := b\<rparr>)" "rtsp_inv own rest (w\<lparr>rw_video_frame_count := n\<rparr>)"
    "rtsp_inv own rest (w\<lparr>rw_listening := l\<rparr>)" "rtsp_inv own rest (w\<lparr>rw_port := p\<rparr>)" "rtsp_inv own rest (w\<lparr>rw_mic_opened := False\<rparr>)"
    "rtsp_inv own rest (w\<lparr>rw_camera_opened := False\<rparr>)"
    "ai_opened (dv_ain w) \<Longrightarrow> rtsp_inv own rest (w\<lparr>rw_mic_opened := True\<rparr>)"
    "cam_opened (dv_cam w) \<Longrightarrow> rtsp_inv own rest (w\<lparr>rw_camera_opened := True\<rparr>)"
  using assms by (simp_all add: rtsp_inv_def dev_wf_def)

lemma maybe_stop_media_inv [keeps]: "rtsp_inv own rest w \<Longrightarrow> rtsp_inv own rest (maybe_stop_media w)"
  by (simp add: maybe_stop_media_def rtsp_inv_def dev_wf_def)

lemma inv_remove:
  assumes "rtsp_inv own rest w"
  shows "rtsp_inv own rest (w\<lparr>rw_clients := filter (\<lambda>(i, x). i \<noteq> c) (rw_clients w)\<rparr>)"
  using assms distinct_map_filter by (fastforce simp: rtsp_inv_def dev_wf_def)

lemma client_destructor_inv [keeps]: "rtsp_inv own rest w \<Longrightarrow> rtsp_inv own rest (client_destructor c w)"
  using inv_remove [of own rest "dev_audio_out_close w" c] inv_remove [of own rest w c]
  by (simp add: client_destructor_def Let_def inv_dev_ops split: option.split)

text \<open>Freeing a client after any change of its own record.\<close>

lemma client_destructor_upd_inv:
  assumes "rtsp_inv own rest w"
  shows "rtsp_inv own rest (client_destructor c (cli_upd c f w))"
proof -
  have clients: "filter (\<lambda>(i, x). i \<noteq> c) (map (\<lambda>(i, x). (i, if i = c then f x else x)) l)
      = filter (\<lambda>(i, x). i \<noteq> c) l" for l
    by (induction l) auto
  have "rtsp_inv own rest (v\<lparr>rw_clients := filter (\<lambda>(i, x). i \<noteq> c) (rw_clients v)\<rparr>)"
    if "rtsp_state_of v = rtsp_state_of (cli_upd c f w)" "dev_wf v" "dv_ain v = dv_ain w" "dv_cam v = dv_cam w" for v
  proof -
    have "rtsp_inv own rest (w\<lparr>rw_clients := filter (\<lambda>(i, x). i \<noteq> c) (rw_clients w)\<rparr>)"
      using assms by (rule inv_remove)
    then show ?thesis
      using rtsp_state_of_eqD [OF that(1)] that(2-4) assms clients [of "rw_clients w"]
      by (simp add: rtsp_inv_def dev_wf_def cli_upd_def)
  qed
  note removed = this
  have wf: "dev_wf (cli_upd c f w)" "dev_wf (dev_audio_out_close (cli_upd c f w))"
    using assms by (simp_all add: inv_dev_wf dev_wf_ops)
  show ?thesis
  proof (cases "cli_get c (cli_upd c f w)")
    case None
    then have "cli_upd c f w = w"
    proof -
      from None have "cli_get c w = None" by simp
      then have "c \<notin> fst ` set (rw_clients w)" by (simp add: cli_get_def map_of_eq_None_iff)
      then have "map (\<lambda>(i, x). (i, if i = c then f x else x)) (rw_clients w) = rw_clients w"
        by (intro map_idI) (auto simp: image_iff)
      then show ?thesis by (simp add: cli_upd_def)
    qed
    with None assms show ?thesis by (simp add: client_destructor_def)
  next
    case (Some x)
    then show ?thesis
      using removed [of "cli_upd c f w"] removed [of "dev_audio_out_close (cli_upd c f w)"] wf
      by (auto simp: client_destructor_def Let_def intro!: inv_dev_ops)
  qed
qed

lemma client_wf_idle: "client_wf x \<Longrightarrow> client_wf (x\<lparr>cl_state := RTSP_IDLE\<rparr>)"
  by (simp add: client_wf_def)

lemma stop_if_playing_inv [keeps]: "rtsp_inv own rest w \<Longrightarrow> rtsp_inv own rest (stop_if_playing c w)"
  by (auto simp: stop_if_playing_def client_wf_idle split: option.split intro!: maybe_stop_media_inv inv_cli_upd)

lemma session_timeout_inv [keeps]: "rtsp_inv own rest w \<Longrightarrow> rtsp_inv own rest (session_timeout_handler c w)"
  by (simp add: session_timeout_handler_def keeps)

lemma rtsp_close_inv [keeps]: "rtsp_inv own rest w \<Longrightarrow> rtsp_inv own rest (rtsp_close_handler c w)"
  by (simp add: rtsp_close_handler_def keeps)

lemma start_mic_inv [keeps]: "rtsp_inv own rest w \<Longrightarrow> rtsp_inv own rest (start_mic env w)"
  using inv_dev_ops(6) [of own rest w env] mic_open_result [of env w]
  by (cases "dev_audio_in_open env w") (auto simp: start_mic_def split: option.split intro!: inv_more)

lemma ensure_media_inv [keeps]: "rtsp_inv own rest w \<Longrightarrow> rtsp_inv own rest (ensure_media_started env w)"
  using inv_dev_ops(3) [of own rest w env] camera_open_result [of env w]
  by (cases "dev_camera_open env w")
    (auto simp: ensure_media_started_def Let_def split: option.split intro!: inv_more start_mic_inv)

lemma rtsp_reply_inv [keeps]: "rtsp_inv own rest w \<Longrightarrow> rtsp_inv own rest (snd (rtsp_reply env c q k r h b w))"
  by (simp add: rtsp_reply_def keeps split: option.split)

lemma rtsp_reply_part [simp]: "rtsp_state_of (snd (rtsp_reply env c q k r h b w)) = rtsp_state_of w"
  by (simp add: rtsp_reply_def split: option.split)

lemmas rtsp_reply_fields [simp] = rtsp_reply_part [THEN rtsp_state_of_eqD(3)] rtsp_reply_part [THEN rtsp_state_of_eqD(11)]

lemma tcp_interleaved_part [simp]: "rtsp_state_of (snd (tcp_interleaved_send env c ch p w)) = rtsp_state_of w"
  by (simp add: tcp_interleaved_send_def)

lemma tcp_interleaved_inv [keeps]: "rtsp_inv own rest w \<Longrightarrow> rtsp_inv own rest (snd (tcp_interleaved_send env c ch p w))"
  by (simp add: tcp_interleaved_send_def keeps)

lemma send_media_inv [keeps]: "rtsp_inv own rest w \<Longrightarrow> rtsp_inv own rest (send_media env c i ch us dst w p)"
  by (simp add: send_media_def keeps)

lemma send_media_part [simp]: "rtsp_state_of (send_media env c i ch us dst w p) = rtsp_state_of w"
  by (simp add: send_media_def)

lemma send_medias_inv: "rtsp_inv own rest w \<Longrightarrow> rtsp_inv own rest (foldl (send_media env c i ch us dst) w ps)"
  by (induction ps arbitrary: w) (simp_all add: send_media_inv)

lemma send_medias_part [simp]: "rtsp_state_of (foldl (send_media env c i ch us dst) w ps) = rtsp_state_of w"
  by (induction ps arbitrary: w) simp_all

text \<open>Sending units changes the video sequence number of a client and nothing else.\<close>

lemma send_frame_client:
  "\<exists>sq. snd (send_frame send_h264_nalu_to_client alloc cli nalus) = cli\<lparr>cl_video_seq := sq\<rparr>"
proof (induction nalus arbitrary: alloc cli)
  case Nil
  have "cli = cli\<lparr>cl_video_seq := cl_video_seq cli\<rparr>" by simp
  then show ?case by (metis send_frame.simps(1) snd_conv)
next
  case (Cons n ns)
  obtain ps sq where 1: "send_h264_nalu_to_client (alloc 0) cli n (ns = []) = (ps, cli\<lparr>cl_video_seq := sq\<rparr>)"
    by (cases "h264_nalu_packets (alloc 0) (cl_video_ts cli) (cl_video_ssrc cli) (cl_video_seq cli) n (ns = [])")
      (simp add: send_h264_nalu_to_client_def)
  obtain sq' where "snd (send_frame send_h264_nalu_to_client (\<lambda>i. alloc (Suc i)) (cli\<lparr>cl_video_seq := sq\<rparr>) ns)
      = cli\<lparr>cl_video_seq := sq, cl_video_seq := sq'\<rparr>" using Cons by blast
  with 1 show ?case by (auto simp: case_prod_beta)
qed

lemma client_wf_counters:
  "client_wf (x\<lparr>cl_video_seq := a, cl_video_ts := b\<rparr>) = client_wf x"
  "client_wf (x\<lparr>cl_audio_seq := a, cl_audio_ts := b\<rparr>) = client_wf x"
  by (simp_all add: client_wf_def)

lemma send_video_inv [keeps]:
  assumes "rtsp_inv own rest w" shows "rtsp_inv own rest (send_video_to_client env nalus c w)"
proof (cases "cli_get c w")
  case (Some cli)
  let ?s = "send_frame send_h264_nalu_to_client (en_alloc_nalu env (dv_tick w)) cli nalus"
  obtain sq where sq: "snd ?s = cli\<lparr>cl_video_seq := sq\<rparr>" using send_frame_client by blast
  have "rtsp_inv own rest (cli_upd c (\<lambda>_. (snd ?s)\<lparr>cl_video_ts := t\<rparr>)
      (foldl (send_media env c i ch us dst) (tick w) ps))" for t i ch us dst ps
    by (rule inv_cli_upd [OF send_medias_inv])
      (use assms Some in \<open>auto simp: sq client_wf_counters keeps inv_client\<close>)
  with Some show ?thesis by (simp add: send_video_to_client_def case_prod_beta Let_def)
qed (simp add: send_video_to_client_def assms)

lemma send_audio_inv [keeps]: "rtsp_inv own rest w \<Longrightarrow> rtsp_inv own rest (send_audio_to_client env pcmu c w)"
  by (auto simp: send_audio_to_client_def Let_def client_wf_counters keeps split: option.split
      intro!: inv_cli_upd)

lemma mic_frame_inv [keeps]: "rtsp_inv own rest w \<Longrightarrow> rtsp_inv own rest (snd (mic_frame w))"
  by (simp add: mic_frame_def case_prod_beta Let_def keeps)

lemma handle_options_inv [keeps]: "rtsp_inv own rest w \<Longrightarrow> rtsp_inv own rest (handle_options env c req w)"
  by (simp add: handle_options_def keeps)

lemma describe_params_inv [keeps]: "rtsp_inv own rest w \<Longrightarrow> rtsp_inv own rest (describe_params env w)"
  using camera_open_result [of env w]
  by (cases "dev_camera_open env w")
    (auto simp: describe_params_def Let_def keeps inv_dev_ops(3) [of own rest w env, unfolded] split: sum.split
      intro!: inv_more inv_dev_ops dest: inv_dev_ops(3) [where env = env])

lemma handle_describe_inv [keeps]: "rtsp_inv own rest w \<Longrightarrow> rtsp_inv own rest (handle_describe env c req w)"
  by (simp add: handle_describe_def Let_def keeps)

text \<open>The session number is eight hexadecimal digits.\<close>

lemma session_id_printed: "fst (re_snprintf 16 (fmt_08x v)) \<noteq> [] \<and> length (fst (re_snprintf 16 (fmt_08x v))) < 16"
proof -
  have "length (concat (fmt_08x v)) = 8" by simp
  then have "fst (re_snprintf 16 (fmt_08x v)) = concat (fmt_08x v)" by (subst re_snprintf_fits) auto
  with \<open>length (concat (fmt_08x v)) = 8\<close> show ?thesis by (metis list.size(3) numeral_less_iff semiring_norm(76,77,78) zero_neq_numeral)
qed

text \<open>What a branch of SETUP establishes before the reply: the client has a track, and a way to send on it.\<close>

definition has_setup :: "rtsp_client \<Rightarrow> bool" where
  "has_setup x \<longleftrightarrow> cl_video_setup x \<or> cl_audio_setup x \<or> cl_backchannel_setup x"

lemma setup_finish_inv:
  assumes "rtsp_inv own rest w" and "\<And>x. cli_get c w = Some x \<Longrightarrow> has_setup x"
  shows "rtsp_inv own rest (setup_finish env c req resp w)"
  unfolding setup_finish_def Let_def
  by (rule rtsp_reply_inv, rule inv_cli_upd)
    (use assms session_id_printed [of "en_rand_u32 env (dv_tick w)"] in
      \<open>auto simp: keeps client_wf_def has_setup_def\<close>)

lemma setup_tcp_inv:
  "rtsp_inv own rest w \<Longrightarrow> rtsp_inv own rest (snd (setup_tcp env c v b t w))"
  by (auto simp: setup_tcp_def Let_def client_wf_def case_prod_beta keeps intro!: inv_cli_upd inv_dev_ops)

lemma setup_tcp_has_setup:
  "cli_get c (snd (setup_tcp env c v b t w)) = Some x \<Longrightarrow> has_setup x"
  by (cases v; cases b) (auto simp: setup_tcp_def Let_def has_setup_def case_prod_beta)

lemma alloc_rtp_socket_inv [keeps]: "rtsp_inv own rest w \<Longrightarrow> rtsp_inv own rest (snd (alloc_rtp_socket env w))"
  by (simp add: alloc_rtp_socket_def keeps)

text \<open>The update that the UDP branches make, once a socket is there.\<close>

lemma udp_video_upd_inv:
  assumes "rtsp_inv own rest w" and "us \<noteq> None"
  shows "rtsp_inv own rest (cli_upd c (\<lambda>x. x\<lparr>cl_rtp_video := us, cl_video_srv_port := port, cl_video_ssrc := ssrc,
      cl_video_dest := dst, cl_video_setup := True\<rparr>) w)"
  by (rule inv_cli_upd [OF assms(1)]) (use assms(2) in \<open>simp add: client_wf_def\<close>)

lemma udp_audio_upd_inv:
  assumes "rtsp_inv own rest w" and "us \<noteq> None"
  shows "rtsp_inv own rest (cli_upd c (\<lambda>x. x\<lparr>cl_rtp_audio := us, cl_audio_srv_port := port, cl_audio_ssrc := ssrc,
      cl_audio_dest := dst, cl_audio_setup := True\<rparr>) w)"
  by (rule inv_cli_upd [OF assms(1)]) (use assms(2) in \<open>simp add: client_wf_def\<close>)

lemma setup_udp_video_inv:
  assumes "rtsp_inv own rest w"
  shows "case setup_udp_video env c cli req peer a b w of
           Inl w1 \<Rightarrow> rtsp_inv own rest w1
         | Inr (resp, w2) \<Rightarrow> rtsp_inv own rest w2 \<and> (\<forall>x. cli_get c w2 = Some x \<longrightarrow> has_setup x)"
proof (cases "cl_rtp_video cli")
  case (Some us)
  then show ?thesis
    using udp_video_upd_inv [OF assms] by (auto simp: setup_udp_video_def Let_def has_setup_def)
next
  case None
  then show ?thesis
    using udp_video_upd_inv [OF inv_dev_ops(1) [OF inv_dev_ops(1) [OF assms]]] rtsp_reply_inv [OF inv_dev_ops(1) [OF assms]]
    by (cases "en_udp_listen env (dv_tick w)") (auto simp: setup_udp_video_def alloc_rtp_socket_def Let_def has_setup_def)
qed

lemma setup_udp_audio_inv:
  assumes "rtsp_inv own rest w"
  shows "case setup_udp_audio env c cli req peer a b w of
           Inl w1 \<Rightarrow> rtsp_inv own rest w1
         | Inr (resp, w2) \<Rightarrow> rtsp_inv own rest w2 \<and> (\<forall>x. cli_get c w2 = Some x \<longrightarrow> has_setup x)"
proof (cases "cl_rtp_audio cli")
  case (Some us)
  then show ?thesis
    using udp_audio_upd_inv [OF assms] by (auto simp: setup_udp_audio_def Let_def has_setup_def)
next
  case None
  then show ?thesis
    using udp_audio_upd_inv [OF inv_dev_ops(1) [OF inv_dev_ops(1) [OF assms]]] rtsp_reply_inv [OF inv_dev_ops(1) [OF assms]]
    by (cases "en_udp_listen env (dv_tick w)") (auto simp: setup_udp_audio_def alloc_rtp_socket_def Let_def has_setup_def)
qed

lemma setup_udp_inv:
  assumes "rtsp_inv own rest w"
  shows "case setup_udp env c cli v b req w of
           Inl w1 \<Rightarrow> rtsp_inv own rest w1
         | Inr (resp, w2) \<Rightarrow> rtsp_inv own rest w2 \<and> (\<forall>x. cli_get c w2 = Some x \<longrightarrow> has_setup x)"
proof -
  have r: "rtsp_inv own rest (unsupported_transport env c req w)" using assms by (simp add: unsupported_transport_def keeps)
  show ?thesis
  proof (cases "b \<or> \<not> sa_is_loopback (en_peer env c)")
    case False
    with r setup_udp_video_inv [OF assms] setup_udp_audio_inv [OF assms] show ?thesis
      by (cases "parse_client_port (rq_transport req)") (simp_all add: setup_udp_def Let_def case_prod_beta)
  qed (use r in \<open>auto simp: setup_udp_def\<close>)
qed

lemma handle_setup_inv [keeps]:
  assumes "rtsp_inv own rest w" shows "rtsp_inv own rest (handle_setup env c req w)"
proof (cases "cli_get c w")
  case (Some cli)
  obtain v a b where t: "setup_tracks cli (rq_uri req) = (v, a, b)" by (cases "setup_tracks cli (rq_uri req)")
  have "rtsp_inv own rest (setup_finish env c req resp (snd (setup_tcp env c v b tr w)))" for resp tr
    by (rule setup_finish_inv [OF setup_tcp_inv [OF assms] setup_tcp_has_setup])
  moreover have "rtsp_inv own rest (setup_finish env c req resp w2)"
    if "setup_udp env c cli v b req w = Inr (resp, w2)" for resp w2
    using setup_udp_inv [OF assms, of c env cli v b req] that by (intro setup_finish_inv) auto
  moreover have "rtsp_inv own rest w1" if "setup_udp env c cli v b req w = Inl w1" for w1
    using setup_udp_inv [OF assms, of c env cli v b req] that by simp
  ultimately show ?thesis
    using Some t by (auto simp: handle_setup_def case_prod_beta split: sum.split)
qed (simp add: handle_setup_def assms)

lemma play_open_speaker_inv:
  assumes "rtsp_inv own rest w" and "cli_get c w = Some x" and "cl_backchannel_setup x = cl_backchannel_setup cli"
  shows "rtsp_inv own rest (play_open_speaker env c cli w)"
proof -
  obtain e w1 where o: "dev_audio_out_open env w = (e, w1)" by fastforce
  have eq: "cli_get c (snd (dev_audio_out_open env w)) = cli_get c w" by simp
  have 1: "rtsp_inv own rest w1" "cli_get c w1 = Some x"
    using inv_dev_ops(8) [OF assms(1), of env] assms(2) o eq by simp_all
  then have "rtsp_inv own rest (cli_upd c (\<lambda>x. x\<lparr>cl_audio_out_opened := True\<rparr>) w1)" if "cl_backchannel_setup x"
    using that by (intro inv_cli_upd) (auto simp: client_wf_def)
  with 1 o assms(1,3) show ?thesis by (auto simp: play_open_speaker_def split: option.split)
qed

lemma play_first_video_inv [keeps]: "rtsp_inv own rest w \<Longrightarrow> rtsp_inv own rest (play_first_video env c w)"
  using inv_dev_ops(5) [of own rest w env]
  by (cases "dev_get_frame env w") (auto simp: play_first_video_def keeps split: sum.split)

lemma play_first_audio_inv [keeps]: "rtsp_inv own rest w \<Longrightarrow> rtsp_inv own rest (play_first_audio env c cli w)"
  by (simp add: play_first_audio_def case_prod_beta keeps)

lemma start_mic_clients [simp]: "rw_clients (start_mic env w) = rw_clients w"
  using rtsp_fields by (auto simp: start_mic_def case_prod_beta split: option.split)

lemma ensure_media_clients [simp]: "rw_clients (ensure_media_started env w) = rw_clients w"
  by (auto simp: ensure_media_started_def case_prod_beta Let_def split: option.split)

lemma cli_get_clients: "rw_clients w = rw_clients v \<Longrightarrow> cli_get c w = cli_get c v"
  by (simp add: cli_get_def)

lemma handle_play_inv [keeps]:
  assumes "rtsp_inv own rest w" shows "rtsp_inv own rest (handle_play env c req w)"
proof (cases "cli_get c w")
  case (Some cli)
  show ?thesis
  proof (cases "cl_state cli = RTSP_IDLE")
    case True
    with Some assms show ?thesis by (simp add: handle_play_def keeps)
  next
    case False
    let ?w1 = "cli_upd c (\<lambda>x. x\<lparr>cl_state := RTSP_PLAYING\<rparr>) w"
    let ?w2 = "dev_request_keyframe (ensure_media_started env ?w1)"
    have 1: "rtsp_inv own rest ?w1"
      by (rule inv_cli_upd [OF assms]) (use Some False in \<open>auto simp: client_wf_def\<close>)
    then have 2: "rtsp_inv own rest ?w2" by (simp add: keeps)
    have "cli_get c ?w2 = cli_get c ?w1" by (rule cli_get_clients) simp
    then have "rtsp_inv own rest (play_open_speaker env c cli ?w2)"
      using Some by (intro play_open_speaker_inv [OF 2, where x = "cli\<lparr>cl_state := RTSP_PLAYING\<rparr>"]) simp_all
    with Some show ?thesis by (cases "cl_state cli") (simp_all add: handle_play_def Let_def keeps assms)
  qed
qed (simp add: handle_play_def assms)

lemma handle_teardown_inv [keeps]: "rtsp_inv own rest w \<Longrightarrow> rtsp_inv own rest (handle_teardown env c req w)"
  by (auto simp: handle_teardown_def Let_def client_wf_idle
      intro!: client_destructor_inv maybe_stop_media_inv inv_cli_upd rtsp_reply_inv)

lemma auth_gate_inv [keeps]: "rtsp_inv own rest w \<Longrightarrow> rtsp_inv own rest (snd (auth_gate env req w))"
  by (auto simp: auth_gate_def Let_def case_prod_beta rtsp_inv_def dev_wf_def rtsp_auth_check_wf)

lemma restart_timeout_inv [keeps]: "rtsp_inv own rest w \<Longrightarrow> rtsp_inv own rest (restart_timeout c req w)"
  by (auto simp: restart_timeout_def client_wf_def intro!: inv_cli_upd)

lemma dispatch_rtsp_inv [keeps]: "rtsp_inv own rest w \<Longrightarrow> rtsp_inv own rest (snd (dispatch_rtsp env c buf len w))"
  by (simp add: dispatch_rtsp_def Let_def case_prod_beta keeps)

lemma recv_frame_inv [keeps]: "rtsp_inv own rest w \<Longrightarrow> rtsp_inv own rest (recv_frame env c ch rtp w)"
  by (simp add: recv_frame_def keeps split: option.split)

lemma set_rbuf_inv [keeps]: "rtsp_inv own rest w \<Longrightarrow> length bs \<le> 16384 \<Longrightarrow> rtsp_inv own rest (set_rbuf c bs w)"
  by (auto simp: set_rbuf_def client_wf_def intro!: inv_cli_upd)

lemma rtsp_process_inv [keeps]:
  "rtsp_inv own rest w \<Longrightarrow> length data \<le> 16384 \<Longrightarrow> rtsp_inv own rest (rtsp_process env c data w)"
proof (induction env c data w rule: rtsp_process.induct)
  case (1 env c data w)
  show ?case
  proof (cases "data = [] \<or> data ! 0 = 0x24")
    case True
    let ?total = "4 + frame_length (data ! 2) (data ! 3)"
    show ?thesis
    proof (cases "data = [] \<or> length data < 4 \<or> length data < ?total")
      case False
      with True have d: "data \<noteq> []" "data ! 0 = 0x24" "\<not> length data < 4" "\<not> length data < ?total" by auto
      have "rtsp_inv own rest (set_rbuf c (drop ?total data) (recv_frame env c (data ! 1) (take (?total - 4) (drop 4 data)) w))"
        using 1(3,4) by (simp add: keeps)
      from 1(1) [OF d(1,2,3) refl d(4) this] d 1(4) show ?thesis by (subst rtsp_process.simps) (simp add: Let_def)
    qed (use True 1 in \<open>subst rtsp_process.simps, auto\<close>)
  next
    case False
    then have d: "data \<noteq> []" "data ! 0 \<noteq> 0x24" by auto
    let ?text = "c_str (bytes_text data)"
    show ?thesis
    proof (cases "strstr ?text (crlf @ crlf)")
      case None
      with d 1(3) show ?thesis by (subst rtsp_process.simps) simp
    next
      case (Some eor)
      obtain freed w1 where r: "dispatch_rtsp env c ?text (eor + 4) w = (freed, w1)" by fastforce
      have w1: "rtsp_inv own rest w1" using dispatch_rtsp_inv [OF 1(3), of env c ?text "eor + 4"] r by simp
      then have "rtsp_inv own rest (set_rbuf c (drop (eor + 4) data) w1)" using 1(4) by (simp add: keeps)
      with 1(2) [OF d refl Some refl r [symmetric] refl] 1(4)
      have "\<not> freed \<Longrightarrow> rtsp_inv own rest (rtsp_process env c (drop (eor + 4) data) (set_rbuf c (drop (eor + 4) data) w1))"
        by simp
      with d Some r w1 show ?thesis by (subst rtsp_process.simps) (simp add: Let_def)
    qed
  qed
qed

lemma rtsp_recv_inv [keeps]:
  assumes "rtsp_inv own rest w" shows "rtsp_inv own rest (rtsp_recv_handler env c bs w)"
  using assms client_destructor_upd_inv [OF inv_dev_ops(1) [OF inv_dev_ops(1) [OF assms]]]
  by (auto simp: rtsp_recv_handler_def Let_def keeps set_rbuf_def split: option.split
      intro!: rtsp_process_inv [OF set_rbuf_inv, unfolded set_rbuf_def])

lemma inv_add_client:
  "rtsp_inv own rest w \<Longrightarrow> c \<notin> fst ` set (rw_clients w) \<Longrightarrow> rtsp_inv own rest (w\<lparr>rw_clients := rw_clients w @ [(c, new_client)]\<rparr>)"
  by (auto simp: rtsp_inv_def dev_wf_def client_wf_def new_client_def)

lemma rtsp_conn_inv [keeps]:
  "rtsp_inv own rest w \<Longrightarrow> c \<notin> fst ` set (rw_clients w) \<Longrightarrow> rtsp_inv own rest (rtsp_conn_handler env c w)"
  "rtsp_inv own rest w \<Longrightarrow> c \<notin> fst ` set (rw_clients w) \<Longrightarrow> rtsp_inv own rest (rtsp_accept_relay_conn env c w)"
  using inv_add_client [of own rest "tick w" c]
  by (simp_all add: rtsp_conn_handler_def rtsp_accept_relay_conn_def keeps split: option.split)

lemma drain_mic_inv [keeps]: "rtsp_inv own rest w \<Longrightarrow> rtsp_inv own rest (drain_mic n w)"
proof (induction n w rule: drain_mic.induct)
  case (1 n w)
  show ?case
    using 1 inv_dev_ops(7) [OF 1(2)]
    by (subst drain_mic.simps) (auto simp: case_prod_beta Let_def)
qed

lemma drain_excess_inv [keeps]: "rtsp_inv own rest w \<Longrightarrow> rtsp_inv own rest (drain_excess w)"
  by (simp add: drain_excess_def Let_def keeps)

text \<open>A loop over the clients in which every turn keeps the invariant.\<close>

lemma clients_loop_inv:
  assumes "rtsp_inv own rest w" and "\<And>v p. rtsp_inv own rest v \<Longrightarrow> rtsp_inv own rest (f v p)"
  shows "rtsp_inv own rest (foldl f w ps)"
  using assms(1) by (induction ps arbitrary: w) (simp_all add: assms(2))

lemma audio_send_timer_inv [keeps]: "rtsp_inv own rest w \<Longrightarrow> rtsp_inv own rest (audio_send_timer env w)"
  by (auto simp: audio_send_timer_def Let_def case_prod_beta keeps intro!: clients_loop_inv)

lemma video_send_timer_inv [keeps]:
  assumes "rtsp_inv own rest w" shows "rtsp_inv own rest (video_send_timer env w)"
proof -
  let ?w0 = "w\<lparr>rw_tmr_video := Some VIDEO_PTIME\<rparr>" and ?n = "rw_video_frame_count w"
  let ?w1 = "if ?n > 0 \<and> unat ?n mod (VIDEO_FPS * 2) = 0 then dev_request_keyframe ?w0 else ?w0"
  have 1: "rtsp_inv own rest ?w1" using assms by (simp add: keeps)
  obtain r w2 where g: "dev_get_frame env ?w1 = (r, w2)" by fastforce
  have "rtsp_inv own rest w2" using inv_dev_ops(5) [OF 1, of env] g by simp
  with g assms show ?thesis
    by (auto simp: video_send_timer_def Let_def case_prod_beta keeps split: sum.split intro!: inv_more clients_loop_inv)
qed

lemma destructors_inv: "rtsp_inv own rest w \<Longrightarrow> rtsp_inv own rest (foldl (\<lambda>v (c, cli). client_destructor c v) w ps)"
  by (rule clients_loop_inv) (auto simp: keeps)

lemma inv_close_camera: "rtsp_inv own rest w \<Longrightarrow> rtsp_inv own rest ((dev_camera_close w)\<lparr>rw_camera_opened := False\<rparr>)"
  by (simp add: rtsp_inv_def dev_camera_close_def dev_wf_def camera_close_wf)

lemma inv_close_mic: "rtsp_inv own rest w \<Longrightarrow> rtsp_inv own rest ((dev_audio_in_close w)\<lparr>rw_mic_opened := False\<rparr>)"
  by (simp add: rtsp_inv_def dev_audio_in_close_def dev_wf_def audio_in_close_wf)

lemma rtsp_server_close_inv [keeps]: "rtsp_inv own rest w \<Longrightarrow> rtsp_inv own rest (rtsp_server_close w)"
  by (simp add: rtsp_server_close_def Let_def keeps destructors_inv inv_close_camera inv_close_mic)

lemma rtsp_server_init_inv [keeps]:
  assumes "dev_wf w" and "auth_wf (rw_auth w)" and "rtsp_world.more w \<in> rest" shows "rtsp_inv own rest (snd (rtsp_server_init env w))"
  using assms re_snprintf_length [of 64]
  by (auto simp: rtsp_server_init_def rtsp_inv_def dev_wf_def Let_def str_ncpy_def split: sum.split option.split)

end
