(* ===== verification/Rtsp_Props.thy ===== *)
theory Rtsp_Props
  imports Rtsp_Inv
begin

text \<open>
  The RTSP server as a transition system and its properties: reachable states satisfy the invariant,
  unauthenticated requests change nothing, PLAY and TEARDOWN follow the state machine, video and audio
  packets carry what the devices produced, interleaved frames are taken apart as they were put together.
\<close>

section \<open>Reachable states\<close>

text \<open>
  One step is one callback of the event loop or of a driver. New connections get a number that is not
  in use; the microphone callback runs only while the device is open.
\<close>

inductive rtsp_step :: "env \<Rightarrow> 'a rtsp_world_scheme \<Rightarrow> 'a rtsp_world_scheme \<Rightarrow> bool" for env where
  step_conn: "rw_listening w \<Longrightarrow> c \<notin> fst ` set (rw_clients w) \<Longrightarrow> rtsp_step env w (rtsp_conn_handler env c w)"
| step_relay: "c \<notin> fst ` set (rw_clients w) \<Longrightarrow> rtsp_step env w (rtsp_accept_relay_conn env c w)"
| step_recv: "cli_get c w = Some x \<Longrightarrow> rtsp_step env w (rtsp_recv_handler env c bs w)"
| step_close: "cli_get c w = Some x \<Longrightarrow> rtsp_step env w (rtsp_close_handler c w)"
| step_timeout: "cli_get c w = Some x \<Longrightarrow> rtsp_step env w (session_timeout_handler c w)"
| step_audio: "rw_tmr_audio w \<noteq> None \<Longrightarrow> rtsp_step env w (audio_send_timer env w)"
| step_video: "rw_tmr_video w \<noteq> None \<Longrightarrow> rtsp_step env w (video_send_timer env w)"
| step_mic: "ai_opened (dv_ain w) \<Longrightarrow> k < 4 \<Longrightarrow> rtsp_step env w (w\<lparr>dv_ain := wave_in_proc b now k xs (dv_ain w)\<rparr>)"
| step_speaker: "ao_opened (dv_aout w) \<Longrightarrow> rtsp_step env w (w\<lparr>dv_aout := wave_out_done k (dv_aout w)\<rparr>)"
| step_shutdown: "rtsp_step env w (rtsp_server_close w)"

inductive_cases rtsp_step_cases: "rtsp_step env w w'"

definition rtsp_world_zero :: "rtsp_auth \<Rightarrow> rtsp_world" where
  "rtsp_world_zero a =
     \<lparr>dv_tick = 0, dv_cam = cam_zero, dv_ain = ain_zero, dv_aout = aout_zero, dv_sent = [],
      rw_auth = a, rw_listening = False, rw_clients = [], rw_tmr_audio = None, rw_tmr_video = None,
      rw_camera_opened = False, rw_video_frame_count = 0, rw_port = 0, rw_local_ip = [], rw_mic_opened = False\<rparr>"

text \<open>The states of a server that was started with some user name and password.\<close>

inductive rtsp_reachable :: "env \<Rightarrow> rtsp_world \<Rightarrow> bool" for env where
  reach_init: "rtsp_reachable env (snd (rtsp_server_init env (rtsp_world_zero (rtsp_auth_init rnd u p auth_zero))))"
| reach_step: "rtsp_reachable env w \<Longrightarrow> rtsp_step env w w' \<Longrightarrow> rtsp_reachable env w'"

lemma enqueue_to_ring_opened [simp]: "ai_opened (enqueue_to_ring now xs g) = ai_opened g"
  by (induction now xs g rule: enqueue_to_ring.induct) (simp_all add: enqueue_one_def Let_def)

lemma wave_in_proc_opened [simp]: "ai_opened (wave_in_proc b now k xs g) = ai_opened g"
  by (simp add: wave_in_proc_def Let_def)

lemma step_mic_inv: "rtsp_inv own rest w \<Longrightarrow> rtsp_inv own rest (w\<lparr>dv_ain := wave_in_proc b now k xs (dv_ain w)\<rparr>)"
  by (simp add: rtsp_inv_def dev_wf_def wave_in_proc_wf)

lemma step_speaker_inv: "rtsp_inv own rest w \<Longrightarrow> rtsp_inv own rest (w\<lparr>dv_aout := wave_out_done k (dv_aout w)\<rparr>)"
  by (simp add: rtsp_inv_def dev_wf_def wave_out_done_wf)

lemma rtsp_step_inv: "rtsp_step env w w' \<Longrightarrow> rtsp_inv own rest w \<Longrightarrow> rtsp_inv own rest w'"
  by (induction rule: rtsp_step.induct) (simp_all add: keeps step_mic_inv step_speaker_inv)

lemma rtsp_reachable_inv: "rtsp_reachable env w \<Longrightarrow> rtsp_inv True UNIV w"
proof (induction rule: rtsp_reachable.induct)
  case (reach_init rnd u p)
  show ?case
    by (rule rtsp_server_init_inv)
      (simp_all add: rtsp_world_zero_def dev_wf_def cam_zero_wf aout_zero_wf rtsp_auth_init_wf auth_zero_wf)
qed (rule rtsp_step_inv)

section \<open>Requests\<close>

lemma rtsp_reply_sends:
  assumes "cli_get c w = Some cli"
  shows "dv_sent (snd (rtsp_reply env c q k r h b w)) = dv_sent w
     \<or> dv_sent (snd (rtsp_reply env c q k r h b w))
         = dv_sent w @ [TcpSend c (text_bytes (rtsp_reply_text (cl_session_id cli) q k r h b))]"
  using assms by (auto simp: rtsp_reply_def dev_tcp_send_def split: option.split)

lemma rtsp_reply_devices [simp]:
  "dv_cam (snd (rtsp_reply env c q k r h b w)) = dv_cam w" "dv_ain (snd (rtsp_reply env c q k r h b w)) = dv_ain w"
  "dv_aout (snd (rtsp_reply env c q k r h b w)) = dv_aout w"
  by (simp_all add: rtsp_reply_def split: option.split)

text \<open>C2: A request that fails authentication has no effect: with authentication enabled, a request other
  than OPTIONS and GET_PARAMETER whose digest check fails leaves the clients, the timers, the
  authentication state and all devices exactly as they were, the client is not freed, and the only
  thing that may leave the server is a 401 reply with the challenge on the same connection.\<close>

theorem unauthenticated_no_effect:
  assumes "cli_get c w = Some cli" and "au_enabled (rw_auth w)" and "req = parse_rtsp_request buf len"
    and "rq_method req \<noteq> ''OPTIONS''" and "rq_method req \<noteq> ''GET_PARAMETER''"
    and "fst (rtsp_auth_check (en_md5 env) (en_rand env (dv_tick w)) (rq_method req) (rq_uri req)
           (if rq_authorization req = [] then None else Some (rq_authorization req)) (rw_auth w)) \<noteq> None"
  shows "\<exists>w'. dispatch_rtsp env c buf len w = (False, w') \<and> rtsp_state_of w' = rtsp_state_of w
      \<and> dv_cam w' = dv_cam w \<and> dv_ain w' = dv_ain w \<and> dv_aout w' = dv_aout w
      \<and> (dv_sent w' = dv_sent w
         \<or> dv_sent w' = dv_sent w @ [TcpSend c (text_bytes (rtsp_reply_text (cl_session_id cli) (rq_cseq req) 401
               ''Unauthorized'' (Some (fst (rtsp_auth_challenge 256 (rw_auth w)))) []))])"
proof -
  let ?auth = "if rq_authorization req = [] then None else Some (rq_authorization req)"
  have keep: "snd (rtsp_auth_check (en_md5 env) (en_rand env (dv_tick w)) (rq_method req) (rq_uri req) ?auth (rw_auth w)) = rw_auth w"
    using assms(6) by (auto simp: rtsp_auth_check_def split: option.splits sum.splits if_splits)
  obtain e where chk: "rtsp_auth_check (en_md5 env) (en_rand env (dv_tick w)) (rq_method req) (rq_uri req) ?auth (rw_auth w)
      = (Some e, rw_auth w)"
    using keep assms(6) by (metis option.exhaust prod.collapse)
  let ?w1 = "tick w\<lparr>rw_auth := rw_auth w\<rparr>"
  have w1: "?w1 = tick w" by (simp add: tick_def)
  have gate: "auth_gate env req w = (False, tick w)"
    using assms(2,4,5) chk w1 by (simp add: auth_gate_def rtsp_auth_enabled_def)
  let ?w' = "snd (rtsp_reply env c (rq_cseq req) 401 ''Unauthorized'' (Some (fst (rtsp_auth_challenge 256 (rw_auth w)))) [] (tick w))"
  have d: "dispatch_rtsp env c buf len w = (False, ?w')"
    using gate assms(3) by (simp add: dispatch_rtsp_def)
  have "cli_get c (tick w) = Some cli" using assms(1) by simp
  from rtsp_reply_sends [OF this, of env "rq_cseq req" 401 "''Unauthorized''" "Some (fst (rtsp_auth_challenge 256 (rw_auth w)))" "[]"]
  show ?thesis using d by (intro exI [of _ ?w']) simp
qed

text \<open>A fresh server with one client, for concrete instances.\<close>

definition one_client_world :: "rtsp_client \<Rightarrow> rtsp_world" where
  "one_client_world cli = (rtsp_world_zero example_auth)\<lparr>rw_listening := True, rw_clients := [(7, cli)]\<rparr>"

lemma one_client_world_fields [simp]:
  "cli_get 7 (one_client_world cli) = Some cli" "rw_auth (one_client_world cli) = example_auth"
  "rw_clients (one_client_world cli) = [(7, cli)]" "dv_sent (one_client_world cli) = []"
  "dv_ain (one_client_world cli) = ain_zero" "dv_cam (one_client_world cli) = cam_zero"
  "dv_aout (one_client_world cli) = aout_zero" "rw_camera_opened (one_client_world cli) = False"
  "rw_mic_opened (one_client_world cli) = False"
  by (simp_all add: one_client_world_def cli_get_def rtsp_world_zero_def)

theorem unauthenticated_no_effect_witness:
  "fst (dispatch_rtsp good_env 7 (request_text (example_req\<lparr>rq_method := ''PLAY''\<rparr>) 3)
          (length (request_text (example_req\<lparr>rq_method := ''PLAY''\<rparr>) 3)) (one_client_world new_client)) = False"
proof -
  let ?r = "example_req\<lparr>rq_method := ''PLAY''\<rparr>" and ?w = "one_client_world new_client"
  have p: "?r = parse_rtsp_request (request_text ?r 3) (length (request_text ?r 3))"
    using parse_request_text [of ?r 3 "[]"] by (simp add: example_req_def req_wf_def header_text_def)
  have "fst (rtsp_auth_check (en_md5 good_env) (en_rand good_env (dv_tick ?w)) (rq_method ?r) (rq_uri ?r)
      (if rq_authorization ?r = [] then None else Some (rq_authorization ?r)) (rw_auth ?w)) \<noteq> None"
    using example_auth_facts(2) by (simp add: example_req_def rtsp_auth_check_def)
  from unauthenticated_no_effect [OF one_client_world_fields(1) _ p _ _ this] example_auth_facts(2) show ?thesis by auto
qed

text \<open>PLAY before a successful SETUP is refused: the reply is 455, and neither the client nor any other
  part of the server or the devices changes.\<close>

lemma play_needs_setup:
  assumes "cli_get c w = Some cli" and "cl_state cli = RTSP_IDLE"
  shows "rtsp_state_of (handle_play env c req w) = rtsp_state_of w
      \<and> dv_cam (handle_play env c req w) = dv_cam w \<and> dv_ain (handle_play env c req w) = dv_ain w
      \<and> dv_aout (handle_play env c req w) = dv_aout w
      \<and> (dv_sent (handle_play env c req w) = dv_sent w
         \<or> dv_sent (handle_play env c req w) = dv_sent w @ [TcpSend c (text_bytes (rtsp_reply_text
              (cl_session_id cli) (rq_cseq req) 455 ''Method Not Valid in This State'' None []))])"
proof -
  have "handle_play env c req w = snd (rtsp_reply env c (rq_cseq req) 455 ''Method Not Valid in This State'' None [] w)"
    using assms by (simp add: handle_play_def)
  then show ?thesis using rtsp_reply_sends [OF assms(1)] by simp
qed

lemma play_needs_setup_witness:
  "rtsp_state_of (handle_play good_env 7 example_req (one_client_world new_client)) = rtsp_state_of (one_client_world new_client)"
  using play_needs_setup [OF one_client_world_fields(1), of new_client good_env example_req]
  by (simp add: new_client_def)

section \<open>PLAY starts the media\<close>

lemma start_mic_cam [simp]: "dv_cam (start_mic env w) = dv_cam w"
  by (auto simp: start_mic_def case_prod_beta split: option.split)

lemma start_mic_camera: "rw_camera_opened (start_mic env w) = rw_camera_opened w"
proof -
  obtain e w1 where o: "dev_audio_in_open env w = (e, w1)" by fastforce
  have "rtsp_state_of w1 = rtsp_state_of w" using rtsp_state_of_ops(7) [of env w] o by simp
  then show ?thesis using o by (simp add: start_mic_def rtsp_state_of_def split: option.split)
qed

text \<open>The timers after \<open>ensure_media_started\<close>, when the camera is or gets open.\<close>

lemma ensure_media_started_runs:
  assumes "rtsp_inv True UNIV w" and "rw_camera_opened w \<or> fst (dev_camera_open env w) \<in> {None, Some EALREADY}"
  shows "rw_tmr_video (ensure_media_started env w) = Some VIDEO_PTIME"
    "rw_tmr_audio (ensure_media_started env w) = Some AUDIO_PTIME"
    "rw_camera_opened (ensure_media_started env w)"
  using assms(2)
  by (cases "dev_camera_open env w"; auto simp: ensure_media_started_def start_mic_camera split: option.split)+

text \<open>
  What sending to client \<open>c\<close> may change of the server: that client's counters and the frame count, never
  another client, a timer, an open device flag or the authentication.
\<close>

definition rtsp_rest :: "'a rtsp_world_scheme \<Rightarrow> rtsp_auth \<times> bool \<times> nat option \<times> nat option \<times> bool \<times> u16 \<times> string \<times> bool" where
  "rtsp_rest w = (rw_auth w, rw_listening w, rw_tmr_audio w, rw_tmr_video w, rw_camera_opened w, rw_port w,
     rw_local_ip w, rw_mic_opened w)"

definition touches_only :: "nat \<Rightarrow> 'a rtsp_world_scheme \<Rightarrow> 'a rtsp_world_scheme \<Rightarrow> bool" where
  "touches_only c w w' \<longleftrightarrow>
     rtsp_rest w' = rtsp_rest w \<and> (\<forall>d. d \<noteq> c \<longrightarrow> cli_get d w' = cli_get d w)
     \<and> map_option cl_state (cli_get c w') = map_option cl_state (cli_get c w)"

lemma touches_only_refl [simp]: "touches_only c w w"
  by (simp add: touches_only_def)

lemma touches_only_trans: "touches_only c w v \<Longrightarrow> touches_only c v u \<Longrightarrow> touches_only c w u"
  by (simp add: touches_only_def)

lemma touches_only_part: "rtsp_state_of w' = rtsp_state_of w \<Longrightarrow> touches_only c w w'"
  by (simp add: touches_only_def rtsp_state_of_def rtsp_rest_def cli_get_def)

lemma touches_only_upd: "(\<And>x. cli_get c w = Some x \<Longrightarrow> cl_state (f x) = cl_state x) \<Longrightarrow> touches_only c w (cli_upd c f w)"
  by (cases "cli_get c w") (simp_all add: touches_only_def rtsp_rest_def)

lemma touches_only_count: "touches_only c w (w\<lparr>rw_video_frame_count := n\<rparr>)"
  by (simp add: touches_only_def rtsp_rest_def cli_get_def)

lemma send_video_touches: "touches_only c w (send_video_to_client env nalus c w)"
proof (cases "cli_get c w")
  case (Some cli)
  let ?s = "send_frame send_h264_nalu_to_client (en_alloc_nalu env (dv_tick w)) cli nalus"
  obtain sq where sq: "snd ?s = cli\<lparr>cl_video_seq := sq\<rparr>" using send_frame_client by blast
  let ?w1 = "foldl (send_media env c (cl_interleaved cli) (cl_video_interleaved cli) (cl_rtp_video cli)
      (cl_video_dest cli)) (tick w) (fst ?s)"
  have p: "rtsp_state_of ?w1 = rtsp_state_of w" by simp
  then have "cli_get c ?w1 = Some cli" using rtsp_state_of_eqD(11) [OF p] Some by simp
  then have "touches_only c ?w1 (cli_upd c (\<lambda>_. (snd ?s)\<lparr>cl_video_ts := t\<rparr>) ?w1)" for t
    by (intro touches_only_upd) (simp add: sq)
  with touches_only_part [OF p] Some show ?thesis
    by (simp add: send_video_to_client_def case_prod_beta Let_def) (blast intro: touches_only_trans)
qed (simp add: send_video_to_client_def)

lemma send_audio_touches: "touches_only c w (send_audio_to_client env pcmu c w)"
proof (cases "cli_get c w")
  case (Some cli)
  let ?w1 = "send_media env c (cl_interleaved cli) (cl_audio_interleaved cli) (cl_rtp_audio cli) (cl_audio_dest cli) (tick w)"
  have "touches_only c w (?w1 p)" for p by (rule touches_only_part) simp
  moreover have "touches_only c (?w1 p) (cli_upd c (\<lambda>x. x\<lparr>cl_audio_seq := a, cl_audio_ts := b\<rparr>) (?w1 p))" for p a b
    by (rule touches_only_upd) simp
  ultimately have "touches_only c w (cli_upd c (\<lambda>x. x\<lparr>cl_audio_seq := a, cl_audio_ts := b\<rparr>) (?w1 p))" for p a b
    by (rule touches_only_trans)
  with Some show ?thesis by (simp add: send_audio_to_client_def Let_def touches_only_part)
qed (simp add: send_audio_to_client_def)

lemma mic_frame_part [simp]: "rtsp_state_of (snd (mic_frame w)) = rtsp_state_of w"
  by (simp add: mic_frame_def case_prod_beta Let_def)

lemma play_open_speaker_touches: "touches_only c w (play_open_speaker env c cli w)"
proof -
  obtain e w1 where o: "dev_audio_out_open env w = (e, w1)" by fastforce
  have "rtsp_state_of w1 = rtsp_state_of w" using rtsp_state_of_ops(10) [of env w] o by simp
  then have "touches_only c w w1" by (rule touches_only_part)
  moreover have "touches_only c w1 (cli_upd c (\<lambda>x. x\<lparr>cl_audio_out_opened := True\<rparr>) w1)"
    by (rule touches_only_upd) simp
  ultimately show ?thesis
    using o by (auto simp: play_open_speaker_def split: option.split intro: touches_only_trans)
qed

lemma play_first_video_touches: "touches_only c w (play_first_video env c w)"
proof -
  obtain r w1 where g: "dev_get_frame env w = (r, w1)" by fastforce
  have "rtsp_state_of w1 = rtsp_state_of w" using rtsp_state_of_ops(6) [of env w] g by simp
  then have 1: "touches_only c w w1" by (rule touches_only_part)
  have "touches_only c w1 ((send_video_to_client env ns c w1)\<lparr>rw_video_frame_count := n\<rparr>)" for ns n
    by (rule touches_only_trans [OF send_video_touches touches_only_count])
  with 1 g show ?thesis
    by (auto simp: play_first_video_def split: sum.split intro: touches_only_trans)
qed

lemma play_first_audio_touches: "touches_only c w (play_first_audio env c cli w)"
  by (auto simp: play_first_audio_def case_prod_beta
      intro!: touches_only_trans [OF touches_only_part [OF mic_frame_part] send_audio_touches])

text \<open>PLAY after SETUP starts the stream: the client is in the playing state, and when the camera is or can
  be opened, both media timers run and the camera is open afterwards; the state of no other client changes.\<close>

lemma play_starts_media:
  assumes "rtsp_inv True UNIV w" and "cli_get c w = Some cli" and "cl_state cli \<noteq> RTSP_IDLE"
    and "rw_camera_opened w \<or> fst (dev_camera_open env w) = None"
  shows "map_option cl_state (cli_get c (handle_play env c req w)) = Some RTSP_PLAYING
      \<and> rw_tmr_video (handle_play env c req w) = Some VIDEO_PTIME
      \<and> rw_tmr_audio (handle_play env c req w) = Some AUDIO_PTIME
      \<and> cam_opened (dv_cam (handle_play env c req w))
      \<and> (\<forall>d. d \<noteq> c \<longrightarrow> cli_get d (handle_play env c req w) = cli_get d w)
      \<and> rtsp_inv True UNIV (handle_play env c req w)"
proof -
  let ?w1 = "cli_upd c (\<lambda>x. x\<lparr>cl_state := RTSP_PLAYING\<rparr>) w"
  let ?w2 = "dev_request_keyframe (ensure_media_started env ?w1)"
  let ?w3 = "play_open_speaker env c cli ?w2"
  let ?w4 = "snd (rtsp_reply env c (rq_cseq req) 200 ''OK'' (Some (fst (play_rtp_info cli (rq_uri req)))) [] ?w3)"
  let ?w' = "play_first_audio env c cli (play_first_video env c ?w4)"
  have play: "handle_play env c req w = ?w'"
    using assms(2,3) by (cases "cl_state cli") (simp_all add: handle_play_def Let_def)
  have i1: "rtsp_inv True UNIV ?w1"
    by (rule inv_cli_upd [OF assms(1)]) (use assms(2,3) in \<open>auto simp: client_wf_def\<close>)
  have "fst (dev_camera_open env ?w1) = fst (dev_camera_open env w)"
    by (simp add: dev_camera_open_def case_prod_beta Let_def)
  then have t: "rw_tmr_video ?w2 = Some VIDEO_PTIME" "rw_tmr_audio ?w2 = Some AUDIO_PTIME"
      "rw_camera_opened ?w2"
    using ensure_media_started_runs [OF i1, of env] assms(4) by auto
  have c2: "cli_get d ?w2 = cli_get d ?w1" for d by (rule cli_get_clients) simp
  have "touches_only c ?w3 ?w4" by (rule touches_only_part) simp
  then have "touches_only c ?w2 ?w'"
    by (blast intro: touches_only_trans play_open_speaker_touches play_first_video_touches play_first_audio_touches)
  then have "rtsp_rest ?w' = rtsp_rest ?w2" "\<And>d. d \<noteq> c \<Longrightarrow> cli_get d ?w' = cli_get d w"
      "map_option cl_state (cli_get c ?w') = Some RTSP_PLAYING"
    using c2 assms(2) by (auto simp: touches_only_def)
  moreover from this(1) have "cam_opened (dv_cam ?w')"
    using t(3) handle_play_inv [OF assms(1), of env c req] by (simp add: rtsp_rest_def rtsp_inv_def play)
  ultimately show ?thesis using t play handle_play_inv [OF assms(1), of env c req] by (simp add: rtsp_rest_def)
qed

definition ready_client :: rtsp_client where
  "ready_client = new_client\<lparr>cl_state := RTSP_READY, cl_session_id := ''0000002a'', cl_interleaved := True,
     cl_video_setup := True, cl_video_interleaved := 0, cl_video_interleaved_rtcp := 1, cl_video_ssrc := 42\<rparr>"

lemma one_ready_inv: "rtsp_inv True UNIV (one_client_world ready_client)"
  by (simp add: rtsp_inv_def one_client_world_def rtsp_world_zero_def dev_wf_def cam_zero_wf aout_zero_wf
      example_auth_facts client_wf_def ready_client_def new_client_def)

lemma play_starts_media_witness:
  "rw_tmr_video (handle_play good_env 7 example_req (one_client_world ready_client)) = Some VIDEO_PTIME"
  using play_starts_media [OF one_ready_inv one_client_world_fields(1), of good_env example_req]
  by (simp add: ready_client_def new_client_def dev_camera_open_def camera_open_def good_env_def cam_zero_def Let_def)

section \<open>TEARDOWN\<close>

lemma client_destructor_clients:
  "rw_clients (client_destructor c w) = filter (\<lambda>(i, x). i \<noteq> c) (rw_clients w)"
proof (cases "cli_get c w")
  case None
  then have "filter (\<lambda>(i, x). i \<noteq> c) (rw_clients w) = rw_clients w"
    by (auto simp: cli_get_def map_of_eq_None_iff image_iff intro!: filter_True)
  with None show ?thesis by (simp add: client_destructor_def)
qed (auto simp: client_destructor_def Let_def)

lemma filter_clients_upd:
  "filter (\<lambda>(i, x). i \<noteq> c) (rw_clients (cli_upd c f w)) = filter (\<lambda>(i, x). i \<noteq> c) (rw_clients w)"
proof -
  have "filter (\<lambda>(i, x). i \<noteq> c) (map (\<lambda>(i, x). (i, if i = c then f x else x)) l) = filter (\<lambda>(i, x). i \<noteq> c) l" for l
    by (induction l) auto
  then show ?thesis by (simp add: cli_upd_def)
qed

lemma client_destructor_timers [simp]:
  "rw_tmr_audio (client_destructor c w) = rw_tmr_audio w" "rw_tmr_video (client_destructor c w) = rw_tmr_video w"
  by (auto simp: client_destructor_def Let_def split: option.split)

lemma playing_after_idle:
  "has_playing_clients (cli_upd c (\<lambda>x. x\<lparr>cl_state := RTSP_IDLE\<rparr>) w)
   \<longleftrightarrow> (\<exists>(i, x) \<in> set (rw_clients w). i \<noteq> c \<and> cl_state x = RTSP_PLAYING)"
proof -
  have "list_ex (\<lambda>(i, cli). cl_state cli = RTSP_PLAYING)
          (map (\<lambda>(i, x). (i, if i = c then x\<lparr>cl_state := RTSP_IDLE\<rparr> else x)) l)
      \<longleftrightarrow> (\<exists>(i, x) \<in> set l. i \<noteq> c \<and> cl_state x = RTSP_PLAYING)" for l
    by (induction l) (auto split: if_splits)
  then show ?thesis by (simp add: has_playing_clients_def cli_upd_def)
qed

text \<open>C34: TEARDOWN frees the client: it disappears from the list, its connection is closed, every other client
  stays as it was, and the shared media timers stop exactly when no other client is playing.\<close>

theorem teardown_releases:
  assumes "cli_get c w = Some cli"
  shows "rw_clients (handle_teardown env c req w) = filter (\<lambda>(i, x). i \<noteq> c) (rw_clients w)
      \<and> cli_get c (handle_teardown env c req w) = None
      \<and> last (dv_sent (handle_teardown env c req w)) = TcpClosed c
      \<and> (if \<exists>(i, x) \<in> set (rw_clients w). i \<noteq> c \<and> cl_state x = RTSP_PLAYING
         then rw_tmr_video (handle_teardown env c req w) = rw_tmr_video w
              \<and> rw_tmr_audio (handle_teardown env c req w) = rw_tmr_audio w
         else rw_tmr_video (handle_teardown env c req w) = None \<and> rw_tmr_audio (handle_teardown env c req w) = None)"
proof -
  let ?w1 = "snd (rtsp_reply env c (rq_cseq req) 200 ''OK'' None [] w)"
  let ?w2 = "cli_upd c (\<lambda>x. x\<lparr>cl_state := RTSP_IDLE\<rparr>) ?w1"
  have t: "handle_teardown env c req w = client_destructor c (maybe_stop_media ?w2)"
    by (simp add: handle_teardown_def Let_def)
  have m: "rw_clients (maybe_stop_media v) = rw_clients v" for v :: "'a rtsp_world_scheme"
    by (simp add: maybe_stop_media_def)
  have clients: "rw_clients (handle_teardown env c req w) = filter (\<lambda>(i, x). i \<noteq> c) (rw_clients w)"
    unfolding t client_destructor_clients m filter_clients_upd by simp
  have "cli_get c (maybe_stop_media ?w2) = Some (cli\<lparr>cl_state := RTSP_IDLE\<rparr>)"
    using cli_get_clients [OF m, of c ?w2] assms by simp
  then have "last (dv_sent (handle_teardown env c req w)) = TcpClosed c"
    unfolding t by (simp add: client_destructor_def Let_def)
  moreover have "cli_get c (handle_teardown env c req w) = None"
    by (auto simp: cli_get_def clients map_of_eq_None_iff)
  moreover have "rw_tmr_video ?w1 = rw_tmr_video w" "rw_tmr_audio ?w1 = rw_tmr_audio w"
    using rtsp_state_of_eqD(4,5) [OF rtsp_reply_part] by blast+
  ultimately show ?thesis
    using clients playing_after_idle [of c ?w1] by (simp add: t maybe_stop_media_def)
qed

theorem teardown_releases_witness:
  "cli_get 7 (handle_teardown good_env 7 example_req (one_client_world ready_client)) = None"
  using teardown_releases [OF one_client_world_fields(1), of good_env example_req ready_client] by simp

section \<open>Media delivery\<close>

interpretation rtsp_sender: nalu_sender send_h264_nalu_to_client cl_video_seq cl_video_ts cl_video_ssrc
  by unfold_locales (auto simp: send_h264_nalu_to_client_def case_prod_beta)

text \<open>How a media packet of a client leaves the server.\<close>

definition media_event :: "nat \<Rightarrow> bool \<Rightarrow> u8 \<Rightarrow> u16 option \<Rightarrow> sockaddr \<Rightarrow> bytes \<Rightarrow> net_event" where
  "media_event c interleaved ch us dst p =
     (if interleaved then TcpSend c (interleaved_frame ch p) else UdpSend (the us) dst p)"

lemma send_media_sends:
  "network_up env \<Longrightarrow> i \<or> us \<noteq> None \<Longrightarrow>
   dv_sent (send_media env c i ch us dst w p) = dv_sent w @ [media_event c i ch us dst p]"
  by (auto simp: send_media_def media_event_def tcp_interleaved_send_def dev_tcp_send_def dev_udp_send_def network_up_def)

lemma send_medias_send:
  "network_up env \<Longrightarrow> i \<or> us \<noteq> None \<Longrightarrow>
   dv_sent (foldl (send_media env c i ch us dst) w ps) = dv_sent w @ map (media_event c i ch us dst) ps"
  by (induction ps arbitrary: w) (simp_all add: send_media_sends)

text \<open>C13: Video delivery: for a client with its video track set up, on a working network, the units of a frame
  leave on that client's channel or socket as packets that a receiver reassembles to exactly those
  units, in order, with consecutive sequence numbers from the client's counter, the client's time
  stamp and source, the marker on the last packet only, and no packet above the MTU.\<close>

theorem video_delivery:
  assumes "rtsp_inv True UNIV w" and "cli_get c w = Some cli" and "cl_video_setup cli"
    and "network_up env" and "\<forall>n \<in> set nalus. nal_unit n"
  shows "\<exists>ps. dv_sent (send_video_to_client env nalus c w) =
            dv_sent w @ map (media_event c (cl_interleaved cli) (cl_video_interleaved cli) (cl_rtp_video cli) (cl_video_dest cli)) ps
         \<and> frame_delivered (cl_video_ts cli) (cl_video_ssrc cli) (cl_video_seq cli) nalus ps"
proof -
  let ?s = "send_frame send_h264_nalu_to_client (en_alloc_nalu env (dv_tick w)) cli nalus"
  have sock: "cl_interleaved cli \<or> cl_rtp_video cli \<noteq> None"
    using inv_client [OF assms(1,2)] assms(3) by (simp add: client_wf_def)
  have "frame_delivered (cl_video_ts cli) (cl_video_ssrc cli) (cl_video_seq cli) nalus (fst ?s)"
    by (rule rtsp_sender.frame_delivery) (use assms(4,5) in \<open>auto simp: network_up_def\<close>)
  moreover have "dv_sent (send_video_to_client env nalus c w) =
      dv_sent w @ map (media_event c (cl_interleaved cli) (cl_video_interleaved cli) (cl_rtp_video cli) (cl_video_dest cli)) (fst ?s)"
    using assms(2) by (simp add: send_video_to_client_def case_prod_beta Let_def send_medias_send [OF assms(4) sock])
  ultimately show ?thesis by blast
qed

theorem video_delivery_witness:
  "\<exists>ps. dv_sent (send_video_to_client good_env [[0x65, 1, 2]] 7 (one_client_world ready_client)) =
            map (media_event 7 True 0 None (cl_video_dest ready_client)) ps
       \<and> frame_delivered 0 42 0 [[0x65, 1, 2]] ps"
proof -
  have "network_up good_env" by (simp add: network_up_def good_env_def)
  from video_delivery [OF one_ready_inv one_client_world_fields(1) _ this, of "[[0x65, 1, 2]]"] show ?thesis
    by (simp add: ready_client_def new_client_def nal_unit_def)
qed

section \<open>Audio\<close>

lemma dev_audio_in_read_samples:
  assumes "ain_wf (dv_ain w)"
  shows "fst (dev_audio_in_read n w) = take n (ain_samples (dv_ain w))"
    "ain_samples (dv_ain (snd (dev_audio_in_read n w))) = drop n (ain_samples (dv_ain w))"
    "ain_wf (dv_ain (snd (dev_audio_in_read n w)))"
  using assms audio_in_read_samples [OF assms, of n] audio_in_read_wf [OF assms, of n]
  by (simp_all add: dev_audio_in_read_def case_prod_beta)

lemma drain_mic_samples:
  "ain_wf (dv_ain w) \<Longrightarrow> n \<le> length (ain_samples (dv_ain w)) \<Longrightarrow>
   ain_samples (dv_ain (drain_mic n w)) = drop n (ain_samples (dv_ain w)) \<and> ain_wf (dv_ain (drain_mic n w))"
proof (induction n w rule: drain_mic.induct)
  case (1 n w)
  let ?k = "if n > AUDIO_SAMPLES then AUDIO_SAMPLES else n"
  obtain xs w1 where r: "dev_audio_in_read ?k w = (xs, w1)" by fastforce
  note rd = dev_audio_in_read_samples [OF 1(2), of ?k, unfolded r fst_conv snd_conv]
  show ?case
  proof (cases "n = 0")
    case False
    then have len: "length xs = ?k" "length xs \<noteq> 0" using rd(1) 1(3) by auto
    have "n - length xs \<le> length (ain_samples (dv_ain w1))" using rd(2) 1(3) len(1) by auto
    from 1(1) [OF False refl r [symmetric] _ rd(3) this] len(2) False r rd(2) len(1) 1(3) show ?thesis
      by (subst (1 2) drain_mic.simps) (auto simp: Let_def)
  qed (use 1 in \<open>subst (1 2) drain_mic.simps, simp\<close>)
qed

lemma drain_mic_part [simp]: "rtsp_state_of (drain_mic n w) = rtsp_state_of w"
proof (induction n w rule: drain_mic.induct)
  case (1 n w)
  show ?case
  proof (cases "n = 0")
    case False
    let ?k = "if n > AUDIO_SAMPLES then AUDIO_SAMPLES else n"
    obtain xs w1 where r: "dev_audio_in_read ?k w = (xs, w1)" by fastforce
    have "rtsp_state_of w1 = rtsp_state_of w" using rtsp_state_of_ops(9) [of ?k w] r by simp
    with 1 [OF False refl r [symmetric]] False r show ?thesis by (subst drain_mic.simps) (auto simp: Let_def)
  qed (subst drain_mic.simps, simp)
qed

lemma drain_excess_part [simp]: "rtsp_state_of (drain_excess w) = rtsp_state_of w"
  by (simp add: drain_excess_def Let_def)

text \<open>The audio timer bounds the latency: with the microphone open, the frame it takes consists of the
  oldest 160 captured samples when at most 320 are waiting, and otherwise of the newest 160; missing samples
  are silence, and after a drain nothing older is left in the ring.\<close>

lemma audio_frame_fresh:
  assumes "rtsp_inv True UNIV w" and "rw_mic_opened w"
  shows "let s = ain_samples (dv_ain w);
             taken = (if length s > 2 * AUDIO_SAMPLES then keep_last AUDIO_SAMPLES s else take AUDIO_SAMPLES s)
         in fst (mic_frame (drain_excess w)) = map g711_pcm2ulaw (taken @ replicate (AUDIO_SAMPLES - length taken) 0)
            \<and> ain_samples (dv_ain (snd (mic_frame (drain_excess w))))
                = (if length s > 2 * AUDIO_SAMPLES then [] else drop AUDIO_SAMPLES s)"
proof -
  let ?s = "ain_samples (dv_ain w)"
  let ?taken = "if length ?s > 2 * AUDIO_SAMPLES then keep_last AUDIO_SAMPLES ?s else take AUDIO_SAMPLES ?s"
  have wf: "ain_wf (dv_ain w)" using assms(1) by (simp add: rtsp_inv_def dev_wf_def)
  have av: "audio_in_available (dv_ain w) = length ?s" by simp
  have d: "ain_samples (dv_ain (drain_excess w)) = (if length ?s > 2 * AUDIO_SAMPLES then keep_last AUDIO_SAMPLES ?s else ?s)
      \<and> ain_wf (dv_ain (drain_excess w))"
    using wf drain_mic_samples [OF wf, of "length ?s - AUDIO_SAMPLES"] assms(2)
    by (auto simp: drain_excess_def Let_def keep_last_def)
  have "rw_mic_opened (drain_excess w)" using assms(2) rtsp_state_of_eqD(10) [OF drain_excess_part] by blast
  moreover have "length (keep_last AUDIO_SAMPLES ?s) \<le> AUDIO_SAMPLES" by (simp add: keep_last_def)
  ultimately show ?thesis
    using d dev_audio_in_read_samples [of "drain_excess w" AUDIO_SAMPLES]
    by (simp add: mic_frame_def case_prod_beta Let_def del: length_ain_samples)
qed

definition mic_world :: rtsp_world where
  "mic_world = (one_client_world ready_client)\<lparr>rw_mic_opened := True,
     dv_ain := enqueue_to_ring (\<lambda>_. 0) [1, 2] (ain_zero\<lparr>ai_opened := True\<rparr>)\<rparr>"

lemma ain_open_zero: "ain_wf (ain_zero\<lparr>ai_opened := True\<rparr>)" "ain_samples (ain_zero\<lparr>ai_opened := True\<rparr>) = []"
  by (simp_all add: ain_wf_def ain_zero_def ain_samples_def audio_in_available_def)

lemma mic_world_inv: "rtsp_inv True UNIV mic_world" "rw_mic_opened mic_world"
  using one_ready_inv enqueue_to_ring_wf [OF ain_open_zero(1)]
  by (simp_all add: mic_world_def rtsp_inv_def dev_wf_def del: enqueue_to_ring.simps)

lemma audio_frame_fresh_witness:
  "fst (mic_frame (drain_excess mic_world)) = map g711_pcm2ulaw ([10, 20] @ replicate 158 0)"
proof -
  have "ain_samples (dv_ain mic_world) = [mic_gain 1, mic_gain 2]"
    using enqueue_to_ring_samples [OF ain_open_zero(1), of "\<lambda>_. 0" "[1, 2]"] by (simp add: mic_world_def ain_open_zero)
  moreover have "mic_gain 1 = 10" "mic_gain 2 = 20" by (simp_all add: mic_gain_def Let_def)
  ultimately show ?thesis using audio_frame_fresh [OF mic_world_inv] by (simp add: Let_def)
qed

section \<open>The receive loop\<close>

lemma drop_four: "drop (4 + n) (a # b # c # d # xs) = drop n xs"
  by (simp add: numeral_eq_Suc)

lemma interleaved_process:
  assumes "length rtp < 65536"
  shows "rtsp_process env c (interleaved_frame ch rtp @ rest) w =
           rtsp_process env c rest (set_rbuf c rest (recv_frame env c ch rtp w))"
proof -
  let ?hi = "word_of_nat (drop_bit 8 (length rtp)) :: u8" and ?lo = "word_of_nat (take_bit 8 (length rtp)) :: u8"
  have n: "frame_length ?hi ?lo = length rtp" by (rule frame_length_bytes [OF assms])
  have d: "interleaved_frame ch rtp @ rest = 0x24 # ch # ?hi # ?lo # rtp @ rest"
    by (simp add: interleaved_frame_bytes)
  show ?thesis unfolding d by (subst rtsp_process.simps) (simp add: n Let_def drop_four)
qed

lemma interleaved_incomplete:
  assumes "length rtp < 65536" and "k < length (interleaved_frame ch rtp)"
  shows "rtsp_process env c (take k (interleaved_frame ch rtp)) w = w"
proof -
  let ?hi = "word_of_nat (drop_bit 8 (length rtp)) :: u8" and ?lo = "word_of_nat (take_bit 8 (length rtp)) :: u8"
  have n: "frame_length ?hi ?lo = length rtp" by (rule frame_length_bytes [OF assms(1)])
  have d: "interleaved_frame ch rtp = [0x24, ch, ?hi, ?lo] @ rtp" by (simp add: interleaved_frame_bytes)
  consider "k = 0" | "0 < k" "k < 4" | "4 \<le> k" by linarith
  then show ?thesis
  proof cases
    case 3
    then have t: "take k (interleaved_frame ch rtp) = 0x24 # ch # ?hi # ?lo # take (k - 4) rtp"
      by (simp add: d take_Cons' numeral_eq_Suc)
    show ?thesis unfolding t using assms(2) 3 by (subst rtsp_process.simps) (simp add: n d Let_def)
  next
    case 2
    then have "take k (interleaved_frame ch rtp) = 0x24 # take (k - 1) [ch, ?hi, ?lo]"
      by (simp add: d take_Cons')
    with 2 show ?thesis by (subst rtsp_process.simps) auto
  qed (subst rtsp_process.simps, simp)
qed

text \<open>Interleaved frames are taken apart as they were put together: when the buffer starts with a frame
  built by the framing of RFC 2326 around a packet of any length below 64 KiB, the loop hands exactly
  that packet and channel on, keeps what follows it as the new buffer and continues there; while the
  frame is incomplete nothing happens.\<close>

lemma interleaved_roundtrip:
  assumes "length rtp < 65536"
  shows "rtsp_process env c (interleaved_frame ch rtp @ rest) w =
           rtsp_process env c rest (set_rbuf c rest (recv_frame env c ch rtp w))
         \<and> (\<forall>k < length (interleaved_frame ch rtp). rtsp_process env c (take k (interleaved_frame ch rtp)) w = w)"
  using interleaved_process [OF assms] interleaved_incomplete [OF assms] by blast

lemma interleaved_roundtrip_witness:
  "rtsp_process good_env 7 (interleaved_frame 2 [1, 2, 3] @ []) mic_world =
     rtsp_process good_env 7 [] (set_rbuf 7 [] (recv_frame good_env 7 2 [1, 2, 3] mic_world))
   \<and> rtsp_process good_env 7 (take 5 (interleaved_frame 2 [1, 2, 3])) mic_world = mic_world"
proof -
  have "length ([1, 2, 3] :: bytes) < 65536" by simp
  moreover have "5 < length (interleaved_frame 2 [1, 2, 3])" by (simp add: interleaved_frame_bytes)
  ultimately show ?thesis using interleaved_roundtrip [of "[1, 2, 3]" good_env 7 2 "[]" mic_world] by blast
qed

section \<open>Session description\<close>

lemma base64_encode_length: "base64_encode xs n = Inr s \<Longrightarrow> length s \<le> n"
  using length_b64_encode_loop [of xs] by (auto simp: base64_encode_def split: if_splits)

lemma describe_sprop_length: "length (describe_sprop cam) < 256"
  using re_snprintf_length [of 256] by (auto simp: describe_sprop_def split: sum.splits)

lemma sdp_numbers:
  "fmt_d (uint PT_H264) = [''107'']" "fmt_d (uint PT_PCMU) = [''0'']" "fmt_d (int AUDIO_PTIME) = [''20'']"
  by (simp_all add: fmt_d_def itoa_dec.simps digit_char_def char_of_def bit_0 bit_simps)

text \<open>The session description always fits its buffer, whatever the address and the parameter sets of the
  camera are: printing it never reports an error, so the body length passed to the reply is the length
  of the text and never the error value.\<close>

lemma sdp_fits:
  assumes "length (rw_local_ip w) < 64"
  shows "snd (sdp_text (rw_local_ip w) (describe_sprop (dv_cam w)))
       = Some (length (fst (sdp_text (rw_local_ip w) (describe_sprop (dv_cam w)))))"
proof -
  have fits: "snd (re_snprintf n cs) = Some (length (fst (re_snprintf n cs)))" if "length (concat cs) < n" for n cs
    using re_snprintf_fits [OF that] by simp
  show ?thesis
    unfolding sdp_text_def sdp_numbers by (rule fits) (use assms describe_sprop_length [of "dv_cam w"] in simp)
qed

lemma sdp_fits_witness:
  "snd (sdp_text (rw_local_ip mic_world) (describe_sprop (dv_cam mic_world)))
     = Some (length (fst (sdp_text (rw_local_ip mic_world) (describe_sprop (dv_cam mic_world)))))"
  by (rule sdp_fits) (simp add: mic_world_def one_client_world_def rtsp_world_zero_def)

section \<open>Backchannel payload\<close>

lemma read_at:
  "n \<le> mbuf_get_left m \<Longrightarrow> mbuf_read_mem m n = Inr (take n (drop (mb_pos m) (mb_buf m)), m\<lparr>mb_pos := mb_pos m + n\<rparr>)"
  by (simp add: mbuf_read_mem_def)

lemma read_u16_at:
  "2 \<le> mbuf_get_left m \<Longrightarrow> mbuf_read_u16 m = (val_u16 (take 2 (drop (mb_pos m) (mb_buf m))), m\<lparr>mb_pos := mb_pos m + 2\<rparr>)"
  by (simp add: mbuf_read_u16_def read_at)

lemma read_u32_at:
  "4 \<le> mbuf_get_left m \<Longrightarrow> mbuf_read_u32 m = (val_u32 (take 4 (drop (mb_pos m) (mb_buf m))), m\<lparr>mb_pos := mb_pos m + 4\<rparr>)"
  by (simp add: mbuf_read_u32_def read_at)

lemma left_at: "mbuf_get_left m = mb_end m - mb_pos m"
  by (simp add: mbuf_get_left_def)

lemma read_csrcs_at:
  "n * 4 \<le> mbuf_get_left m \<Longrightarrow> snd (read_csrcs n m) = m\<lparr>mb_pos := mb_pos m + n * 4\<rparr>"
proof (induction n arbitrary: m)
  case (Suc n)
  then have "snd (read_csrcs n (m\<lparr>mb_pos := mb_pos m + 4\<rparr>)) = m\<lparr>mb_pos := mb_pos m + 4 + n * 4\<rparr>"
    using Suc(1) [of "m\<lparr>mb_pos := mb_pos m + 4\<rparr>"] by (simp add: left_at)
  with Suc(2) show ?case by (simp add: read_u32_at case_prod_beta left_at)
qed simp

lemma unat_htons_bytes: "unat (htons (val_u16 [a, b])) = frame_length a b"
proof -
  have "htons (val_u16 [a, b]) = val_u16 [b, a]" by (simp add: htons_def)
  moreover have "(ucast b :: u16) AND push_bit 8 (ucast a) = 0"
    by (rule bit_word_eqI) (auto simp: bit_simps)
  then have "val_u16 [b, a] = word_of_nat (unat a * 256 + unat b)"
    by (simp add: val_u16_def disjunctive_add_eq_or [symmetric] push_bit_eq_mult)
  moreover have "unat a * 256 + unat b < 65536"
    using unsigned_less [of a, where 'a = nat] unsigned_less [of b, where 'a = nat] by simp
  moreover have "unat (word_of_nat k :: u16) = k" if "k < 65536" for k using that by (simp add: unat_of_nat)
  ultimately show ?thesis by (simp only: frame_length_def)
qed

lemma take_two: "n + 2 \<le> length p \<Longrightarrow> take 2 (drop n p) = [p ! n, p ! (n + 1)]"
  by (auto simp: numeral_2_eq_2 take_Suc_conv_app_nth)

lemma decode_position:
  assumes "rtp_hdr_decode (packet_mbuf p) = Inr (h, m)"
  shows "backchannel_payload p = mbuf_data m"
proof -
  let ?mb = "packet_mbuf p" and ?cc = "unat (p ! 0 AND 0x0F)"
  let ?at = "\<lambda>n. ?mb\<lparr>mb_pos := n\<rparr>"
  have len: "12 \<le> length p" using assms by (auto simp: rtp_hdr_decode_def packet_mbuf_def left_at split: if_splits)
  have r0: "mbuf_read_mem ?mb 2 = Inr ([p ! 0, p ! 1], ?at 2)"
    using len take_two [of 0 p] by (simp add: read_at packet_mbuf_def left_at)
  have r1: "snd (mbuf_read_u16 (?at 2)) = ?at 4" using len by (simp add: read_u16_at packet_mbuf_def left_at)
  have r2: "snd (mbuf_read_u32 (?at 4)) = ?at 8" using len by (simp add: read_u32_at packet_mbuf_def left_at)
  have r3: "snd (mbuf_read_u32 (?at 8)) = ?at 12" using len by (simp add: read_u32_at packet_mbuf_def left_at)
  have r4: "snd (read_csrcs ?cc (?at 12)) = ?at (12 + ?cc * 4)" if "?cc * 4 \<le> length p - 12"
    using that read_csrcs_at [of ?cc "?at 12"] by (simp add: packet_mbuf_def left_at)
  have data: "mbuf_data (?at n) = drop n p" for n by (simp add: mbuf_data_def packet_mbuf_def left_at)
  have left: "mbuf_get_left (?at n) = length p - n" "mbuf_get_left ?mb = length p" for n
    by (simp_all add: packet_mbuf_def left_at)
  have cc: "?cc * 4 \<le> length p - 12"
    using assms len by (auto simp: rtp_hdr_decode_def r0 r1 r2 r3 left case_prod_beta Let_def split: if_splits)
  have short: "(if length p > n then drop n p else []) = drop n p" for n by simp
  show ?thesis
  proof (cases "drop_bit 4 (p ! 0) AND 1 = 1")
    case False
    with assms len cc have "m = ?at (12 + ?cc * 4)"
      by (simp add: rtp_hdr_decode_def r0 r1 r2 r3 r4 left case_prod_beta Let_def)
    with False show ?thesis by (simp add: data backchannel_payload_def Let_def)
  next
    case True
    let ?n = "12 + ?cc * 4"
    have room: "4 \<le> length p - ?n"
      using assms len cc True by (auto simp: rtp_hdr_decode_def r0 r1 r2 r3 r4 left case_prod_beta Let_def split: if_splits)
    have e1: "snd (mbuf_read_u16 (?at ?n)) = ?at (14 + ?cc * 4)"
      using room by (simp add: read_u16_at left)
    have e2: "mbuf_read_u16 (?at (14 + ?cc * 4)) = (val_u16 [p ! (14 + ?cc * 4), p ! (15 + ?cc * 4)], ?at (16 + ?cc * 4))"
      using room take_two [of "14 + ?cc * 4" p] by (simp add: read_u16_at left) (simp add: packet_mbuf_def)
    have "m = ?at (16 + ?cc * 4 + frame_length (p ! (14 + ?cc * 4)) (p ! (15 + ?cc * 4)) * 4)"
      using assms len cc True room
      by (simp add: rtp_hdr_decode_def r0 r1 r2 r3 r4 e1 e2 left case_prod_beta Let_def unat_htons_bytes split: if_splits)
    with True room show ?thesis by (simp add: data backchannel_payload_def Let_def)
  qed
qed

text \<open>The hand-written header parser of the backchannel agrees with the library's RTP decoder: for every packet
  that \<open>rtp_hdr_decode\<close> accepts, contributing sources and header extension included, the bytes the server
  plays are exactly those the decoder leaves as the payload.\<close>

lemma backchannel_payload_agrees:
  assumes "rtp_hdr_decode (packet_mbuf p) = Inr (h, m)"
  shows "backchannel_payload p = mbuf_data m"
  by (rule decode_position [OF assms])

lemma backchannel_payload_agrees_witness:
  "backchannel_payload [0x90, 0, 0, 1, 0, 0, 0, 2, 0, 0, 0, 3, 0xBE, 0xDE, 0, 1, 9, 9, 9, 9, 0x55] = [0x55]"
proof -
  let ?p = "[0x90, 0, 0, 1, 0, 0, 0, 2, 0, 0, 0, 3, 0xBE, 0xDE, 0, 1, 9, 9, 9, 9, 0x55] :: bytes"
  have "case rtp_hdr_decode (packet_mbuf ?p) of Inl e \<Rightarrow> False | Inr (h, m) \<Rightarrow> mbuf_data m = [0x55]" by code_simp
  then show ?thesis using backchannel_payload_agrees [of ?p] by (auto split: sum.splits prod.splits)
qed

section \<open>Invariant of the reachable states\<close>

text \<open>C4: In every state the server can reach from its start, whatever the clients send and the environment
  answers: client numbers are distinct, receive buffers hold at most 16384 bytes, a client with a media track set
  up has a channel or a bound socket to send it on, a backchannel and an open speaker imply interleaved
  transport, a client that is ready or playing has a session number and a track, the session timeout of
  every client is armed, the flags for microphone and camera tell the truth about the devices, and the
  devices and the authentication state are well formed.\<close>

theorem rtsp_invariant:
  assumes "rtsp_reachable env w"
  shows "rtsp_inv True UNIV w"
  by (rule rtsp_reachable_inv [OF assms])

theorem rtsp_invariant_witness:
  "rtsp_inv True UNIV (rtsp_conn_handler good_env 7
      (snd (rtsp_server_init good_env (rtsp_world_zero (rtsp_auth_init (\<lambda>_. 0) None None auth_zero)))))"
proof -
  let ?w = "snd (rtsp_server_init good_env (rtsp_world_zero (rtsp_auth_init (\<lambda>_. 0) None None auth_zero)))"
  have "rtsp_step good_env ?w (rtsp_conn_handler good_env 7 ?w)"
    by (rule step_conn) (simp_all add: rtsp_server_init_def good_env_def Let_def)
  from reach_step [OF reach_init this] show ?thesis by (rule rtsp_invariant)
qed

section \<open>Observations\<close>

text \<open>
  Closing a client whose receive buffer overflowed skips \<open>maybe_stop_media\<close>: the media timers go on even
  when that client was the last one playing.
\<close>

lemma overflow_keeps_timers:
  assumes "cli_get c w = Some cli" and "cl_rbuf cli = Some b" and "16384 < length b + length bs" and "network_up env"
  shows "cli_get c (rtsp_recv_handler env c bs w) = None
    \<and> rw_tmr_video (rtsp_recv_handler env c bs w) = rw_tmr_video w
    \<and> rw_tmr_audio (rtsp_recv_handler env c bs w) = rw_tmr_audio w"
proof -
  have "rtsp_recv_handler env c bs w = client_destructor c (set_rbuf c (b @ bs) (tick (tick w)))"
    using assms by (simp add: rtsp_recv_handler_def Let_def network_up_def)
  then show ?thesis
    using client_destructor_clients [of c "set_rbuf c (b @ bs) (tick (tick w))"]
    by (auto simp: set_rbuf_def cli_get_def map_of_eq_None_iff)
qed

text \<open>
  The immediate frame of PLAY does not look at \<open>video_setup\<close>: a client that set up only audio over the RTSP
  connection gets the video packets on its (never chosen) video channel.
\<close>

lemma play_sends_unrequested_video:
  assumes "network_up env" and "cli_get c w = Some cli" and "cl_interleaved cli" and "\<not> cl_video_setup cli"
    and "dev_get_frame env w = (Inr f, w1)"
  shows "\<exists>ps. dv_sent (play_first_video env c w) = dv_sent w1 @ map (\<lambda>p. TcpSend c (interleaved_frame (cl_video_interleaved cli) p)) ps
      \<and> ps = fst (send_frame send_h264_nalu_to_client (en_alloc_nalu env (dv_tick w1)) cli (cf_nalus f))"
proof -
  have "rtsp_state_of w1 = rtsp_state_of w" using rtsp_state_of_ops(6) [of env w] assms(5) by simp
  then have c1: "cli_get c w1 = Some cli" using rtsp_state_of_eqD(11) assms(2) by metis
  have ev: "map (media_event c True ch us dst) ps = map (\<lambda>p. TcpSend c (interleaved_frame ch p)) ps" for ch us dst ps
    by (simp add: media_event_def)
  show ?thesis
    using c1 assms(3,5)
    by (simp add: play_first_video_def send_video_to_client_def case_prod_beta Let_def ev send_medias_send [OF assms(1)])
qed

text \<open>With a long URI the RTP-Info header does not fit and is cut before its line end.\<close>

lemma rtp_info_length:
  "length a + 2 * length b + length c \<le> length (concat (if B then ([a, b, c] @ f1 @ [d] @ f2 @ [e, b, g] @ f3 @ [h] @ f4) @ x
     else ([a, b, c] @ f1 @ [d] @ f2 @ [e, b, g] @ f3 @ [h] @ f4) @ y))"
  by (cases B) simp_all

lemma rtp_info_truncated:
  assumes "240 \<le> length uri" and "length uri < 256" and "last uri \<noteq> CHR ''/''"
  shows "snd (play_rtp_info cli uri) = None"
proof -
  have u: "fst (re_snprintf 256 [uri]) = uri" using assms(2) by (subst re_snprintf_fits) auto
  have "dropWhile (\<lambda>ch. ch = CHR ''/'') (rev uri) = rev uri"
    using assms(1,3) by (cases uri rule: rev_cases) auto
  then have b: "strip_slashes uri = uri" by (simp add: strip_slashes_def)
  show ?thesis
    unfolding play_rtp_info_def Let_def u b
    by (rule re_snprintf_overflow, rule order_trans [OF _ rtp_info_length]) (use assms(1) in simp)
qed

text \<open>The speaker is shared: freeing one client closes it for another one that still believes it is open.\<close>

lemma speaker_closed_for_others:
  assumes "cli_get c w = Some cli" and "cl_audio_out_opened cli" and "d \<noteq> c" and "cli_get d w = Some x"
  shows "\<not> ao_opened (dv_aout (client_destructor c w)) \<and> cli_get d (client_destructor c w) = Some x"
proof -
  have "map_of (filter (\<lambda>(i, y). i \<noteq> c) l) d = map_of l d" for l :: "(nat \<times> rtsp_client) list"
    using assms(3) by (induction l) auto
  then have "cli_get d (client_destructor c w) = Some x"
    using assms(4) by (simp add: cli_get_def client_destructor_clients)
  with assms(1,2) show ?thesis by (simp add: client_destructor_def Let_def dev_audio_out_close_def)
qed

end
