(* ===== verification/Session.thy ===== *)
theory Session
  imports World
begin

text \<open>
  A call (\<open>session.c\<close>): one UDP socket to a peer, video from the camera and a test tone on timers,
  received audio played on the loudspeaker.

  \<open>intercom_session\<close> is \<open>struct intercom_session\<close>; a timer is \<open>Some ms\<close> while it runs and the socket is the
  port it is bound to. The static variable \<open>phase\<close> of the audio timer outlives a session and is passed
  explicitly. The samples of the 400 Hz tone are double arithmetic of the C library: \<open>tone n\<close> is the
  sample for the position \<open>n\<close>.
\<close>

section \<open>State\<close>

record intercom_session =
  ss_us :: "u16 option"
  ss_peer_addr :: sockaddr
  ss_local_port :: u16
  ss_tmr_audio :: "nat option"
  ss_tmr_video :: "nat option"
  ss_video_ssrc :: u32
  ss_video_ts :: u32
  ss_video_seq :: u16
  ss_video_frame_count :: u32
  ss_ssrc :: u32
  ss_audio_ts :: u32
  ss_audio_seq :: u16
  ss_active :: bool

definition session_zero :: intercom_session where
  "session_zero =
     \<lparr>ss_us = None, ss_peer_addr = sa_zero, ss_local_port = 0, ss_tmr_audio = None,
      ss_tmr_video = None, ss_video_ssrc = 0, ss_video_ts = 0, ss_video_seq = 0, ss_video_frame_count = 0,
      ss_ssrc = 0, ss_audio_ts = 0, ss_audio_seq = 0, ss_active = False\<rparr>"

section \<open>Life cycle\<close>

text \<open>\<open>mem_deref(sess)\<close>: the timers and the socket disappear with the session, the devices are closed.\<close>

definition session_destructor :: "'a devices_scheme \<Rightarrow> 'a devices_scheme" where
  "session_destructor w = dev_audio_out_close (dev_camera_close w)"

definition session_alloc :: "env \<Rightarrow> sockaddr \<Rightarrow> 'a devices_scheme \<Rightarrow> (errno + intercom_session) \<times> 'a devices_scheme" where
  "session_alloc env peer w =
     (if \<not> en_alloc env (dv_tick w) then (Inl ENOMEM, tick w)
      else (let w0 = tick w;
                ssrc = en_rand_u32 env (dv_tick w0);
                w1 = tick w0;
                video_ssrc = en_rand_u32 env (dv_tick w1);
                w2 = tick w1;
                sess = session_zero\<lparr>ss_ssrc := ssrc, ss_video_ssrc := video_ssrc, ss_peer_addr := peer\<rparr>
            in case dev_camera_open env w2 of
                 (Some e, w3) \<Rightarrow> (Inl e, session_destructor w3)
               | (None, w3) \<Rightarrow>
                   (let w4 = snd (dev_audio_out_open env w3)
                    in case en_udp_listen env (dv_tick w4) of
                         Inl e \<Rightarrow> (Inl e, session_destructor (tick w4))
                       | Inr port \<Rightarrow>
                           (Inr (sess\<lparr>ss_us := Some port, ss_local_port := port, ss_active := True,
                                      ss_tmr_audio := Some AUDIO_PTIME, ss_tmr_video := Some VIDEO_PTIME\<rparr>),
                            tick w4))))"

definition session_close :: "intercom_session \<Rightarrow> intercom_session" where
  "session_close sess = sess\<lparr>ss_tmr_audio := None, ss_tmr_video := None, ss_active := False\<rparr>"

section \<open>Receiving\<close>

definition udp_recv_handler :: "env \<Rightarrow> intercom_session \<Rightarrow> bytes \<Rightarrow> 'a devices_scheme \<Rightarrow> 'a devices_scheme" where
  "udp_recv_handler env sess p w =
     (if \<not> ss_active sess then w
      else if mbuf_get_left (packet_mbuf p) < 12 then w
      else case rtp_hdr_decode (packet_mbuf p) of
             Inl e \<Rightarrow> w
           | Inr (hdr, mb) \<Rightarrow>
               if rh_ver hdr \<noteq> 2 then w
               else if rh_pt hdr = PT_PCMU
               then (if mbuf_get_left mb > 0 then dev_audio_out_play env (mbuf_data mb) w else w)
               else w)"

section \<open>Media timers\<close>

text \<open>The payload of one tone packet.\<close>

definition tone_frame :: "(u32 \<Rightarrow> i16) \<Rightarrow> u32 \<Rightarrow> bytes" where
  "tone_frame tone phase = map g711_pcm2ulaw (map (\<lambda>i. tone (phase + word_of_nat i)) [0..<AUDIO_SAMPLES])"

definition send_tone ::
  "env \<Rightarrow> (u32 \<Rightarrow> i16) \<Rightarrow> u32 \<Rightarrow> intercom_session \<Rightarrow> 'a devices_scheme \<Rightarrow> intercom_session \<times> 'a devices_scheme" where
  "send_tone env tone phase sess w =
     (if \<not> en_alloc env (dv_tick w) then (sess, tick w)
      else (let p = rtp_packet (media_header False PT_PCMU (ss_audio_seq sess) (ss_audio_ts sess) (ss_ssrc sess))
                      [tone_frame tone phase]
            in (sess\<lparr>ss_audio_seq := ss_audio_seq sess + 1,
                     ss_audio_ts := ss_audio_ts sess + word_of_nat AUDIO_SAMPLES\<rparr>,
                dev_udp_send env (ss_us sess) (ss_peer_addr sess) p (tick w))))"

definition session_audio_timer ::
  "env \<Rightarrow> (u32 \<Rightarrow> i16) \<Rightarrow> u32 \<Rightarrow> intercom_session \<Rightarrow> 'a devices_scheme \<Rightarrow> u32 \<times> intercom_session \<times> 'a devices_scheme"
  where
  "session_audio_timer env tone phase sess w =
     (if \<not> ss_active sess then (phase, sess, w)
      else if \<not> sa_isset (ss_peer_addr sess) True True then (phase, sess\<lparr>ss_tmr_audio := Some AUDIO_PTIME\<rparr>, w)
      else (let (sess', w') = send_tone env tone phase sess w
            in (phase + word_of_nat AUDIO_SAMPLES, sess'\<lparr>ss_tmr_audio := Some AUDIO_PTIME\<rparr>, w')))"

text \<open>\<open>send_h264_nalu_rtp\<close>: the packets of a unit and the session's next sequence number.\<close>

definition send_h264_nalu_rtp ::
  "(nat \<Rightarrow> bool) \<Rightarrow> intercom_session \<Rightarrow> bytes \<Rightarrow> bool \<Rightarrow> bytes list \<times> intercom_session" where
  "send_h264_nalu_rtp alloc sess nalu is_last =
     (let (ps, sq) = h264_nalu_packets alloc (ss_video_ts sess) (ss_video_ssrc sess) (ss_video_seq sess) nalu is_last
      in (ps, sess\<lparr>ss_video_seq := sq\<rparr>))"

definition session_video_timer ::
  "env \<Rightarrow> intercom_session \<Rightarrow> 'a devices_scheme \<Rightarrow> intercom_session \<times> 'a devices_scheme" where
  "session_video_timer env sess w =
     (if \<not> ss_active sess then (sess, w)
      else if \<not> sa_isset (ss_peer_addr sess) True True then (sess\<lparr>ss_tmr_video := Some VIDEO_PTIME\<rparr>, w)
      else case dev_get_frame env w of
             (Inl e, w1) \<Rightarrow> (sess\<lparr>ss_tmr_video := Some VIDEO_PTIME\<rparr>, w1)
           | (Inr f, w1) \<Rightarrow>
               (let (ps, sess') = send_frame send_h264_nalu_rtp (en_alloc_nalu env (dv_tick w1)) sess (cf_nalus f);
                    w2 = foldl (\<lambda>v p. dev_udp_send env (ss_us sess) (ss_peer_addr sess) p v) (tick w1) ps
                in (sess'\<lparr>ss_video_ts := ss_video_ts sess' + word_of_nat (VIDEO_CLOCK div VIDEO_FPS),
                          ss_video_frame_count := ss_video_frame_count sess' + 1,
                          ss_tmr_video := Some VIDEO_PTIME\<rparr>, w2)))"

section \<open>The session as a sender\<close>

interpretation session_sender: nalu_sender send_h264_nalu_rtp ss_video_seq ss_video_ts ss_video_ssrc
  by unfold_locales (auto simp: send_h264_nalu_rtp_def case_prod_beta)

lemma send_frame_session: "\<exists>sq. snd (send_frame send_h264_nalu_rtp alloc sess nalus) = sess\<lparr>ss_video_seq := sq\<rparr>"
proof (induction send_h264_nalu_rtp alloc sess nalus rule: send_frame.induct)
  case (1 alloc sess)
  show ?case by (rule exI [of _ "ss_video_seq sess"]) simp
next
  case (2 alloc sess n ns)
  then show ?case by (fastforce simp: send_h264_nalu_rtp_def case_prod_beta)
qed

lemma get_frame_sent: "dev_get_frame env w = (r, w1) \<Longrightarrow> dv_sent w1 = dv_sent w"
  by (auto simp: dev_get_frame_def Let_def case_prod_beta)

text \<open>The video timer of a running session: the session moves on in its counters only.\<close>

lemma video_timer_session:
  assumes "ss_active sess"
  shows "\<exists>sq k. fst (session_video_timer env sess w)
     = sess\<lparr>ss_video_seq := sq, ss_video_ts := ss_video_ts sess + 6000 * k, ss_video_frame_count := ss_video_frame_count sess + k,
            ss_tmr_video := Some VIDEO_PTIME\<rparr>"
proof -
  obtain r w1 where g: "dev_get_frame env w = (r, w1)" by fastforce
  have idle: ?thesis if "fst (session_video_timer env sess w) = sess\<lparr>ss_tmr_video := Some VIDEO_PTIME\<rparr>"
    using that by (intro exI [of _ "ss_video_seq sess"] exI [of _ 0]) simp
  show ?thesis
  proof (cases "sa_isset (ss_peer_addr sess) True True \<and> (\<exists>f. r = Inr f)")
    case True
    then obtain f where f: "r = Inr f" "sa_isset (ss_peer_addr sess) True True" by blast
    obtain sq where "snd (send_frame send_h264_nalu_rtp (en_alloc_nalu env (dv_tick w1)) sess (cf_nalus f)) = sess\<lparr>ss_video_seq := sq\<rparr>"
      using send_frame_session by blast
    with assms f g show ?thesis
      by (intro exI [of _ sq] exI [of _ 1]) (simp add: session_video_timer_def case_prod_beta Let_def)
  next
    case False
    then have "fst (session_video_timer env sess w) = sess\<lparr>ss_tmr_video := Some VIDEO_PTIME\<rparr>"
      using assms g by (cases r) (auto simp: session_video_timer_def)
    then show ?thesis by (rule idle)
  qed
qed

lemma audio_timer_session:
  assumes "ss_active sess"
  shows "\<exists>k. fst (snd (session_audio_timer env tone phase sess w))
     = sess\<lparr>ss_audio_seq := ss_audio_seq sess + word_of_nat k, ss_audio_ts := ss_audio_ts sess + word_of_nat (160 * k),
            ss_tmr_audio := Some AUDIO_PTIME\<rparr>"
proof (cases "sa_isset (ss_peer_addr sess) True True \<and> en_alloc env (dv_tick w)")
  case True
  with assms show ?thesis
    by (intro exI [of _ 1]) (simp add: session_audio_timer_def send_tone_def Let_def case_prod_beta)
next
  case False
  with assms show ?thesis
    by (intro exI [of _ 0]) (auto simp: session_audio_timer_def send_tone_def Let_def case_prod_beta)
qed

section \<open>Properties\<close>

text \<open>Video of a call: when the timer of a running session with a peer fires, the camera delivers a frame and
  the network works, the units of the frame leave for the peer as RTP packets that reassemble to
  exactly those units (with the session's source and time stamp, consecutive sequence numbers, the
  marker on the last packet, no packet above the MTU); the time stamp advances by one frame of the 90 kHz
  clock, the sequence number by the number of packets, and the timer runs again.\<close>

lemma session_video_delivery:
  assumes "ss_active sess" and "sa_isset (ss_peer_addr sess) True True" and "ss_us sess = Some port"
    and "network_up env" and "dev_get_frame env w = (Inr f, w1)" and "\<forall>n \<in> set (cf_nalus f). nal_unit n"
  shows "\<exists>ps. dv_sent (snd (session_video_timer env sess w)) = dv_sent w @ map (UdpSend port (ss_peer_addr sess)) ps
      \<and> frame_delivered (ss_video_ts sess) (ss_video_ssrc sess) (ss_video_seq sess) (cf_nalus f) ps
      \<and> fst (session_video_timer env sess w) =
          sess\<lparr>ss_video_seq := ss_video_seq sess + word_of_nat (length ps), ss_video_ts := ss_video_ts sess + 6000,
               ss_video_frame_count := ss_video_frame_count sess + 1, ss_tmr_video := Some VIDEO_PTIME\<rparr>"
proof -
  let ?alloc = "en_alloc_nalu env (dv_tick w1)"
  let ?s = "send_frame send_h264_nalu_rtp ?alloc sess (cf_nalus f)"
  have al: "\<And>i k. ?alloc i k" using assms(4) by (simp add: network_up_def)
  have ne: "\<forall>n \<in> set (cf_nalus f). n \<noteq> []" using assms(6) by (auto simp: nal_unit_def)
  have d: "frame_delivered (ss_video_ts sess) (ss_video_ssrc sess) (ss_video_seq sess) (cf_nalus f) (fst ?s)"
    by (rule session_sender.frame_delivery [OF al assms(6)])
  have "ss_video_seq (snd ?s) = ss_video_seq sess + word_of_nat (length (fst ?s))"
    using session_sender.frame_numbers [of ?alloc "cf_nalus f" sess] al ne by simp
  moreover obtain sq where sq: "snd ?s = sess\<lparr>ss_video_seq := sq\<rparr>" using send_frame_session by blast
  ultimately have s: "snd ?s = sess\<lparr>ss_video_seq := ss_video_seq sess + word_of_nat (length (fst ?s))\<rparr>" by simp
  have "dv_sent (snd (session_video_timer env sess w)) = dv_sent w @ map (UdpSend port (ss_peer_addr sess)) (fst ?s)"
    using assms(1-3,5)
    by (simp add: session_video_timer_def case_prod_beta Let_def dev_udp_sends [OF assms(4)] get_frame_sent [OF assms(5)])
  moreover have "fst (session_video_timer env sess w) =
      sess\<lparr>ss_video_seq := ss_video_seq sess + word_of_nat (length (fst ?s)), ss_video_ts := ss_video_ts sess + 6000,
           ss_video_frame_count := ss_video_frame_count sess + 1, ss_tmr_video := Some VIDEO_PTIME\<rparr>"
    using assms(1,2,5) by (simp add: session_video_timer_def case_prod_beta Let_def s)
  ultimately show ?thesis using d by blast
qed

definition example_session :: intercom_session where
  "example_session = session_zero\<lparr>ss_us := Some 5004, ss_local_port := 5004, ss_active := True,
     ss_peer_addr := (sa_set_in 0x7F000001 5006), ss_video_seq := 0xFFFF\<rparr>"

definition example_devices :: devices where
  "example_devices = snd (dev_audio_out_open good_env (devices_zero\<lparr>dv_cam := example_camera\<rparr>))"

lemma example_session_facts:
  "ss_active example_session" "sa_isset (ss_peer_addr example_session) True True" "ss_us example_session = Some 5004"
  by (simp_all add: example_session_def sa_isset_def sa_set_in_def)

definition example_frame :: camera_frame where
  "example_frame = \<lparr>cf_nalus = [[0x67, 9], [0x68, 7], [0x65, 1, 2]], cf_keyframe = True\<rparr>"

lemma example_devices_frame: "\<exists>w1. dev_get_frame good_env example_devices = (Inr example_frame, w1)"
proof -
  have "fst (camera_get_frame example_encode example_camera) = Inr example_frame" by code_simp
  then show ?thesis
    by (simp add: dev_get_frame_def example_devices_def dev_audio_out_open_def good_env_def Let_def case_prod_beta)
qed

lemma session_video_delivery_witness:
  "\<exists>ps. dv_sent (snd (session_video_timer good_env example_session example_devices))
          = map (UdpSend 5004 (sa_set_in 0x7F000001 5006)) ps
      \<and> frame_delivered 0 0 0xFFFF [[0x67, 9], [0x68, 7], [0x65, 1, 2]] ps"
proof -
  obtain w1 where g: "dev_get_frame good_env example_devices = (Inr example_frame, w1)"
    using example_devices_frame by blast
  have "\<forall>n \<in> set (cf_nalus example_frame). nal_unit n" by code_simp
  from session_video_delivery [OF example_session_facts good_env_up g this] show ?thesis
    by (auto simp: example_session_def session_zero_def example_frame_def example_devices_def dev_audio_out_open_def
        devices_zero_def Let_def case_prod_beta)
qed

text \<open>The receiving side: a packet of \<open>\<mu>\<close>-law audio goes to the loudspeaker.\<close>

lemma recv_pcmu:
  assumes "ss_active sess" and "us \<noteq> []"
  shows "udp_recv_handler env sess (rtp_packet (media_header False PT_PCMU sq ts ssrc) [us]) w = dev_audio_out_play env us w"
proof -
  let ?h = "received_header False PT_PCMU sq ts ssrc" and ?p = "rtp_packet (media_header False PT_PCMU sq ts ssrc) [us]"
  have enc: "rtp_hdr_encodable ?h" by (simp add: rtp_hdr_encodable_def media_header_def rtp_header_zero_def)
  have d: "mbuf_data (packet_mbuf ?p) = rtp_hdr_bytes ?h @ us" by (simp add: rtp_packet_bytes media_header_bytes)
  obtain m where m: "rtp_hdr_decode (packet_mbuf ?p) = Inr (?h, m)" "mbuf_wf m" "mbuf_data m = us"
    by (rule rtp_hdr_decode_data [OF packet_mbuf_data(2) d enc])
  have "mbuf_get_left (packet_mbuf ?p) = length (rtp_hdr_bytes ?h) + length us"
    using mbuf_get_left_data [of "packet_mbuf ?p"] d by simp
  then have "\<not> mbuf_get_left (packet_mbuf ?p) < 12" by simp
  moreover have "0 < mbuf_get_left m" using mbuf_get_left_data [OF m(2)] m(3) assms(2) by simp
  moreover have "rh_ver ?h = 2" "rh_pt ?h = 0" by (simp_all add: media_header_def)
  ultimately show ?thesis using assms(1) m(1,3) by (simp add: udp_recv_handler_def)
qed

lemma play_speaker:
  assumes "aout_wf (dv_aout w)" and "ao_opened (dv_aout w)" and "wo_done (ao_hdrs (dv_aout w) ! ao_next (dv_aout w))"
    and "us \<noteq> []" and "length us \<le> OUT_MAX_SAMPLES"
  shows "dv_sent (dev_audio_out_play env us w) = dv_sent w @ [Speaker (map ulaw_to_pcm us)]"
proof -
  let ?g = "dv_aout w"
  have b: "length (ao_bufs ?g ! ao_next ?g) = OUT_MAX_SAMPLES" using assms(1) by (auto simp: aout_wf_def)
  have "decode_into 0 us (ao_bufs ?g ! ao_next ?g) = map ulaw_to_pcm us @ drop (length us) (ao_bufs ?g ! ao_next ?g)"
    by (subst decode_into_eq) (use assms(5) b in simp_all)
  with assms(2-5) have "fst (audio_out_play ok us ?g) = Some (map ulaw_to_pcm us)" for ok
    by (simp add: audio_out_play_def Let_def)
  then show ?thesis by (simp add: dev_audio_out_play_def Let_def case_prod_beta)
qed

text \<open>C36: Audio end to end: the packet a running session sends when its audio timer fires, received by any
  running session with an open loudspeaker and a free buffer, plays exactly the 160 samples of the tone at the
  sender's phase, as they come out of \<open>\<mu>\<close>-law coding; the sender's phase moves on by the 160 samples.\<close>

theorem tone_end_to_end:
  assumes "ss_active sess" and "sa_isset (ss_peer_addr sess) True True" and "ss_us sess = Some port" and "network_up env"
    and "ss_active rx" and "aout_wf (dv_aout v)" and "ao_opened (dv_aout v)"
    and "wo_done (ao_hdrs (dv_aout v) ! ao_next (dv_aout v))"
  shows "\<exists>p. dv_sent (snd (snd (session_audio_timer env tone phase sess w))) = dv_sent w @ [UdpSend port (ss_peer_addr sess) p]
      \<and> dv_sent (udp_recv_handler env' rx p v) = dv_sent v
          @ [Speaker (map (\<lambda>i. ulaw_to_pcm (g711_pcm2ulaw (tone (phase + word_of_nat i)))) [0..<AUDIO_SAMPLES])]
      \<and> fst (session_audio_timer env tone phase sess w) = phase + 160"
proof -
  let ?us = "tone_frame tone phase"
  let ?p = "rtp_packet (media_header False PT_PCMU (ss_audio_seq sess) (ss_audio_ts sess) (ss_ssrc sess)) [?us]"
  have us: "?us \<noteq> []" "length ?us \<le> OUT_MAX_SAMPLES" by (simp_all add: tone_frame_def)
  have "dv_sent (snd (snd (session_audio_timer env tone phase sess w))) = dv_sent w @ [UdpSend port (ss_peer_addr sess) ?p]"
    using assms(1-4)
    by (simp add: session_audio_timer_def send_tone_def Let_def case_prod_beta network_up_def dev_udp_send_def)
  moreover have "dv_sent (udp_recv_handler env' rx ?p v) = dv_sent v @ [Speaker (map ulaw_to_pcm ?us)]"
    using play_speaker [OF assms(6-8) us] by (simp add: recv_pcmu [OF assms(5) us(1)])
  moreover have "map ulaw_to_pcm ?us = map (\<lambda>i. ulaw_to_pcm (g711_pcm2ulaw (tone (phase + word_of_nat i)))) [0..<AUDIO_SAMPLES]"
    by (simp only: tone_frame_def map_map comp_def)
  moreover have "fst (session_audio_timer env tone phase sess w) = phase + 160"
    using assms(1,2) by (simp add: session_audio_timer_def case_prod_beta)
  ultimately show ?thesis by (intro exI [of _ ?p]) simp
qed

lemma example_speaker:
  "aout_wf (dv_aout example_devices)" "ao_opened (dv_aout example_devices)"
  "wo_done (ao_hdrs (dv_aout example_devices) ! ao_next (dv_aout example_devices))"
  by (simp_all add: example_devices_def dev_audio_out_open_def good_env_def devices_zero_def Let_def case_prod_beta
      audio_out_open_wf aout_zero_wf) (simp_all add: audio_out_open_def aout_zero_def)

theorem tone_end_to_end_witness:
  "\<exists>p. dv_sent (snd (snd (session_audio_timer good_env (\<lambda>n. 0) 0 example_session example_devices)))
         = [UdpSend 5004 (sa_set_in 0x7F000001 5006) p]
     \<and> dv_sent (udp_recv_handler good_env example_session p example_devices)
         = [Speaker (replicate 160 (ulaw_to_pcm (g711_pcm2ulaw 0)))]"
  using tone_end_to_end [OF example_session_facts good_env_up example_session_facts(1) example_speaker,
      of "\<lambda>n. 0" 0 example_devices good_env]
  by (auto simp: example_session_def example_devices_def dev_audio_out_open_def devices_zero_def Let_def case_prod_beta
      map_replicate_const)

section \<open>Life cycle\<close>

lemma session_destructor_closes [simp]:
  "\<not> cam_opened (dv_cam (session_destructor w))" "\<not> ao_opened (dv_aout (session_destructor w))"
  by (simp_all add: session_destructor_def dev_audio_out_close_def dev_camera_close_def camera_close_def cam_zero_def)

lemma dev_camera_open_cases:
  "cam_opened (dv_cam w) \<Longrightarrow> dev_camera_open env w = (Some EALREADY, tick w)"
  "fst (dev_camera_open env w) = None \<Longrightarrow> \<not> cam_opened (dv_cam w) \<and> cam_opened (dv_cam (snd (dev_camera_open env w)))"
  by (auto simp: dev_camera_open_def camera_open_def tick_def Let_def case_prod_beta split: if_splits)

text \<open>Creating a session is all or nothing. When it succeeds the session is active for exactly the given
  peer on a bound socket with both media timers running, and the camera, which was closed, is open;
  when it fails after the allocation the camera and the loudspeaker are closed, and when the
  allocation itself fails nothing has changed.\<close>

lemma session_alloc_result:
  "case session_alloc env peer w of
     (Inr s, w') \<Rightarrow> ss_active s \<and> ss_peer_addr s = peer \<and> ss_us s = Some (ss_local_port s)
        \<and> ss_tmr_audio s = Some AUDIO_PTIME \<and> ss_tmr_video s = Some VIDEO_PTIME
        \<and> ss_video_ts s = 0 \<and> ss_audio_ts s = 0 \<and> ss_video_seq s = 0 \<and> ss_audio_seq s = 0
        \<and> \<not> cam_opened (dv_cam w) \<and> cam_opened (dv_cam w')
   | (Inl e, w') \<Rightarrow> (if en_alloc env (dv_tick w) then \<not> cam_opened (dv_cam w') \<and> \<not> ao_opened (dv_aout w')
                     else e = ENOMEM \<and> w' = tick w)"
proof -
  obtain e w3 where o: "dev_camera_open env (tick (tick (tick w))) = (e, w3)" by fastforce
  have "e = None \<Longrightarrow> \<not> cam_opened (dv_cam w) \<and> cam_opened (dv_cam w3)"
    using dev_camera_open_cases(2) [of env "tick (tick (tick w))"] o by simp
  moreover have "dv_cam (snd (dev_audio_out_open env w3)) = dv_cam w3"
    by (simp add: dev_audio_out_open_def Let_def case_prod_beta)
  ultimately show ?thesis
    using o by (cases e) (auto simp: session_alloc_def session_zero_def Let_def split: sum.split)
qed

text \<open>What can happen to a session between its creation and its end.\<close>

datatype session_event = AudioTick | VideoTick | Datagram bytes

fun session_event_step ::
  "env \<Rightarrow> (u32 \<Rightarrow> i16) \<Rightarrow> session_event \<Rightarrow> u32 \<times> intercom_session \<times> 'a devices_scheme
   \<Rightarrow> u32 \<times> intercom_session \<times> 'a devices_scheme" where
  "session_event_step env tone AudioTick (phase, sess, w) = session_audio_timer env tone phase sess w"
| "session_event_step env tone VideoTick (phase, sess, w) = (phase, session_video_timer env sess w)"
| "session_event_step env tone (Datagram p) (phase, sess, w) = (phase, sess, udp_recv_handler env sess p w)"

definition session_run ::
  "env \<Rightarrow> (u32 \<Rightarrow> i16) \<Rightarrow> session_event list \<Rightarrow> u32 \<times> intercom_session \<times> 'a devices_scheme
   \<Rightarrow> u32 \<times> intercom_session \<times> 'a devices_scheme" where
  "session_run env tone evs s = foldl (\<lambda>s ev. session_event_step env tone ev s) s evs"

definition session_live :: "sockaddr \<Rightarrow> intercom_session \<Rightarrow> bool" where
  "session_live peer s \<longleftrightarrow>
     ss_active s \<and> ss_peer_addr s = peer \<and> ss_us s = Some (ss_local_port s)
     \<and> ss_tmr_audio s = Some AUDIO_PTIME \<and> ss_tmr_video s = Some VIDEO_PTIME
     \<and> ss_video_ts s = 6000 * ss_video_frame_count s
     \<and> (\<exists>n. ss_audio_seq s = word_of_nat n \<and> ss_audio_ts s = word_of_nat (160 * n))"

lemma session_live_step:
  assumes "session_live peer (fst (snd st))"
  shows "session_live peer (fst (snd (session_event_step env tone ev st)))"
proof -
  obtain phase sess w where st: "st = (phase, sess, w)" by (cases st) auto
  with assms have l: "session_live peer sess" and a: "ss_active sess" by (simp_all add: session_live_def)
  show ?thesis
  proof (cases ev)
    case AudioTick
    obtain k where "fst (snd (session_audio_timer env tone phase sess w)) = sess\<lparr>ss_audio_seq := ss_audio_seq sess + word_of_nat k,
        ss_audio_ts := ss_audio_ts sess + word_of_nat (160 * k), ss_tmr_audio := Some AUDIO_PTIME\<rparr>"
      using audio_timer_session [OF a] by blast
    moreover obtain n where "ss_audio_seq sess = word_of_nat n" "ss_audio_ts sess = word_of_nat (160 * n)"
      using l by (auto simp: session_live_def)
    ultimately show ?thesis
      using l AudioTick st by (auto simp: session_live_def algebra_simps intro!: exI [of _ "n + k"])
  next
    case VideoTick
    obtain sq k where "fst (session_video_timer env sess w) = sess\<lparr>ss_video_seq := sq, ss_video_ts := ss_video_ts sess + 6000 * k,
        ss_video_frame_count := ss_video_frame_count sess + k, ss_tmr_video := Some VIDEO_PTIME\<rparr>"
      using video_timer_session [OF a] by blast
    with l VideoTick st show ?thesis by (simp add: session_live_def distrib_left)
  qed (use l st in simp)
qed

lemma session_live_run:
  "session_live peer (fst (snd st)) \<Longrightarrow> session_live peer (fst (snd (session_run env tone evs st)))"
  unfolding session_run_def by (induction evs arbitrary: st) (simp_all add: session_live_step)

lemma session_alloc_live:
  assumes "session_alloc env peer w = (Inr s, w')"
  shows "session_live peer s"
  using assms
  by (auto simp: session_live_def session_alloc_def session_zero_def Let_def split: prod.splits option.splits sum.splits if_splits
      intro!: exI [of _ 0])



text \<open>A closed session is silent: no timer event and no datagram that still arrives changes the session, the
  devices or the traffic.\<close>

lemma session_closed_silent:
  "session_run env tone evs (phase, session_close s, w) = (phase, session_close s, w)"
proof -
  have "session_event_step env tone ev (phase, session_close s, w) = (phase, session_close s, w)" for ev
    by (cases ev) (simp_all add: session_audio_timer_def session_video_timer_def udp_recv_handler_def session_close_def)
  then show ?thesis unfolding session_run_def by (induction evs) simp_all
qed

section \<open>Observations\<close>

text \<open>
  A call cannot be set up while an RTSP client has the camera open: \<open>session_alloc\<close> treats
  \<open>EALREADY\<close> as an error, and its clean-up closes the camera and the loudspeaker under the RTSP server.
\<close>

lemma call_closes_open_camera:
  assumes "cam_opened (dv_cam w)" and "en_alloc env (dv_tick w)"
  shows "fst (session_alloc env peer w) = Inl EALREADY \<and> \<not> cam_opened (dv_cam (snd (session_alloc env peer w)))"
  using assms by (simp add: session_alloc_def Let_def dev_camera_open_cases(1))

end
