(* ===== verification/Relay_Client.thy ===== *)
theory Relay_Client
  imports World
begin

text \<open>
  The device's side of the relay (\<open>relay_client.c\<close>): it keeps a connection to the relay server, registers on
  it, and hands it over when the server announces a client with \<open>BRIDGE\<close>; a lost connection is set up again with
  growing delays.

  \<open>relay_client\<close> is \<open>g_relay\<close>; a connection is its number, a timer is \<open>Some ms\<close> while it runs. The callback
  \<open>bridge_cb\<close> is the parameter \<open>bridge\<close>; \<open>rl_cb\<close> tells whether one was given. What it has to promise is the
  locale \<open>conn_acceptor\<close>.
\<close>

abbreviation RECONNECT_INTERVAL_MS :: u32 where "RECONNECT_INTERVAL_MS \<equiv> 5000"
abbreviation MAX_RECONNECT_MS :: u32 where "MAX_RECONNECT_MS \<equiv> 300000"
abbreviation RELAY_MAX_LINE :: nat where "RELAY_MAX_LINE \<equiv> 256"
abbreviation MAX_RBUF_SIZE :: nat where "MAX_RBUF_SIZE \<equiv> 8192"

record relay_client =
  rl_tc :: "nat option"
  rl_tmr_reconnect :: "nat option"
  rl_rbuf :: "bytes option"
  rl_relay_host :: string
  rl_relay_port :: u16
  rl_device_id :: string
  rl_auth_token :: string
  rl_relay_addr :: string
  rl_cb :: bool
  rl_registered :: bool
  rl_running :: bool
  rl_bridging :: bool
  rl_backoff_count :: u32

definition relay_zero :: relay_client where
  "relay_zero =
     \<lparr>rl_tc = None, rl_tmr_reconnect = None, rl_rbuf = None, rl_relay_host = [], rl_relay_port = 0, rl_device_id = [],
      rl_auth_token = [], rl_relay_addr = [], rl_cb = False, rl_registered = False, rl_running = False,
      rl_bridging = False, rl_backoff_count = 0\<rparr>"

section \<open>Reconnecting\<close>

definition relay_backoff_delay :: "relay_client \<Rightarrow> u32 \<times> relay_client" where
  "relay_backoff_delay rl =
     (let n = (if rl_backoff_count rl < 6 then rl_backoff_count rl else 6);
          delay = push_bit (unat n) RECONNECT_INTERVAL_MS
      in (if delay > MAX_RECONNECT_MS then MAX_RECONNECT_MS else delay,
          rl\<lparr>rl_backoff_count := rl_backoff_count rl + 1\<rparr>))"

definition relay_schedule_reconnect :: "relay_client \<Rightarrow> relay_client" where
  "relay_schedule_reconnect rl =
     (if \<not> rl_running rl then rl
      else (let (delay, rl1) = relay_backoff_delay rl in rl1\<lparr>rl_tmr_reconnect := Some (unat delay)\<rparr>))"

text \<open>\<open>mem_deref(g_relay.tc)\<close> and the fields that are reset with it.\<close>

definition drop_conn :: "relay_client \<times> 'a devices_scheme \<Rightarrow> relay_client \<times> 'a devices_scheme" where
  "drop_conn s =
     (let (rl, w) = s
      in (rl\<lparr>rl_tc := None, rl_rbuf := None, rl_registered := False\<rparr>,
          case rl_tc rl of None \<Rightarrow> w | Some c \<Rightarrow> emit (TcpClosed c) w))"

definition relay_close_handler :: "relay_client \<times> 'a devices_scheme \<Rightarrow> relay_client \<times> 'a devices_scheme" where
  "relay_close_handler s =
     (let (rl, w) = drop_conn s
      in (if rl_running rl \<and> \<not> rl_bridging rl then relay_schedule_reconnect rl else rl, w))"

definition relay_do_connect :: "env \<Rightarrow> relay_client \<times> 'a devices_scheme \<Rightarrow> relay_client \<times> 'a devices_scheme" where
  "relay_do_connect env s =
     (let (rl, w) = s
      in case en_resolve env (dv_tick w) (rl_relay_host rl) (rl_relay_port rl) of
           None \<Rightarrow> (relay_schedule_reconnect rl, tick w)
         | Some srv \<Rightarrow>
             (case en_tcp_connect env (dv_tick w) srv of
                Inl e \<Rightarrow> (relay_schedule_reconnect rl, tick w)
              | Inr c \<Rightarrow> (rl\<lparr>rl_tc := Some c\<rparr>, tick w)))"

text \<open>The timer that fired is no longer running when its handler is called.\<close>

definition relay_reconnect :: "env \<Rightarrow> relay_client \<times> 'a devices_scheme \<Rightarrow> relay_client \<times> 'a devices_scheme" where
  "relay_reconnect env s =
     (if \<not> rl_running (fst s) then s else relay_do_connect env (drop_conn s))"

section \<open>Receiving\<close>

fun memchr :: "u8 \<Rightarrow> bytes \<Rightarrow> nat option" where
  "memchr c [] = None"
| "memchr c (b # bs) = (if b = c then Some 0 else map_option Suc (memchr c bs))"

lemma memchr_Some: "memchr c bs = Some n \<Longrightarrow> n < length bs"
  by (induction bs arbitrary: n) (auto split: if_splits)

text \<open>The line that ends at offset \<open>nl\<close>, without its carriage return and cut to the line buffer.\<close>

definition relay_line :: "bytes \<Rightarrow> nat \<Rightarrow> string" where
  "relay_line data nl =
     (let a = (if nl > 0 \<and> data ! (nl - 1) = 0x0D then nl - 1 else nl);
          actual = (if a \<ge> RELAY_MAX_LINE then RELAY_MAX_LINE - 1 else a)
      in c_str (bytes_text (take actual data)))"

definition relay_bridge ::
  "(nat \<Rightarrow> 'a devices_scheme \<Rightarrow> 'a devices_scheme) \<Rightarrow> relay_client \<times> 'a devices_scheme \<Rightarrow> relay_client \<times> 'a devices_scheme" where
  "relay_bridge bridge s =
     (let (rl, w) = s;
          rl1 = rl\<lparr>rl_bridging := True, rl_tc := None, rl_rbuf := None, rl_registered := False\<rparr>;
          w1 = (case rl_tc rl of Some c \<Rightarrow> if rl_cb rl then bridge c w else w | None \<Rightarrow> w)
      in (rl1\<lparr>rl_bridging := False, rl_backoff_count := 0,
              rl_tmr_reconnect := (if rl_running rl then Some (unat RECONNECT_INTERVAL_MS) else rl_tmr_reconnect rl)\<rparr>, w1))"

text \<open>The line loop over the buffered bytes.\<close>

function relay_lines ::
  "(nat \<Rightarrow> 'a devices_scheme \<Rightarrow> 'a devices_scheme) \<Rightarrow> bytes \<Rightarrow> relay_client \<times> 'a devices_scheme
   \<Rightarrow> relay_client \<times> 'a devices_scheme" where
  "relay_lines bridge data s =
     (case memchr 0x0A data of
        None \<Rightarrow> (fst s\<lparr>rl_rbuf := Some data\<rparr>, snd s)
      | Some nl \<Rightarrow>
          (let line = relay_line data nl
           in if line = ''OK'' \<and> \<not> rl_registered (fst s)
              then relay_lines bridge (drop (nl + 1) data) (fst s\<lparr>rl_registered := True\<rparr>, snd s)
              else if line = ''BRIDGE'' then relay_bridge bridge s
              else relay_lines bridge (drop (nl + 1) data) s))"
  by pat_completeness auto
termination
  by (relation "measure (\<lambda>(_, data, _). length data)") (auto dest: memchr_Some)

declare relay_lines.simps [simp del]

definition relay_recv_handler ::
  "env \<Rightarrow> (nat \<Rightarrow> 'a devices_scheme \<Rightarrow> 'a devices_scheme) \<Rightarrow> bytes \<Rightarrow> relay_client \<times> 'a devices_scheme
   \<Rightarrow> relay_client \<times> 'a devices_scheme" where
  "relay_recv_handler env bridge bs s =
     (let (rl, w) = s
      in if rl_rbuf rl = None \<and> \<not> en_alloc env (dv_tick w) then (rl, tick w)
         else (let data = (case rl_rbuf rl of None \<Rightarrow> [] | Some b \<Rightarrow> b)
               in if length data + length bs > MAX_RBUF_SIZE then relay_close_handler (rl, tick w)
                  else (let w1 = tick w
                        in relay_lines bridge (if en_alloc env (dv_tick w1) then data @ bs else data) (rl, tick w1))))"

section \<open>Life cycle\<close>

definition register_msg :: "relay_client \<Rightarrow> string" where
  "register_msg rl = fst (re_snprintf RELAY_MAX_LINE [''REGISTER '', rl_device_id rl, '' '', rl_auth_token rl, crlf])"

definition relay_estab_handler :: "env \<Rightarrow> relay_client \<times> 'a devices_scheme \<Rightarrow> relay_client \<times> 'a devices_scheme" where
  "relay_estab_handler env s =
     (let (rl, w) = s
      in (rl\<lparr>rl_backoff_count := 0\<rparr>,
          if \<not> en_alloc env (dv_tick w) then tick w
          else case rl_tc rl of
                 None \<Rightarrow> tick w
               | Some c \<Rightarrow> snd (dev_tcp_send env c (text_bytes (register_msg rl)) (tick w))))"

definition relay_client_start ::
  "env \<Rightarrow> string option \<Rightarrow> u16 \<Rightarrow> string option \<Rightarrow> string option \<Rightarrow> bool \<Rightarrow> relay_client \<times> 'a devices_scheme
   \<Rightarrow> errno option \<times> relay_client \<times> 'a devices_scheme" where
  "relay_client_start env relay_host relay_port device_id auth_token cb s =
     (case (relay_host, device_id, auth_token) of
        (Some host, Some did, Some token) \<Rightarrow>
          (let port = (if relay_port \<noteq> 0 then relay_port else 443);
               rl = (fst s)\<lparr>rl_relay_host := str_ncpy host 128, rl_relay_port := port, rl_device_id := str_ncpy did 64,
                            rl_auth_token := str_ncpy token 64,
                            rl_relay_addr := fst (re_snprintf 256 ([host, '':''] @ fmt_u (unat port))),
                            rl_cb := cb, rl_running := True, rl_bridging := False, rl_tmr_reconnect := None\<rparr>
           in (None, relay_do_connect env (rl, snd s)))
      | _ \<Rightarrow> (Some EINVAL, s))"

definition relay_client_stop :: "relay_client \<times> 'a devices_scheme \<Rightarrow> relay_client \<times> 'a devices_scheme" where
  "relay_client_stop s = drop_conn ((fst s)\<lparr>rl_running := False, rl_tmr_reconnect := None\<rparr>, snd s)"

definition relay_client_is_connected :: "relay_client \<Rightarrow> bool" where
  "relay_client_is_connected rl = rl_registered rl"

definition relay_client_get_server :: "relay_client \<Rightarrow> string option" where
  "relay_client_get_server rl = (if \<not> rl_running rl then None else Some (rl_relay_addr rl))"

section \<open>The contract of the callback\<close>

text \<open>
  Who takes over a connection either serves it from then on or has closed it, and leaves the
  connections it serves already alone. Given that, a bridged connection is never lost and never has two
  owners.
\<close>

locale conn_acceptor =
  fixes accept :: "nat \<Rightarrow> 'a devices_scheme \<Rightarrow> 'a devices_scheme"
    and serves :: "'a devices_scheme \<Rightarrow> nat \<Rightarrow> bool"
  assumes accept_takes: "serves (accept c w) c \<or> dv_sent (accept c w) = dv_sent w @ [TcpClosed c]"
    and accept_others: "d \<noteq> c \<Longrightarrow> serves (accept c w) d = serves w d"
begin

lemma bridge_hands_over:
  assumes "rl_tc rl = Some c" and "rl_cb rl"
  shows "rl_tc (fst (relay_bridge accept (rl, w))) = None"
    and "serves (snd (relay_bridge accept (rl, w))) c \<or> last (dv_sent (snd (relay_bridge accept (rl, w)))) = TcpClosed c"
    and "d \<noteq> c \<Longrightarrow> serves (snd (relay_bridge accept (rl, w))) d = serves w d"
  using assms accept_takes [of c w] accept_others [of d c w] by (auto simp: relay_bridge_def Let_def)

end

section \<open>Lines\<close>

lemma memchr_first: "c \<notin> set xs \<Longrightarrow> memchr c (xs @ c # ys) = Some (length xs)"
  by (induction xs) auto

lemma memchr_append: "memchr c xs = Some n \<Longrightarrow> memchr c (xs @ ys) = Some n"
  by (induction xs arbitrary: n) (auto split: if_splits)

lemma byte_LF: "(word_of_nat (of_char c) :: u8) = 0x0A \<longleftrightarrow> c = LF"
proof
  assume "(word_of_nat (of_char c) :: u8) = 0x0A"
  then have "bytes_text (text_bytes [c]) = bytes_text (text_bytes [LF])" by (simp add: text_bytes_def)
  then show "c = LF" by (simp only: bytes_text_text_bytes list.inject)
qed simp

lemma relay_line_append: "nl < length xs \<Longrightarrow> relay_line (xs @ ys) nl = relay_line xs nl"
  by (auto simp: relay_line_def Let_def nth_append)

text \<open>A complete line at the start of the buffer.\<close>

lemma relay_lines_line:
  assumes "0x0A \<notin> set l" and "line = relay_line (l @ [0x0A]) (length l)"
  shows "relay_lines bridge (l @ 0x0A # rest) s =
     (if line = ''OK'' \<and> \<not> rl_registered (fst s) then relay_lines bridge rest (fst s\<lparr>rl_registered := True\<rparr>, snd s)
      else if line = ''BRIDGE'' then relay_bridge bridge s
      else relay_lines bridge rest s)"
proof -
  have "relay_line (l @ 0x0A # rest) (length l) = line"
    using assms(2) relay_line_append [of "length l" "l @ [0x0A]" rest] by simp
  then show ?thesis by (subst relay_lines.simps) (simp add: memchr_first [OF assms(1)])
qed

lemma relay_line_text:
  assumes "length t < RELAY_MAX_LINE" and "NUL \<notin> set t"
  shows "relay_line (text_bytes (t @ [CR]) @ ys) (length t + 1) = t"
proof -
  have "text_bytes (t @ [CR]) ! length t = 0x0D" by (simp add: text_bytes_def nth_append)
  moreover have "take (length t) (text_bytes (t @ [CR]) @ ys) = text_bytes t" by (simp add: text_bytes_def)
  moreover have "c_str t = t" using assms(2) by (auto simp: c_str_def takeWhile_eq_all_conv)
  ultimately show ?thesis using assms(1) by (simp add: relay_line_def Let_def nth_append)
qed

text \<open>A line of text with its line end, as the relay server sends it.\<close>

lemma relay_lines_text:
  assumes "length t < RELAY_MAX_LINE" and "NUL \<notin> set t" and "LF \<notin> set t"
  shows "relay_lines bridge (text_bytes (t @ crlf) @ rest) s =
     (if t = ''OK'' \<and> \<not> rl_registered (fst s) then relay_lines bridge rest (fst s\<lparr>rl_registered := True\<rparr>, snd s)
      else if t = ''BRIDGE'' then relay_bridge bridge s
      else relay_lines bridge rest s)"
proof -
  let ?l = "text_bytes (t @ [CR])"
  have "0x0A \<notin> set ?l" using assms(3) by (auto simp: text_bytes_def byte_LF)
  moreover have "t = relay_line (?l @ [0x0A]) (length ?l)" using relay_line_text [OF assms(1,2), of "[0x0A]"] by simp
  moreover have "text_bytes (t @ crlf) @ rest = ?l @ 0x0A # rest" by (simp add: text_bytes_def)
  ultimately show ?thesis using relay_lines_line [of ?l t bridge rest s] by simp
qed

section \<open>The client never gives up\<close>

text \<open>
  While the client runs it has a connection or a running timer, its callback is not in progress between
  two events, and its buffers stay within their limits.
\<close>

definition relay_ok :: "relay_client \<Rightarrow> bool" where
  "relay_ok rl \<longleftrightarrow>
     (rl_running rl \<longrightarrow> \<not> rl_bridging rl \<and> (rl_tc rl \<noteq> None \<or> rl_tmr_reconnect rl \<noteq> None))
     \<and> (\<forall>b. rl_rbuf rl = Some b \<longrightarrow> length b \<le> MAX_RBUF_SIZE)
     \<and> (rl_registered rl \<longrightarrow> rl_tc rl \<noteq> None) \<and> length (rl_relay_addr rl) < 256"

lemma schedule_fields [simp]:
  "rl_running (relay_schedule_reconnect rl) = rl_running rl" "rl_bridging (relay_schedule_reconnect rl) = rl_bridging rl"
  "rl_rbuf (relay_schedule_reconnect rl) = rl_rbuf rl" "rl_registered (relay_schedule_reconnect rl) = rl_registered rl"
  "rl_tc (relay_schedule_reconnect rl) = rl_tc rl" "rl_relay_addr (relay_schedule_reconnect rl) = rl_relay_addr rl"
  "rl_running rl \<Longrightarrow> \<exists>d. rl_tmr_reconnect (relay_schedule_reconnect rl) = Some d"
  by (simp_all add: relay_schedule_reconnect_def relay_backoff_delay_def Let_def)

lemma drop_conn_fields [simp]:
  "fst (drop_conn s) = (fst s)\<lparr>rl_tc := None, rl_rbuf := None, rl_registered := False\<rparr>"
  by (simp add: drop_conn_def case_prod_beta)

lemma relay_close_ok: "relay_ok (fst s) \<Longrightarrow> relay_ok (fst (relay_close_handler s))"
  by (simp add: relay_close_handler_def relay_ok_def case_prod_beta)

lemma do_connect_ok:
  assumes "rl_running (fst s) \<Longrightarrow> \<not> rl_bridging (fst s)" and "\<And>b. rl_rbuf (fst s) = Some b \<Longrightarrow> length b \<le> MAX_RBUF_SIZE"
    and "rl_registered (fst s) \<Longrightarrow> rl_tc (fst s) \<noteq> None" and "rl_running (fst s)" and "length (rl_relay_addr (fst s)) < 256"
  shows "relay_ok (fst (relay_do_connect env s))"
  using assms by (auto simp: relay_do_connect_def relay_ok_def case_prod_beta split: option.split sum.split)

lemma relay_bridge_ok: "relay_ok (fst s) \<Longrightarrow> relay_ok (fst (relay_bridge bridge s))"
  by (simp add: relay_bridge_def relay_ok_def case_prod_beta Let_def)

lemma relay_lines_ok:
  "relay_ok (fst s) \<Longrightarrow> rl_tc (fst s) \<noteq> None \<Longrightarrow> length data \<le> MAX_RBUF_SIZE \<Longrightarrow> relay_ok (fst (relay_lines bridge data s))"
proof (induction bridge data s rule: relay_lines.induct)
  case (1 bridge data s)
  show ?case
  proof (cases "memchr 0x0A data")
    case None
    with "1.prems" show ?thesis by (subst relay_lines.simps) (simp add: relay_ok_def)
  next
    case (Some nl)
    have "relay_ok ((fst s)\<lparr>rl_registered := True\<rparr>)" using "1.prems"(1,2) by (simp add: relay_ok_def)
    with Some 1 relay_bridge_ok [of s bridge] show ?thesis
      by (subst relay_lines.simps) (simp add: Let_def)
  qed
qed

text \<open>What can happen to the client: events on its connection, the timer, start and stop.\<close>

inductive relay_client_step ::
  "env \<Rightarrow> (nat \<Rightarrow> 'a devices_scheme \<Rightarrow> 'a devices_scheme) \<Rightarrow> relay_client \<times> 'a devices_scheme
   \<Rightarrow> relay_client \<times> 'a devices_scheme \<Rightarrow> bool" for env bridge where
  start: "relay_client_step env bridge s (snd (relay_client_start env host port did token cb s))"
| stop: "relay_client_step env bridge s (relay_client_stop s)"
| estab: "rl_tc (fst s) \<noteq> None \<Longrightarrow> relay_client_step env bridge s (relay_estab_handler env s)"
| recv: "rl_tc (fst s) \<noteq> None \<Longrightarrow> relay_client_step env bridge s (relay_recv_handler env bridge bs s)"
| close: "rl_tc (fst s) \<noteq> None \<Longrightarrow> relay_client_step env bridge s (relay_close_handler s)"
| timer: "rl_tmr_reconnect (fst s) \<noteq> None \<Longrightarrow>
    relay_client_step env bridge s (relay_reconnect env ((fst s)\<lparr>rl_tmr_reconnect := None\<rparr>, snd s))"

lemma relay_client_step_ok:
  assumes "relay_client_step env bridge s s'" and "relay_ok (fst s)"
  shows "relay_ok (fst s')"
  using assms
proof (induction rule: relay_client_step.induct)
  case (start s host port did token cb)
  then have "\<And>b. rl_rbuf (fst s) = Some b \<Longrightarrow> length b \<le> MAX_RBUF_SIZE" "rl_registered (fst s) \<Longrightarrow> rl_tc (fst s) \<noteq> None"
    by (auto simp: relay_ok_def)
  with start show ?case
    using re_snprintf_length [of 256] by (auto simp: relay_client_start_def Let_def split: option.split intro!: do_connect_ok)
next
  case (recv s bs)
  have l: "relay_ok (fst (relay_lines bridge data (fst s, w)))" if "length data \<le> MAX_RBUF_SIZE" for data w
    using recv that by (intro relay_lines_ok) simp_all
  have c: "relay_ok (fst (relay_close_handler (fst s, tick (snd s))))"
    using recv by (intro relay_close_ok) simp
  show ?case
    using recv.prems l c by (simp add: relay_recv_handler_def Let_def case_prod_beta not_less)
next
  case (timer s)
  show ?case
  proof (cases "rl_running (fst s)")
    case True
    with timer.prems show ?thesis by (auto simp: relay_reconnect_def relay_ok_def [of "fst s"] intro!: do_connect_ok)
  next
    case False
    with timer.prems show ?thesis by (simp add: relay_reconnect_def relay_ok_def)
  qed
next
  case (close s)
  then show ?case by (intro relay_close_ok)
qed (simp_all add: relay_client_stop_def relay_estab_handler_def relay_ok_def case_prod_beta Let_def)

section \<open>Properties\<close>

text \<open>C31: The relay client never gives up: after any sequence of events (starting and stopping, received data, lost
  connections, timers), whatever the network answers and whatever the callback does, a client that is running
  has a connection to the relay or its reconnect timer is armed; it reports to be registered only while it
  has a connection, and its receive buffer never exceeds 8192 bytes.\<close>

theorem relay_client_keeps_trying:
  assumes "(relay_client_step env bridge)\<^sup>*\<^sup>* (relay_zero, w) s"
  shows "(rl_running (fst s) \<longrightarrow> rl_tc (fst s) \<noteq> None \<or> rl_tmr_reconnect (fst s) \<noteq> None)
      \<and> (relay_client_is_connected (fst s) \<longrightarrow> rl_tc (fst s) \<noteq> None)
      \<and> (\<forall>b. rl_rbuf (fst s) = Some b \<longrightarrow> length b \<le> MAX_RBUF_SIZE)"
proof -
  have "relay_ok (fst s)" using assms
  proof (induction rule: rtranclp_induct)
    case base
    show ?case by (simp add: relay_ok_def relay_zero_def)
  next
    case (step s s')
    show ?case by (rule relay_client_step_ok [OF step(2,3)])
  qed
  then show ?thesis by (auto simp: relay_ok_def relay_client_is_connected_def)
qed

theorem relay_client_keeps_trying_witness:
  "let s = relay_close_handler (snd (relay_client_start good_env (Some ''relay'') 0 (Some ''door-1'') (Some ''t'') True (relay_zero, devices_zero)))
   in rl_running (fst s) \<and> rl_tmr_reconnect (fst s) \<noteq> None"
proof -
  let ?s1 = "snd (relay_client_start good_env (Some ''relay'') 0 (Some ''door-1'') (Some ''t'') True (relay_zero, devices_zero))"
  have tc: "rl_tc (fst ?s1) \<noteq> None" "rl_running (fst (relay_close_handler ?s1))" "rl_tc (fst (relay_close_handler ?s1)) = None"
    by (simp_all add: relay_client_start_def relay_do_connect_def good_env_def Let_def relay_close_handler_def case_prod_beta)
  have "relay_client_step good_env (\<lambda>_ w. w) (relay_zero, devices_zero) ?s1" by (rule relay_client_step.start)
  moreover have "relay_client_step good_env (\<lambda>_ w. w) ?s1 (relay_close_handler ?s1)" by (rule relay_client_step.close [OF tc(1)])
  ultimately have "(relay_client_step good_env (\<lambda>_ w. w))\<^sup>*\<^sup>* (relay_zero, devices_zero) (relay_close_handler ?s1)"
    by (meson r_into_rtranclp rtranclp_trans)
  from relay_client_keeps_trying [OF this] tc show ?thesis by simp
qed

text \<open>The reconnect delays grow exponentially from 5 seconds and are capped at 5 minutes, for every value of
  the counter, its wrap-around included.\<close>

lemma relay_backoff_schedule:
  "unat (fst (relay_backoff_delay rl)) = min 300000 (5000 * 2 ^ min 6 (unat (rl_backoff_count rl)))"
proof -
  let ?n = "rl_backoff_count rl"
  have p: "unat (push_bit k (5000 :: u32)) = 5000 * 2 ^ k" if "k \<le> 6" for k
  proof -
    have "k \<in> {0, 1, 2, 3, 4, 5, 6}" using that by auto
    then show ?thesis by (elim insertE emptyE) simp_all
  qed
  have m: "unat (if ?n < 6 then ?n else 6) = min 6 (unat ?n)" by (auto simp: word_less_nat_alt)
  have "unat (push_bit (min 6 (unat ?n)) (5000 :: u32)) = 5000 * 2 ^ min 6 (unat ?n)" by (rule p) simp
  then show ?thesis by (auto simp: relay_backoff_delay_def Let_def m word_less_nat_alt)
qed

end
