(* ===== verification/Stun_Client.thy ===== *)
theory Stun_Client
  imports World
begin

text \<open>
  Discovery of the public address (\<open>stun_client.c\<close>). \<open>stun_client\<close> is \<open>g_stun\<close>, with a flag for every object of
  the library it owns. The STUN protocol itself is the library's; the response handler gets the error,
  the status code and the two address attributes of the response, if present. The first component of its
  result is the call of the callback: \<open>Some a\<close> when there is one and it is called with \<open>a\<close>.
\<close>

record stun_client =
  sn_stun :: bool
  sn_ct :: bool
  sn_us :: "u16 option"
  sn_public_addr :: string
  sn_discovered :: bool
  sn_cb :: bool

definition stun_zero :: stun_client where
  "stun_zero = \<lparr>sn_stun = False, sn_ct = False, sn_us = None, sn_public_addr = [], sn_discovered = False, sn_cb = False\<rparr>"

abbreviation STUN_DEFAULT_SERVER :: string where "STUN_DEFAULT_SERVER \<equiv> ''stun.l.google.com''"
abbreviation STUN_DEFAULT_PORT :: u16 where "STUN_DEFAULT_PORT \<equiv> 19302"

definition stun_resp_handler ::
  "inet_sys \<Rightarrow> errno option \<Rightarrow> u16 \<Rightarrow> sockaddr option \<Rightarrow> sockaddr option \<Rightarrow> stun_client \<Rightarrow> string option option \<times> stun_client" where
  "stun_resp_handler sys err scode xor_mapped mapped st =
     (let st1 = st\<lparr>sn_ct := False\<rparr>;
          call = (\<lambda>a. if sn_cb st then Some a else None)
      in if err \<noteq> None then (call None, st1)
         else if scode \<noteq> 0 then (call None, st1)
         else case (if xor_mapped \<noteq> None then xor_mapped else mapped) of
                None \<Rightarrow> (call None, st1)
              | Some sa \<Rightarrow>
                  (let a = fst (re_snprintf 64 (fmt_J sys sa))
                   in (call (Some a), st1\<lparr>sn_public_addr := a, sn_discovered := True\<rparr>)))"

definition stun_discover ::
  "env \<Rightarrow> string option \<Rightarrow> u16 \<Rightarrow> u16 \<Rightarrow> bool \<Rightarrow> stun_client \<times> 'a devices_scheme
   \<Rightarrow> errno option \<times> stun_client \<times> 'a devices_scheme" where
  "stun_discover env stun_server stun_port local_port cb s =
     (let (st, w) = s;
          server = (case stun_server of Some x \<Rightarrow> x | None \<Rightarrow> STUN_DEFAULT_SERVER);
          port = (if stun_port \<noteq> 0 then stun_port else STUN_DEFAULT_PORT);
          st0 = st\<lparr>sn_cb := cb, sn_discovered := False, sn_public_addr := []\<rparr>;
          srv = (case sa_set_str (en_inet env) server port of
                   Inr a \<Rightarrow> Some a
                 | Inl _ \<Rightarrow> en_resolve env (dv_tick w) server port)
      in case srv of
           None \<Rightarrow> (Some ENOENT, st0, tick w)
         | Some a \<Rightarrow>
             (case en_udp_listen env (dv_tick w) of
                Inl e \<Rightarrow> (Some e, st0, tick w)
              | Inr us \<Rightarrow>
                  (case en_stun_alloc env (dv_tick w) of
                     Some e \<Rightarrow> (Some e, st0\<lparr>sn_us := None\<rparr>, tick w)
                   | None \<Rightarrow>
                       (case en_stun_request env (dv_tick w) a of
                          Some e \<Rightarrow> (Some e, st0\<lparr>sn_us := None, sn_stun := False\<rparr>, tick w)
                        | None \<Rightarrow> (None, st0\<lparr>sn_us := Some us, sn_stun := True, sn_ct := True\<rparr>, tick w)))))"

definition stun_get_public_addr :: "stun_client \<Rightarrow> string option" where
  "stun_get_public_addr st = (if \<not> sn_discovered st then None else Some (sn_public_addr st))"

definition stun_close :: "stun_client \<Rightarrow> stun_client" where
  "stun_close st = st\<lparr>sn_ct := False, sn_us := None, sn_stun := False, sn_discovered := False\<rparr>"

section \<open>Results\<close>

lemma length_fmt_J_in: "length (concat (fmt_J sys (sa_set_in ip port))) < 64"
  using length_inet_ntop4 [of ip] itoa_dec_length [of "unat port" 5] unsigned_less [of port, where 'a = nat]
  by (simp add: fmt_J_def sa_set_in_def sa_ntop_def sa_port_def)

text \<open>The public address the program reports is the one in the STUN response: with a mapped IPv4 address in
  the response (the XOR-MAPPED-ADDRESS attribute is preferred), the text that \<open>stun_get_public_addr\<close>
  returns is complete, and \<open>sa_decode\<close> reads from it exactly the address and port of the response.\<close>

lemma stun_reports_address:
  assumes "xor_mapped = Some (sa_set_in ip port) \<or> xor_mapped = None \<and> mapped = Some (sa_set_in ip port)"
  shows "map_option (sa_decode sys) (stun_get_public_addr (snd (stun_resp_handler sys None 0 xor_mapped mapped st)))
       = Some (Inr (sa_set_in ip port))"
  using assms length_fmt_J_in [of sys ip port]
  by (auto simp: stun_resp_handler_def stun_get_public_addr_def Let_def re_snprintf_fits sa_print_decode)

lemma stun_reports_address_witness:
  "map_option (sa_decode (en_inet good_env)) (stun_get_public_addr
     (snd (stun_resp_handler (en_inet good_env) None 0 None (Some (sa_set_in 0xCB007105 8555)) stun_zero)))
   = Some (Inr (sa_set_in 0xCB007105 8555))"
  by (rule stun_reports_address) simp

text \<open>Until a response arrives, and after every failure, no address is reported.\<close>

lemma stun_no_stale_address:
  "stun_get_public_addr (fst (snd (stun_discover env server port lport cb s))) = None"
  by (simp add: stun_discover_def stun_get_public_addr_def case_prod_beta Let_def split: option.split sum.split)

lemma stun_error_reports_nothing:
  assumes "\<not> sn_discovered st" and "err \<noteq> None \<or> scode \<noteq> 0 \<or> xor_mapped = None \<and> mapped = None"
  shows "stun_get_public_addr (snd (stun_resp_handler sys err scode xor_mapped mapped st)) = None"
  using assms by (auto simp: stun_resp_handler_def stun_get_public_addr_def Let_def)

lemma stun_addr_length:
  "length (sn_public_addr st) < 64 \<Longrightarrow> length (sn_public_addr (snd (stun_resp_handler sys err scode x m st))) < 64"
  using re_snprintf_length [of 64] by (auto simp: stun_resp_handler_def Let_def split: option.split)

end
