(* ===== verification/Http_Server.thy ===== *)
theory Http_Server
  imports Rtsp_Props Session Relay_Client Stun_Client
begin

text \<open>
  The HTTP server (\<open>http_server.c\<close>): the control API for calls, the doorbell and the network state, and the
  static files below \<open>g_www_path\<close>; with the reply functions of the library (\<open>re-4.6.0/src/http/server.c\<close>).

  \<open>intercom_world\<close> is the state of the whole program: the RTSP server and the devices, extended by the globals of
  \<open>http_server.c\<close>, of \<open>stun_client.c\<close> and of \<open>relay_client.c\<close>, and by the static \<open>phase\<close> of \<open>session.c\<close>.
  \<open>iw_httpsock\<close> tells whether \<open>g_httpsock\<close> is set and \<open>iw_sock_refs\<close> is the reference count of the listening
  socket. An HTTP connection is its TCP connection.

  A request is parsed by the library; \<open>hm_body\<close> is the rest of its buffer. The buffer is not terminated, so a
  string function on it reads on into \<open>hm_tail\<close>, the memory behind it.
\<close>

section \<open>State\<close>

record http_msg =
  hm_met :: string
  hm_path :: string
  hm_body :: string
  hm_tail :: string

record doorbell =
  db_pending :: bool
  db_timestamp :: u64

record intercom_world = rtsp_world +
  iw_httpsock :: bool
  iw_sock_refs :: int
  iw_sess :: "intercom_session option"
  iw_www_path :: string
  iw_doorbell :: doorbell
  iw_stun :: stun_client
  iw_relay :: relay_client
  iw_phase :: u32

abbreviation DOORBELL_MIN_INTERVAL_MS :: u64 where "DOORBELL_MIN_INTERVAL_MS \<equiv> 5000"

section \<open>Replies\<close>

definition http_reply ::
  "env \<Rightarrow> nat option \<Rightarrow> nat \<Rightarrow> string \<Rightarrow> bytes option \<Rightarrow> 'a devices_scheme \<Rightarrow> errno option \<times> 'a devices_scheme" where
  "http_reply env conn scode reason content w =
     (if scode = 0 then (Some EINVAL, w)
      else case conn of
             None \<Rightarrow> (Some ENOTCONN, w)
           | Some c \<Rightarrow>
               if \<not> en_alloc env (dv_tick w) then (Some ENOMEM, tick w)
               else dev_tcp_send env c
                      (text_bytes (''HTTP/1.1 '' @ itoa_dec scode @ '' '' @ reason @ crlf)
                       @ (case content of Some b \<Rightarrow> b | None \<Rightarrow> text_bytes (''Content-Length: 0'' @ crlf @ crlf))) (tick w))"

definition http_creply ::
  "env \<Rightarrow> nat option \<Rightarrow> nat \<Rightarrow> string \<Rightarrow> string \<Rightarrow> string \<Rightarrow> 'a devices_scheme \<Rightarrow> errno option \<times> 'a devices_scheme" where
  "http_creply env conn scode reason ctype content w =
     (if \<not> en_alloc env (dv_tick w) then (Some ENOMEM, tick w)
      else http_reply env conn scode reason
             (Some (text_bytes (''Content-Type: '' @ ctype @ crlf @ ''Content-Length: '' @ itoa_dec (length content) @ crlf @ crlf
                                @ content))) (tick w))"

definition http_ereply ::
  "env \<Rightarrow> nat option \<Rightarrow> nat \<Rightarrow> string \<Rightarrow> 'a devices_scheme \<Rightarrow> errno option \<times> 'a devices_scheme" where
  "http_ereply env conn scode reason w =
     http_creply env conn scode reason ''text/html''
       (''<!DOCTYPE html>'' @ [LF] @ ''<html>'' @ [LF]
        @ ''<head><title>'' @ itoa_dec scode @ '' '' @ reason @ ''</title></head>'' @ [LF]
        @ ''<body><h2>'' @ itoa_dec scode @ '' '' @ reason @ ''</h2></body>'' @ [LF] @ ''</html>'' @ [LF]) w"

definition http_conn_close :: "nat option \<Rightarrow> 'a devices_scheme \<Rightarrow> 'a devices_scheme" where
  "http_conn_close conn w = (case conn of None \<Rightarrow> w | Some c \<Rightarrow> emit (TcpClosed c) w)"

text \<open>The headers of the JSON replies, and a JSON reply of the API.\<close>

definition json_headers :: string where
  "json_headers = ''Content-Type: application/json'' @ crlf @ ''Access-Control-Allow-Origin: *'' @ crlf @ ''Connection: close'' @ crlf @ crlf"

definition json_reply :: "env \<Rightarrow> nat option \<Rightarrow> nat \<Rightarrow> string \<Rightarrow> string \<Rightarrow> 'a devices_scheme \<Rightarrow> 'a devices_scheme" where
  "json_reply env conn scode reason body w =
     snd (http_reply env conn scode reason (Some (text_bytes (json_headers @ body))) w)"

section \<open>Static files\<close>

definition mime_type :: "string \<Rightarrow> string" where
  "mime_type path =
     (case strrchr path CHR ''.'' of
        None \<Rightarrow> ''application/octet-stream''
      | Some i \<Rightarrow>
          (let dot = drop i path
           in if strcaseeq dot ''.html'' then ''text/html; charset=utf-8''
              else if strcaseeq dot ''.js'' then ''application/javascript; charset=utf-8''
              else if strcaseeq dot ''.css'' then ''text/css; charset=utf-8''
              else if strcaseeq dot ''.json'' then ''application/json''
              else if strcaseeq dot ''.ico'' then ''image/x-icon''
              else if strcaseeq dot ''.png'' then ''image/png''
              else ''application/octet-stream''))"

text \<open>The checks on the name and the path that is opened; on the left the status of the refusal.\<close>

definition file_path :: "string \<Rightarrow> string \<Rightarrow> (nat \<times> string \<times> errno) + string" where
  "file_path www filename =
     (if strstr filename ''..'' \<noteq> None \<or> strstr filename [BSL] \<noteq> None
         \<or> starts_with ''/'' filename \<or> starts_with [BSL] filename
      then Inl (403, ''Forbidden'', EPERM)
      else if length www + length filename + 2 \<ge> 512 then Inl (414, ''URI Too Long'', EINVAL)
      else Inr (fst (re_snprintf 512 [www, ''/'', filename])))"

definition serve_file ::
  "env \<Rightarrow> nat option \<Rightarrow> string \<Rightarrow> 'a intercom_world_scheme \<Rightarrow> errno option \<times> 'a intercom_world_scheme" where
  "serve_file env conn filename w =
     (case file_path (iw_www_path w) filename of
        Inl (scode, reason, e) \<Rightarrow> (Some e, snd (http_ereply env conn scode reason w))
      | Inr filepath \<Rightarrow>
          (case en_fopen env (dv_tick w) filepath of
             None \<Rightarrow> (Some ENOENT, snd (http_ereply env conn 404 ''Not Found'' (tick w)))
           | Some (fsize, content) \<Rightarrow>
               if fsize \<le> 0 \<or> fsize > 1024 * 1024
               then (Some EINVAL, snd (http_ereply env conn 500 ''Internal Error'' (tick w)))
               else if \<not> en_alloc env (dv_tick w)
               then (Some ENOMEM, snd (http_ereply env conn 500 ''Internal Error'' (tick w)))
               else if length content < nat fsize
               then (Some EIO, snd (http_ereply env conn 500 ''Read Error'' (tick w)))
               else http_reply env conn 200 ''OK''
                      (Some (text_bytes (''Content-Type: '' @ mime_type filename @ crlf
                                         @ ''Content-Length: '' @ itoa_dec (nat fsize) @ crlf
                                         @ ''Access-Control-Allow-Origin: *'' @ crlf @ ''Connection: close'' @ crlf @ crlf)
                             @ take (nat fsize) content)) (tick w)))"

section \<open>Calls\<close>

text \<open>\<open>session_close\<close> and \<open>mem_deref\<close> of the current session, if there is one.\<close>

definition drop_session :: "'a intercom_world_scheme \<Rightarrow> 'a intercom_world_scheme" where
  "drop_session w = (case iw_sess w of None \<Rightarrow> w | Some s \<Rightarrow> (session_destructor w)\<lparr>iw_sess := None\<rparr>)"

text \<open>The address in the body's member \<open>peer\<close>, empty if it is not found or too long.\<close>

definition parse_peer :: "http_msg \<Rightarrow> string" where
  "parse_peer msg =
     (if hm_body msg = [] then []
      else (let txt = c_str (hm_body msg @ hm_tail msg)
            in case strstr txt (DQ # ''peer'' @ [DQ]) of
                 None \<Rightarrow> []
               | Some i \<Rightarrow>
                   (let rest = drop (i + 6) txt;
                        n = length (takeWhile (\<lambda>c. c = CHR '' '' \<or> c = CHR '':'' \<or> c = DQ)
                                      (take (length (hm_body msg) - (i + 6)) rest));
                        p = drop n rest
                    in case strchr p DQ of
                         None \<Rightarrow> []
                       | Some e \<Rightarrow> if e < 64 then take e p else [])))"

definition call_peer :: "http_msg \<Rightarrow> string" where
  "call_peer msg = (if parse_peer msg = [] then str_ncpy ''127.0.0.1:5006'' 64 else parse_peer msg)"

definition created_body :: "u16 \<Rightarrow> string \<Rightarrow> string" where
  "created_body port peer =
     [CHR ''{'', DQ] @ ''status'' @ [DQ, CHR '':'', DQ] @ ''ok'' @ [DQ, CHR '','', DQ] @ ''rtp_port'' @ [DQ, CHR '':''] @ itoa_dec (unat port)
     @ [CHR '','', DQ] @ ''peer'' @ [DQ, CHR '':'', DQ] @ peer @ [DQ, CHR ''}'']"

definition handle_call_create ::
  "env \<Rightarrow> nat option \<Rightarrow> http_msg \<Rightarrow> 'a intercom_world_scheme \<Rightarrow> 'a intercom_world_scheme" where
  "handle_call_create env conn msg w =
     (let w0 = drop_session w; peer_str = call_peer msg
      in case sa_decode (en_inet env) peer_str of
           Inl e \<Rightarrow> snd (http_creply env conn 400 ''Bad Request'' ''application/json''
                        ([CHR ''{'', DQ] @ ''error'' @ [DQ, CHR '':'', DQ] @ ''invalid peer address'' @ [DQ, CHR ''}'']) w0)
         | Inr peer \<Rightarrow>
             (case session_alloc env peer w0 of
                (Inl e, w1) \<Rightarrow> snd (http_ereply env conn 500 ''Session alloc failed'' w1)
              | (Inr s, w1) \<Rightarrow> json_reply env conn 201 ''Created'' (created_body (ss_local_port s) peer_str) (w1\<lparr>iw_sess := Some s\<rparr>)))"

definition status_body :: "inet_sys \<Rightarrow> intercom_session option \<Rightarrow> string" where
  "status_body sys sess =
     (case sess of
        Some s \<Rightarrow>
          if ss_active s
          then [CHR ''{'', DQ] @ ''active'' @ [DQ] @ '':true,'' @ [DQ] @ ''rtp_port'' @ [DQ, CHR '':''] @ itoa_dec (unat (ss_local_port s))
               @ [CHR '','', DQ] @ ''peer'' @ [DQ, CHR '':'', DQ] @ concat (fmt_J sys (ss_peer_addr s)) @ [DQ, CHR ''}'']
          else [CHR ''{'', DQ] @ ''active'' @ [DQ] @ '':false}''
      | None \<Rightarrow> [CHR ''{'', DQ] @ ''active'' @ [DQ] @ '':false}'')"

definition handle_status :: "env \<Rightarrow> nat option \<Rightarrow> 'a intercom_world_scheme \<Rightarrow> 'a intercom_world_scheme" where
  "handle_status env conn w = json_reply env conn 200 ''OK'' (status_body (en_inet env) (iw_sess w)) w"

abbreviation ok_body :: string where
  "ok_body \<equiv> [CHR ''{'', DQ] @ ''status'' @ [DQ, CHR '':'', DQ] @ ''ok'' @ [DQ, CHR ''}'']"

definition handle_call_delete :: "env \<Rightarrow> nat option \<Rightarrow> 'a intercom_world_scheme \<Rightarrow> 'a intercom_world_scheme" where
  "handle_call_delete env conn w = json_reply env conn 200 ''OK'' ok_body (drop_session w)"

definition handle_http_options :: "env \<Rightarrow> nat option \<Rightarrow> 'a intercom_world_scheme \<Rightarrow> 'a intercom_world_scheme" where
  "handle_http_options env conn w =
     snd (http_reply env conn 204 ''No Content''
            (Some (text_bytes (''Access-Control-Allow-Origin: *'' @ crlf
                               @ ''Access-Control-Allow-Methods: GET, POST, PUT, DELETE, OPTIONS'' @ crlf
                               @ ''Access-Control-Allow-Headers: Content-Type'' @ crlf @ ''Access-Control-Max-Age: 86400'' @ crlf
                               @ ''Connection: close'' @ crlf @ crlf))) w)"

section \<open>Doorbell and network state\<close>

definition ring_refused :: "u64 \<Rightarrow> doorbell \<Rightarrow> bool" where
  "ring_refused now d \<longleftrightarrow> db_timestamp d > 0 \<and> now - db_timestamp d < DOORBELL_MIN_INTERVAL_MS"

definition handle_doorbell_trigger :: "env \<Rightarrow> nat option \<Rightarrow> 'a intercom_world_scheme \<Rightarrow> 'a intercom_world_scheme" where
  "handle_doorbell_trigger env conn w =
     (let now = en_jiffies env (dv_tick w)
      in if ring_refused now (iw_doorbell w)
         then json_reply env conn 429 ''Too Many Requests''
                ([CHR ''{'', DQ] @ ''error'' @ [DQ, CHR '':'', DQ] @ ''rate limited'' @ [DQ, CHR ''}'']) (tick w)
         else json_reply env conn 200 ''OK'' ok_body
                ((tick w)\<lparr>iw_doorbell := \<lparr>db_pending = True, db_timestamp = now\<rparr>\<rparr>))"

definition ringing_body :: "bool \<Rightarrow> string" where
  "ringing_body b = [CHR ''{'', DQ] @ ''ringing'' @ [DQ] @ (if b then '':true}'' else '':false}'')"

definition handle_doorbell_status :: "env \<Rightarrow> nat option \<Rightarrow> 'a intercom_world_scheme \<Rightarrow> 'a intercom_world_scheme" where
  "handle_doorbell_status env conn w =
     (if db_pending (iw_doorbell w)
      then json_reply env conn 200 ''OK'' (ringing_body True) (w\<lparr>iw_doorbell := (iw_doorbell w)\<lparr>db_pending := False\<rparr>\<rparr>)
      else json_reply env conn 200 ''OK'' (ringing_body False) w)"

definition json_opt :: "string option \<Rightarrow> string list" where
  "json_opt a = (case a of None \<Rightarrow> [[], ''null'', []] | Some s \<Rightarrow> [[DQ], s, [DQ]])"

definition nat_body_chunks :: "stun_client \<Rightarrow> relay_client \<Rightarrow> string list" where
  "nat_body_chunks st rl =
     [[CHR ''{'', DQ] @ ''public_addr'' @ [DQ, CHR '':'']] @ json_opt (stun_get_public_addr st)
     @ [[CHR '','', DQ] @ ''relay_server'' @ [DQ, CHR '':'']] @ json_opt (relay_client_get_server rl)
     @ [[CHR '','', DQ] @ ''relay_connected'' @ [DQ, CHR '':''], if relay_client_is_connected rl then ''true'' else ''false'', ''}'']"

definition handle_nat_info :: "env \<Rightarrow> nat option \<Rightarrow> 'a intercom_world_scheme \<Rightarrow> 'a intercom_world_scheme" where
  "handle_nat_info env conn w =
     json_reply env conn 200 ''OK'' (fst (re_snprintf 512 (nat_body_chunks (iw_stun w) (iw_relay w)))) w"

section \<open>Dispatch\<close>

definition not_found :: "env \<Rightarrow> nat option \<Rightarrow> 'a intercom_world_scheme \<Rightarrow> 'a intercom_world_scheme" where
  "not_found env conn w =
     snd (http_reply env conn 404 ''Not Found'' (Some (text_bytes (''Connection: close'' @ crlf @ crlf))) w)"

text \<open>The name behind the slash, cut to the buffer of 256 bytes, as the C string it then is.\<close>

definition path_name :: "string \<Rightarrow> string" where
  "path_name path = c_str (take 255 (drop 1 path))"

definition http_dispatch :: "env \<Rightarrow> nat option \<Rightarrow> http_msg \<Rightarrow> 'a intercom_world_scheme \<Rightarrow> 'a intercom_world_scheme" where
  "http_dispatch env conn msg w =
     (let met = hm_met msg; path = hm_path msg
      in if strcaseeq met ''OPTIONS'' then handle_http_options env conn w
         else if strcaseeq met ''POST'' \<and> path = ''/api/call'' then handle_call_create env conn msg w
         else if strcaseeq met ''GET'' \<and> path = ''/api/status'' then handle_status env conn w
         else if strcaseeq met ''DELETE'' \<and> path = ''/api/call'' then handle_call_delete env conn w
         else if strcaseeq met ''POST'' \<and> path = ''/api/doorbell'' then handle_doorbell_trigger env conn w
         else if strcaseeq met ''GET'' \<and> path = ''/api/doorbell/status'' then handle_doorbell_status env conn w
         else if strcaseeq met ''GET'' \<and> path = ''/api/nat'' then handle_nat_info env conn w
         else if strcaseeq met ''GET''
         then (if path = ''/'' \<or> path = ''/index.html'' then snd (serve_file env conn ''index.html'' w)
               else if length path > 1 then snd (serve_file env conn (path_name path) w)
               else not_found env conn w)
         else not_found env conn w)"

definition http_req_handler :: "env \<Rightarrow> nat \<Rightarrow> http_msg \<Rightarrow> 'a intercom_world_scheme \<Rightarrow> 'a intercom_world_scheme" where
  "http_req_handler env c msg w = http_conn_close (Some c) (http_dispatch env (Some c) msg w)"

definition http_sig_init :: "env \<Rightarrow> string \<Rightarrow> 'a intercom_world_scheme \<Rightarrow> errno option \<times> 'a intercom_world_scheme" where
  "http_sig_init env www_path w =
     (let w0 = (tick w)\<lparr>iw_www_path := str_ncpy www_path 256\<rparr>
      in case en_http_listen env (dv_tick w) of
           Some e \<Rightarrow> (Some e, w0)
         | None \<Rightarrow> (None, w0\<lparr>iw_httpsock := True, iw_sock_refs := 1\<rparr>))"

definition http_sig_close :: "'a intercom_world_scheme \<Rightarrow> 'a intercom_world_scheme" where
  "http_sig_close w = (if iw_httpsock w then w\<lparr>iw_httpsock := False, iw_sock_refs := iw_sock_refs w - 1\<rparr> else w)"

definition http_sig_set_session :: "intercom_session option \<Rightarrow> 'a intercom_world_scheme \<Rightarrow> 'a intercom_world_scheme" where
  "http_sig_set_session sess w = w\<lparr>iw_sess := sess\<rparr>"

section \<open>What a request may touch\<close>

text \<open>The state of the RTSP server.\<close>

definition rtsp_part ::
  "'a rtsp_world_scheme \<Rightarrow> rtsp_auth \<times> bool \<times> (nat \<times> rtsp_client) list \<times> nat option \<times> nat option \<times> bool \<times> u32 \<times> u16
     \<times> string \<times> bool" where
  "rtsp_part w = (rw_auth w, rw_listening w, rw_clients w, rw_tmr_audio w, rw_tmr_video w, rw_camera_opened w,
     rw_video_frame_count w, rw_port w, rw_local_ip w, rw_mic_opened w)"

lemma rtsp_part_tick [simp]: "rtsp_part (tick w) = rtsp_part w"
  by (simp add: rtsp_part_def)

text \<open>A reply advances the call counter and adds to the traffic, and does nothing else.\<close>

definition only_traffic :: "'a devices_scheme \<Rightarrow> 'a devices_scheme \<Rightarrow> bool" where
  "only_traffic w w' \<longleftrightarrow>
     devices.more w' = devices.more w \<and> dv_cam w' = dv_cam w \<and> dv_ain w' = dv_ain w \<and> dv_aout w' = dv_aout w
     \<and> dv_tick w \<le> dv_tick w'"

lemma only_traffic_ticks:
  "only_traffic w w" "only_traffic (tick w) w' \<Longrightarrow> only_traffic w w'" "only_traffic w w' \<Longrightarrow> only_traffic w (tick w')"
  "only_traffic w w' \<Longrightarrow> only_traffic w (emit e w')"
  by (auto simp: only_traffic_def tick_def emit_def)

lemma dev_tcp_send_traffic: "only_traffic w (snd (dev_tcp_send env c bs w))"
  by (simp add: dev_tcp_send_def only_traffic_ticks(1,3,4) split: option.split)

lemma http_reply_traffic: "only_traffic w (snd (http_reply env conn scode reason content w))"
  by (simp add: http_reply_def only_traffic_ticks(1,3) only_traffic_ticks(2) [OF dev_tcp_send_traffic] split: option.split)

lemma http_creply_traffic: "only_traffic w (snd (http_creply env conn scode reason ctype content w))"
  by (simp add: http_creply_def only_traffic_ticks(1,3) only_traffic_ticks(2) [OF http_reply_traffic])

lemma http_ereply_traffic: "only_traffic w (snd (http_ereply env conn scode reason w))"
  by (simp add: http_ereply_def http_creply_traffic)

lemma json_reply_traffic: "only_traffic w (json_reply env conn scode reason body w)"
  by (simp add: json_reply_def http_reply_traffic)

lemma serve_file_traffic: "only_traffic w (snd (serve_file env conn filename w))"
  by (auto simp: serve_file_def intro: http_ereply_traffic only_traffic_ticks(2) [OF http_ereply_traffic]
      only_traffic_ticks(2) [OF http_reply_traffic] split: sum.split option.split prod.split)

lemma http_conn_close_traffic: "only_traffic w (http_conn_close conn w)"
  by (simp add: http_conn_close_def only_traffic_ticks(1,4) split: option.split)

lemmas reply_traffic = http_reply_traffic http_creply_traffic http_ereply_traffic json_reply_traffic serve_file_traffic
  http_conn_close_traffic

lemma devices_moreD:
  fixes w w' :: "'a intercom_world_scheme"
  assumes "devices.more w' = devices.more w"
  shows "rtsp_part w' = rtsp_part w"
    "iw_sess w' = iw_sess w" "iw_www_path w' = iw_www_path w" "iw_doorbell w' = iw_doorbell w" "iw_stun w' = iw_stun w"
    "iw_relay w' = iw_relay w" "iw_phase w' = iw_phase w" "iw_httpsock w' = iw_httpsock w" "iw_sock_refs w' = iw_sock_refs w"
  using assms by (cases w; cases w'; simp add: rtsp_part_def)+

lemma only_trafficD:
  assumes "only_traffic w w'"
  shows "devices.more w' = devices.more w" "dv_cam w' = dv_cam w" "dv_ain w' = dv_ain w" "dv_aout w' = dv_aout w"
    "dv_tick w \<le> dv_tick w'"
  using assms by (simp_all add: only_traffic_def)

lemmas reply_devices [simp] = reply_traffic [THEN only_trafficD(1)] reply_traffic [THEN only_trafficD(2)]
  reply_traffic [THEN only_trafficD(3)] reply_traffic [THEN only_trafficD(4)]

lemmas reply_more = reply_traffic [THEN only_trafficD(1)]

lemmas reply_keeps [simp] = reply_more [THEN devices_moreD(1)] reply_more [THEN devices_moreD(2)]
  reply_more [THEN devices_moreD(3)] reply_more [THEN devices_moreD(4)] reply_more [THEN devices_moreD(5)]
  reply_more [THEN devices_moreD(6)] reply_more [THEN devices_moreD(7)] reply_more [THEN devices_moreD(8)]
  reply_more [THEN devices_moreD(9)]

text \<open>A call also uses the devices, and nothing else of the program.\<close>

lemma session_ops_more [simp]:
  "devices.more (session_destructor w) = devices.more w"
  "devices.more (snd (session_alloc env peer w)) = devices.more w"
  "dv_tick (session_destructor w) = dv_tick w"
  by (simp_all add: session_destructor_def session_alloc_def dev_defs Let_def case_prod_beta split: option.split sum.split)

lemma session_alloc_tick: "dv_tick w \<le> dv_tick (snd (session_alloc env peer w))"
  by (simp add: session_destructor_def session_alloc_def dev_defs Let_def case_prod_beta tick_def split: option.split sum.split)

lemmas session_keeps [simp] = session_ops_more(1,2) [THEN devices_moreD(1)] session_ops_more(1,2) [THEN devices_moreD(2)]
  session_ops_more(1,2) [THEN devices_moreD(3)] session_ops_more(1,2) [THEN devices_moreD(4)]
  session_ops_more(1,2) [THEN devices_moreD(5)] session_ops_more(1,2) [THEN devices_moreD(6)]
  session_ops_more(1,2) [THEN devices_moreD(7)] session_ops_more(1,2) [THEN devices_moreD(8)]
  session_ops_more(1,2) [THEN devices_moreD(9)]

lemma tick_keeps [simp]:
  fixes w :: "'a intercom_world_scheme"
  shows "iw_sess (tick w) = iw_sess w" "iw_www_path (tick w) = iw_www_path w" "iw_doorbell (tick w) = iw_doorbell w"
    "iw_stun (tick w) = iw_stun w" "iw_relay (tick w) = iw_relay w" "iw_phase (tick w) = iw_phase w"
    "iw_httpsock (tick w) = iw_httpsock w" "iw_sock_refs (tick w) = iw_sock_refs w"
  by (simp_all add: tick_def)

lemma upd_rtsp_part [simp]:
  "rtsp_part (w\<lparr>iw_sess := s\<rparr>) = rtsp_part w" "rtsp_part (w\<lparr>iw_doorbell := d\<rparr>) = rtsp_part w"
  by (simp_all add: rtsp_part_def)

lemma drop_session_keeps [simp]:
  "rtsp_part (drop_session w) = rtsp_part w" "iw_sess (drop_session w) = None" "iw_doorbell (drop_session w) = iw_doorbell w"
  "iw_www_path (drop_session w) = iw_www_path w" "iw_stun (drop_session w) = iw_stun w" "iw_relay (drop_session w) = iw_relay w"
  "dv_tick (drop_session w) = dv_tick w"
  by (simp_all add: drop_session_def split: option.split)

text \<open>Who sees what: only the call and doorbell handlers change state of the HTTP server.\<close>

lemmas http_handlers = handle_http_options_def handle_status_def handle_call_delete_def handle_doorbell_trigger_def
  handle_doorbell_status_def handle_nat_info_def not_found_def Let_def

lemma call_create_keeps [simp]:
  "rtsp_part (handle_call_create env conn msg w) = rtsp_part w"
  "iw_doorbell (handle_call_create env conn msg w) = iw_doorbell w"
  "iw_www_path (handle_call_create env conn msg w) = iw_www_path w"
  "iw_stun (handle_call_create env conn msg w) = iw_stun w" "iw_relay (handle_call_create env conn msg w) = iw_relay w"
  by (simp_all add: handle_call_create_def Let_def case_prod_beta split: sum.split)

section \<open>Isolation\<close>

lemma http_keeps:
  "rtsp_part (http_req_handler env c msg w) = rtsp_part w" "iw_relay (http_req_handler env c msg w) = iw_relay w"
  "iw_stun (http_req_handler env c msg w) = iw_stun w" "iw_www_path (http_req_handler env c msg w) = iw_www_path w"
  by (simp_all add: http_req_handler_def http_dispatch_def http_handlers)

text \<open>The HTTP interface has no access to the RTSP side: no request, whatever its method, path and body, changes
  the RTSP server's clients, authentication state, timers or flags, the relay client, the STUN client or
  the directory of the static files.\<close>

lemma http_isolated:
  "rtsp_part (http_req_handler env c msg w) = rtsp_part w
   \<and> iw_relay (http_req_handler env c msg w) = iw_relay w
   \<and> iw_stun (http_req_handler env c msg w) = iw_stun w
   \<and> iw_www_path (http_req_handler env c msg w) = iw_www_path w"
  by (simp add: http_keeps)

text \<open>
  The parts of a path between its slashes; a file is below a directory if the rest of its path is
  relative and no part of it leads upwards.
\<close>

fun path_parts :: "string \<Rightarrow> string list" where
  "path_parts [] = [[]]"
| "path_parts (c # s) =
     (if c = CHR ''/'' then [] # path_parts s
      else case path_parts s of [] \<Rightarrow> [[c]] | p # ps \<Rightarrow> (c # p) # ps)"

definition below :: "string \<Rightarrow> string \<Rightarrow> bool" where
  "below dir p \<longleftrightarrow>
     starts_with (dir @ ''/'') p
     \<and> (let rel = drop (length dir + 1) p
        in ''..'' \<notin> set (path_parts rel) \<and> BSL \<notin> set rel \<and> \<not> starts_with ''/'' rel)"

lemma strstr_tl: "strstr (c # s) pat = None \<Longrightarrow> strstr s pat = None"
  by (auto split: if_splits)

lemma path_parts_hd: "path_parts s = q # qs \<Longrightarrow> starts_with q s"
proof (induction s arbitrary: q qs)
  case (Cons c s)
  then show ?case by (cases "path_parts s") (auto split: if_splits)
qed simp

lemma no_dotdot_part: "strstr s ''..'' = None \<Longrightarrow> ''..'' \<notin> set (path_parts s)"
proof (induction s)
  case (Cons c s)
  have tl: "''..'' \<notin> set (path_parts s)" by (rule Cons.IH [OF strstr_tl [OF Cons.prems]])
  note none = Cons.prems
  show ?case
  proof (cases "path_parts (c # s)")
    case (Cons q qs)
    have "q \<noteq> ''..''"
    proof
      assume "q = ''..''"
      with path_parts_hd [OF Cons] strstr_None [OF none, of 0] show False by (simp del: starts_with_Cons)
    qed
    moreover have "set qs \<subseteq> set (path_parts s)"
      using Cons by (cases "c = CHR ''/''"; cases "path_parts s") auto
    ultimately show ?thesis using tl Cons by auto
  qed simp
qed simp

lemma file_path_below:
  assumes "file_path www filename = Inr p"
  shows "below www p" "p = www @ ''/'' @ filename" "length p < 511"
proof -
  have c: "strstr filename ''..'' = None" "strstr filename [BSL] = None" "\<not> starts_with ''/'' filename"
    "length www + length filename + 2 < 512" "p = fst (re_snprintf 512 [www, ''/'', filename])"
    using assms by (auto simp: file_path_def split: if_splits)
  then show p: "p = www @ ''/'' @ filename" and "length p < 511" by (simp_all add: re_snprintf_fits)
  have "BSL \<notin> set filename"
  proof
    assume "BSL \<in> set filename"
    then obtain a b where "filename = a @ BSL # b" by (meson split_list)
    then have "starts_with [BSL] (drop (length a) filename)" by simp
    with strstr_None [OF c(2)] show False by blast
  qed
  then show "below www p" using c(1,3) no_dotdot_part by (auto simp: p below_def Let_def starts_with_def)
qed

text \<open>Everything but \<open>serve_file\<close> is independent of the file system.\<close>

lemma fopen_devices [simp]:
  "dev_tcp_send (env\<lparr>en_fopen := f\<rparr>) = dev_tcp_send env"
  "dev_camera_open (env\<lparr>en_fopen := f\<rparr>) = dev_camera_open env"
  "dev_audio_out_open (env\<lparr>en_fopen := f\<rparr>) = dev_audio_out_open env"
  by (simp_all add: fun_eq_iff dev_defs)

lemma fopen_replies [simp]:
  "http_reply (env\<lparr>en_fopen := f\<rparr>) = http_reply env"
  "http_creply (env\<lparr>en_fopen := f\<rparr>) = http_creply env"
  "http_ereply (env\<lparr>en_fopen := f\<rparr>) = http_ereply env"
  "json_reply (env\<lparr>en_fopen := f\<rparr>) = json_reply env"
  by (simp_all add: fun_eq_iff http_reply_def http_creply_def http_ereply_def json_reply_def split: option.split)

lemma fopen_session_alloc [simp]: "session_alloc (env\<lparr>en_fopen := f\<rparr>) = session_alloc env"
  by (simp add: fun_eq_iff session_alloc_def Let_def case_prod_beta split: option.split sum.split)

lemma fopen_handlers [simp]:
  "handle_http_options (env\<lparr>en_fopen := f\<rparr>) = handle_http_options env"
  "handle_status (env\<lparr>en_fopen := f\<rparr>) = handle_status env"
  "handle_call_delete (env\<lparr>en_fopen := f\<rparr>) = handle_call_delete env"
  "handle_call_create (env\<lparr>en_fopen := f\<rparr>) = handle_call_create env"
  "handle_doorbell_trigger (env\<lparr>en_fopen := f\<rparr>) = handle_doorbell_trigger env"
  "handle_doorbell_status (env\<lparr>en_fopen := f\<rparr>) = handle_doorbell_status env"
  "handle_nat_info (env\<lparr>en_fopen := f\<rparr>) = handle_nat_info env"
  "not_found (env\<lparr>en_fopen := f\<rparr>) = not_found env"
  by (simp_all add: fun_eq_iff http_handlers handle_call_create_def split: sum.split prod.split)

lemma serve_file_fopen:
  assumes "\<And>t p. below (iw_www_path w) p \<Longrightarrow> f t p = en_fopen env t p"
  shows "serve_file (env\<lparr>en_fopen := f\<rparr>) conn filename w = serve_file env conn filename w"
proof (cases "file_path (iw_www_path w) filename")
  case (Inl r)
  then show ?thesis by (cases r) (simp add: serve_file_def)
next
  case (Inr p)
  with assms [OF file_path_below(1) [OF Inr]] show ?thesis by (simp add: serve_file_def split: option.split)
qed

text \<open>C7: The server discloses nothing outside its directory: what it does with a request depends only on the
  files below \<open>g_www_path\<close>. If two file systems agree on the files below that directory (a relative rest
  with no part \<open>..\<close> and no backslash), every request, whatever its method, path and body, has the same replies
  and the same effects on both.\<close>

theorem http_reads_only_www:
  assumes "\<And>t p. below (iw_www_path w) p \<Longrightarrow> f t p = en_fopen env t p"
  shows "http_req_handler (env\<lparr>en_fopen := f\<rparr>) c msg w = http_req_handler env c msg w"
proof -
  have "serve_file (env\<lparr>en_fopen := f\<rparr>) conn filename w = serve_file env conn filename w" for conn filename
    using assms by (rule serve_file_fopen)
  then show ?thesis unfolding http_req_handler_def http_dispatch_def by (simp only: fopen_handlers cong: if_cong)
qed

text \<open>The program before it starts, and a request without a body.\<close>

definition intercom_zero :: intercom_world where
  "intercom_zero =
     \<lparr>dv_tick = 0, dv_cam = cam_zero, dv_ain = ain_zero, dv_aout = aout_zero, dv_sent = [],
      rw_auth = auth_zero, rw_listening = False, rw_clients = [], rw_tmr_audio = None, rw_tmr_video = None,
      rw_camera_opened = False, rw_video_frame_count = 0, rw_port = 0, rw_local_ip = [], rw_mic_opened = False,
      iw_httpsock = False, iw_sock_refs = 0, iw_sess = None, iw_www_path = [],
      iw_doorbell = \<lparr>db_pending = False, db_timestamp = 0\<rparr>, iw_stun = stun_zero, iw_relay = relay_zero, iw_phase = 0\<rparr>"

abbreviation plain_msg :: "string \<Rightarrow> string \<Rightarrow> http_msg" where
  "plain_msg met path \<equiv> \<lparr>hm_met = met, hm_path = path, hm_body = [], hm_tail = []\<rparr>"

theorem http_reads_only_www_witness:
  "http_req_handler (good_env\<lparr>en_fopen := \<lambda>t p. if below ''www'' p then en_fopen good_env t p else None\<rparr>) 3
     (plain_msg ''GET'' ''/../etc/passwd'') (intercom_zero\<lparr>iw_www_path := ''www''\<rparr>)
   = http_req_handler good_env 3 (plain_msg ''GET'' ''/../etc/passwd'') (intercom_zero\<lparr>iw_www_path := ''www''\<rparr>)"
  by (rule http_reads_only_www) simp

section \<open>The doorbell\<close>

lemmas reply_later = reply_traffic [THEN only_trafficD(5), THEN order_trans [rotated]]

lemma tick_later: "t \<le> dv_tick w \<Longrightarrow> t \<le> dv_tick (tick w)"
  by (simp add: tick_def)

lemma http_tick_mono: "dv_tick w \<le> dv_tick (http_req_handler env c msg w)"
proof -
  have "dv_tick w \<le> dv_tick (snd (session_alloc env peer (drop_session w)))" for peer
    using session_alloc_tick [of "drop_session w" env peer] by simp
  then have "dv_tick w \<le> dv_tick (handle_call_create env (Some c) msg w)"
    by (simp add: handle_call_create_def Let_def case_prod_beta reply_later split: sum.split)
  then show ?thesis
    by (simp add: http_req_handler_def http_dispatch_def http_handlers reply_later tick_later)
qed

text \<open>The requests that ring and that ask for a ring, and when a ring is accepted.\<close>

definition is_ring :: "http_msg \<Rightarrow> bool" where
  "is_ring msg \<longleftrightarrow> strcaseeq (hm_met msg) ''POST'' \<and> hm_path msg = ''/api/doorbell''"

definition is_poll :: "http_msg \<Rightarrow> bool" where
  "is_poll msg \<longleftrightarrow> strcaseeq (hm_met msg) ''GET'' \<and> hm_path msg = ''/api/doorbell/status''"

definition ring_accepted :: "env \<Rightarrow> 'a intercom_world_scheme \<Rightarrow> bool" where
  "ring_accepted env w \<longleftrightarrow> \<not> ring_refused (en_jiffies env (dv_tick w)) (iw_doorbell w)"

definition http_run :: "env \<Rightarrow> (nat \<times> http_msg) list \<Rightarrow> 'a intercom_world_scheme \<Rightarrow> 'a intercom_world_scheme" where
  "http_run env reqs w = foldl (\<lambda>v (c, msg). http_req_handler env c msg v) w reqs"

lemma strcaseeq_length: "strcaseeq s t \<Longrightarrow> length s = length t"
  unfolding strcaseeq_def by (metis length_map)

lemma met_distinct:
  "strcaseeq m ''POST'' \<Longrightarrow> \<not> strcaseeq m ''OPTIONS'' \<and> \<not> strcaseeq m ''GET'' \<and> \<not> strcaseeq m ''DELETE''"
  "strcaseeq m ''GET'' \<Longrightarrow> \<not> strcaseeq m ''OPTIONS'' \<and> \<not> strcaseeq m ''POST'' \<and> \<not> strcaseeq m ''DELETE''"
  by (auto dest!: strcaseeq_length)

lemma dispatch_ring: "is_ring msg \<Longrightarrow> http_dispatch env conn msg w = handle_doorbell_trigger env conn w"
  using met_distinct(1) [of "hm_met msg"] by (simp add: is_ring_def http_dispatch_def)

lemma dispatch_poll: "is_poll msg \<Longrightarrow> http_dispatch env conn msg w = handle_doorbell_status env conn w"
  using met_distinct(2) [of "hm_met msg"] by (simp add: is_poll_def http_dispatch_def)

lemma dispatch_other: "\<not> is_ring msg \<Longrightarrow> \<not> is_poll msg \<Longrightarrow> iw_doorbell (http_dispatch env conn msg w) = iw_doorbell w"
  by (auto simp: is_ring_def is_poll_def http_dispatch_def Let_def handle_http_options_def handle_status_def
      handle_call_delete_def handle_nat_info_def not_found_def)

lemma doorbell_step:
  "iw_doorbell (http_req_handler env c msg w) =
     (if is_ring msg \<and> ring_accepted env w then \<lparr>db_pending = True, db_timestamp = en_jiffies env (dv_tick w)\<rparr>
      else if is_poll msg then (iw_doorbell w)\<lparr>db_pending := False\<rparr>
      else iw_doorbell w)"
proof -
  have "\<not> is_poll msg" if "is_ring msg" using that by (simp add: is_ring_def is_poll_def)
  then show ?thesis
    by (cases "is_ring msg"; cases "is_poll msg")
      (simp_all add: http_req_handler_def dispatch_ring dispatch_poll dispatch_other handle_doorbell_trigger_def
        handle_doorbell_status_def ring_accepted_def Let_def)
qed

lemma http_run_Cons [simp]: "http_run env (r # reqs) w = http_run env reqs (http_req_handler env (fst r) (snd r) w)"
  and http_run_Nil [simp]: "http_run env [] w = w"
  by (simp_all add: http_run_def case_prod_beta)

lemma timestamp_bounds:
  assumes mono: "\<And>s t. s \<le> t \<Longrightarrow> en_jiffies env s \<le> en_jiffies env t"
    and "T \<le> db_timestamp (iw_doorbell w)" and "db_timestamp (iw_doorbell w) \<le> en_jiffies env (dv_tick w)"
  shows "T \<le> db_timestamp (iw_doorbell (http_run env reqs w))
       \<and> db_timestamp (iw_doorbell (http_run env reqs w)) \<le> en_jiffies env (dv_tick (http_run env reqs w))"
  using assms(2,3)
proof (induction reqs arbitrary: w)
  case (Cons r reqs)
  obtain c m where r: "r = (c, m)" by (cases r)
  let ?w' = "http_req_handler env c m w"
  have j: "en_jiffies env (dv_tick w) \<le> en_jiffies env (dv_tick ?w')" by (rule mono [OF http_tick_mono])
  have "T \<le> db_timestamp (iw_doorbell ?w')" "db_timestamp (iw_doorbell ?w') \<le> en_jiffies env (dv_tick ?w')"
    using Cons.prems j by (auto simp: doorbell_step)
  with Cons.IH [of ?w'] r show ?case by simp
qed simp

lemma pending_kept:
  "list_all (\<lambda>(c, m). \<not> is_poll m) reqs \<Longrightarrow> db_pending (iw_doorbell w) \<Longrightarrow> db_pending (iw_doorbell (http_run env reqs w))"
  by (induction reqs arbitrary: w) (simp_all add: doorbell_step case_prod_beta)

lemma not_pending_kept:
  "list_all (\<lambda>(c, m). \<not> is_ring m) reqs \<Longrightarrow> \<not> db_pending (iw_doorbell w) \<Longrightarrow> \<not> db_pending (iw_doorbell (http_run env reqs w))"
  by (induction reqs arbitrary: w) (simp_all add: doorbell_step case_prod_beta)


text \<open>The messages a client gets as a reply of the API.\<close>

definition api_reply :: "nat \<Rightarrow> nat \<Rightarrow> string \<Rightarrow> string \<Rightarrow> net_event list" where
  "api_reply c scode reason body =
     [TcpSend c (text_bytes (''HTTP/1.1 '' @ itoa_dec scode @ '' '' @ reason @ crlf @ json_headers @ body)), TcpClosed c]"

lemma json_reply_sent:
  assumes "network_up env" and "0 < scode"
  shows "dv_sent (http_conn_close (Some c) (json_reply env (Some c) scode reason body w)) = dv_sent w @ api_reply c scode reason body"
  using assms by (simp add: json_reply_def http_reply_def http_conn_close_def dev_tcp_send_def network_up_def api_reply_def text_bytes_def)

text \<open>C33: Every accepted ring is reported exactly once: after an accepted ring, the next request for the doorbell's
  state, with any other requests in between, is answered with \<open>ringing:true\<close>; after such a request the
  answer is \<open>ringing:false\<close> until the doorbell rings again.\<close>

theorem doorbell_reported_once:
  assumes "network_up env" and "is_poll q"
  shows "(is_ring m \<and> ring_accepted env w \<and> list_all (\<lambda>(c, m). \<not> is_poll m) reqs \<longrightarrow>
      (let w' = http_run env reqs (http_req_handler env c m w)
       in dv_sent (http_req_handler env d q w') = dv_sent w' @ api_reply d 200 ''OK'' (ringing_body True)))
    \<and> (is_poll m \<and> list_all (\<lambda>(c, m). \<not> is_ring m) reqs \<longrightarrow>
      (let w' = http_run env reqs (http_req_handler env c m w)
       in dv_sent (http_req_handler env d q w') = dv_sent w' @ api_reply d 200 ''OK'' (ringing_body False)))"
proof -
  have poll: "dv_sent (http_req_handler env d q v) = dv_sent v @ api_reply d 200 ''OK'' (ringing_body (db_pending (iw_doorbell v)))"
    for v :: "'a intercom_world_scheme"
    by (simp add: http_req_handler_def dispatch_poll [OF assms(2)] handle_doorbell_status_def json_reply_sent [OF assms(1)])
  have "\<not> is_ring m" if "is_poll m" using that by (simp add: is_ring_def is_poll_def)
  then have "is_poll m \<Longrightarrow> \<not> db_pending (iw_doorbell (http_req_handler env c m w))" by (simp add: doorbell_step)
  moreover have "is_ring m \<Longrightarrow> ring_accepted env w \<Longrightarrow> db_pending (iw_doorbell (http_req_handler env c m w))"
    by (simp add: doorbell_step)
  ultimately show ?thesis
    using pending_kept [of reqs "http_req_handler env c m w" env] not_pending_kept [of reqs "http_req_handler env c m w" env]
    by (simp add: Let_def poll)
qed

abbreviation ring_msg :: http_msg where "ring_msg \<equiv> plain_msg ''POST'' ''/api/doorbell''"
abbreviation poll_msg :: http_msg where "poll_msg \<equiv> plain_msg ''GET'' ''/api/doorbell/status''"

lemma example_msgs: "is_ring ring_msg" "is_poll poll_msg"
  by (simp_all add: is_ring_def is_poll_def strcaseeq_def)

lemma first_ring_accepted: "ring_accepted env intercom_zero"
  by (simp add: ring_accepted_def ring_refused_def intercom_zero_def)

theorem doorbell_reported_once_witness:
  "let w' = http_run good_env [(4, plain_msg ''GET'' ''/api/nat'')] (http_req_handler good_env 3 ring_msg intercom_zero)
   in dv_sent (http_req_handler good_env 5 poll_msg w') = dv_sent w' @ api_reply 5 200 ''OK'' (ringing_body True)"
  using doorbell_reported_once [OF good_env_up example_msgs(2), of ring_msg intercom_zero "[(4, plain_msg ''GET'' ''/api/nat'')]"]
    example_msgs(1) first_ring_accepted [of good_env] by (simp add: is_poll_def)


section \<open>Calls\<close>

lemma parse_peer_text:
  assumes "hm_body msg = [CHR ''{'', DQ] @ ''peer'' @ [DQ, CHR '':'', DQ] @ a @ [DQ, CHR ''}'']"
    and "DQ \<notin> set a" and "NUL \<notin> set a" and "a \<noteq> []" and "hd a \<noteq> CHR '' ''" and "hd a \<noteq> CHR '':''" and "length a < 64"
  shows "parse_peer msg = a"
proof -
  let ?body = "[CHR ''{'', DQ] @ ''peer'' @ [DQ, CHR '':'', DQ] @ a @ [DQ, CHR ''}'']" and ?t = "c_str (hm_tail msg)"
  have tx: "c_str (?body @ hm_tail msg) = ''{'' @ (DQ # ''peer'' @ [DQ]) @ [CHR '':'', DQ] @ a @ DQ # CHR ''}'' # ?t"
  proof -
    have "takeWhile (\<lambda>c. c \<noteq> NUL) (a @ y) = a @ takeWhile (\<lambda>c. c \<noteq> NUL) y" for y
      using assms(3) by (intro takeWhile_append2) auto
    then show ?thesis by (simp add: c_str_def)
  qed
  have hit: "strstr (''{'' @ (DQ # ''peer'' @ [DQ]) @ [CHR '':'', DQ] @ a @ DQ # CHR ''}'' # ?t) (DQ # ''peer'' @ [DQ]) = Some 1"
    using strstr_append_hit [of DQ "''{''" "''peer'' @ [DQ]" "[CHR '':'', DQ] @ a @ DQ # CHR ''}'' # ?t"] by simp
  obtain x b where ab: "a = x # b" "x \<noteq> CHR '' ''" "x \<noteq> CHR '':''" "x \<noteq> DQ" using assms(2,4-6) by (cases a) auto
  have sep: "takeWhile (\<lambda>c. c = CHR '' '' \<or> c = CHR '':'' \<or> c = DQ)
        (take (length ?body - (1 + 6)) ([CHR '':'', DQ] @ a @ DQ # CHR ''}'' # ?t)) = [CHR '':'', DQ]"
    using ab by simp
  have "strchr (a @ DQ # CHR ''}'' # ?t) DQ = Some (length a)" by (rule strchr_append_hit [OF assms(2)])
  then show ?thesis using assms(7) sep
    unfolding parse_peer_def assms(1) tx Let_def hit by (simp add: Let_def)
qed

lemma printed_address:
  assumes "a = concat (fmt_J sys (sa_set_in ip port))"
  shows "DQ \<notin> set a" "NUL \<notin> set a" "a \<noteq> []" "hd a \<noteq> CHR '' ''" "hd a \<noteq> CHR '':''" "length a < 64"
proof -
  have t: "a = inet_ntop4 ip @ CHR '':'' # itoa_dec (unat port)"
    using assms by (simp add: fmt_J_def sa_set_in_def sa_ntop_def sa_port_def)
  have c: "set a \<subseteq> {c. is_digit c} \<union> {CHR ''.'', CHR '':''}"
    using inet_ntop4_chars [of ip] itoa_dec_digits [of "unat port"] by (auto simp: t list_all_iff)
  then show "DQ \<notin> set a" "NUL \<notin> set a" by (auto simp: is_digit_def)
  have ne: "inet_ntop4 ip \<noteq> []" by (simp add: inet_ntop4_def Let_def)
  then have "hd a \<in> set (inet_ntop4 ip)" by (simp add: t)
  then show "hd a \<noteq> CHR '' ''" "hd a \<noteq> CHR '':''" using inet_ntop4_chars [of ip] by (auto simp: is_digit_def)
  show "a \<noteq> []" by (simp add: t)
  show "length a < 64" unfolding assms by (rule length_fmt_J_in)
qed

text \<open>A call is set up with the peer the request names: if the body is \<open>{"peer":"<address>"}\<close> with the text of an IPv4
  address and port, whatever lies behind the body in memory, and the devices and the socket can be
  opened, then afterwards the one session of the program is a running call with exactly that peer, and
  the client gets the status 201 with the session's port and the peer; if they cannot be opened, there is no
  session afterwards.\<close>

lemma call_created:
  assumes "network_up env" and "strcaseeq (hm_met msg) ''POST''" and "hm_path msg = ''/api/call''"
    and "hm_body msg = [CHR ''{'', DQ] @ ''peer'' @ [DQ, CHR '':'', DQ] @ concat (fmt_J (en_inet env) (sa_set_in ip port)) @ [DQ, CHR ''}'']"
  shows "case fst (session_alloc env (sa_set_in ip port) (drop_session w)) of
      Inl e \<Rightarrow> iw_sess (http_req_handler env c msg w) = None
    | Inr s \<Rightarrow>
        iw_sess (http_req_handler env c msg w) = Some s \<and> session_live (sa_set_in ip port) s
        \<and> dv_sent (http_req_handler env c msg w) = dv_sent (snd (session_alloc env (sa_set_in ip port) (drop_session w)))
            @ api_reply c 201 ''Created'' (created_body (ss_local_port s) (concat (fmt_J (en_inet env) (sa_set_in ip port))))"
proof -
  let ?sa = "sa_set_in ip port" and ?a = "concat (fmt_J (en_inet env) (sa_set_in ip port))"
  note pa = printed_address [OF refl, of "en_inet env" ip port]
  have peer: "call_peer msg = ?a"
    using parse_peer_text [OF assms(4) pa] pa(3) unfolding call_peer_def by auto
  have "http_dispatch env (Some c) msg w = handle_call_create env (Some c) msg w"
    using met_distinct(1) [OF assms(2)] assms(2,3) by (simp add: http_dispatch_def)
  then have h: "http_req_handler env c msg w = http_conn_close (Some c) (handle_call_create env (Some c) msg w)"
    by (simp add: http_req_handler_def)
  obtain r w1 where alloc: "session_alloc env ?sa (drop_session w) = (r, w1)" by (cases "session_alloc env ?sa (drop_session w)")
  have none: "iw_sess w1 = None" using session_keeps(4) [of env ?sa "drop_session w"] alloc by simp
  show ?thesis
  proof (cases r)
    case (Inl e)
    then show ?thesis unfolding h using none by (simp add: handle_call_create_def Let_def peer sa_print_decode alloc)
  next
    case (Inr s)
    with alloc have "session_live ?sa s" by (simp add: session_alloc_live)
    with Inr show ?thesis
      unfolding h using json_reply_sent [OF assms(1), of 201 c "''Created''" "created_body (ss_local_port s) ?a" "w1\<lparr>iw_sess := Some s\<rparr>"]
      by (simp add: handle_call_create_def Let_def peer sa_print_decode alloc)
  qed
qed

lemma call_created_witness:
  "iw_sess (http_req_handler good_env 3 \<lparr>hm_met = ''POST'', hm_path = ''/api/call'',
      hm_body = [CHR ''{'', DQ] @ ''peer'' @ [DQ, CHR '':'', DQ] @ concat (fmt_J (en_inet good_env) (sa_set_in 0x0A000007 5006)) @ [DQ, CHR ''}''],
      hm_tail = ''garbage''\<rparr> intercom_zero) \<noteq> None"
proof -
  have "isl (fst (session_alloc good_env (sa_set_in 0x0A000007 5006) (drop_session intercom_zero))) = False"
    by (simp add: session_alloc_def dev_camera_open_def camera_open_def good_env_def cam_zero_def Let_def
        case_prod_beta tick_def drop_session_def intercom_zero_def)
  then obtain s where "fst (session_alloc good_env (sa_set_in 0x0A000007 5006) (drop_session intercom_zero)) = Inr s"
    by (cases "fst (session_alloc good_env (sa_set_in 0x0A000007 5006) (drop_session intercom_zero))") auto
  with call_created [OF good_env_up, where msg = "\<lparr>hm_met = ''POST'', hm_path = ''/api/call'',
      hm_body = [CHR ''{'', DQ] @ ''peer'' @ [DQ, CHR '':'', DQ] @ concat (fmt_J (en_inet good_env) (sa_set_in 0x0A000007 5006)) @ [DQ, CHR ''}''],
      hm_tail = ''garbage''\<rparr>" and ip = "0x0A000007" and port = 5006 and w = intercom_zero and c = 3]
  show ?thesis by (simp add: strcaseeq_def)
qed

text \<open>Hanging up ends the call: after \<open>DELETE /api/call\<close> there is no session, the camera and the loudspeaker of the call
  are closed, the client gets \<open>status:ok\<close>, and the next status request reports no active call.\<close>

lemma call_deleted:
  assumes "network_up env" and "strcaseeq (hm_met msg) ''DELETE''" and "hm_path msg = ''/api/call''"
    and "iw_sess w = Some s"
  shows "let w' = http_req_handler env c msg w
     in iw_sess w' = None \<and> \<not> cam_opened (dv_cam w') \<and> \<not> ao_opened (dv_aout w')
      \<and> dv_sent w' = dv_sent w @ api_reply c 200 ''OK'' ok_body
      \<and> dv_sent (http_conn_close (Some d) (handle_status env (Some d) w')) =
          dv_sent w' @ api_reply d 200 ''OK'' ([CHR ''{'', DQ] @ ''active'' @ [DQ] @ '':false}'')"
proof -
  have "\<not> strcaseeq (hm_met msg) ''OPTIONS'' \<and> \<not> strcaseeq (hm_met msg) ''GET'' \<and> \<not> strcaseeq (hm_met msg) ''POST''"
    using assms(2) by (auto dest!: strcaseeq_length)
  then have "http_dispatch env (Some c) msg w = handle_call_delete env (Some c) w"
    using assms(2,3) by (simp add: http_dispatch_def)
  then have h: "http_req_handler env c msg w = http_conn_close (Some c) (json_reply env (Some c) 200 ''OK'' ok_body (drop_session w))"
    by (simp add: http_req_handler_def handle_call_delete_def)
  have dev: "\<not> cam_opened (dv_cam (drop_session w))" "\<not> ao_opened (dv_aout (drop_session w))" "dv_sent (drop_session w) = dv_sent w"
    using assms(4) by (simp_all add: drop_session_def session_destructor_def dev_defs camera_close_def audio_out_close_def Let_def
        cam_zero_def aout_zero_def)
  have "dv_sent (http_req_handler env c msg w) = dv_sent w @ api_reply c 200 ''OK'' ok_body"
    unfolding h using json_reply_sent [OF assms(1), of 200 c "''OK''" ok_body "drop_session w"] dev(3) by simp
  moreover have "iw_sess (http_req_handler env c msg w) = None" "\<not> cam_opened (dv_cam (http_req_handler env c msg w))"
    "\<not> ao_opened (dv_aout (http_req_handler env c msg w))" unfolding h using dev by simp_all
  ultimately show ?thesis
    by (simp add: Let_def handle_status_def status_body_def json_reply_sent [OF assms(1)])
qed

lemma call_deleted_witness:
  "iw_sess (http_req_handler good_env 3 (plain_msg ''DELETE'' ''/api/call'') (intercom_zero\<lparr>iw_sess := Some session_zero\<rparr>)) = None"
  using call_deleted [OF good_env_up, of "plain_msg ''DELETE'' ''/api/call''" "intercom_zero\<lparr>iw_sess := Some session_zero\<rparr>" session_zero 3]
  by (simp add: strcaseeq_def Let_def)

section \<open>Observations\<close>

text \<open>The report on the network state always fits its buffer, so it is complete JSON.\<close>

lemma nat_body_fits:
  assumes "length (sn_public_addr st) < 64" and "length (rl_relay_addr rl) < 256"
  shows "fst (re_snprintf 512 (nat_body_chunks st rl)) = concat (nat_body_chunks st rl)"
proof -
  have "length (concat (json_opt (stun_get_public_addr st))) \<le> 65" "length (concat (json_opt (relay_client_get_server rl))) \<le> 257"
    using assms by (simp_all add: json_opt_def stun_get_public_addr_def relay_client_get_server_def)
  then have "length (concat (nat_body_chunks st rl)) < 512" by (simp add: nat_body_chunks_def)
  then show ?thesis by (simp add: re_snprintf_fits)
qed

text \<open>
  A call takes the camera away from the RTSP server: after hanging up the camera is closed while the server
  still believes it open, and its video timer sends nothing from then on.
\<close>

lemma hangup_stops_rtsp_video:
  assumes "iw_sess w = Some s" and "rw_camera_opened w"
  shows "rw_camera_opened (handle_call_delete env conn w)"
    and "isl (fst (dev_get_frame env' (handle_call_delete env conn w)))"
proof -
  have "rtsp_part (handle_call_delete env conn w) = rtsp_part w" by (simp add: handle_call_delete_def)
  then show "rw_camera_opened (handle_call_delete env conn w)" using assms(2) by (simp add: rtsp_part_def)
  have "\<not> cam_opened (dv_cam (handle_call_delete env conn w))"
    using assms(1) by (simp add: handle_call_delete_def drop_session_def session_destructor_def dev_defs camera_close_def cam_zero_def)
  then show "isl (fst (dev_get_frame env' (handle_call_delete env conn w)))"
    by (simp add: dev_get_frame_def camera_get_frame_def case_prod_beta Let_def)
qed

end
