(* ===== verification/Relay_Server.thy ===== *)
theory Relay_Server
  imports Prelude
begin

text \<open>
  The relay server (\<open>relay_server/relay_server.c\<close>), a program of its own: devices register over TCP and
  wait, a client that asks for a device is connected with it, and from then on two threads copy bytes
  between the two sockets.

  A connection is handled by a thread (\<open>handle_connection\<close>). Its state \<open>rthread\<close> is the place in that function
  and the local variables that are live there; \<open>thread_step\<close> executes the code up to the next place, with
  the regions between \<open>LOCK()\<close> and \<open>UNLOCK()\<close> and each system call atomic. \<open>relay_step\<close> interleaves the
  threads, the connections that \<open>main\<close> accepts, and what the peers do. The POSIX variant of the code is
  modelled; threads that cannot be created are not.

  A socket is found by its descriptor, which the system may give out again after \<open>close\<close>. \<open>sk_in\<close> are the
  bytes that arrived and were not read, \<open>sk_out\<close> all bytes written to it.
\<close>

abbreviation MAX_DEVICES :: nat where "MAX_DEVICES \<equiv> 64"
abbreviation MAX_LINE :: nat where "MAX_LINE \<equiv> 256"
abbreviation BRIDGE_BUF_SIZE :: nat where "BRIDGE_BUF_SIZE \<equiv> 16384"
abbreviation AUTH_TOKEN :: string where "AUTH_TOKEN \<equiv> ''smartlock2026''"

section \<open>The registry\<close>

record device_slot =
  ds_in_use :: bool
  ds_bridging :: bool
  ds_device_id :: string
  ds_sock :: nat

definition devices_init :: "device_slot list" where
  "devices_init = replicate MAX_DEVICES \<lparr>ds_in_use = False, ds_bridging = False, ds_device_id = [], ds_sock = 0\<rparr>"

text \<open>The index searches; \<open>None\<close> is \<open>-1\<close>.\<close>

definition find_device :: "device_slot list \<Rightarrow> string \<Rightarrow> nat option" where
  "find_device ds device_id =
     List.find (\<lambda>i. ds_in_use (ds ! i) \<and> \<not> ds_bridging (ds ! i) \<and> ds_device_id (ds ! i) = device_id) [0..<MAX_DEVICES]"

definition alloc_device_slot :: "device_slot list \<Rightarrow> nat option" where
  "alloc_device_slot ds = List.find (\<lambda>i. \<not> ds_in_use (ds ! i)) [0..<MAX_DEVICES]"

text \<open>
  The locked region of REGISTER: the socket of an earlier registration to close, the slot or \<open>None\<close> when the
  table is full, and the new table. \<open>strncpy\<close> with the terminator keeps 63 characters.
\<close>

definition register_device :: "device_slot list \<Rightarrow> string \<Rightarrow> nat \<Rightarrow> nat option \<times> nat option \<times> device_slot list" where
  "register_device ds device_id sock =
     (let existing = find_device ds device_id;
          ds1 = (case existing of None \<Rightarrow> ds | Some e \<Rightarrow> ds[e := (ds ! e)\<lparr>ds_in_use := False\<rparr>]);
          old = map_option (\<lambda>e. ds_sock (ds ! e)) existing
      in case alloc_device_slot ds1 of
           None \<Rightarrow> (old, None, ds1)
         | Some slot \<Rightarrow>
             (old, Some slot,
              ds1[slot := (ds1 ! slot)\<lparr>ds_in_use := True, ds_device_id := take 63 device_id, ds_sock := sock\<rparr>]))"

definition unregister_device :: "device_slot list \<Rightarrow> nat \<Rightarrow> nat \<Rightarrow> device_slot list" where
  "unregister_device ds slot sock =
     (if ds_in_use (ds ! slot) \<and> ds_sock (ds ! slot) = sock then ds[slot := (ds ! slot)\<lparr>ds_in_use := False\<rparr>] else ds)"

definition take_device :: "device_slot list \<Rightarrow> string \<Rightarrow> (nat \<times> nat \<times> device_slot list) option" where
  "take_device ds device_id =
     (case find_device ds device_id of
        None \<Rightarrow> None
      | Some idx \<Rightarrow> Some (idx, ds_sock (ds ! idx), ds[idx := (ds ! idx)\<lparr>ds_bridging := True\<rparr>]))"

definition release_device :: "device_slot list \<Rightarrow> nat \<Rightarrow> device_slot list" where
  "release_device ds idx = ds[idx := (ds ! idx)\<lparr>ds_in_use := False, ds_bridging := False\<rparr>]"

section \<open>The first line\<close>

datatype readline_result = RL_More | RL_Line bytes bytes

definition strip_cr :: "bytes \<Rightarrow> bytes" where
  "strip_cr buf = (if buf \<noteq> [] \<and> last buf = 0x0D then butlast buf else buf)"

text \<open>\<open>readline\<close> with \<open>buf\<close> read so far: the line and what stays unread, or the need for more input.\<close>

fun readline :: "nat \<Rightarrow> bytes \<Rightarrow> bytes \<Rightarrow> readline_result" where
  "readline bufsz buf [] = (if length buf < bufsz - 1 then RL_More else RL_Line buf [])"
| "readline bufsz buf (c # cs) =
     (if length buf < bufsz - 1
      then (if c = 0x0A then RL_Line (strip_cr buf) cs else readline bufsz (buf @ [c]) cs)
      else RL_Line buf (c # cs))"

definition id_char :: "char \<Rightarrow> bool" where
  "id_char c =
     (let n = of_char c :: nat
      in 97 \<le> n \<and> n \<le> 122 \<or> 65 \<le> n \<and> n \<le> 90 \<or> 48 \<le> n \<and> n \<le> 57 \<or> c = CHR ''-'' \<or> c = CHR ''_'')"

text \<open>What the first line asks for; \<open>Reject\<close> carries the bytes of the answer.\<close>

datatype line_action = Reject string | Register string | Connect string

definition parse_line :: "string \<Rightarrow> line_action" where
  "parse_line line =
     (if starts_with ''REGISTER '' line
      then (let rest = drop 9 line
            in case strchr rest CHR '' '' of
                 None \<Rightarrow> Reject (''ERROR auth_failed'' @ crlf)
               | Some i \<Rightarrow>
                   if drop (i + 1) rest \<noteq> AUTH_TOKEN then Reject (''ERROR auth_failed'' @ crlf)
                   else if \<not> list_all id_char (take i rest) then Reject (''ERROR invalid_id'' @ crlf)
                   else Register (take i rest))
      else if starts_with ''CONNECT '' line
      then (let device_id = drop 8 line
            in if \<not> list_all id_char device_id then Reject (''ERROR invalid_id'' @ crlf) else Connect device_id)
      else Reject (take 22 (''ERROR unknown_command'' @ crlf)))"

section \<open>Sockets\<close>

record sock =
  sk_open :: bool
  sk_in :: bytes
  sk_eof :: bool
  sk_out :: bytes
  sk_shut :: bool

type_synonym socks = "nat \<Rightarrow> sock"

definition sock_closed :: sock where
  "sock_closed = \<lparr>sk_open = False, sk_in = [], sk_eof = False, sk_out = [], sk_shut = False\<rparr>"

definition send_msg :: "nat \<Rightarrow> bytes \<Rightarrow> socks \<Rightarrow> socks" where
  "send_msg fd bs ss = (if sk_open (ss fd) \<and> \<not> sk_shut (ss fd) then ss(fd := (ss fd)\<lparr>sk_out := sk_out (ss fd) @ bs\<rparr>) else ss)"

definition close_sock :: "nat \<Rightarrow> socks \<Rightarrow> socks" where
  "close_sock fd ss = ss(fd := (ss fd)\<lparr>sk_open := False\<rparr>)"

definition shutdown_sock :: "nat \<Rightarrow> socks \<Rightarrow> socks" where
  "shutdown_sock fd ss = (if sk_open (ss fd) then ss(fd := (ss fd)\<lparr>sk_shut := True, sk_eof := True\<rparr>) else ss)"

text \<open>A read that would return data, report the end or an error, or wait.\<close>

datatype recv_state = Data | Ended | Blocked

definition recv_state :: "nat \<Rightarrow> socks \<Rightarrow> recv_state" where
  "recv_state fd ss =
     (if \<not> sk_open (ss fd) then Ended
      else if sk_in (ss fd) \<noteq> [] then Data
      else if sk_eof (ss fd) then Ended else Blocked)"

section \<open>Copying between two sockets\<close>

text \<open>
  \<open>bridge_one_dir\<close>: waiting in \<open>recv\<close>, in the send loop with the bytes not yet sent, or finished. A read
  returns \<open>1 \<le> n \<le> BRIDGE_BUF_SIZE\<close> of the bytes there are, a write takes \<open>1 \<le> n\<close> of the rest or fails;
  \<open>n\<close> and \<open>ok\<close> are the system's choice.
\<close>

datatype bridge_dir = Reading | Sending bytes | Finished

definition chosen :: "nat \<Rightarrow> nat \<Rightarrow> nat" where
  "chosen n len = max 1 (min n len)"

definition bridge_one_dir :: "nat \<Rightarrow> nat \<Rightarrow> nat \<Rightarrow> bool \<Rightarrow> bridge_dir \<Rightarrow> socks \<Rightarrow> (bridge_dir \<times> socks) option" where
  "bridge_one_dir s1 s2 n ok d ss =
     (case d of
        Reading \<Rightarrow>
          (case recv_state s1 ss of
             Blocked \<Rightarrow> None
           | Ended \<Rightarrow> Some (Finished, shutdown_sock s2 ss)
           | Data \<Rightarrow>
               (let k = chosen n (min BRIDGE_BUF_SIZE (length (sk_in (ss s1))))
                in Some (Sending (take k (sk_in (ss s1))), ss(s1 := (ss s1)\<lparr>sk_in := drop k (sk_in (ss s1))\<rparr>))))
      | Sending buf \<Rightarrow>
          if buf = [] then Some (Reading, ss)
          else if \<not> ok \<or> \<not> sk_open (ss s2) \<or> sk_shut (ss s2) then Some (Finished, shutdown_sock s2 ss)
          else (let k = chosen n (length buf)
                in Some (Sending (drop k buf), send_msg s2 (take k buf) ss))
      | Finished \<Rightarrow> None)"

section \<open>Connections\<close>

datatype rthread =
    AtReadline nat
  | AtRegister nat string
  | AtRegisterOk nat nat
  | AtPeek nat nat
  | AtUnregister nat nat
  | AtClose nat
  | AtLookup nat string
  | AtConnectOk nat nat nat
  | AtNotify nat nat nat
  | AtBridge nat nat nat
  | AtCopy nat nat nat bridge_dir bridge_dir
  | AtRelease nat nat nat
  | AtCloseBoth nat nat
  | AtReturn

record relay_state =
  rs_devices :: "device_slot list"
  rs_socks :: socks
  rs_threads :: "rthread list"

text \<open>What the system and the scheduler decide in a step: a direction, an amount, success of a call.\<close>

record choice =
  ch_first :: bool
  ch_n :: nat
  ch_ok :: bool

definition begin_connection :: "nat \<Rightarrow> relay_state \<Rightarrow> (rthread \<times> relay_state) option" where
  "begin_connection s st =
     (let ss = rs_socks st;
          drop_conn = Some (AtReturn, st\<lparr>rs_socks := close_sock s ss\<rparr>)
      in if \<not> sk_open (ss s) then drop_conn
         else case readline MAX_LINE [] (sk_in (ss s)) of
                RL_More \<Rightarrow> (if sk_eof (ss s) then drop_conn else None)
              | RL_Line line rest \<Rightarrow>
                  if line = [] then drop_conn
                  else (let st1 = st\<lparr>rs_socks := ss(s := (ss s)\<lparr>sk_in := rest\<rparr>)\<rparr>
                        in case parse_line (c_str (bytes_text line)) of
                             Reject msg \<Rightarrow>
                               Some (AtClose s, st1\<lparr>rs_socks := send_msg s (text_bytes msg) (rs_socks st1)\<rparr>)
                           | Register device_id \<Rightarrow> Some (AtRegister s device_id, st1)
                           | Connect device_id \<Rightarrow> Some (AtLookup s device_id, st1)))"

definition copy_step :: "choice \<Rightarrow> nat \<Rightarrow> nat \<Rightarrow> nat \<Rightarrow> bridge_dir \<Rightarrow> bridge_dir \<Rightarrow> relay_state \<Rightarrow> (rthread \<times> relay_state) option" where
  "copy_step ch s dev idx d1 d2 st =
     (if d1 = Finished \<and> d2 = Finished then Some (AtRelease s dev idx, st)
      else if ch_first ch
      then (case bridge_one_dir s dev (ch_n ch) (ch_ok ch) d1 (rs_socks st) of
              None \<Rightarrow> None
            | Some (d, ss) \<Rightarrow> Some (AtCopy s dev idx d d2, st\<lparr>rs_socks := ss\<rparr>))
      else (case bridge_one_dir dev s (ch_n ch) (ch_ok ch) d2 (rs_socks st) of
              None \<Rightarrow> None
            | Some (d, ss) \<Rightarrow> Some (AtCopy s dev idx d1 d, st\<lparr>rs_socks := ss\<rparr>)))"

fun thread_step :: "choice \<Rightarrow> rthread \<Rightarrow> relay_state \<Rightarrow> (rthread \<times> relay_state) option" where
  "thread_step ch (AtReadline s) st = begin_connection s st"
| "thread_step ch (AtRegister s device_id) st =
     (let (old, slot, ds) = register_device (rs_devices st) device_id s;
          st1 = st\<lparr>rs_devices := ds, rs_socks := (case old of None \<Rightarrow> rs_socks st | Some o' \<Rightarrow> close_sock o' (rs_socks st))\<rparr>
      in case slot of
           None \<Rightarrow> Some (AtClose s, st1\<lparr>rs_socks := send_msg s (text_bytes (''ERROR server_full'' @ crlf)) (rs_socks st1)\<rparr>)
         | Some i \<Rightarrow> Some (AtRegisterOk s i, st1))"
| "thread_step ch (AtRegisterOk s slot) st =
     Some (AtPeek s slot, st\<lparr>rs_socks := send_msg s (text_bytes (''OK'' @ crlf)) (rs_socks st)\<rparr>)"
| "thread_step ch (AtPeek s slot) st =
     (case recv_state s (rs_socks st) of
        Data \<Rightarrow> Some (AtPeek s slot, st)
      | Ended \<Rightarrow> Some (AtUnregister s slot, st)
      | Blocked \<Rightarrow> None)"
| "thread_step ch (AtUnregister s slot) st =
     Some (AtClose s, st\<lparr>rs_devices := unregister_device (rs_devices st) slot s\<rparr>)"
| "thread_step ch (AtClose s) st = Some (AtReturn, st\<lparr>rs_socks := close_sock s (rs_socks st)\<rparr>)"
| "thread_step ch (AtLookup s device_id) st =
     (case take_device (rs_devices st) device_id of
        None \<Rightarrow> Some (AtClose s, st\<lparr>rs_socks := send_msg s (text_bytes (''ERROR device_not_found'' @ crlf)) (rs_socks st)\<rparr>)
      | Some (idx, dev, ds) \<Rightarrow> Some (AtConnectOk s dev idx, st\<lparr>rs_devices := ds\<rparr>))"
| "thread_step ch (AtConnectOk s dev idx) st =
     Some (AtNotify s dev idx, st\<lparr>rs_socks := send_msg s (text_bytes (''OK'' @ crlf)) (rs_socks st)\<rparr>)"
| "thread_step ch (AtNotify s dev idx) st =
     Some (AtBridge s dev idx, st\<lparr>rs_socks := send_msg dev (text_bytes (''BRIDGE'' @ crlf)) (rs_socks st)\<rparr>)"
| "thread_step ch (AtBridge s dev idx) st =
     Some (if ch_ok ch then AtCopy s dev idx Reading Reading else AtRelease s dev idx, st)"
| "thread_step ch (AtCopy s dev idx d1 d2) st = copy_step ch s dev idx d1 d2 st"
| "thread_step ch (AtRelease s dev idx) st =
     Some (AtCloseBoth s dev, st\<lparr>rs_devices := release_device (rs_devices st) idx\<rparr>)"
| "thread_step ch (AtCloseBoth s dev) st =
     Some (AtReturn, st\<lparr>rs_socks := close_sock dev (close_sock s (rs_socks st))\<rparr>)"
| "thread_step ch AtReturn st = None"

text \<open>The accept loop of \<open>main\<close>, and what the peer of a socket does.\<close>

definition accept_conn :: "nat \<Rightarrow> relay_state \<Rightarrow> relay_state" where
  "accept_conn fd st =
     st\<lparr>rs_socks := (rs_socks st)(fd := sock_closed\<lparr>sk_open := True\<rparr>), rs_threads := rs_threads st @ [AtReadline fd]\<rparr>"

definition peer_sends :: "nat \<Rightarrow> bytes \<Rightarrow> relay_state \<Rightarrow> relay_state" where
  "peer_sends fd bs st = st\<lparr>rs_socks := (rs_socks st)(fd := (rs_socks st fd)\<lparr>sk_in := sk_in (rs_socks st fd) @ bs\<rparr>)\<rparr>"

definition peer_closes :: "nat \<Rightarrow> relay_state \<Rightarrow> relay_state" where
  "peer_closes fd st = st\<lparr>rs_socks := (rs_socks st)(fd := (rs_socks st fd)\<lparr>sk_eof := True\<rparr>)\<rparr>"

definition run_thread :: "choice \<Rightarrow> nat \<Rightarrow> relay_state \<Rightarrow> relay_state option" where
  "run_thread ch k st =
     (case thread_step ch (rs_threads st ! k) st of
        None \<Rightarrow> None
      | Some (t, st') \<Rightarrow> Some (st'\<lparr>rs_threads := (rs_threads st')[k := t]\<rparr>))"

inductive relay_step :: "relay_state \<Rightarrow> relay_state \<Rightarrow> bool" where
  accept: "\<not> sk_open (rs_socks st fd) \<Longrightarrow> relay_step st (accept_conn fd st)"
| data: "\<not> sk_eof (rs_socks st fd) \<Longrightarrow> relay_step st (peer_sends fd bs st)"
| eof: "relay_step st (peer_closes fd st)"
| thread: "k < length (rs_threads st) \<Longrightarrow> run_thread ch k st = Some st' \<Longrightarrow> relay_step st st'"

definition relay_init :: relay_state where
  "relay_init = \<lparr>rs_devices = devices_init, rs_socks = (\<lambda>_. sock_closed), rs_threads = []\<rparr>"

inductive relay_reachable :: "relay_state \<Rightarrow> bool" where
  init: "relay_reachable relay_init"
| step: "relay_reachable st \<Longrightarrow> relay_step st st' \<Longrightarrow> relay_reachable st'"

section \<open>The table\<close>

definition available :: "device_slot \<Rightarrow> bool" where
  "available d \<longleftrightarrow> ds_in_use d \<and> \<not> ds_bridging d"

lemma find_device_Some:
  assumes "find_device ds name = Some i"
  shows "i < MAX_DEVICES" "available (ds ! i)" "ds_device_id (ds ! i) = name"
  using assms by (auto simp: find_device_def find_Some_iff available_def)

lemma find_device_None:
  "find_device ds name = None \<longleftrightarrow> (\<forall>i < MAX_DEVICES. available (ds ! i) \<longrightarrow> ds_device_id (ds ! i) \<noteq> name)"
  by (auto simp: find_device_def find_None_iff available_def)

lemma alloc_device_slot_Some:
  assumes "alloc_device_slot ds = Some i"
  shows "i < MAX_DEVICES" "\<not> ds_in_use (ds ! i)"
  using assms by (auto simp: alloc_device_slot_def find_Some_iff)

lemma alloc_device_slot_None: "alloc_device_slot ds = None \<longleftrightarrow> (\<forall>i < MAX_DEVICES. ds_in_use (ds ! i))"
  by (auto simp: alloc_device_slot_def find_None_iff)

text \<open>
  Two available slots never carry the same name, as long as the name is shorter than the 63 characters to
  which longer ones are cut.
\<close>

definition names_unique :: "device_slot list \<Rightarrow> bool" where
  "names_unique ds \<longleftrightarrow>
     (\<forall>i < MAX_DEVICES. \<forall>j < MAX_DEVICES. available (ds ! i) \<and> available (ds ! j)
        \<and> ds_device_id (ds ! i) = ds_device_id (ds ! j) \<and> length (ds_device_id (ds ! i)) < 63 \<longrightarrow> i = j)"

lemma names_unique_update:
  assumes "names_unique ds" and "length ds = MAX_DEVICES"
    and "available d \<Longrightarrow> available (ds ! i) \<and> ds_device_id d = ds_device_id (ds ! i)"
  shows "names_unique (ds[i := d])"
proof -
  have d: "available (ds[i := d] ! j) \<Longrightarrow> available (ds ! j) \<and> ds_device_id (ds[i := d] ! j) = ds_device_id (ds ! j)"
    if "j < MAX_DEVICES" for j
    using assms(2,3) that by (cases "j = i") auto
  show ?thesis unfolding names_unique_def
  proof (intro allI impI)
    fix k l
    assume "k < MAX_DEVICES" "l < MAX_DEVICES" and a: "available (ds[i := d] ! k) \<and> available (ds[i := d] ! l)
        \<and> ds_device_id (ds[i := d] ! k) = ds_device_id (ds[i := d] ! l) \<and> length (ds_device_id (ds[i := d] ! k)) < 63"
    then show "k = l" using assms(1) d [of k] d [of l] by (auto simp: names_unique_def)
  qed
qed

lemma names_unique_insert:
  assumes "names_unique ds" and "length ds = MAX_DEVICES"
    and "length (ds_device_id d) < 63 \<Longrightarrow> find_device ds (ds_device_id d) = None"
  shows "names_unique (ds[i := d])"
proof -
  have n: "k = l" if "k < MAX_DEVICES" "l < MAX_DEVICES" "k \<noteq> i" "available (ds ! k)"
      "ds_device_id (ds ! k) = ds_device_id d" "length (ds_device_id d) < 63" for k l
    using assms(3) that by (auto simp: find_device_None)
  show ?thesis unfolding names_unique_def
  proof (intro allI impI)
    fix k l
    assume kl: "k < MAX_DEVICES" "l < MAX_DEVICES" and a: "available (ds[i := d] ! k) \<and> available (ds[i := d] ! l)
        \<and> ds_device_id (ds[i := d] ! k) = ds_device_id (ds[i := d] ! l) \<and> length (ds_device_id (ds[i := d] ! k)) < 63"
    show "k = l"
    proof (cases "k = i"; cases "l = i")
      assume "k = i" "l \<noteq> i" then show ?thesis using n [of l k] kl a assms(2) by auto
    next
      assume "k \<noteq> i" "l = i" then show ?thesis using n [of k l] kl a assms(2) by auto
    next
      assume "k \<noteq> i" "l \<noteq> i" then show ?thesis using assms(1) kl a by (auto simp: names_unique_def)
    qed simp
  qed
qed

text \<open>Registration in two parts: the earlier entry goes, the new one takes a slot.\<close>

definition drop_existing :: "device_slot list \<Rightarrow> string \<Rightarrow> device_slot list" where
  "drop_existing ds name =
     (case find_device ds name of None \<Rightarrow> ds | Some e \<Rightarrow> ds[e := (ds ! e)\<lparr>ds_in_use := False\<rparr>])"

lemma drop_existing_facts:
  assumes "length ds = MAX_DEVICES"
  shows "length (drop_existing ds name) = MAX_DEVICES" "map ds_bridging (drop_existing ds name) = map ds_bridging ds"
    "names_unique ds \<Longrightarrow> names_unique (drop_existing ds name)"
    "names_unique ds \<Longrightarrow> length name < 63 \<Longrightarrow> find_device (drop_existing ds name) name = None"
proof -
  show "length (drop_existing ds name) = MAX_DEVICES" "map ds_bridging (drop_existing ds name) = map ds_bridging ds"
    using assms by (auto simp: drop_existing_def map_update list_update_same_conv dest: find_device_Some(1) split: option.split)
  show "names_unique ds \<Longrightarrow> names_unique (drop_existing ds name)"
    using assms by (auto simp: drop_existing_def available_def intro!: names_unique_update split: option.split)
  show "find_device (drop_existing ds name) name = None" if u: "names_unique ds" "length name < 63"
  proof (cases "find_device ds name")
    case (Some e)
    have "available (ds[e := (ds ! e)\<lparr>ds_in_use := False\<rparr>] ! j) \<Longrightarrow> ds_device_id (ds[e := (ds ! e)\<lparr>ds_in_use := False\<rparr>] ! j) \<noteq> name"
      if "j < MAX_DEVICES" for j
      using find_device_Some [OF Some] u that assms unfolding names_unique_def
      by (cases "j = e") (auto simp: available_def)
    with Some show ?thesis by (simp add: drop_existing_def find_device_None)
  qed (simp add: drop_existing_def)
qed

lemma register_device_split:
  "snd (snd (register_device ds name s)) =
     (case alloc_device_slot (drop_existing ds name) of
        None \<Rightarrow> drop_existing ds name
      | Some i \<Rightarrow> (drop_existing ds name)[i := (drop_existing ds name ! i)
                    \<lparr>ds_in_use := True, ds_device_id := take 63 name, ds_sock := s\<rparr>])"
  "fst (snd (register_device ds name s)) = alloc_device_slot (drop_existing ds name)"
  by (simp_all add: register_device_def drop_existing_def Let_def split: option.split)

lemma register_device_facts:
  assumes "length ds = MAX_DEVICES"
  shows "length (snd (snd (register_device ds name s))) = MAX_DEVICES"
    "map ds_bridging (snd (snd (register_device ds name s))) = map ds_bridging ds"
    "names_unique ds \<Longrightarrow> names_unique (snd (snd (register_device ds name s)))"
proof -
  let ?ds = "drop_existing ds name"
  note d = drop_existing_facts [OF assms, of name]
  show "length (snd (snd (register_device ds name s))) = MAX_DEVICES"
    by (simp add: register_device_split d split: option.split)
  show "map ds_bridging (snd (snd (register_device ds name s))) = map ds_bridging ds"
    using alloc_device_slot_Some(1) [of ?ds]
    by (auto simp: register_device_split map_update d list_update_same_conv split: option.split)
       (metis d(1,2) length_map list_update_id nth_map)
  show "names_unique (snd (snd (register_device ds name s)))" if u: "names_unique ds"
    using d(1,3,4) u by (auto simp: register_device_split intro!: names_unique_insert split: option.split)
qed

section \<open>Ownership of slots\<close>

text \<open>
  The flag of a slot is up exactly while one thread holds the slot; \<open>h\<close> tells which slot a thread
  holds.
\<close>

definition owned :: "bool list \<Rightarrow> ('t \<Rightarrow> nat option) \<Rightarrow> 't list \<Rightarrow> bool" where
  "owned fl h ts \<longleftrightarrow>
     (\<forall>k < length ts. \<forall>i. h (ts ! k) = Some i \<longrightarrow> i < length fl \<and> fl ! i)
     \<and> (\<forall>k < length ts. \<forall>l < length ts. \<forall>i. h (ts ! k) = Some i \<and> h (ts ! l) = Some i \<longrightarrow> k = l)
     \<and> (\<forall>i < length fl. fl ! i \<longrightarrow> (\<exists>k < length ts. h (ts ! k) = Some i))"

lemma ownedI:
  assumes "\<And>k i. k < length ts \<Longrightarrow> h (ts ! k) = Some i \<Longrightarrow> i < length fl \<and> fl ! i"
    and "\<And>k l i. k < length ts \<Longrightarrow> l < length ts \<Longrightarrow> h (ts ! k) = Some i \<Longrightarrow> h (ts ! l) = Some i \<Longrightarrow> k = l"
    and "\<And>i. i < length fl \<Longrightarrow> fl ! i \<Longrightarrow> \<exists>k < length ts. h (ts ! k) = Some i"
  shows "owned fl h ts"
  using assms by (auto simp: owned_def)

lemma ownedD:
  assumes "owned fl h ts"
  shows "k < length ts \<Longrightarrow> h (ts ! k) = Some i \<Longrightarrow> i < length fl \<and> fl ! i"
    and "k < length ts \<Longrightarrow> l < length ts \<Longrightarrow> h (ts ! k) = Some i \<Longrightarrow> h (ts ! l) = Some i \<Longrightarrow> k = l"
    and "i < length fl \<Longrightarrow> fl ! i \<Longrightarrow> \<exists>k < length ts. h (ts ! k) = Some i"
  using assms by (auto simp: owned_def)

lemma owned_new: "owned fl h ts \<Longrightarrow> h t = None \<Longrightarrow> owned fl h (ts @ [t])"
  by (rule ownedI) (auto simp: nth_append less_Suc_eq dest: ownedD split: if_splits intro: less_SucI)

lemma owned_map: "owned fl h ts \<longleftrightarrow> owned fl (\<lambda>x. x) (map h ts)"
  by (simp add: owned_def cong: conj_cong)

lemma owned_keep:
  assumes "owned fl h ts" and "h t = h (ts ! k)"
  shows "owned fl h (ts[k := t])"
proof -
  have "map h (ts[k := t]) = map h ts"
    using assms(2) by (cases "k < length ts") (simp_all add: map_update list_update_same_conv list_update_beyond)
  with assms(1) show ?thesis using owned_map [of fl h] by metis
qed

lemma owned_acquire:
  assumes o: "owned fl h ts" and k: "k < length ts" and "h (ts ! k) = None" and "h t = Some i" and i: "i < length fl" "\<not> fl ! i"
  shows "owned (fl[i := True]) h (ts[k := t])"
proof (rule ownedI)
  have free: "h (ts ! l) \<noteq> Some i" if "l < length ts" for l using ownedD(1) [OF o that] i by blast
  fix l j assume l: "l < length (ts[k := t])" "h (ts[k := t] ! l) = Some j"
  then show "j < length (fl[i := True]) \<and> fl[i := True] ! j"
    using ownedD(1) [OF o, of l j] assms(4) i by (cases "l = k"; cases "j = i") auto
next
  have free: "h (ts ! l) \<noteq> Some i" if "l < length ts" for l using ownedD(1) [OF o that] i by blast
  fix l m j assume "l < length (ts[k := t])" "m < length (ts[k := t])" "h (ts[k := t] ! l) = Some j" "h (ts[k := t] ! m) = Some j"
  then show "l = m" using ownedD(2) [OF o, of l m j] assms(4) free by (cases "l = k"; cases "m = k") auto
next
  fix j assume j: "j < length (fl[i := True])" "fl[i := True] ! j"
  show "\<exists>l < length (ts[k := t]). h (ts[k := t] ! l) = Some j"
  proof (cases "j = i")
    case True
    with k assms(4) show ?thesis by (intro exI [of _ k]) simp
  next
    case False
    with j obtain l where "l < length ts" "h (ts ! l) = Some j" using ownedD(3) [OF o, of j] by auto
    with assms(3) show ?thesis by (intro exI [of _ l]) (cases "l = k"; auto)
  qed
qed

lemma owned_release:
  assumes o: "owned fl h ts" and k: "k < length ts" and i: "h (ts ! k) = Some i" and t: "h t = None"
  shows "owned (fl[i := False]) h (ts[k := t])"
proof (rule ownedI)
  fix l j assume l: "l < length (ts[k := t])" "h (ts[k := t] ! l) = Some j"
  then have "l \<noteq> k" "h (ts ! l) = Some j" using t by (cases "l = k"; auto)+
  moreover from this have "j \<noteq> i" using ownedD(2) [OF o k, of l i] i l by auto
  ultimately show "j < length (fl[i := False]) \<and> fl[i := False] ! j" using ownedD(1) [OF o, of l j] l by simp
next
  fix l m j assume "l < length (ts[k := t])" "m < length (ts[k := t])" "h (ts[k := t] ! l) = Some j" "h (ts[k := t] ! m) = Some j"
  then show "l = m" using ownedD(2) [OF o, of l m j] t by (cases "l = k"; cases "m = k") auto
next
  fix j assume j: "j < length (fl[i := False])" "fl[i := False] ! j"
  have ij: "i < length fl" using ownedD(1) [OF o k i] by simp
  with j have "j \<noteq> i" by auto
  with j obtain l where "l < length ts" "h (ts ! l) = Some j" using ownedD(3) [OF o, of j] by auto
  with i \<open>j \<noteq> i\<close> show "\<exists>l < length (ts[k := t]). h (ts[k := t] ! l) = Some j"
    by (intro exI [of _ l]) (cases "l = k"; auto)
qed

section \<open>The invariant of the relay\<close>

text \<open>The slot a client's thread has taken for its bridge, and the slot a device's thread waits on.\<close>

fun holds :: "rthread \<Rightarrow> nat option" where
  "holds (AtConnectOk s dev i) = Some i"
| "holds (AtNotify s dev i) = Some i"
| "holds (AtBridge s dev i) = Some i"
| "holds (AtCopy s dev i d1 d2) = Some i"
| "holds (AtRelease s dev i) = Some i"
| "holds t = None"

fun waits :: "rthread \<Rightarrow> nat option" where
  "waits (AtRegisterOk s i) = Some i"
| "waits (AtPeek s i) = Some i"
| "waits (AtUnregister s i) = Some i"
| "waits t = None"

definition relay_inv :: "relay_state \<Rightarrow> bool" where
  "relay_inv st \<longleftrightarrow>
     length (rs_devices st) = MAX_DEVICES
     \<and> owned (map ds_bridging (rs_devices st)) holds (rs_threads st)
     \<and> (\<forall>t \<in> set (rs_threads st). \<forall>i. waits t = Some i \<longrightarrow> i < MAX_DEVICES)
     \<and> names_unique (rs_devices st)"

text \<open>What a step of a thread does to the table: one of three things.\<close>

definition slot_effect :: "rthread \<Rightarrow> rthread \<Rightarrow> bool list \<Rightarrow> bool list \<Rightarrow> bool" where
  "slot_effect t t' fl fl' \<longleftrightarrow>
     holds t' = holds t \<and> fl' = fl
     \<or> holds t = None \<and> (\<exists>i < length fl. holds t' = Some i \<and> \<not> fl ! i \<and> fl' = fl[i := True])
     \<or> holds t' = None \<and> (\<exists>i. holds t = Some i \<and> fl' = fl[i := False])"

lemma owned_slot_effect:
  assumes "owned fl holds ts" and "k < length ts" and "slot_effect (ts ! k) t' fl fl'"
  shows "owned fl' holds (ts[k := t'])"
  using assms(3) owned_keep [of fl holds ts t' k] owned_acquire [OF assms(1,2), of t'] owned_release [OF assms(1,2), of _ t'] assms(1)
  unfolding slot_effect_def by blast

lemma begin_connection_keeps:
  assumes "begin_connection s st = Some (t', st')"
  shows "rs_devices st' = rs_devices st" "rs_threads st' = rs_threads st" "holds t' = None" "waits t' = None"
  using assms by (auto simp: begin_connection_def Let_def split: if_splits readline_result.splits line_action.splits)

lemma copy_step_keeps:
  assumes "copy_step ch s dev idx d1 d2 st = Some (t', st')"
  shows "rs_devices st' = rs_devices st" "rs_threads st' = rs_threads st" "holds t' = Some idx" "waits t' = None"
  using assms by (auto simp: copy_step_def split: if_splits option.splits)

lemma map_bridging_update: "map ds_bridging (ds[i := d]) = (map ds_bridging ds)[i := ds_bridging d]"
  by (rule map_update)

lemma same_bridging: "ds_bridging d = ds_bridging (ds ! i) \<Longrightarrow> map ds_bridging (ds[i := d]) = map ds_bridging ds"
  by (cases "i < length ds") (simp_all add: map_update list_update_same_conv list_update_beyond)

lemma unregister_facts:
  assumes "length ds = MAX_DEVICES"
  shows "length (unregister_device ds i s) = MAX_DEVICES" "map ds_bridging (unregister_device ds i s) = map ds_bridging ds"
    "names_unique ds \<Longrightarrow> names_unique (unregister_device ds i s)"
  using assms by (auto simp: unregister_device_def available_def intro!: same_bridging names_unique_update)

lemma take_device_facts:
  assumes "take_device ds name = Some (i, dev, ds')" and "length ds = MAX_DEVICES"
  shows "length ds' = MAX_DEVICES" "i < MAX_DEVICES" "available (ds ! i)" "ds_device_id (ds ! i) = name"
    "dev = ds_sock (ds ! i)" "map ds_bridging ds' = (map ds_bridging ds)[i := True]" "names_unique ds \<Longrightarrow> names_unique ds'"
  using assms find_device_Some [of ds name i]
  by (auto simp: take_device_def map_update available_def intro!: names_unique_update split: option.splits)

lemma release_facts:
  assumes "length ds = MAX_DEVICES"
  shows "length (release_device ds i) = MAX_DEVICES" "map ds_bridging (release_device ds i) = (map ds_bridging ds)[i := False]"
    "names_unique ds \<Longrightarrow> names_unique (release_device ds i)"
  using assms by (auto simp: release_device_def map_update available_def intro!: names_unique_update)

lemmas table_facts = register_device_facts unregister_facts release_facts

definition step_effect :: "rthread \<Rightarrow> relay_state \<Rightarrow> rthread \<Rightarrow> relay_state \<Rightarrow> bool" where
  "step_effect t st t' st' \<longleftrightarrow>
     rs_threads st' = rs_threads st \<and> length (rs_devices st') = MAX_DEVICES \<and> names_unique (rs_devices st')
     \<and> slot_effect t t' (map ds_bridging (rs_devices st)) (map ds_bridging (rs_devices st'))
     \<and> ((\<forall>i. waits t = Some i \<longrightarrow> i < MAX_DEVICES) \<longrightarrow> (\<forall>i. waits t' = Some i \<longrightarrow> i < MAX_DEVICES))"

lemma thread_step_effect:
  assumes "thread_step ch t st = Some (t', st')" and len: "length (rs_devices st) = MAX_DEVICES"
    and "names_unique (rs_devices st)"
  shows "step_effect t st t' st'"
proof (cases t)
  case (AtReadline s)
  with assms show ?thesis
    using begin_connection_keeps [of s st t' st'] by (simp add: slot_effect_def step_effect_def)
next
  case (AtCopy s dev i d1 d2)
  with assms show ?thesis
    using copy_step_keeps [of ch s dev i d1 d2 st t' st'] by (simp add: slot_effect_def step_effect_def)
next
  case (AtRegister s name)
  have "fst (snd (register_device (rs_devices st) name s)) = Some i \<Longrightarrow> i < MAX_DEVICES" for i
    by (simp add: register_device_split alloc_device_slot_Some)
  with assms AtRegister table_facts(1-3) [OF len, of name s] show ?thesis
    by (auto simp: slot_effect_def step_effect_def Let_def case_prod_beta split: option.splits)
next
  case (AtLookup s name)
  show ?thesis
  proof (cases "take_device (rs_devices st) name")
    case (Some r)
    then obtain i dev ds where r: "take_device (rs_devices st) name = Some (i, dev, ds)" by (cases r) auto
    note f = take_device_facts [OF r len]
    have "\<not> map ds_bridging (rs_devices st) ! i" using f(2,3) len by (simp add: available_def)
    with AtLookup assms r f len show ?thesis by (auto simp: slot_effect_def step_effect_def)
  qed (use AtLookup assms in \<open>auto simp: slot_effect_def step_effect_def\<close>)
qed (use assms table_facts [OF len] in \<open>auto simp: slot_effect_def step_effect_def split: recv_state.splits if_splits\<close>)

lemma relay_inv_init: "relay_inv relay_init"
  by (auto simp: relay_inv_def relay_init_def devices_init_def owned_def names_unique_def available_def)

lemma relay_inv_step:
  assumes "relay_step st st'" and "relay_inv st"
  shows "relay_inv st'"
  using assms
proof (induction rule: relay_step.induct)
  case (accept st fd)
  then show ?case by (auto simp: relay_inv_def accept_conn_def intro!: owned_new)
next
  case (thread k st ch st')
  then obtain t st1 where t: "thread_step ch (rs_threads st ! k) st = Some (t, st1)"
      and st': "st' = st1\<lparr>rs_threads := (rs_threads st1)[k := t]\<rparr>"
    by (auto simp: run_thread_def split: option.splits)
  have "step_effect (rs_threads st ! k) st t st1"
    by (rule thread_step_effect [OF t]) (use thread.prems in \<open>simp_all add: relay_inv_def\<close>)
  moreover have "\<forall>i. waits (rs_threads st ! k) = Some i \<longrightarrow> i < MAX_DEVICES"
    using thread.prems nth_mem [OF thread.hyps(1)] by (auto simp: relay_inv_def)
  ultimately have e: "rs_threads st1 = rs_threads st" "length (rs_devices st1) = MAX_DEVICES" "names_unique (rs_devices st1)"
      "slot_effect (rs_threads st ! k) t (map ds_bridging (rs_devices st)) (map ds_bridging (rs_devices st1))"
      "\<forall>i. waits t = Some i \<longrightarrow> i < MAX_DEVICES"
    by (auto simp: step_effect_def)
  have "owned (map ds_bridging (rs_devices st1)) holds ((rs_threads st)[k := t])"
    using owned_slot_effect [OF _ thread.hyps(1) e(4)] thread.prems by (simp add: relay_inv_def)
  with e thread.prems show ?case
    by (auto simp: relay_inv_def st' dest!: subsetD [OF set_update_subset_insert])
qed (auto simp: relay_inv_def peer_sends_def peer_closes_def)

lemma relay_reachable_inv: "relay_reachable st \<Longrightarrow> relay_inv st"
  by (induction rule: relay_reachable.induct) (auto intro: relay_inv_init relay_inv_step)

lemma relay_reachable_steps: "relay_step\<^sup>*\<^sup>* st st' \<Longrightarrow> relay_reachable st \<Longrightarrow> relay_reachable st'"
  by (induction rule: rtranclp_induct) (auto intro: relay_reachable.step)

section \<open>Properties of the registry and the bridges\<close>

text \<open>C5: Mutual exclusion in the relay, for all interleavings of its threads: a device slot is taken by at most one
  client at a time, a slot is marked as bridging exactly while a client's thread holds it, and two
  slots available for bridging never carry the same name of fewer than 63 characters, so a name
  determines the device a client gets.\<close>

theorem relay_exclusive:
  assumes "relay_reachable st"
  shows "(\<forall>k < length (rs_threads st). \<forall>l < length (rs_threads st). \<forall>i.
            holds (rs_threads st ! k) = Some i \<and> holds (rs_threads st ! l) = Some i \<longrightarrow> k = l)
      \<and> (\<forall>i < MAX_DEVICES. ds_bridging (rs_devices st ! i) = (\<exists>t \<in> set (rs_threads st). holds t = Some i))
      \<and> (\<forall>i < MAX_DEVICES. \<forall>j < MAX_DEVICES. available (rs_devices st ! i) \<and> available (rs_devices st ! j)
            \<and> ds_device_id (rs_devices st ! i) = ds_device_id (rs_devices st ! j)
            \<and> length (ds_device_id (rs_devices st ! i)) < 63 \<longrightarrow> i = j)"
proof -
  have inv: "length (rs_devices st) = MAX_DEVICES" "owned (map ds_bridging (rs_devices st)) holds (rs_threads st)"
      "names_unique (rs_devices st)"
    using relay_reachable_inv [OF assms] by (simp_all add: relay_inv_def)
  have "ds_bridging (rs_devices st ! i) = (\<exists>t \<in> set (rs_threads st). holds t = Some i)" if i: "i < MAX_DEVICES" for i
  proof
    assume "ds_bridging (rs_devices st ! i)"
    then obtain k where "k < length (rs_threads st)" "holds (rs_threads st ! k) = Some i"
      using ownedD(3) [OF inv(2), of i] inv(1) i by auto
    then show "\<exists>t \<in> set (rs_threads st). holds t = Some i" using nth_mem by blast
  next
    assume "\<exists>t \<in> set (rs_threads st). holds t = Some i"
    then obtain k where "k < length (rs_threads st)" "holds (rs_threads st ! k) = Some i" by (auto simp: in_set_conv_nth)
    then show "ds_bridging (rs_devices st ! i)" using ownedD(1) [OF inv(2), of k i] inv(1) i by simp
  qed
  with ownedD(2) [OF inv(2)] inv(3) show ?thesis by (auto simp: names_unique_def)
qed

lemma id_char_no_space: "list_all id_char name \<Longrightarrow> CHR '' '' \<notin> set name"
  by (auto simp: list_all_iff id_char_def Let_def)

lemma parse_register:
  "parse_line (''REGISTER '' @ rest) =
     (case strchr rest CHR '' '' of
        None \<Rightarrow> Reject (''ERROR auth_failed'' @ crlf)
      | Some i \<Rightarrow>
          if drop (i + 1) rest \<noteq> AUTH_TOKEN then Reject (''ERROR auth_failed'' @ crlf)
          else if \<not> list_all id_char (take i rest) then Reject (''ERROR invalid_id'' @ crlf)
          else Register (take i rest))"
  by (simp add: parse_line_def Let_def)

lemma parse_connect:
  "parse_line (''CONNECT '' @ name) = (if \<not> list_all id_char name then Reject (''ERROR invalid_id'' @ crlf) else Connect name)"
  by (simp add: parse_line_def Let_def starts_with_def)

lemma parse_register_iff:
  "parse_line (''REGISTER '' @ rest) = Register name \<longleftrightarrow> rest = name @ '' '' @ AUTH_TOKEN \<and> list_all id_char name"
proof
  assume r: "parse_line (''REGISTER '' @ rest) = Register name"
  then obtain i where i: "strchr rest CHR '' '' = Some i" "drop (i + 1) rest = AUTH_TOKEN" "list_all id_char (take i rest)" "take i rest = name"
    unfolding parse_register by (auto split: option.splits if_splits)
  have "rest = take i rest @ rest ! i # drop (Suc i) rest" by (rule id_take_nth_drop [OF strchr_bound [OF i(1)]])
  with i strchr_hit [OF i(1)] show "rest = name @ '' '' @ AUTH_TOKEN \<and> list_all id_char name" by simp
next
  assume "rest = name @ '' '' @ AUTH_TOKEN \<and> list_all id_char name"
  moreover from this have "strchr rest CHR '' '' = Some (length name)" using id_char_no_space by simp
  ultimately show "parse_line (''REGISTER '' @ rest) = Register name" unfolding parse_register by simp
qed

text \<open>Only the right token registers a device, and only well-formed names are accepted: the first line leads to a
  registration exactly when it is \<open>REGISTER\<close>, a name of letters, digits, dashes and underscores, and the
  shared token, separated by single spaces; it leads to a connection exactly when it is \<open>CONNECT\<close> and such a
  name.\<close>

lemma relay_accepts_exactly:
  "(parse_line line = Register name) = (line = ''REGISTER '' @ name @ '' '' @ AUTH_TOKEN \<and> list_all id_char name)
   \<and> (parse_line line = Connect name) = (line = ''CONNECT '' @ name \<and> list_all id_char name)"
proof
  show "(parse_line line = Register name) = (line = ''REGISTER '' @ name @ '' '' @ AUTH_TOKEN \<and> list_all id_char name)"
  proof (cases "starts_with ''REGISTER '' line")
    case True
    obtain rest where "line = ''REGISTER '' @ rest" using starts_withD [OF True] by blast
    then show ?thesis using parse_register_iff [of rest name] by simp
  next
    case False
    then have "line \<noteq> ''REGISTER '' @ r" for r using starts_with_self by blast
    with False show ?thesis by (auto simp: parse_line_def Let_def)
  qed
  show "(parse_line line = Connect name) = (line = ''CONNECT '' @ name \<and> list_all id_char name)"
  proof (cases "starts_with ''CONNECT '' line")
    case True
    obtain rest where "line = ''CONNECT '' @ rest" using starts_withD [OF True] by blast
    then show ?thesis using parse_connect [of rest] by auto
  next
    case False
    then have "line \<noteq> ''CONNECT '' @ r" for r using starts_with_self by blast
    with False show ?thesis by (auto simp: parse_line_def Let_def split: option.splits if_splits)
  qed
qed

lemma chosen_le: "0 < len \<Longrightarrow> chosen n len \<le> len"
  by (auto simp: chosen_def)

text \<open>
  Runs of one direction: \<open>rd\<close> and \<open>wr\<close> are the bytes it has read and written so far; between its steps the rest of
  the system may do anything to the sockets.
\<close>

inductive copying :: "nat \<Rightarrow> nat \<Rightarrow> bytes \<Rightarrow> bytes \<Rightarrow> bridge_dir \<Rightarrow> socks \<Rightarrow> bool" for s1 s2 where
  start: "copying s1 s2 [] [] Reading ss"
| others: "copying s1 s2 rd wr d ss \<Longrightarrow> copying s1 s2 rd wr d ss'"
| move: "copying s1 s2 rd wr d ss \<Longrightarrow> bridge_one_dir s1 s2 n ok d ss = Some (d', ss') \<Longrightarrow>
    copying s1 s2 (rd @ take (length (sk_in (ss s1)) - length (sk_in (ss' s1))) (sk_in (ss s1)))
      (wr @ drop (length (sk_out (ss s2))) (sk_out (ss' s2))) d' ss'"

text \<open>C27: A bridge is transparent: whatever amounts the system reads and writes at a time and whatever else happens to
  the sockets, the bytes one direction has written are exactly the bytes it has read, in order and without
  loss or duplication, except for those in its buffer; when it stops, what it wrote is a prefix of what it read.\<close>

theorem bridge_transparent:
  assumes "copying s1 s2 rd wr d ss" and "s1 \<noteq> s2"
  shows "case d of Reading \<Rightarrow> wr = rd | Sending buf \<Rightarrow> wr @ buf = rd | Finished \<Rightarrow> (\<exists>lost. wr @ lost = rd)"
  using assms(1)
proof (induction rule: copying.induct)
  case (move rd wr d ss n ok d' ss')
  have "recv_state s1 ss = Data \<Longrightarrow> chosen n (min BRIDGE_BUF_SIZE (length (sk_in (ss s1)))) \<le> length (sk_in (ss s1))"
    using chosen_le [of "min BRIDGE_BUF_SIZE (length (sk_in (ss s1)))" n] by (auto simp: recv_state_def split: if_splits)
  with move.hyps(2) move.IH assms(2) show ?case
    by (cases d) (auto simp: bridge_one_dir_def shutdown_sock_def send_msg_def Let_def split: recv_state.splits if_splits)
qed auto

section \<open>Registering and connecting\<close>

lemma find_deviceI:
  assumes "names_unique ds" and "i < MAX_DEVICES" and "available (ds ! i)" and "ds_device_id (ds ! i) = name"
    and "length name < 63"
  shows "find_device ds name = Some i"
proof (cases "find_device ds name")
  case None
  with assms(2-4) show ?thesis by (auto simp: find_device_None)
next
  case (Some j)
  from find_device_Some [OF this] assms have "j = i" by (auto simp: names_unique_def)
  with Some show ?thesis by simp
qed

text \<open>What was registered is found: after a registration under a name of fewer than 63 characters, into a slot
  that is not still marked by an earlier bridge, looking the name up gives that slot with the
  device's socket, and an earlier registration of the same name is gone. With fewer than 64 devices in use
  registration does not fail.\<close>

lemma register_then_found:
  assumes "length ds = MAX_DEVICES" and "names_unique ds" and "length name < 63"
    and "register_device ds name s = (old, slot, ds')"
  shows "(case slot of
            None \<Rightarrow> \<forall>i < MAX_DEVICES. ds_in_use (ds ! i)
          | Some i \<Rightarrow> \<not> ds_bridging (ds ! i) \<longrightarrow> find_device ds' name = Some i \<and> ds_sock (ds' ! i) = s)
      \<and> names_unique ds'"
proof -
  let ?d = "drop_existing ds name"
  note d = drop_existing_facts [OF assms(1), of name]
  have u: "names_unique ds'" using register_device_facts(3) [OF assms(1,2), of name s] assms(4) by simp
  have slot: "slot = alloc_device_slot ?d" and ds': "ds' = (case slot of None \<Rightarrow> ?d | Some i \<Rightarrow>
      ?d[i := (?d ! i)\<lparr>ds_in_use := True, ds_device_id := take 63 name, ds_sock := s\<rparr>])"
    using register_device_split [of ds name s] assms(4) by simp_all
  show ?thesis
  proof (cases slot)
    case None
    have "ds_in_use (?d ! i) \<Longrightarrow> ds_in_use (ds ! i)" if "i < MAX_DEVICES" for i
      using that assms(1) find_device_Some(1) [of ds name] by (auto simp: drop_existing_def nth_list_update split: option.splits if_splits)
    moreover have "\<forall>i < MAX_DEVICES. ds_in_use (?d ! i)" using None slot by (simp add: alloc_device_slot_None)
    ultimately show ?thesis using None u by simp
  next
    case (Some i)
    note i = alloc_device_slot_Some [of ?d i]
    have "map ds_bridging ?d ! i = map ds_bridging ds ! i" using d(2) by simp
    then have "ds_bridging (?d ! i) = ds_bridging (ds ! i)" using i Some slot d(1) assms(1) by simp
    with Some i slot d(1) have "\<not> ds_bridging (ds ! i) \<Longrightarrow> available (ds' ! i)" "ds_device_id (ds' ! i) = name" "ds_sock (ds' ! i) = s"
      using assms(3) by (simp_all add: ds' available_def)
    with find_deviceI [OF u, of i name] Some i slot u assms(3) show ?thesis by auto
  qed
qed

lemma register_then_found_witness:
  "find_device (snd (snd (register_device devices_init ''door-1'' 5))) ''door-1'' = Some 0"
proof -
  have l: "length devices_init = MAX_DEVICES" by (simp add: devices_init_def)
  have u: "names_unique devices_init" by (simp add: names_unique_def devices_init_def available_def)
  have f: "fst (snd (register_device devices_init ''door-1'' 5)) = Some 0"
    by (simp add: register_device_split drop_existing_def) code_simp
  obtain old slot ds where r: "register_device devices_init ''door-1'' 5 = (old, slot, ds)" by (metis prod_cases3)
  have "length ''door-1'' < (63 :: nat)" by simp
  from register_then_found [OF l u this r] f r show ?thesis by (simp add: devices_init_def)
qed

lemma run_thread_step:
  assumes "k < length (rs_threads st)" and "thread_step ch (rs_threads st ! k) st = Some (t, st1)" and "rs_threads st1 = rs_threads st"
  shows "relay_step st (st1\<lparr>rs_threads := (rs_threads st)[k := t]\<rparr>)"
  using assms by (intro relay_step.thread [of k st ch]) (simp_all add: run_thread_def)


text \<open>
  Concrete states: two connections that sent their first lines, and the device registered in slot 0 on
  socket 3 in the place \<open>t\<close>, with a client on socket 4 about to look it up.
\<close>

definition two_conns :: relay_state where
  "two_conns = peer_sends 4 (text_bytes (''CONNECT door-1'' @ crlf))
     (peer_sends 3 (text_bytes (''REGISTER door-1 smartlock2026'' @ crlf)) (accept_conn 4 (accept_conn 3 relay_init)))"

definition looking_up :: "rthread \<Rightarrow> relay_state" where
  "looking_up t =
     \<lparr>rs_devices = devices_init[0 := \<lparr>ds_in_use = True, ds_bridging = False, ds_device_id = ''door-1'', ds_sock = 3\<rparr>],
      rs_socks = (\<lambda>_. sock_closed)(3 := sock_closed\<lparr>sk_open := True\<rparr>, 4 := sock_closed\<lparr>sk_open := True\<rparr>),
      rs_threads = [t, AtLookup 4 ''door-1'']\<rparr>"

lemmas reachable_accept = relay_reachable.step [OF _ relay_step.accept]
lemmas reachable_data = relay_reachable.step [OF _ relay_step.data]

lemma two_conns_reachable: "relay_reachable two_conns"
  unfolding two_conns_def
  by (intro reachable_data reachable_accept relay_reachable.init)
    (simp_all add: accept_conn_def relay_init_def sock_closed_def peer_sends_def)

lemma looking_up_facts:
  "rs_threads (looking_up t) = [t, AtLookup 4 ''door-1'']" "find_device (rs_devices (looking_up t)) ''door-1'' = Some 0"
  "rs_devices (looking_up t) ! 0 = \<lparr>ds_in_use = True, ds_bridging = False, ds_device_id = ''door-1'', ds_sock = 3\<rparr>"
  "rs_socks (looking_up t) 3 = sock_closed\<lparr>sk_open := True\<rparr>" "rs_socks (looking_up t) 4 = sock_closed\<lparr>sk_open := True\<rparr>"
  by (simp_all add: looking_up_def find_device_def devices_init_def upt_conv_Cons)


theorem relay_exclusive_witness:
  "ds_bridging (rs_devices two_conns ! 0) = (\<exists>t \<in> set (rs_threads two_conns). holds t = Some 0)"
  using relay_exclusive [OF two_conns_reachable] by (elim conjE) simp

theorem bridge_transparent_witness: "\<exists>ss buf. copying 0 1 [1, 2, 3] [1, 2] (Sending buf) ss \<and> [1, 2] @ buf = [1, 2, 3]"
proof -
  let ?in = "\<lambda>bs. sock_closed\<lparr>sk_open := True, sk_in := bs\<rparr>"
  let ?ss = "(\<lambda>_. sock_closed)(0 := ?in [1, 2, 3], 1 := ?in [])"
  let ?ss1 = "(\<lambda>_. sock_closed)(0 := ?in [], 1 := ?in [])"
  let ?ss2 = "(\<lambda>_. sock_closed)(0 := ?in [], 1 := (?in [])\<lparr>sk_out := [1, 2]\<rparr>)"
  have "bridge_one_dir 0 1 5 True Reading ?ss = Some (Sending [1, 2, 3], ?ss1)"
    by (simp add: bridge_one_dir_def recv_state_def chosen_def sock_closed_def Let_def fun_upd_twist)
  from copying.move [OF copying.start this] have "copying 0 1 [1, 2, 3] [] (Sending [1, 2, 3]) ?ss1"
    by (simp add: sock_closed_def)
  moreover have "bridge_one_dir 0 1 2 True (Sending [1, 2, 3]) ?ss1 = Some (Sending [3], ?ss2)"
    by (simp add: bridge_one_dir_def send_msg_def chosen_def sock_closed_def Let_def)
  ultimately have c: "copying 0 1 [1, 2, 3] [1, 2] (Sending [3]) ?ss2"
    using copying.move [of 0 1 "[1, 2, 3]" "[]" "Sending [1, 2, 3]" ?ss1 2 True "Sending [3]" ?ss2] by (simp add: sock_closed_def)
  from bridge_transparent [OF this] have "[1, 2] @ [3] = ([1, 2, 3] :: bytes)" by simp
  with c show ?thesis by blast
qed

section \<open>Observations\<close>

text \<open>
  \<open>OK\<close> is sent after the lock is released: a client can be connected in between, and then the device
  is told \<open>BRIDGE\<close> first and \<open>OK\<close> arrives on the bridged stream.
\<close>

lemma bridge_overtakes_ok:
  "\<exists>st'. relay_step\<^sup>*\<^sup>* (looking_up (AtRegisterOk 3 0)) st'
     \<and> sk_out (rs_socks st' 3) = text_bytes (''BRIDGE'' @ crlf) @ text_bytes (''OK'' @ crlf)"
proof -
  let ?st = "looking_up (AtRegisterOk 3 0)" and ?ch = "\<lparr>ch_first = True, ch_n = 1, ch_ok = True\<rparr>"
  define ds where "ds = (rs_devices ?st)[0 := (rs_devices ?st ! 0)\<lparr>ds_bridging := True\<rparr>]"
  define ss1 where "ss1 = send_msg 4 (text_bytes (''OK'' @ crlf)) (rs_socks ?st)"
  define ss2 where "ss2 = send_msg 3 (text_bytes (''BRIDGE'' @ crlf)) ss1"
  define st1 where "st1 = \<lparr>rs_devices = ds, rs_socks = rs_socks ?st, rs_threads = [AtRegisterOk 3 0, AtConnectOk 4 3 0]\<rparr>"
  define st2 where "st2 = \<lparr>rs_devices = ds, rs_socks = ss1, rs_threads = [AtRegisterOk 3 0, AtNotify 4 3 0]\<rparr>"
  define st3 where "st3 = \<lparr>rs_devices = ds, rs_socks = ss2, rs_threads = [AtRegisterOk 3 0, AtBridge 4 3 0]\<rparr>"
  define st4 where "st4 = \<lparr>rs_devices = ds, rs_socks = send_msg 3 (text_bytes (''OK'' @ crlf)) ss2,
      rs_threads = [AtPeek 3 0, AtBridge 4 3 0]\<rparr>"
  have r1: "run_thread ?ch 1 ?st = Some st1"
    by (simp add: run_thread_def looking_up_facts take_device_def st1_def ds_def)
  have r: "run_thread ?ch 1 st1 = Some st2" "run_thread ?ch 1 st2 = Some st3" "run_thread ?ch 0 st3 = Some st4"
    by (simp_all add: run_thread_def st1_def st2_def st3_def st4_def ss1_def ss2_def)
  have "relay_step ?st st1" by (rule relay_step.thread [OF _ r1]) (simp add: looking_up_facts)
  moreover have "relay_step st1 st2" by (rule relay_step.thread [OF _ r(1)]) (simp add: st1_def)
  moreover have "relay_step st2 st3" by (rule relay_step.thread [OF _ r(2)]) (simp add: st2_def)
  moreover have "relay_step st3 st4" by (rule relay_step.thread [OF _ r(3)]) (simp add: st3_def)
  ultimately have "relay_step\<^sup>*\<^sup>* ?st st4" by (meson r_into_rtranclp rtranclp_trans)
  moreover have "sk_out (rs_socks st4 3) = text_bytes (''BRIDGE'' @ crlf) @ text_bytes (''OK'' @ crlf)"
    by (simp add: st4_def ss2_def ss1_def send_msg_def looking_up_facts sock_closed_def)
  ultimately show ?thesis by blast
qed

text \<open>
  A slot can be given to another device while a bridge still holds it: \<open>alloc_device_slot\<close> does not look
  at \<open>bridging\<close>. The new device is invisible to clients, and the end of the old bridge removes it.
\<close>

lemma stale_bridge_hides_device:
  assumes "length ds = MAX_DEVICES" and "i < MAX_DEVICES" and "ds_bridging (ds ! i)" and "\<not> ds_in_use (ds ! i)"
    and "\<forall>j < i. ds_in_use (ds ! j)" and "find_device ds name = None"
  shows "fst (snd (register_device ds name s)) = Some i
      \<and> find_device (snd (snd (register_device ds name s))) name = None
      \<and> \<not> ds_in_use (release_device (snd (snd (register_device ds name s))) i ! i)"
proof -
  have a: "alloc_device_slot ds = Some i"
    using assms(2,4,5) by (auto simp: alloc_device_slot_def find_Some_iff intro!: exI [of _ i])
  have "drop_existing ds name = ds" using assms(6) by (simp add: drop_existing_def)
  with a assms(1,2,3,6) show ?thesis
    by (auto simp: register_device_split find_device_None available_def release_device_def nth_list_update)
qed

text \<open>A name of more than 63 characters is cut when it is stored, so the device is never found.\<close>

lemma long_name_not_found:
  assumes "63 < length name" and "\<forall>i < MAX_DEVICES. length (ds_device_id (ds ! i)) \<le> 63"
  shows "find_device ds name = None"
  using assms by (auto simp: find_device_None)

text \<open>The answer to an unknown command lacks its last byte.\<close>

lemma unknown_command_answer: "parse_line ''HELLO'' = Reject (''ERROR unknown_command'' @ [CR])"
  by code_simp

end
