(* ===== verification/Relay_Bridge.thy ===== *)
theory Relay_Bridge
  imports Rtsp_Props Relay_Client Relay_Server
begin

text \<open>
  The relay from end to end: the messages of \<open>relay_client.c\<close> against the parser of \<open>relay_server.c\<close>, the
  server's answers against the client, and the hand-over of a bridged connection to the RTSP server,
  which is the acceptor the relay client asks for.
\<close>

interpretation rtsp_acceptor: conn_acceptor "rtsp_accept_relay_conn env" "\<lambda>w c. cli_get c w \<noteq> None" for env
proof
  fix c d :: nat and w :: "'a rtsp_world_scheme"
  show "cli_get c (rtsp_accept_relay_conn env c w) \<noteq> None
      \<or> dv_sent (rtsp_accept_relay_conn env c w) = dv_sent w @ [TcpClosed c]"
    by (auto simp: rtsp_accept_relay_conn_def cli_get_def map_add_def split: option.split)
  show "(cli_get d (rtsp_accept_relay_conn env c w) \<noteq> None) = (cli_get d w \<noteq> None)" if "d \<noteq> c"
    using that by (auto simp: rtsp_accept_relay_conn_def cli_get_def tick_def emit_def map_add_def split: option.split)
qed

section \<open>Registration\<close>

lemma readline_text:
  assumes "0x0A \<notin> set bs" and "length buf + length bs < n - 1"
  shows "readline n buf (bs @ 0x0A # rest) = RL_Line (strip_cr (buf @ bs)) rest"
  using assms by (induction bs arbitrary: buf) auto

lemma id_char_facts: "id_char c \<Longrightarrow> c \<noteq> LF \<and> c \<noteq> NUL \<and> c \<noteq> CR"
  by (auto simp: id_char_def Let_def)

lemma register_msg_exact:
  assumes "length (rl_device_id rl) \<le> 63" and "rl_auth_token rl = AUTH_TOKEN"
  shows "register_msg rl = ''REGISTER '' @ rl_device_id rl @ '' '' @ AUTH_TOKEN @ crlf"
  using assms by (simp add: register_msg_def re_snprintf_fits)

lemma server_reads_line:
  assumes "length t < MAX_LINE - 2" and "LF \<notin> set t" and "NUL \<notin> set t"
  shows "\<exists>l. readline MAX_LINE [] (text_bytes (t @ crlf) @ rest) = RL_Line l rest \<and> l = text_bytes t \<and> c_str (bytes_text l) = t"
proof -
  have "text_bytes (t @ crlf) @ rest = (text_bytes t @ [0x0D]) @ 0x0A # rest" by (simp add: text_bytes_def)
  moreover have "0x0A \<notin> set (text_bytes t @ [0x0D])" using assms(2) by (auto simp: text_bytes_def byte_LF)
  moreover have "strip_cr ([] @ text_bytes t @ [0x0D]) = text_bytes t" by (simp add: strip_cr_def)
  moreover have "c_str t = t" using assms(3) by (auto simp: c_str_def takeWhile_eq_all_conv)
  ultimately show ?thesis
    using readline_text [of "text_bytes t @ [0x0D]" "[]" MAX_LINE rest] assms(1) by simp
qed

lemma server_accepts_registration:
  assumes "length name \<le> 63" and "list_all id_char name"
  shows "\<exists>l. readline MAX_LINE [] (text_bytes (''REGISTER '' @ name @ '' '' @ AUTH_TOKEN @ crlf)) = RL_Line l []
     \<and> parse_line (c_str (bytes_text l)) = Register name"
proof -
  let ?t = "''REGISTER '' @ name @ '' '' @ AUTH_TOKEN"
  have "LF \<notin> set ?t" "NUL \<notin> set ?t" using assms(2) id_char_facts by (auto simp: list_all_iff)
  with assms(1) server_reads_line [of ?t "[]"] obtain l
    where "readline MAX_LINE [] (text_bytes (?t @ crlf)) = RL_Line l []" "c_str (bytes_text l) = ?t" by auto
  moreover have "parse_line ?t = Register name" using parse_register_iff [of "name @ '' '' @ AUTH_TOKEN" name] assms(2) by simp
  ultimately show ?thesis by (intro exI [of _ l]) simp
qed

section \<open>Answers\<close>

lemma client_follows_answers:
  assumes "\<not> rl_registered rl"
  shows "relay_lines bridge (text_bytes (''OK'' @ crlf) @ text_bytes (''BRIDGE'' @ crlf)) (rl, w)
       = relay_bridge bridge (rl\<lparr>rl_registered := True\<rparr>, w)"
  using relay_lines_text [of "''OK''" bridge "text_bytes (''BRIDGE'' @ crlf)" "(rl, w)"]
    relay_lines_text [of "''BRIDGE''" bridge "[]" "(rl\<lparr>rl_registered := True\<rparr>, w)"] assms by simp

text \<open>C16: The relay protocol works end to end: a device with a name of at most 63 letters, digits, dashes and
  underscores and the shared token sends, when its connection is up, a line that the relay server reads as the
  registration of exactly that name; and when the server answers with its \<open>OK\<close> and \<open>BRIDGE\<close> messages, the
  device hands the connection over to its RTSP server as a new client, keeps no claim on it, and arms
  its timer to connect again for the next client.\<close>

theorem relay_end_to_end:
  assumes "length (rl_device_id rl) \<le> 63" and "list_all id_char (rl_device_id rl)" and "rl_auth_token rl = AUTH_TOKEN"
    and "rl_tc rl = Some c" and "rl_cb rl" and "rl_running rl" and "\<not> rl_registered rl" and "rl_rbuf rl = None"
    and "network_up env" and "cli_get c w = None"
  shows "\<exists>msg l. dv_sent (snd (relay_estab_handler env (rl, w))) = dv_sent w @ [TcpSend c msg]
      \<and> readline MAX_LINE [] msg = RL_Line l [] \<and> parse_line (c_str (bytes_text l)) = Register (rl_device_id rl)
      \<and> (let s = relay_recv_handler env (rtsp_accept_relay_conn env)
                   (text_bytes (''OK'' @ crlf) @ text_bytes (''BRIDGE'' @ crlf)) (rl, w)
         in cli_get c (snd s) = Some new_client \<and> rl_tc (fst s) = None \<and> rl_tmr_reconnect (fst s) = Some 5000)"
proof -
  let ?msg = "text_bytes (''REGISTER '' @ rl_device_id rl @ '' '' @ AUTH_TOKEN @ crlf)"
  let ?s = "relay_recv_handler env (rtsp_accept_relay_conn env) (text_bytes (''OK'' @ crlf) @ text_bytes (''BRIDGE'' @ crlf)) (rl, w)"
  have sent: "dv_sent (snd (relay_estab_handler env (rl, w))) = dv_sent w @ [TcpSend c ?msg]"
    using assms(4,9) by (simp add: relay_estab_handler_def register_msg_exact [OF assms(1,3)] network_up_def dev_tcp_send_def)
  have "length (text_bytes (''OK'' @ crlf) @ text_bytes (''BRIDGE'' @ crlf)) \<le> MAX_RBUF_SIZE" by simp
  then have "?s = relay_lines (rtsp_accept_relay_conn env) (text_bytes (''OK'' @ crlf) @ text_bytes (''BRIDGE'' @ crlf)) (rl, tick (tick w))"
    using assms(8,9) by (simp add: relay_recv_handler_def network_up_def)
  then have s: "?s = relay_bridge (rtsp_accept_relay_conn env) (rl\<lparr>rl_registered := True\<rparr>, tick (tick w))"
    using client_follows_answers [OF assms(7)] by simp
  have "cli_get c (rtsp_accept_relay_conn env c (tick (tick w))) = Some new_client"
    using assms(9,10) by (simp add: rtsp_accept_relay_conn_def network_up_def cli_get_def map_add_def tick_def)
  then have "cli_get c (snd ?s) = Some new_client \<and> rl_tc (fst ?s) = None \<and> rl_tmr_reconnect (fst ?s) = Some 5000"
    unfolding s using assms(4-6) by (simp add: relay_bridge_def Let_def)
  with sent server_accepts_registration [OF assms(1,2)] show ?thesis by (auto simp: Let_def)
qed

definition example_relay :: relay_client where
  "example_relay = relay_zero\<lparr>rl_tc := Some 9, rl_device_id := ''door-1'', rl_auth_token := AUTH_TOKEN, rl_cb := True,
     rl_running := True\<rparr>"

theorem relay_end_to_end_witness:
  "\<exists>msg l. dv_sent (snd (relay_estab_handler good_env (example_relay, one_client_world new_client))) = [TcpSend 9 msg]
      \<and> readline MAX_LINE [] msg = RL_Line l [] \<and> parse_line (c_str (bytes_text l)) = Register ''door-1''"
proof -
  have id: "list_all id_char (rl_device_id example_relay)" by (simp add: example_relay_def relay_zero_def id_char_def Let_def)
  have free: "cli_get 9 (one_client_world new_client) = None" by (simp add: cli_get_def one_client_world_def)
  have "dv_sent (one_client_world new_client) = []" by (simp add: one_client_world_def rtsp_world_zero_def)
  with relay_end_to_end [of example_relay 9 good_env "one_client_world new_client", OF _ id _ _ _ _ _ _ good_env_up free]
  show ?thesis by (simp add: example_relay_def relay_zero_def) blast
qed

section \<open>Observations\<close>

text \<open>
  What follows \<open>BRIDGE\<close> in the same segment is lost: the receive buffer is discarded with the connection's
  hand-over, so an RTSP request the client sent at once never reaches the RTSP server.
\<close>

lemma bytes_after_bridge_lost:
  "relay_lines bridge (text_bytes (''BRIDGE'' @ crlf) @ rest) s = relay_lines bridge (text_bytes (''BRIDGE'' @ crlf)) s"
  using relay_lines_text [of "''BRIDGE''" bridge rest s] relay_lines_text [of "''BRIDGE''" bridge "[]" s] by simp

end
