(* ===== verification/Main_Program.thy ===== *)
theory Main_Program
  imports Http_Server Relay_Bridge
begin

text \<open>
  The program (\<open>main.c\<close>): its options, the directory of the static files, the order in which the parts are
  started and closed, and the event loop in between as the transitive closure of the callbacks of all
  parts.

  \<open>link\<close> is what \<open>readlink\<close> reports for the executable (\<open>None\<close> for a failure). The variable \<open>g_session\<close> of \<open>main.c\<close> is
  never set and passed as \<open>None\<close>.
\<close>

section \<open>Options\<close>

record main_options =
  mo_auth_user :: "string option"
  mo_auth_pass :: "string option"
  mo_relay_host :: "string option"
  mo_relay_port :: u16
  mo_device_id :: "string option"
  mo_relay_token :: string
  mo_stun_server :: "string option"

definition default_options :: main_options where
  "default_options =
     \<lparr>mo_auth_user = None, mo_auth_pass = None, mo_relay_host = None, mo_relay_port = 443, mo_device_id = None,
      mo_relay_token = ''smartlock2026'', mo_stun_server = None\<rparr>"

text \<open>The loop over \<open>argv\<close> from index 1; the last argument has no value after it.\<close>

fun parse_args :: "string list \<Rightarrow> main_options \<Rightarrow> main_options" where
  "parse_args (a # v # r) opts =
     (if a = ''--user'' then parse_args r (opts\<lparr>mo_auth_user := Some v\<rparr>)
      else if a = ''--pass'' then parse_args r (opts\<lparr>mo_auth_pass := Some v\<rparr>)
      else if a = ''--relay'' then parse_args r (opts\<lparr>mo_relay_host := Some v\<rparr>)
      else if a = ''--relay-port'' then parse_args r (opts\<lparr>mo_relay_port := word_of_int (atoi v)\<rparr>)
      else if a = ''--device-id'' then parse_args r (opts\<lparr>mo_device_id := Some v\<rparr>)
      else if a = ''--relay-token'' then parse_args r (opts\<lparr>mo_relay_token := v\<rparr>)
      else if a = ''--stun'' then parse_args r (opts\<lparr>mo_stun_server := Some v\<rparr>)
      else parse_args (v # r) opts)"
| "parse_args _ opts = opts"

section \<open>Paths\<close>

definition cut_last :: "string \<Rightarrow> string" where
  "cut_last path =
     (case strrchr path BSL of
        Some i \<Rightarrow> take i path
      | None \<Rightarrow> (case strrchr path CHR ''/'' of Some i \<Rightarrow> take i path | None \<Rightarrow> path))"

definition resolve_www_path :: "string option \<Rightarrow> nat \<Rightarrow> string" where
  "resolve_www_path link sz =
     (let exepath = (case link of
                       Some p \<Rightarrow> if p \<noteq> [] then c_str (take 511 p) else str_ncpy ''.'' 512
                     | None \<Rightarrow> str_ncpy ''.'' 512)
      in fst (re_snprintf sz [cut_last (cut_last exepath), ''/www'']))"

section \<open>Start and end\<close>

definition start_auth :: "env \<Rightarrow> main_options \<Rightarrow> 'a intercom_world_scheme \<Rightarrow> 'a intercom_world_scheme" where
  "start_auth env opts w =
     (if mo_auth_user opts \<noteq> None \<and> mo_auth_pass opts \<noteq> None
      then (tick w)\<lparr>rw_auth := rtsp_auth_init (en_rand env (dv_tick w)) (mo_auth_user opts) (mo_auth_pass opts) (rw_auth w)\<rparr>
      else w)"

definition start_stun :: "env \<Rightarrow> main_options \<Rightarrow> 'a intercom_world_scheme \<Rightarrow> 'a intercom_world_scheme" where
  "start_stun env opts w =
     (if mo_stun_server opts \<noteq> None
      then (let (e, st, w1) = stun_discover env (mo_stun_server opts) 19302 8555 False (iw_stun w, w) in w1\<lparr>iw_stun := st\<rparr>)
      else w)"

definition start_relay :: "env \<Rightarrow> main_options \<Rightarrow> 'a intercom_world_scheme \<Rightarrow> 'a intercom_world_scheme" where
  "start_relay env opts w =
     (if mo_relay_host opts \<noteq> None \<and> mo_device_id opts \<noteq> None
      then (let (e, rl, w1) = relay_client_start env (mo_relay_host opts) (mo_relay_port opts) (mo_device_id opts)
                                (Some (mo_relay_token opts)) True (iw_relay w, w)
            in w1\<lparr>iw_relay := rl\<rparr>)
      else w)"

text \<open>\<open>main\<close> up to the event loop; an error is the reason to go to \<open>out\<close>.\<close>

definition main_start :: "env \<Rightarrow> string option \<Rightarrow> string list \<Rightarrow> 'a intercom_world_scheme \<Rightarrow> errno option \<times> 'a intercom_world_scheme"
  where
  "main_start env link argv w =
     (let opts = parse_args (drop 1 argv) default_options
      in case http_sig_init env (resolve_www_path link 512) w of
           (Some e, w1) \<Rightarrow> (Some e, w1)
         | (None, w1) \<Rightarrow>
             (case rtsp_server_init env w1 of
                (Some e, w2) \<Rightarrow> (Some e, w2)
              | (None, w2) \<Rightarrow> (None, start_relay env opts (start_stun env opts (start_auth env opts w2)))))"

text \<open>The clean-up at \<open>out\<close>; \<open>httpsock\<close> tells whether \<open>main\<close> got the socket from \<open>http_sig_init\<close>.\<close>

definition main_cleanup :: "intercom_session option \<Rightarrow> bool \<Rightarrow> 'a intercom_world_scheme \<Rightarrow> 'a intercom_world_scheme" where
  "main_cleanup g_session httpsock w =
     (let w0 = (case g_session of None \<Rightarrow> w | Some s \<Rightarrow> session_destructor w);
          (rl, w1) = relay_client_stop (iw_relay w0, w0);
          w2 = w1\<lparr>iw_relay := rl\<rparr>;
          w3 = w2\<lparr>iw_stun := stun_close (iw_stun w2)\<rparr>;
          w4 = http_sig_close (rtsp_server_close w3)
      in if httpsock then w4\<lparr>iw_sock_refs := iw_sock_refs w4 - 1\<rparr> else w4)"

text \<open>
  \<open>main\<close>: \<open>libre_err\<close> is the result of \<open>libre_init\<close>, and \<open>loop\<close> what the event loop does to the state; its error code is not
  looked at.
\<close>

definition main_run ::
  "env \<Rightarrow> errno option \<Rightarrow> string option \<Rightarrow> string list \<Rightarrow> ('a intercom_world_scheme \<Rightarrow> 'a intercom_world_scheme)
   \<Rightarrow> 'a intercom_world_scheme \<Rightarrow> 'a intercom_world_scheme" where
  "main_run env libre_err link argv loop w =
     (if libre_err \<noteq> None then w
      else case main_start env link argv w of
             (Some e, w1) \<Rightarrow> main_cleanup None (iw_httpsock w1) w1
           | (None, w1) \<Rightarrow> main_cleanup None True (loop w1))"

section \<open>Options and paths\<close>

text \<open>The arguments that stand for the options.\<close>

definition option_args :: "main_options \<Rightarrow> string list" where
  "option_args opts =
     (let opt = (\<lambda>name v. case v of None \<Rightarrow> [] | Some x \<Rightarrow> [name, x])
      in opt ''--user'' (mo_auth_user opts) @ opt ''--pass'' (mo_auth_pass opts) @ opt ''--relay'' (mo_relay_host opts)
         @ [''--relay-port'', itoa_dec (unat (mo_relay_port opts))] @ opt ''--device-id'' (mo_device_id opts)
         @ [''--relay-token'', mo_relay_token opts] @ opt ''--stun'' (mo_stun_server opts))"

lemma parse_args_opt:
  "parse_args ((case v of None \<Rightarrow> [] | Some x \<Rightarrow> [''--user'', x]) @ r) opts =
     parse_args r (case v of None \<Rightarrow> opts | Some x \<Rightarrow> opts\<lparr>mo_auth_user := Some x\<rparr>)"
  "parse_args ((case v of None \<Rightarrow> [] | Some x \<Rightarrow> [''--pass'', x]) @ r) opts =
     parse_args r (case v of None \<Rightarrow> opts | Some x \<Rightarrow> opts\<lparr>mo_auth_pass := Some x\<rparr>)"
  "parse_args ((case v of None \<Rightarrow> [] | Some x \<Rightarrow> [''--relay'', x]) @ r) opts =
     parse_args r (case v of None \<Rightarrow> opts | Some x \<Rightarrow> opts\<lparr>mo_relay_host := Some x\<rparr>)"
  "parse_args ((case v of None \<Rightarrow> [] | Some x \<Rightarrow> [''--device-id'', x]) @ r) opts =
     parse_args r (case v of None \<Rightarrow> opts | Some x \<Rightarrow> opts\<lparr>mo_device_id := Some x\<rparr>)"
  "parse_args (case v of None \<Rightarrow> [] | Some x \<Rightarrow> [''--stun'', x]) opts =
     (case v of None \<Rightarrow> opts | Some x \<Rightarrow> opts\<lparr>mo_stun_server := Some x\<rparr>)"
  by (simp_all split: option.split)

text \<open>The command line expresses every configuration: for any user, password, relay, port, device, token
  and STUN server, whatever characters they contain (even the names of other options), the arguments
  that spell them out are parsed back to exactly this configuration.\<close>

lemma parse_args_complete:
  "parse_args (option_args opts) default_options = opts"
proof -
  have "atoi (itoa_dec n) = int n" for n using atoi_itoa_dec [of "[]" n] by simp
  then have "word_of_int (atoi (itoa_dec (unat p))) = p" for p :: u16 by simp
  then show ?thesis
    by (cases opts) (simp add: option_args_def Let_def parse_args_opt default_options_def split: option.split)
qed

lemma strrchr_last: "ch \<notin> set t \<Longrightarrow> strrchr (s @ ch # t) ch = Some (length s)"
  by (simp add: strrchr_def)

lemma strrchr_notin: "ch \<notin> set s \<Longrightarrow> strrchr s ch = None"
  by (simp add: strrchr_def)

lemma cut_last_slash:
  assumes "BSL \<notin> set dir" and "BSL \<notin> set name" and "CHR ''/'' \<notin> set name"
  shows "cut_last (dir @ CHR ''/'' # name) = dir"
  using assms by (simp add: cut_last_def strrchr_notin strrchr_last)

text \<open>The static files are looked for beside the directory of the executable.\<close>

lemma www_beside_build:
  assumes "BSL \<notin> set (dir @ build @ exe)" and "CHR ''/'' \<notin> set (build @ exe)" and "NUL \<notin> set (dir @ build @ exe)"
    and "length dir + length build + length exe < 500"
  shows "resolve_www_path (Some (dir @ ''/'' @ build @ ''/'' @ exe)) 512 = dir @ ''/www''"
proof -
  have nn: "c_str (take 511 (dir @ ''/'' @ build @ ''/'' @ exe)) = (dir @ ''/'' @ build) @ CHR ''/'' # exe"
    using assms(3,4) by (auto simp: c_str_def takeWhile_eq_all_conv)
  have "cut_last (cut_last ((dir @ ''/'' @ build) @ CHR ''/'' # exe)) = dir"
    using assms(1,2) cut_last_slash [of "dir @ ''/'' @ build" exe] cut_last_slash [of dir build] by simp
  then show ?thesis unfolding resolve_www_path_def using assms(4) nn by (simp add: re_snprintf_fits)
qed

section \<open>The event loop\<close>

definition session_fire :: "env \<Rightarrow> (u32 \<Rightarrow> i16) \<Rightarrow> session_event \<Rightarrow> 'a intercom_world_scheme \<Rightarrow> 'a intercom_world_scheme" where
  "session_fire env tone ev w =
     (case iw_sess w of
        None \<Rightarrow> w
      | Some s \<Rightarrow>
          (let (ph, s', w') = session_event_step env tone ev (iw_phase w, s, w) in w'\<lparr>iw_sess := Some s', iw_phase := ph\<rparr>))"

text \<open>
  One step is one callback of a part of the program. A connection that the relay client hands over is not
  yet a client of the RTSP server.
\<close>

inductive program_step :: "env \<Rightarrow> (u32 \<Rightarrow> i16) \<Rightarrow> intercom_world \<Rightarrow> intercom_world \<Rightarrow> bool" for env tone where
  rtsp: "rtsp_step env w w' \<Longrightarrow> program_step env tone w w'"
| http: "iw_httpsock w \<Longrightarrow> program_step env tone w (http_req_handler env c msg w)"
| call: "program_step env tone w (session_fire env tone ev w)"
| relay: "relay_client_step env (rtsp_accept_relay_conn env) (iw_relay w, w) (rl, w')
    \<Longrightarrow> \<forall>c. rl_tc (iw_relay w) = Some c \<longrightarrow> c \<notin> fst ` set (rw_clients w) \<Longrightarrow> program_step env tone w (w'\<lparr>iw_relay := rl\<rparr>)"
| stun: "sn_ct (iw_stun w)
    \<Longrightarrow> program_step env tone w (w\<lparr>iw_stun := snd (stun_resp_handler (en_inet env) err scode xor_mapped mapped (iw_stun w))\<rparr>)"

inductive_cases program_stepE: "program_step env tone w w'"

text \<open>
  What always holds: the RTSP server's invariant (but for the camera, which a call may take away), the relay client's
  invariant, a session that is a running call, and texts within their buffers.
\<close>

definition program_inv :: "'a intercom_world_scheme \<Rightarrow> bool" where
  "program_inv w \<longleftrightarrow>
     rtsp_inv False UNIV w \<and> relay_ok (iw_relay w)
     \<and> (\<forall>s. iw_sess w = Some s \<longrightarrow> session_live (ss_peer_addr s) s)
     \<and> length (iw_www_path w) < 256 \<and> length (sn_public_addr (iw_stun w)) < 64"

lemma program_invD: "program_inv w \<Longrightarrow> rtsp_inv False UNIV w" "program_inv w \<Longrightarrow> dev_wf w"
  by (simp_all add: program_inv_def rtsp_inv_def)

lemma rtsp_moreD:
  fixes w w' :: "'a intercom_world_scheme"
  assumes "rtsp_world.more w' = rtsp_world.more w"
  shows "iw_sess w' = iw_sess w" "iw_www_path w' = iw_www_path w" "iw_stun w' = iw_stun w" "iw_relay w' = iw_relay w"
    "iw_httpsock w' = iw_httpsock w" "iw_sock_refs w' = iw_sock_refs w"
  using assms by (cases w; cases w'; simp)+

lemma rtsp_inv_frame:
  fixes w w' :: "'a rtsp_world_scheme"
  assumes "rtsp_inv False UNIV w" and "rtsp_part w' = rtsp_part w" and "dev_wf w'" and "dv_ain w' = dv_ain w"
  shows "rtsp_inv False UNIV w'"
  using assms by (simp add: rtsp_inv_def rtsp_part_def)

text \<open>The RTSP server does not touch the other parts.\<close>

lemma rtsp_step_program_inv:
  fixes w w' :: "'a intercom_world_scheme"
  assumes "rtsp_step env w w'" and "program_inv w"
  shows "program_inv w'"
proof -
  have "rtsp_inv False {rtsp_world.more w} w" using assms(2) by (simp add: program_inv_def rtsp_inv_def)
  then have i: "rtsp_inv False {rtsp_world.more w} w'" by (rule rtsp_step_inv [OF assms(1)])
  then have "rtsp_world.more w' = rtsp_world.more w" by (simp add: rtsp_inv_def)
  from rtsp_moreD [OF this] i assms(2) show ?thesis by (simp add: program_inv_def rtsp_inv_def)
qed

lemma dev_wf_traffic: "only_traffic w w' \<Longrightarrow> dev_wf w \<Longrightarrow> dev_wf w'"
  by (simp add: only_traffic_def dev_wf_def)

lemma session_dev_wf [keeps]:
  "dev_wf w \<Longrightarrow> dev_wf (session_destructor w)"
  "dev_wf w \<Longrightarrow> dev_wf (snd (session_alloc env peer w))"
  by (simp_all add: session_destructor_def session_alloc_def Let_def case_prod_beta dev_wf_ops split: option.split sum.split)

lemma session_dv_ain [simp]:
  "dv_ain (session_destructor w) = dv_ain w" "dv_ain (snd (session_alloc env peer w)) = dv_ain w"
  by (simp_all add: session_destructor_def session_alloc_def dev_defs Let_def case_prod_beta split: option.split sum.split)

lemma dev_wf_upd [simp]:
  "dev_wf (w\<lparr>iw_sess := s\<rparr>) = dev_wf w" "dev_wf (w\<lparr>iw_doorbell := d\<rparr>) = dev_wf w" "dev_wf (w\<lparr>iw_phase := p\<rparr>) = dev_wf w"
  "dev_wf (w\<lparr>iw_relay := rl\<rparr>) = dev_wf w" "dev_wf (w\<lparr>iw_stun := st\<rparr>) = dev_wf w"
  by (simp_all add: dev_wf_def)

lemma drop_session_devices [simp]:
  "dev_wf w \<Longrightarrow> dev_wf (drop_session w)" "dv_ain (drop_session w) = dv_ain w"
  by (simp_all add: drop_session_def session_dev_wf split: option.split)

lemmas reply_dev_wf = reply_traffic [THEN dev_wf_traffic]

lemma call_create_devices:
  "dev_wf w \<Longrightarrow> dev_wf (handle_call_create env conn msg w)" "dv_ain (handle_call_create env conn msg w) = dv_ain w"
  by (simp_all add: handle_call_create_def Let_def case_prod_beta reply_dev_wf session_dev_wf split: sum.split)

lemma http_devices:
  "dev_wf w \<Longrightarrow> dev_wf (http_req_handler env c msg w)" "dv_ain (http_req_handler env c msg w) = dv_ain w"
  by (simp_all add: http_req_handler_def http_dispatch_def http_handlers reply_dev_wf dev_wf_ops call_create_devices)

lemma call_create_session:
  assumes "iw_sess (handle_call_create env conn msg w) = Some s"
  shows "session_live (ss_peer_addr s) s"
proof -
  obtain peer where p: "sa_decode (en_inet env) (call_peer msg) = Inr peer"
    using assms by (cases "sa_decode (en_inet env) (call_peer msg)") (simp_all add: handle_call_create_def Let_def)
  obtain r w1 where a: "session_alloc env peer (drop_session w) = (r, w1)" by (cases "session_alloc env peer (drop_session w)")
  have "iw_sess w1 = None" using session_keeps(4) [of env peer "drop_session w"] a by simp
  then have "r = Inr s" using assms p a by (cases r) (simp_all add: handle_call_create_def Let_def)
  then have "session_live peer s" using a by (simp add: session_alloc_live)
  then show ?thesis by (simp add: session_live_def)
qed

lemma http_sessions:
  "iw_sess (http_req_handler env c msg w) \<in> {None, iw_sess w, iw_sess (handle_call_create env (Some c) msg w)}"
  by (simp add: http_req_handler_def http_dispatch_def http_handlers)

lemma http_session:
  "iw_sess (http_req_handler env c msg w) = Some s \<Longrightarrow> iw_sess w = Some s \<or> session_live (ss_peer_addr s) s"
  using call_create_session [of env "Some c" msg w s] http_sessions [of env c msg w] by auto

lemma http_program_inv:
  assumes "program_inv w"
  shows "program_inv (http_req_handler env c msg w)"
proof -
  have "rtsp_inv False UNIV (http_req_handler env c msg w)"
    using assms by - (rule rtsp_inv_frame [of w], simp_all add: program_invD http_keeps http_devices)
  then show ?thesis using assms http_session [of env c msg w] by (auto simp: program_inv_def http_keeps)
qed

text \<open>A call's events.\<close>

lemma udp_sends_devices:
  "devices.more (foldl (\<lambda>v p. dev_udp_send env us dst p v) w ps) = devices.more w
   \<and> dv_ain (foldl (\<lambda>v p. dev_udp_send env us dst p v) w ps) = dv_ain w
   \<and> (dev_wf w \<longrightarrow> dev_wf (foldl (\<lambda>v p. dev_udp_send env us dst p v) w ps))"
proof (induction ps arbitrary: w)
  case (Cons p ps)
  have "devices.more (dev_udp_send env us dst p w) = devices.more w" "dv_ain (dev_udp_send env us dst p w) = dv_ain w"
    by (simp_all add: dev_udp_send_def split: option.split)
  with Cons [of "dev_udp_send env us dst p w"] show ?case by (simp add: dev_wf_ops)
qed simp

lemma receive_devices:
  "devices.more (udp_recv_handler env s p w) = devices.more w" "dv_ain (udp_recv_handler env s p w) = dv_ain w"
  "dev_wf w \<Longrightarrow> dev_wf (udp_recv_handler env s p w)"
proof -
  have play: "devices.more (dev_audio_out_play env bs w) = devices.more w" "dv_ain (dev_audio_out_play env bs w) = dv_ain w"
    for bs by (simp_all add: dev_audio_out_play_def Let_def case_prod_beta split: option.split)
  show "devices.more (udp_recv_handler env s p w) = devices.more w" "dv_ain (udp_recv_handler env s p w) = dv_ain w"
    "dev_wf w \<Longrightarrow> dev_wf (udp_recv_handler env s p w)"
    by (simp_all add: udp_recv_handler_def play dev_wf_ops split: sum.split prod.split)
qed

lemma audio_timer_devices:
  "devices.more (snd (snd (session_audio_timer env tone ph s w))) = devices.more w"
  "dv_ain (snd (snd (session_audio_timer env tone ph s w))) = dv_ain w"
  "dev_wf w \<Longrightarrow> dev_wf (snd (snd (session_audio_timer env tone ph s w)))"
  using udp_sends_devices [of env "ss_us s" "ss_peer_addr s" "tick w" "[p]" for p]
  by (simp_all add: session_audio_timer_def send_tone_def Let_def case_prod_beta dev_wf_ops)

lemma video_timer_devices:
  "devices.more (snd (session_video_timer env s w)) = devices.more w"
  "dv_ain (snd (session_video_timer env s w)) = dv_ain w"
  "dev_wf w \<Longrightarrow> dev_wf (snd (session_video_timer env s w))"
proof -
  have f: "devices.more (snd (dev_get_frame env w)) = devices.more w" "dv_ain (snd (dev_get_frame env w)) = dv_ain w"
    by (simp_all add: dev_get_frame_def case_prod_beta Let_def)
  have d: "dev_wf w \<Longrightarrow> dev_wf (snd (dev_get_frame env w))" by (rule dev_wf_ops(4))
  obtain r w1 where g: "dev_get_frame env w = (r, w1)" by (cases "dev_get_frame env w")
  show "devices.more (snd (session_video_timer env s w)) = devices.more w"
    "dv_ain (snd (session_video_timer env s w)) = dv_ain w"
    "dev_wf w \<Longrightarrow> dev_wf (snd (session_video_timer env s w))"
    using f d udp_sends_devices [of env "ss_us s" "ss_peer_addr s" "tick w1"]
    by (cases r; simp add: session_video_timer_def g Let_def case_prod_beta dev_wf_ops)+
qed

lemma session_event_devices:
  "devices.more (snd (snd (session_event_step env tone ev (ph, s, w)))) = devices.more w"
  "dv_ain (snd (snd (session_event_step env tone ev (ph, s, w)))) = dv_ain w"
  "dev_wf w \<Longrightarrow> dev_wf (snd (snd (session_event_step env tone ev (ph, s, w))))"
  by (cases ev; simp add: receive_devices audio_timer_devices video_timer_devices)+

lemma session_fire_program_inv:
  assumes "program_inv w"
  shows "program_inv (session_fire env tone ev w)"
proof (cases "iw_sess w")
  case (Some s)
  obtain ph s' w' where e: "session_event_step env tone ev (iw_phase w, s, w) = (ph, s', w')" by (metis prod.collapse)
  note d = session_event_devices [where env = env and tone = tone and ev = ev and ph = "iw_phase w" and s = s and w = w, unfolded e, simplified]
  note m = devices_moreD [OF d(1)]
  have "session_live (ss_peer_addr s) s" using assms Some by (simp add: program_inv_def)
  then have "session_live (ss_peer_addr s) s'"
    using session_live_step [of "ss_peer_addr s" "(iw_phase w, s, w)" env tone ev] e by simp
  then have live: "session_live (ss_peer_addr s') s'" by (simp add: session_live_def)
  have "rtsp_inv False UNIV w'"
    using assms m(1) d(2,3) by - (rule rtsp_inv_frame [of w], simp_all add: program_invD)
  then have "rtsp_inv False UNIV (w'\<lparr>iw_sess := Some s', iw_phase := ph\<rparr>)"
    by (simp add: rtsp_inv_def)
  then show ?thesis using assms live m by (simp add: session_fire_def Some e program_inv_def)
qed (use assms in \<open>simp add: session_fire_def\<close>)

text \<open>
  The relay client changes the world only by its calls, its traffic and the hand-over of its own
  connection.
\<close>

lemma relay_lines_world:
  assumes "P (snd s)" and "\<And>w. P w \<Longrightarrow> Q w" and "\<And>c w. rl_tc (fst s) = Some c \<Longrightarrow> P w \<Longrightarrow> Q (bridge c w)"
  shows "Q (snd (relay_lines bridge data s))"
  using assms
proof (induction bridge data s rule: relay_lines.induct)
  case (1 bridge data s)
  show ?case
  proof (cases "memchr 0x0A data")
    case None
    with "1.prems" show ?thesis by (subst relay_lines.simps) simp
  next
    case (Some nl)
    have "Q (snd (relay_bridge bridge s))"
      using "1.prems" by (auto simp: relay_bridge_def Let_def case_prod_beta split: option.split)
    with 1 Some show ?thesis by (subst relay_lines.simps) (simp add: Let_def)
  qed
qed

lemma relay_step_world:
  assumes "relay_client_step env bridge s s'" and "P (snd s)"
    and quiet: "\<And>w. P w \<Longrightarrow> P (tick w)" "\<And>e w. P w \<Longrightarrow> P (emit e w)" "\<And>w. P w \<Longrightarrow> Q w"
    and handover: "\<And>c w. rl_tc (fst s) = Some c \<Longrightarrow> P w \<Longrightarrow> Q (bridge c w)"
  shows "Q (snd s')"
proof -
  have conn: "P (snd (relay_do_connect env t))" if "P (snd t)" for t
    using that quiet(1) by (simp add: relay_do_connect_def case_prod_beta split: option.split sum.split)
  have drop: "P (snd (drop_conn t))" if "P (snd t)" for t
    using that quiet(2) by (simp add: drop_conn_def case_prod_beta split: option.split)
  have close: "P (snd (relay_close_handler t))" if "P (snd t)" for t
    using drop [OF that] by (simp add: relay_close_handler_def case_prod_beta)
  show ?thesis using assms(1)
  proof cases
    case (start host port did token cb)
    have "P (snd (snd (relay_client_start env host port did token cb s)))"
      using assms(2) by (simp add: relay_client_start_def Let_def conn split: option.split)
    from quiet(3) [OF this] start show ?thesis by simp
  next
    case stop
    then show ?thesis using assms(2) quiet(3) drop by (simp add: relay_client_stop_def)
  next
    case estab
    then show ?thesis using assms(2) quiet
      by (simp add: relay_estab_handler_def Let_def case_prod_beta dev_tcp_send_def split: option.split)
  next
    case (recv bs)
    have "Q (snd (relay_lines bridge data (fst s, tick (tick (snd s)))))" for data
    proof (rule relay_lines_world [where P = P and Q = Q])
      show "P (snd (fst s, tick (tick (snd s))))" using quiet(1) [OF quiet(1) [OF assms(2)]] by simp
    qed (use quiet(3) handover in simp_all)
    moreover have "Q (snd (relay_close_handler (fst s, tick (snd s))))" using close quiet assms(2) by simp
    ultimately show ?thesis using recv assms(2) quiet by (simp add: relay_recv_handler_def case_prod_beta Let_def)
  next
    case close
    then show ?thesis using \<open>\<And>t. P (snd t) \<Longrightarrow> P (snd (relay_close_handler t))\<close> assms(2) quiet(3) by simp
  next
    case timer
    then show ?thesis using conn drop quiet(3) assms(2) by (simp add: relay_reconnect_def)
  qed
qed

lemma relay_program_inv:
  fixes w w' :: "'a intercom_world_scheme"
  assumes "relay_client_step env (rtsp_accept_relay_conn env) (iw_relay w, w) (rl, w')"
    and fresh: "\<forall>c. rl_tc (iw_relay w) = Some c \<longrightarrow> c \<notin> fst ` set (rw_clients w)" and "program_inv w"
  shows "program_inv (w'\<lparr>iw_relay := rl\<rparr>)"
proof -
  let ?P = "\<lambda>v. rtsp_inv False {rtsp_world.more w} v \<and> rw_clients v = rw_clients w"
  have "?P w" using assms(3) by (simp add: program_inv_def rtsp_inv_def)
  then have i: "rtsp_inv False {rtsp_world.more w} w'"
    using relay_step_world [OF assms(1), where P = ?P and Q = "rtsp_inv False {rtsp_world.more w}"] fresh
    by (simp add: keeps)
  then have "rtsp_world.more w' = rtsp_world.more w" by (simp add: rtsp_inv_def)
  note m = rtsp_moreD [OF this]
  have "relay_ok rl" using relay_client_step_ok [OF assms(1)] assms(3) by (simp add: program_inv_def)
  with i m assms(3) show ?thesis by (simp add: program_inv_def rtsp_inv_def)
qed

lemma stun_program_inv:
  "program_inv w \<Longrightarrow> program_inv (w\<lparr>iw_stun := snd (stun_resp_handler sys err scode x m (iw_stun w))\<rparr>)"
  using stun_addr_length [of "iw_stun w" sys err scode x m] by (simp add: program_inv_def rtsp_inv_def)

lemma program_step_inv:
  assumes "program_step env tone w w'" and "program_inv w"
  shows "program_inv w'"
  using assms
proof cases
  case rtsp
  then show ?thesis using assms(2) by (rule rtsp_step_program_inv)
next
  case relay
  then show ?thesis using relay_program_inv assms(2) by blast
qed (use assms(2) http_program_inv session_fire_program_inv stun_program_inv in blast)+

section \<open>The started program\<close>

lemma start_auth_inv: "program_inv w \<Longrightarrow> program_inv (start_auth env opts w)"
  by (simp add: start_auth_def program_inv_def rtsp_inv_def rtsp_auth_init_wf dev_wf_def)

lemma stun_discover_world:
  "snd (snd (stun_discover env server port lport cb s)) = tick (snd s)"
  "sn_public_addr (fst (snd (stun_discover env server port lport cb s))) = []"
proof -
  let ?srv = "case sa_set_str (en_inet env) (case server of Some x \<Rightarrow> x | None \<Rightarrow> STUN_DEFAULT_SERVER)
                  (if port \<noteq> 0 then port else STUN_DEFAULT_PORT) of
                Inr a \<Rightarrow> Some a
              | Inl _ \<Rightarrow> en_resolve env (dv_tick (snd s)) (case server of Some x \<Rightarrow> x | None \<Rightarrow> STUN_DEFAULT_SERVER)
                  (if port \<noteq> 0 then port else STUN_DEFAULT_PORT)"
  show "snd (snd (stun_discover env server port lport cb s)) = tick (snd s)"
    "sn_public_addr (fst (snd (stun_discover env server port lport cb s))) = []"
    unfolding stun_discover_def case_prod_beta Let_def
    by (cases ?srv; cases "en_udp_listen env (dv_tick (snd s))"; cases "en_stun_alloc env (dv_tick (snd s))";
        cases "en_stun_request env (dv_tick (snd s)) (the ?srv)"; simp)+
qed

lemma start_stun_inv: "program_inv w \<Longrightarrow> program_inv (start_stun env opts w)"
  by (simp add: start_stun_def case_prod_beta stun_discover_world program_inv_def rtsp_inv_def dev_wf_def)

lemma start_relay_inv:
  assumes "program_inv w" and "rl_tc (iw_relay w) = None"
  shows "program_inv (start_relay env opts w)"
proof -
  let ?r = "relay_client_start env (mo_relay_host opts) (mo_relay_port opts) (mo_device_id opts)
              (Some (mo_relay_token opts)) True (iw_relay w, w)"
  have "relay_client_step env (rtsp_accept_relay_conn env) (iw_relay w, w) (fst (snd ?r), snd (snd ?r))"
    using relay_client_step.start [where s = "(iw_relay w, w)"] by simp
  from relay_program_inv [OF this _ assms(1)] assms show ?thesis by (simp add: start_relay_def case_prod_beta)
qed

lemma start_relays:
  "iw_relay (start_auth env opts w) = iw_relay w" "iw_relay (start_stun env opts w) = iw_relay w"
  by (simp_all add: start_auth_def start_stun_def case_prod_beta stun_discover_world)

lemma start_rtsp:
  "rw_auth (start_stun env opts w) = rw_auth w" "rw_auth (start_relay env opts w) = rw_auth w"
  by (simp_all add: start_stun_def start_relay_def case_prod_beta stun_discover_world relay_client_start_def relay_do_connect_def
      Let_def split: option.split sum.split)

lemma server_init_more [simp]: "rtsp_world.more (snd (rtsp_server_init env w)) = rtsp_world.more w"
  by (simp add: rtsp_server_init_def Let_def tick_def split: sum.split)

lemma intercom_zero_wf: "dev_wf intercom_zero" "auth_wf (rw_auth intercom_zero)"
  by (simp_all add: intercom_zero_def dev_wf_def cam_zero_wf aout_zero_wf auth_zero_wf ain_zero_wf)

lemma main_start_cases:
  assumes "main_start env link argv w = (None, w')"
  obtains w2 opts where "opts = parse_args (drop 1 argv) default_options"
    and "rtsp_server_init env (snd (http_sig_init env (resolve_www_path link 512) w)) = (None, w2)"
    and "fst (http_sig_init env (resolve_www_path link 512) w) = None"
    and "w' = start_relay env opts (start_stun env opts (start_auth env opts w2))"
  using assms by (auto simp: main_start_def Let_def split: prod.splits option.splits)

lemma main_start_inv:
  assumes "main_start env link argv intercom_zero = (None, w)"
  shows "program_inv w"
proof -
  obtain w2 opts where s: "rtsp_server_init env (snd (http_sig_init env (resolve_www_path link 512) intercom_zero)) = (None, w2)"
    and w: "w = start_relay env opts (start_stun env opts (start_auth env opts w2))"
    using main_start_cases [OF assms] by metis
  let ?w1 = "snd (http_sig_init env (resolve_www_path link 512) intercom_zero)"
  have w1: "dev_wf ?w1" "auth_wf (rw_auth ?w1)" "iw_relay ?w1 = relay_zero" "iw_sess ?w1 = None" "length (iw_www_path ?w1) < 256"
    "iw_stun ?w1 = stun_zero"
    using intercom_zero_wf length_str_ncpy [of 256]
    by (auto simp: http_sig_init_def Let_def dev_wf_def intercom_zero_def str_ncpy_def split: option.split)
  have m: "rtsp_world.more w2 = rtsp_world.more ?w1" using server_init_more [of env ?w1] s by simp
  have "rtsp_inv False UNIV w2" using rtsp_server_init_inv [OF w1(1,2), of UNIV False env] s by simp
  then have "program_inv w2"
    using w1 rtsp_moreD [OF m] by (simp add: program_inv_def relay_ok_def relay_zero_def stun_zero_def)
  then have "program_inv (start_stun env opts (start_auth env opts w2))" by (intro start_stun_inv start_auth_inv)
  moreover have "rl_tc (iw_relay (start_stun env opts (start_auth env opts w2))) = None"
    using w1(3) rtsp_moreD(4) [OF m] by (simp add: start_relays relay_zero_def)
  ultimately show ?thesis unfolding w by (rule start_relay_inv)
qed


lemma good_start: "fst (main_start good_env None [] intercom_zero) = None"
  by (simp add: main_start_def Let_def http_sig_init_def rtsp_server_init_def good_env_def)




section \<open>The end of the program\<close>

lemma destructors_clients:
  "set (rw_clients (foldl (\<lambda>v (c, cli). client_destructor c v) w cs)) \<subseteq> {p \<in> set (rw_clients w). fst p \<notin> fst ` set cs}"
proof (induction cs arbitrary: w)
  case (Cons p cs)
  obtain c cli where p: "p = (c, cli)" by (cases p)
  have "set (rw_clients (client_destructor c w)) \<subseteq> {p \<in> set (rw_clients w). fst p \<noteq> c}"
    by (auto simp: client_destructor_clients)
  with Cons [of "client_destructor c w"] p show ?case by auto
qed simp

lemma destructors_fields:
  "rw_tmr_audio (foldl (\<lambda>v (c, cli). client_destructor c v) w cs) = rw_tmr_audio w
   \<and> rw_tmr_video (foldl (\<lambda>v (c, cli). client_destructor c v) w cs) = rw_tmr_video w
   \<and> rw_camera_opened (foldl (\<lambda>v (c, cli). client_destructor c v) w cs) = rw_camera_opened w
   \<and> rw_mic_opened (foldl (\<lambda>v (c, cli). client_destructor c v) w cs) = rw_mic_opened w
   \<and> rtsp_world.more (foldl (\<lambda>v (c, cli). client_destructor c v) w cs) = rtsp_world.more w"
proof (induction cs arbitrary: w)
  case (Cons p cs)
  obtain c cli where p: "p = (c, cli)" by (cases p)
  have "rw_tmr_audio (client_destructor c w) = rw_tmr_audio w" "rw_tmr_video (client_destructor c w) = rw_tmr_video w"
    "rw_camera_opened (client_destructor c w) = rw_camera_opened w" "rw_mic_opened (client_destructor c w) = rw_mic_opened w"
    "rtsp_world.more (client_destructor c w) = rtsp_world.more w"
    by (simp_all add: client_destructor_def Let_def split: option.split)
  with Cons [of "client_destructor c w"] p show ?case by simp
qed simp

lemma rtsp_server_close_result:
  "rw_clients (rtsp_server_close w) = []" "rw_tmr_audio (rtsp_server_close w) = None" "rw_tmr_video (rtsp_server_close w) = None"
  "\<not> rw_listening (rtsp_server_close w)" "rw_camera_opened w \<Longrightarrow> \<not> cam_opened (dv_cam (rtsp_server_close w))"
  "rw_mic_opened w \<Longrightarrow> \<not> ai_opened (dv_ain (rtsp_server_close w))" "rtsp_world.more (rtsp_server_close w) = rtsp_world.more w"
proof -
  let ?w1 = "w\<lparr>rw_tmr_audio := None, rw_tmr_video := None\<rparr>"
  let ?w2 = "foldl (\<lambda>v (c, cli). client_destructor c v) ?w1 (rw_clients ?w1)"
  have "{p \<in> set (rw_clients ?w1). fst p \<notin> fst ` set (rw_clients ?w1)} = {}" by force
  with destructors_clients [of ?w1 "rw_clients ?w1"] have "set (rw_clients ?w2) = {}" by (simp only: subset_empty)
  then have c: "rw_clients ?w2 = []" by simp
  note f = destructors_fields [of ?w1 "rw_clients ?w1"]
  note d = rtsp_server_close_def Let_def dev_camera_close_def camera_close_def dev_audio_in_close_def audio_in_close_def
    cam_zero_def ain_zero_def
  show "rw_clients (rtsp_server_close w) = []" "rw_tmr_audio (rtsp_server_close w) = None" "rw_tmr_video (rtsp_server_close w) = None"
    "\<not> rw_listening (rtsp_server_close w)" "rw_camera_opened w \<Longrightarrow> \<not> cam_opened (dv_cam (rtsp_server_close w))"
    "rw_mic_opened w \<Longrightarrow> \<not> ai_opened (dv_ain (rtsp_server_close w))" "rtsp_world.more (rtsp_server_close w) = rtsp_world.more w"
    using c f by (simp_all add: d)
qed

text \<open>The program ends cleanly: whatever state the event loop leaves, after the clean-up the RTSP server has no client,
  no running timer and does not listen, the camera and the microphone it had opened are closed, the relay
  client is stopped without connection, timer and buffer, and the STUN client holds nothing.\<close>

lemma exit_releases:
  "let w' = main_cleanup None httpsock w
   in rw_clients w' = [] \<and> rw_tmr_audio w' = None \<and> rw_tmr_video w' = None \<and> \<not> rw_listening w'
    \<and> \<not> (rw_camera_opened w \<and> cam_opened (dv_cam w')) \<and> \<not> (rw_mic_opened w \<and> ai_opened (dv_ain w'))
    \<and> \<not> rl_running (iw_relay w') \<and> rl_tc (iw_relay w') = None \<and> rl_tmr_reconnect (iw_relay w') = None \<and> rl_rbuf (iw_relay w') = None
    \<and> \<not> sn_stun (iw_stun w') \<and> \<not> sn_ct (iw_stun w') \<and> sn_us (iw_stun w') = None \<and> \<not> iw_httpsock w'"
proof -
  let ?s = "relay_client_stop (iw_relay w, w)"
  let ?w3 = "(snd ?s)\<lparr>iw_relay := fst ?s, iw_stun := stun_close (iw_stun w)\<rparr>"
  have st: "iw_stun (snd ?s) = iw_stun w" "rw_camera_opened (snd ?s) = rw_camera_opened w" "rw_mic_opened (snd ?s) = rw_mic_opened w"
    by (simp_all add: relay_client_stop_def drop_conn_def emit_def split: option.split)
  have w': "main_cleanup None httpsock w =
      (let w4 = http_sig_close (rtsp_server_close ?w3) in if httpsock then w4\<lparr>iw_sock_refs := iw_sock_refs w4 - 1\<rparr> else w4)"
    by (simp add: main_cleanup_def Let_def case_prod_beta st(1))
  note r = rtsp_server_close_result [of ?w3]
  have "iw_relay (rtsp_server_close ?w3) = fst ?s" "iw_stun (rtsp_server_close ?w3) = stun_close (iw_stun w)"
    using rtsp_moreD(3,4) [OF r(7)] by simp_all
  then show ?thesis
    using r st(2,3) by (simp add: w' Let_def http_sig_close_def stun_close_def relay_client_stop_def)
qed

section \<open>Observations\<close>

text \<open>
  A call that is still active when the program ends is not closed: \<open>main.c\<close> looks at its own \<open>g_session\<close>, which is
  never set, and the session of \<open>http_server.c\<close> stays.
\<close>

lemma exit_keeps_call: "iw_sess (main_cleanup None httpsock w) = iw_sess w"
proof -
  let ?s = "relay_client_stop (iw_relay w, w)"
  let ?w3 = "(snd ?s)\<lparr>iw_relay := fst ?s, iw_stun := stun_close (iw_stun (snd ?s))\<rparr>"
  have "iw_sess (snd ?s) = iw_sess w" by (simp add: relay_client_stop_def drop_conn_def emit_def split: option.split)
  then show ?thesis using rtsp_moreD(1) [OF rtsp_server_close_result(7) [of ?w3]]
    by (simp add: main_cleanup_def Let_def case_prod_beta http_sig_close_def)
qed

text \<open>
  The listening socket is released twice: \<open>http_sig_close\<close> and \<open>main\<close> both give up the one reference that
  \<open>http_sig_init\<close> obtained.
\<close>

lemma httpsock_released_twice:
  assumes "iw_httpsock w" and "iw_sock_refs w = 1"
  shows "iw_sock_refs (main_cleanup None True w) = - 1"
proof -
  let ?s = "relay_client_stop (iw_relay w, w)"
  let ?w3 = "(snd ?s)\<lparr>iw_relay := fst ?s, iw_stun := stun_close (iw_stun (snd ?s))\<rparr>"
  have "iw_httpsock (snd ?s)" "iw_sock_refs (snd ?s) = 1"
    using assms by (simp_all add: relay_client_stop_def drop_conn_def emit_def split: option.split)
  then have "iw_httpsock (rtsp_server_close ?w3)" "iw_sock_refs (rtsp_server_close ?w3) = 1"
    using rtsp_moreD(5,6) [OF rtsp_server_close_result(7) [of ?w3]] by simp_all
  then show ?thesis by (simp add: main_cleanup_def Let_def case_prod_beta http_sig_close_def)
qed

end
