(* ===== verification/Libre_List.thy ===== *)
theory Libre_List
  imports Prelude "HOL-Library.Multiset"
begin

text \<open>
  The doubly linked list of the library (\<open>list.c\<close>, \<open>re_list.h\<close>), which every other module of it keeps its
  objects in, at the level of the pointers: a store holds the list elements (\<open>struct le\<close>) and the list heads
  (\<open>struct list\<close>) by address, address 0 is \<open>NULL\<close>, and each operation performs the assignments of the source
  in their order. The abstraction \<open>is_list s l xs\<close> says that the elements linked into list \<open>l\<close> are \<open>xs\<close>
  from head to tail; each operation is shown to refine the operation on HOL lists it stands for, and to leave
  every other list alone. Traversals follow pointers, so they are partial functions whose result \<open>None\<close>
  means that they do not return; on well-formed lists they return.
\<close>

type_synonym addr = u64

abbreviation NULL :: addr where "NULL \<equiv> 0"

record le =
  le_prev :: addr
  le_next :: addr
  le_list :: addr
  le_data :: addr

record lst =
  l_head :: addr
  l_tail :: addr
  l_cnt :: u64

record lstore =
  h_le :: "addr \<Rightarrow> le"
  h_list :: "addr \<Rightarrow> lst"

definition LE_INIT :: le where
  "LE_INIT = \<lparr>le_prev = NULL, le_next = NULL, le_list = NULL, le_data = NULL\<rparr>"

definition LIST_INIT :: lst where
  "LIST_INIT = \<lparr>l_head = NULL, l_tail = NULL, l_cnt = 0\<rparr>"

definition upd_le :: "addr \<Rightarrow> (le \<Rightarrow> le) \<Rightarrow> 'a lstore_scheme \<Rightarrow> 'a lstore_scheme" where
  "upd_le a f s = s\<lparr>h_le := (h_le s)(a := f (h_le s a))\<rparr>"

definition upd_list :: "addr \<Rightarrow> (lst \<Rightarrow> lst) \<Rightarrow> 'a lstore_scheme \<Rightarrow> 'a lstore_scheme" where
  "upd_list a f s = s\<lparr>h_list := (h_list s)(a := f (h_list s a))\<rparr>"

section \<open>The operations\<close>

definition list_init :: "addr \<Rightarrow> 'a lstore_scheme \<Rightarrow> 'a lstore_scheme" where
  "list_init l s = (if l = NULL then s else upd_list l (\<lambda>_. LIST_INIT) s)"

definition list_head :: "addr \<Rightarrow> 'a lstore_scheme \<Rightarrow> addr" where
  "list_head l s = (if l = NULL then NULL else l_head (h_list s l))"

definition list_tail :: "addr \<Rightarrow> 'a lstore_scheme \<Rightarrow> addr" where
  "list_tail l s = (if l = NULL then NULL else l_tail (h_list s l))"

definition list_count :: "addr \<Rightarrow> 'a lstore_scheme \<Rightarrow> u32" where
  "list_count l s = (if l = NULL then 0 else ucast (l_cnt (h_list s l)))"

definition list_ledata :: "addr \<Rightarrow> 'a lstore_scheme \<Rightarrow> addr" where
  "list_ledata e s = (if e = NULL then NULL else le_data (h_le s e))"

definition list_contains :: "addr \<Rightarrow> addr \<Rightarrow> 'a lstore_scheme \<Rightarrow> bool" where
  "list_contains l e s = (if e = NULL then False else le_list (h_le s e) = l)"

definition list_isempty :: "addr \<Rightarrow> 'a lstore_scheme \<Rightarrow> bool" where
  "list_isempty l s = (if l = NULL then True else l_head (h_list s l) = NULL)"

definition list_append :: "addr \<Rightarrow> addr \<Rightarrow> addr \<Rightarrow> 'a lstore_scheme \<Rightarrow> 'a lstore_scheme" where
  "list_append l e d s =
    (if l = NULL \<or> e = NULL then s
     else if le_list (h_le s e) \<noteq> NULL then s
     else let s = upd_le e (\<lambda>x. x\<lparr>le_prev := l_tail (h_list s l), le_next := NULL, le_list := l, le_data := d\<rparr>) s;
              s = (if l_head (h_list s l) = NULL then upd_list l (\<lambda>x. x\<lparr>l_head := e\<rparr>) s else s);
              s = (if l_tail (h_list s l) \<noteq> NULL then upd_le (l_tail (h_list s l)) (\<lambda>x. x\<lparr>le_next := e\<rparr>) s else s)
          in upd_list l (\<lambda>x. x\<lparr>l_tail := e, l_cnt := l_cnt x + 1\<rparr>) s)"

definition list_prepend :: "addr \<Rightarrow> addr \<Rightarrow> addr \<Rightarrow> 'a lstore_scheme \<Rightarrow> 'a lstore_scheme" where
  "list_prepend l e d s =
    (if l = NULL \<or> e = NULL then s
     else if le_list (h_le s e) \<noteq> NULL then s
     else let s = upd_le e (\<lambda>x. x\<lparr>le_prev := NULL, le_next := l_head (h_list s l), le_list := l, le_data := d\<rparr>) s;
              s = (if l_head (h_list s l) \<noteq> NULL then upd_le (l_head (h_list s l)) (\<lambda>x. x\<lparr>le_prev := e\<rparr>) s else s);
              s = (if l_tail (h_list s l) = NULL then upd_list l (\<lambda>x. x\<lparr>l_tail := e\<rparr>) s else s)
          in upd_list l (\<lambda>x. x\<lparr>l_head := e, l_cnt := l_cnt x + 1\<rparr>) s)"

definition list_insert_before :: "addr \<Rightarrow> addr \<Rightarrow> addr \<Rightarrow> addr \<Rightarrow> 'a lstore_scheme \<Rightarrow> 'a lstore_scheme" where
  "list_insert_before l e i d s =
    (if l = NULL \<or> e = NULL \<or> i = NULL then s
     else if le_list (h_le s i) \<noteq> NULL then s
     else let s = (if le_prev (h_le s e) \<noteq> NULL then upd_le (le_prev (h_le s e)) (\<lambda>x. x\<lparr>le_next := i\<rparr>) s
                   else if l_head (h_list s l) = e then upd_list l (\<lambda>x. x\<lparr>l_head := i\<rparr>) s else s);
              s = upd_le i (\<lambda>x. x\<lparr>le_prev := le_prev (h_le s e), le_next := e, le_list := l, le_data := d\<rparr>) s;
              s = upd_le e (\<lambda>x. x\<lparr>le_prev := i\<rparr>) s
          in upd_list l (\<lambda>x. x\<lparr>l_cnt := l_cnt x + 1\<rparr>) s)"

definition list_insert_after :: "addr \<Rightarrow> addr \<Rightarrow> addr \<Rightarrow> addr \<Rightarrow> 'a lstore_scheme \<Rightarrow> 'a lstore_scheme" where
  "list_insert_after l e i d s =
    (if l = NULL \<or> e = NULL \<or> i = NULL then s
     else if le_list (h_le s i) \<noteq> NULL then s
     else let s = (if le_next (h_le s e) \<noteq> NULL then upd_le (le_next (h_le s e)) (\<lambda>x. x\<lparr>le_prev := i\<rparr>) s
                   else if l_tail (h_list s l) = e then upd_list l (\<lambda>x. x\<lparr>l_tail := i\<rparr>) s else s);
              s = upd_le i (\<lambda>x. x\<lparr>le_prev := e, le_next := le_next (h_le s e), le_list := l, le_data := d\<rparr>) s;
              s = upd_le e (\<lambda>x. x\<lparr>le_next := i\<rparr>) s
          in upd_list l (\<lambda>x. x\<lparr>l_cnt := l_cnt x + 1\<rparr>) s)"

definition list_unlink :: "addr \<Rightarrow> 'a lstore_scheme \<Rightarrow> 'a lstore_scheme" where
  "list_unlink e s =
    (if e = NULL \<or> le_list (h_le s e) = NULL then s
     else let l = le_list (h_le s e);
              s = (if le_prev (h_le s e) \<noteq> NULL
                   then upd_le (le_prev (h_le s e)) (\<lambda>x. x\<lparr>le_next := le_next (h_le s e)\<rparr>) s
                   else upd_list l (\<lambda>x. x\<lparr>l_head := le_next (h_le s e)\<rparr>) s);
              s = (if le_next (h_le s e) \<noteq> NULL
                   then upd_le (le_next (h_le s e)) (\<lambda>x. x\<lparr>le_prev := le_prev (h_le s e)\<rparr>) s
                   else upd_list l (\<lambda>x. x\<lparr>l_tail := le_prev (h_le s e)\<rparr>) s);
              s = upd_le e (\<lambda>x. x\<lparr>le_next := NULL, le_prev := NULL, le_list := NULL\<rparr>) s
          in upd_list l (\<lambda>x. if l_cnt x \<noteq> 0 then x\<lparr>l_cnt := l_cnt x - 1\<rparr> else x) s)"

definition list_move :: "addr \<Rightarrow> addr \<Rightarrow> 'a lstore_scheme \<Rightarrow> 'a lstore_scheme" where
  "list_move e l s = (let s = list_unlink e s in list_append l e (le_data (h_le s e)) s)"

text \<open>The link to follow is read before the handler runs, which may unlink the current element.\<close>

partial_function (option) apply_from ::
  "bool \<Rightarrow> (addr \<Rightarrow> 'a lstore_scheme \<Rightarrow> bool \<times> 'a lstore_scheme) \<Rightarrow> addr \<Rightarrow> 'a lstore_scheme
    \<Rightarrow> (addr \<times> 'a lstore_scheme) option" where
  "apply_from fwd ah e s =
    (if e = NULL then Some (NULL, s)
     else case ah e s of (stop, s') \<Rightarrow>
       if stop then Some (e, s')
       else apply_from fwd ah (if fwd then le_next (h_le s e) else le_prev (h_le s e)) s')"

definition list_apply ::
  "addr \<Rightarrow> bool \<Rightarrow> (addr \<Rightarrow> 'a lstore_scheme \<Rightarrow> bool \<times> 'a lstore_scheme) \<Rightarrow> 'a lstore_scheme
    \<Rightarrow> (addr \<times> 'a lstore_scheme) option" where
  "list_apply l fwd ah s =
    (if l = NULL then Some (NULL, s)
     else apply_from fwd ah (if fwd then l_head (h_list s l) else l_tail (h_list s l)) s)"

partial_function (option) insert_sorted_from ::
  "addr \<Rightarrow> (addr \<Rightarrow> addr \<Rightarrow> 'a lstore_scheme \<Rightarrow> bool) \<Rightarrow> addr \<Rightarrow> addr \<Rightarrow> 'a lstore_scheme
    \<Rightarrow> 'a lstore_scheme option" where
  "insert_sorted_from l sh i e s =
    (if e = NULL then Some (list_prepend l i (le_data (h_le s i)) s)
     else if sh e i s then Some (list_insert_after l e i (le_data (h_le s i)) s)
     else insert_sorted_from l sh i (le_prev (h_le s e)) s)"

definition list_insert_sorted ::
  "addr \<Rightarrow> (addr \<Rightarrow> addr \<Rightarrow> 'a lstore_scheme \<Rightarrow> bool) \<Rightarrow> addr \<Rightarrow> addr \<Rightarrow> 'a lstore_scheme
    \<Rightarrow> 'a lstore_scheme option" where
  "list_insert_sorted l sh i d s =
    (if l = NULL then Some s
     else insert_sorted_from l sh i (l_tail (h_list s l)) (upd_le i (\<lambda>x. x\<lparr>le_data := d\<rparr>) s))"

text \<open>One pass of the sort, from element \<open>e\<close>; the flag tells whether a pair was exchanged.\<close>

partial_function (option) sort_pass ::
  "addr \<Rightarrow> (addr \<Rightarrow> addr \<Rightarrow> 'a lstore_scheme \<Rightarrow> bool) \<Rightarrow> addr \<Rightarrow> bool \<Rightarrow> 'a lstore_scheme
    \<Rightarrow> (bool \<times> 'a lstore_scheme) option" where
  "sort_pass l sh e swapped s =
    (if e = NULL \<or> le_next (h_le s e) = NULL then Some (swapped, s)
     else if sh e (le_next (h_le s e)) s then sort_pass l sh (le_next (h_le s e)) swapped s
     else let tle = le_next (h_le s e); s' = list_unlink e s
          in sort_pass l sh e True (list_insert_after l tle e (le_data (h_le s' e)) s'))"

partial_function (option) list_sort ::
  "addr \<Rightarrow> (addr \<Rightarrow> addr \<Rightarrow> 'a lstore_scheme \<Rightarrow> bool) \<Rightarrow> 'a lstore_scheme \<Rightarrow> 'a lstore_scheme option" where
  "list_sort l sh s =
    (if l = NULL then Some s
     else case sort_pass l sh (l_head (h_list s l)) False s of
       None \<Rightarrow> None
     | Some r \<Rightarrow> if fst r then list_sort l sh (snd r) else Some (snd r))"

text \<open>\<open>deref\<close> stands for \<open>mem_deref\<close> with the destructor it may call.\<close>

partial_function (option) flush_from ::
  "(addr \<Rightarrow> 'a lstore_scheme \<Rightarrow> 'a lstore_scheme) \<Rightarrow> addr \<Rightarrow> 'a lstore_scheme \<Rightarrow> 'a lstore_scheme option" where
  "flush_from deref e s =
    (if e = NULL then Some s
     else let nxt = le_next (h_le s e); d = le_data (h_le s e)
          in flush_from deref nxt (deref d (upd_le e (\<lambda>x. x\<lparr>le_data := NULL\<rparr>) (list_unlink e s))))"

definition list_flush ::
  "(addr \<Rightarrow> 'a lstore_scheme \<Rightarrow> 'a lstore_scheme) \<Rightarrow> addr \<Rightarrow> 'a lstore_scheme \<Rightarrow> 'a lstore_scheme option" where
  "list_flush deref l s =
    (if l = NULL then Some s
     else map_option (list_init l) (flush_from deref (l_head (h_list s l)) s))"

partial_function (option) clear_from :: "addr \<Rightarrow> 'a lstore_scheme \<Rightarrow> 'a lstore_scheme option" where
  "clear_from e s =
    (if e = NULL then Some s
     else clear_from (le_next (h_le s e)) (upd_le e (\<lambda>_. LE_INIT) s))"

definition list_clear :: "addr \<Rightarrow> 'a lstore_scheme \<Rightarrow> 'a lstore_scheme option" where
  "list_clear l s = (if l = NULL then Some s else map_option (list_init l) (clear_from (l_head (h_list s l)) s))"

section \<open>The abstraction\<close>

definition hd_or :: "addr list \<Rightarrow> addr \<Rightarrow> addr" where
  "hd_or xs n = (case xs of [] \<Rightarrow> n | x # _ \<Rightarrow> x)"

definition last_or :: "addr list \<Rightarrow> addr \<Rightarrow> addr" where
  "last_or xs p = (if xs = [] then p else last xs)"

fun chain :: "(addr \<Rightarrow> le) \<Rightarrow> addr \<Rightarrow> addr \<Rightarrow> addr list \<Rightarrow> addr \<Rightarrow> bool" where
  "chain h l p [] n = True"
| "chain h l p (x # xs) n \<longleftrightarrow>
     le_prev (h x) = p \<and> le_next (h x) = hd_or xs n \<and> le_list (h x) = l \<and> chain h l x xs n"

text \<open>
  \<open>is_list s l xs\<close>: the elements of list \<open>l\<close> are \<open>xs\<close>. An element belongs to the list exactly when its
  \<open>list\<close> pointer says so, which is what \<open>list_unlink\<close> and the guards of the insertions rely on.
\<close>

definition is_list :: "'a lstore_scheme \<Rightarrow> addr \<Rightarrow> addr list \<Rightarrow> bool" where
  "is_list s l xs \<longleftrightarrow> l \<noteq> NULL \<and> distinct xs \<and> NULL \<notin> set xs \<and> chain (h_le s) l NULL xs NULL
    \<and> (\<forall>e. e \<in> set xs \<longleftrightarrow> e \<noteq> NULL \<and> le_list (h_le s e) = l)
    \<and> l_head (h_list s l) = hd_or xs NULL \<and> l_tail (h_list s l) = last_or xs NULL
    \<and> l_cnt (h_list s l) = of_nat (length xs)"

lemma hd_or_simps [simp]:
  "hd_or [] n = n" "hd_or (x # xs) n = x" "hd_or (xs @ ys) n = hd_or xs (hd_or ys n)"
  by (simp_all add: hd_or_def split: list.split)

lemma last_or_simps [simp]:
  "last_or [] p = p" "last_or (x # xs) p = last_or xs x" "last_or (xs @ ys) p = last_or ys (last_or xs p)"
  by (simp_all add: last_or_def)

lemma ends_not_NULL [simp]:
  "NULL \<notin> set xs \<Longrightarrow> y \<noteq> NULL \<Longrightarrow> hd_or xs y \<noteq> NULL" "NULL \<notin> set xs \<Longrightarrow> y \<noteq> NULL \<Longrightarrow> last_or xs y \<noteq> NULL"
  by (cases xs; simp) (simp add: last_or_def, metis last_in_set)

lemma chain_append [simp]:
  "chain h l p (xs @ ys) n \<longleftrightarrow> chain h l p xs (hd_or ys n) \<and> chain h l (last_or xs p) ys n"
  by (induction xs arbitrary: p) auto

lemma chain_upd [simp]: "x \<notin> set xs \<Longrightarrow> chain (h(x := v)) l p xs n = chain h l p xs n"
  by (induction xs arbitrary: p) auto

lemma chain_cong: "(\<And>x. x \<in> set xs \<Longrightarrow> h' x = h x) \<Longrightarrow> chain h' l p xs n = chain h l p xs n"
  by (induction xs arbitrary: p) auto

lemma chain_list: "chain h l p xs n \<Longrightarrow> x \<in> set xs \<Longrightarrow> le_list (h x) = l"
  by (induction xs arbitrary: p) auto

lemma distinct_addr_length:
  assumes "distinct (xs :: addr list)" and "NULL \<notin> set xs"
  shows "length xs < 2 ^ 64"
proof -
  have "card (set xs) \<le> card (UNIV - {NULL})" using assms(2) by (intro card_mono) auto
  also have "\<dots> = 2 ^ 64 - 1" by (simp add: card_word)
  finally show ?thesis using distinct_card [OF assms(1)] by simp
qed

lemma upd_fields [simp]:
  "h_le (upd_le a f s) = (h_le s)(a := f (h_le s a))" "h_list (upd_le a f s) = h_list s"
  "lstore.more (upd_le a f s) = lstore.more s"
  "h_list (upd_list a g s) = (h_list s)(a := g (h_list s a))" "h_le (upd_list a g s) = h_le s"
  "lstore.more (upd_list a g s) = lstore.more s"
  by (simp_all add: upd_le_def upd_list_def)

lemma is_listD:
  assumes "is_list s l xs"
  shows "l \<noteq> NULL" "distinct xs" "NULL \<notin> set xs" "chain (h_le s) l NULL xs NULL"
    "e \<notin> set xs \<Longrightarrow> e \<noteq> NULL \<Longrightarrow> le_list (h_le s e) \<noteq> l"
    "l_head (h_list s l) = hd_or xs NULL" "l_tail (h_list s l) = last_or xs NULL"
    "l_cnt (h_list s l) = of_nat (length xs)"
  using assms by (auto simp: is_list_def)

lemma is_list_init: "l \<noteq> NULL \<Longrightarrow> (\<And>e. e \<noteq> NULL \<Longrightarrow> le_list (h_le s e) \<noteq> l) \<Longrightarrow> is_list (list_init l s) l []"
  by (auto simp: is_list_def list_init_def LIST_INIT_def)

lemma is_list_cong:
  assumes "is_list s l xs" and "\<And>x. x \<in> set xs \<Longrightarrow> h_le s' x = h_le s x" and "h_list s' l = h_list s l"
    and "\<And>e. e \<notin> set xs \<Longrightarrow> e \<noteq> NULL \<Longrightarrow> le_list (h_le s' e) \<noteq> l"
  shows "is_list s' l xs"
proof -
  have "chain (h_le s') l NULL xs NULL" using chain_cong [of xs "h_le s'" "h_le s"] assms(1,2) by (simp add: is_list_def)
  moreover have "e \<in> set xs \<longleftrightarrow> e \<noteq> NULL \<and> le_list (h_le s' e) = l" for e
    using assms(1,2,4) by (cases "e \<in> set xs") (auto simp: is_list_def)
  ultimately show ?thesis using assms(1,3) by (simp add: is_list_def)
qed

section \<open>Insertion\<close>

lemma list_append_linked: "le_list (h_le s e) \<noteq> NULL \<Longrightarrow> list_append l e d s = s"
  by (simp add: list_append_def)

lemma list_prepend_linked: "le_list (h_le s e) \<noteq> NULL \<Longrightarrow> list_prepend l e d s = s"
  by (simp add: list_prepend_def)

lemma list_insert_linked:
  "le_list (h_le s i) \<noteq> NULL \<Longrightarrow> list_insert_before l e i d s = s"
  "le_list (h_le s i) \<noteq> NULL \<Longrightarrow> list_insert_after l e i d s = s"
  by (simp_all add: list_insert_before_def list_insert_after_def)

lemma not_member: "is_list s l xs \<Longrightarrow> le_list (h_le s e) = NULL \<Longrightarrow> e \<notin> set xs"
  by (auto simp: is_list_def)

lemma is_listI:
  assumes "l \<noteq> NULL" and "distinct xs" and "NULL \<notin> set xs" and "chain (h_le s) l NULL xs NULL"
    and "\<And>e. e \<notin> set xs \<Longrightarrow> e \<noteq> NULL \<Longrightarrow> le_list (h_le s e) \<noteq> l"
    and "l_head (h_list s l) = hd_or xs NULL" and "l_tail (h_list s l) = last_or xs NULL"
    and "l_cnt (h_list s l) = of_nat (length xs)"
  shows "is_list s l xs"
  using assms chain_list [OF assms(4)] unfolding is_list_def by blast

lemma is_list_append:
  assumes "is_list s l xs" and "e \<noteq> NULL" and "le_list (h_le s e) = NULL"
  shows "is_list (list_append l e d s) l (xs @ [e])"
proof -
  note e = not_member [OF assms(1,3)]
  note m = is_listD [OF assms(1)]
  show ?thesis
  proof (cases xs rule: rev_cases)
    case Nil
    show ?thesis
      by (rule is_listI) (use Nil m assms(2,3) e in \<open>simp_all add: list_append_def Let_def\<close>)
  next
    case (snoc ys y)
    have "y \<noteq> e" "y \<notin> set ys" "y \<noteq> NULL" using snoc e m(2,3) by auto
    then show ?thesis
      by (intro is_listI) (use snoc m assms(2,3) e in \<open>simp_all add: list_append_def Let_def\<close>)
  qed
qed

lemma is_list_prepend:
  assumes "is_list s l xs" and "e \<noteq> NULL" and "le_list (h_le s e) = NULL"
  shows "is_list (list_prepend l e d s) l (e # xs)"
proof -
  note e = not_member [OF assms(1,3)]
  note m = is_listD [OF assms(1)]
  show ?thesis
  proof (cases xs)
    case Nil
    show ?thesis
      by (rule is_listI) (use Nil m assms(2,3) e in \<open>simp_all add: list_prepend_def Let_def\<close>)
  next
    case (Cons y ys)
    have "y \<noteq> e" "y \<notin> set ys" "y \<noteq> NULL" using Cons e m(2,3) by auto
    then show ?thesis
      by (intro is_listI) (use Cons m assms(2,3) e in \<open>simp_all add: list_prepend_def Let_def\<close>)
  qed
qed

lemma is_list_insert_before:
  assumes "is_list s l (as @ e # bs)" and "i \<noteq> NULL" and "le_list (h_le s i) = NULL"
  shows "is_list (list_insert_before l e i d s) l (as @ i # e # bs)"
proof -
  note i = not_member [OF assms(1,3)]
  note m = is_listD [OF assms(1)]
  show ?thesis
  proof (cases as rule: rev_cases)
    case Nil
    have "e \<noteq> i" "e \<notin> set bs" "e \<noteq> NULL" using Nil i m(2,3) by auto
    then show ?thesis
      by (intro is_listI) (use Nil m assms(2,3) i in \<open>simp_all add: list_insert_before_def Let_def\<close>)
  next
    case (snoc ys y)
    have "y \<noteq> i" "y \<notin> set ys" "y \<noteq> NULL" "y \<noteq> e" "y \<notin> set bs" "e \<noteq> i" "e \<notin> set bs" "e \<noteq> NULL" "e \<notin> set ys"
      using snoc i m(2,3) by auto
    then show ?thesis
      by (intro is_listI) (use snoc m assms(2,3) i in \<open>simp_all add: list_insert_before_def Let_def\<close>)
  qed
qed

lemma is_list_insert_after:
  assumes "is_list s l (as @ e # bs)" and "i \<noteq> NULL" and "le_list (h_le s i) = NULL"
  shows "is_list (list_insert_after l e i d s) l (as @ e # i # bs)"
proof -
  note i = not_member [OF assms(1,3)]
  note m = is_listD [OF assms(1)]
  show ?thesis
  proof (cases bs)
    case Nil
    have "e \<noteq> i" "e \<notin> set as" "e \<noteq> NULL" using Nil i m(2,3) by auto
    then show ?thesis
      by (intro is_listI) (use Nil m assms(2,3) i in \<open>simp_all add: list_insert_after_def Let_def\<close>)
  next
    case (Cons y ys)
    have "y \<noteq> i" "y \<notin> set ys" "y \<noteq> NULL" "y \<noteq> e" "y \<notin> set as" "e \<noteq> i" "e \<notin> set as" "e \<noteq> NULL" "e \<notin> set ys"
      using Cons i m(2,3) by auto
    then show ?thesis
      by (intro is_listI) (use Cons m assms(2,3) i in \<open>simp_all add: list_insert_after_def Let_def\<close>)
  qed
qed

section \<open>Removal\<close>

lemma cnt_dec:
  assumes "is_list s l (as @ e # bs)"
  shows "l_cnt (h_list s l) \<noteq> 0" "l_cnt (h_list s l) - 1 = of_nat (length as + length bs)"
proof -
  have "l_cnt (h_list s l) = word_of_nat (Suc (length as + length bs))" using is_listD(8) [OF assms] by simp
  moreover have "Suc (length as + length bs) < 2 ^ 64"
    using distinct_addr_length [OF is_listD(2,3) [OF assms]] by simp
  ultimately show "l_cnt (h_list s l) \<noteq> 0" "l_cnt (h_list s l) - 1 = of_nat (length as + length bs)"
    by (auto simp: word_of_nat_eq_0_iff simp del: of_nat_Suc dest: dvd_imp_le) simp
qed

lemma is_list_unlink:
  assumes "is_list s l (as @ e # bs)"
  shows "is_list (list_unlink e s) l (as @ bs)" "le_list (h_le (list_unlink e s) e) = NULL"
proof -
  note m = is_listD [OF assms(1)] and c = cnt_dec [OF assms]
  have e: "e \<noteq> NULL" "e \<notin> set as" "e \<notin> set bs" "le_list (h_le s e) = l" using m(2,3,4) by auto
  show "is_list (list_unlink e s) l (as @ bs)"
  proof (cases as rule: rev_cases; cases bs)
    assume c1: "as = []" "bs = []"
    show ?thesis by (rule is_listI) (use m e c c1 in \<open>simp_all add: list_unlink_def Let_def\<close>)
  next
    fix b bs' assume c1: "as = []" "bs = b # bs'"
    have "b \<noteq> NULL" "b \<notin> set bs'" "b \<noteq> e" using m(2,3) c1 by auto
    then show ?thesis by (intro is_listI) (use m e c c1 in \<open>simp_all add: list_unlink_def Let_def\<close>)
  next
    fix a as' assume c1: "as = as' @ [a]" "bs = []"
    have "a \<noteq> NULL" "a \<notin> set as'" "a \<noteq> e" using m(2,3) c1 by auto
    then show ?thesis by (intro is_listI) (use m e c c1 in \<open>simp_all add: list_unlink_def Let_def\<close>)
  next
    fix a as' b bs' assume c1: "as = as' @ [a]" "bs = b # bs'"
    have "a \<noteq> NULL" "a \<notin> set as'" "a \<noteq> e" "b \<noteq> NULL" "b \<notin> set bs'" "b \<noteq> e" "a \<noteq> b" "b \<notin> set as'" "a \<notin> set bs'"
      using m(2,3) c1 by auto
    then show ?thesis by (intro is_listI) (use m e c c1 in \<open>simp_all add: list_unlink_def Let_def\<close>)
  qed
  show "le_list (h_le (list_unlink e s) e) = NULL" using e(1,4) m(1) by (simp add: list_unlink_def Let_def)
qed

text \<open>What the operations leave alone: the data of other elements, everything beside the lists, other lists.\<close>

lemma list_unlink_data [simp]: "le_data (h_le (list_unlink e s) x) = le_data (h_le s x)"
  by (simp add: list_unlink_def Let_def)

lemma list_insert_after_data [simp]:
  "le_data (h_le (list_insert_after l e i d s) x) =
    (if x = i \<and> l \<noteq> NULL \<and> e \<noteq> NULL \<and> i \<noteq> NULL \<and> le_list (h_le s i) = NULL then d else le_data (h_le s x))"
  by (simp add: list_insert_after_def Let_def)

lemma list_insert_before_data [simp]:
  "le_data (h_le (list_insert_before l e i d s) x) =
    (if x = i \<and> l \<noteq> NULL \<and> e \<noteq> NULL \<and> i \<noteq> NULL \<and> le_list (h_le s i) = NULL then d else le_data (h_le s x))"
  by (simp add: list_insert_before_def Let_def)

lemma list_append_data [simp]:
  "le_data (h_le (list_append l i d s) x) =
    (if x = i \<and> l \<noteq> NULL \<and> i \<noteq> NULL \<and> le_list (h_le s i) = NULL then d else le_data (h_le s x))"
  by (simp add: list_append_def Let_def)

lemma list_prepend_data [simp]:
  "le_data (h_le (list_prepend l i d s) x) =
    (if x = i \<and> l \<noteq> NULL \<and> i \<noteq> NULL \<and> le_list (h_le s i) = NULL then d else le_data (h_le s x))"
  by (simp add: list_prepend_def Let_def)

lemma list_ops_more [simp]:
  "lstore.more (list_unlink e s) = lstore.more s" "lstore.more (list_append l i d s) = lstore.more s"
  "lstore.more (list_prepend l i d s) = lstore.more s" "lstore.more (list_insert_after l e i d s) = lstore.more s"
  "lstore.more (list_insert_before l e i d s) = lstore.more s" "lstore.more (list_init l s) = lstore.more s"
  by (simp_all add: list_unlink_def list_append_def list_prepend_def list_insert_after_def list_insert_before_def
      list_init_def Let_def)

definition same_outside :: "addr \<Rightarrow> addr \<Rightarrow> 'a lstore_scheme \<Rightarrow> 'a lstore_scheme \<Rightarrow> bool" where
  "same_outside l i s s' \<longleftrightarrow>
    (\<forall>l'. l' \<noteq> l \<longrightarrow> h_list s' l' = h_list s l')
    \<and> (\<forall>x. x \<noteq> i \<longrightarrow> le_list (h_le s x) \<noteq> l \<longrightarrow> h_le s' x = h_le s x)
    \<and> (\<forall>x. x = i \<or> le_list (h_le s x) = l \<longrightarrow> le_list (h_le s' x) \<in> {l, NULL})"

lemma other_list_kept:
  assumes "same_outside l i s s'" and "is_list s l' ys" and "l' \<noteq> l" and "i \<notin> set ys"
  shows "is_list s' l' ys"
proof (rule is_list_cong [OF assms(2)])
  note o = assms(1) [unfolded same_outside_def]
  show "h_le s' x = h_le s x" if "x \<in> set ys" for x
  proof -
    have "le_list (h_le s x) \<noteq> l" "x \<noteq> i" using chain_list [OF is_listD(4) [OF assms(2)] that] assms(3,4) that by auto
    then show ?thesis using o by simp
  qed
  show "h_list s' l' = h_list s l'" using o assms(3) by blast
  show "le_list (h_le s' e) \<noteq> l'" if "e \<notin> set ys" "e \<noteq> NULL" for e
  proof (cases "e = i \<or> le_list (h_le s e) = l")
    case True
    then have "le_list (h_le s' e) \<in> {l, NULL}" using o by blast
    then show ?thesis using assms(3) is_listD(1) [OF assms(2)] by auto
  next
    case False
    then have "h_le s' e = h_le s e" using o by blast
    then show ?thesis using is_listD(5) [OF assms(2) that] by simp
  qed
qed

lemma neighbours:
  assumes "is_list s l xs" and "e \<in> set xs"
  shows "le_list (h_le s e) = l" "le_prev (h_le s e) \<noteq> NULL \<Longrightarrow> le_list (h_le s (le_prev (h_le s e))) = l"
    "le_next (h_le s e) \<noteq> NULL \<Longrightarrow> le_list (h_le s (le_next (h_le s e))) = l"
proof -
  obtain as bs where xs: "xs = as @ e # bs" using assms(2) by (meson split_list)
  note m = is_listD(4) [OF assms(1)]
  show "le_list (h_le s e) = l" using chain_list [OF m assms(2)] .
  have "le_prev (h_le s e) = last_or as NULL" "le_next (h_le s e) = hd_or bs NULL" using m xs by simp_all
  then show "le_prev (h_le s e) \<noteq> NULL \<Longrightarrow> le_list (h_le s (le_prev (h_le s e))) = l"
    "le_next (h_le s e) \<noteq> NULL \<Longrightarrow> le_list (h_le s (le_next (h_le s e))) = l"
    using chain_list [OF m] xs by (auto simp: last_or_def hd_or_def split: if_splits list.splits)
qed

lemma ends_list:
  assumes "is_list s l xs"
  shows "l_head (h_list s l) \<noteq> NULL \<Longrightarrow> le_list (h_le s (l_head (h_list s l))) = l"
    "l_tail (h_list s l) \<noteq> NULL \<Longrightarrow> le_list (h_le s (l_tail (h_list s l))) = l"
  using is_listD(6,7) [OF assms] chain_list [OF is_listD(4) [OF assms]]
  by (auto simp: last_or_def hd_or_def split: if_splits list.splits)

lemma append_outside: "is_list s l xs \<Longrightarrow> le_list (h_le s i) = NULL \<Longrightarrow> same_outside l i s (list_append l i d s)"
  using ends_list [of s l xs] by (simp add: same_outside_def list_append_def Let_def)

lemma prepend_outside: "is_list s l xs \<Longrightarrow> le_list (h_le s i) = NULL \<Longrightarrow> same_outside l i s (list_prepend l i d s)"
  using ends_list [of s l xs] by (simp add: same_outside_def list_prepend_def Let_def)

lemma insert_before_outside:
  "is_list s l xs \<Longrightarrow> le_list (h_le s i) = NULL \<Longrightarrow> e \<in> set xs \<Longrightarrow> same_outside l i s (list_insert_before l e i d s)"
  using neighbours [of s l xs e] by (simp add: same_outside_def list_insert_before_def Let_def) auto

lemma insert_after_outside:
  "is_list s l xs \<Longrightarrow> le_list (h_le s i) = NULL \<Longrightarrow> e \<in> set xs \<Longrightarrow> same_outside l i s (list_insert_after l e i d s)"
  using neighbours [of s l xs e] is_listD(1,3) [of s l xs]
  by (cases "le_next (h_le s e) = NULL") (simp_all add: same_outside_def list_insert_after_def Let_def, auto)

lemma unlink_outside: "is_list s l xs \<Longrightarrow> e \<in> set xs \<Longrightarrow> same_outside l e s (list_unlink e s)"
  using neighbours [of s l xs e] by (simp add: same_outside_def list_unlink_def Let_def)

section \<open>Traversal\<close>

declare apply_from.simps [simp del] insert_sorted_from.simps [simp del] sort_pass.simps [simp del]
  list_sort.simps [simp del] flush_from.simps [simp del] clear_from.simps [simp del]

definition addr_of :: "addr option \<Rightarrow> addr" where
  "addr_of r = (case r of None \<Rightarrow> NULL | Some e \<Rightarrow> e)"

lemma apply_forward:
  assumes "chain (h_le s) l p xs NULL" and "NULL \<notin> set xs"
  shows "apply_from True (\<lambda>e s. (P e s, s)) (hd_or xs NULL) s = Some (addr_of (find (\<lambda>e. P e s) xs), s)"
  using assms
proof (induction xs arbitrary: p)
  case Nil
  show ?case by (subst apply_from.simps) (simp add: addr_of_def)
next
  case (Cons x xs)
  then show ?case by (subst apply_from.simps) (auto simp: addr_of_def)
qed

lemma apply_backward:
  assumes "chain (h_le s) l NULL xs n" and "NULL \<notin> set xs"
  shows "apply_from False (\<lambda>e s. (P e s, s)) (last_or xs NULL) s = Some (addr_of (find (\<lambda>e. P e s) (rev xs)), s)"
  using assms
proof (induction xs arbitrary: n rule: rev_induct)
  case Nil
  show ?case by (subst apply_from.simps) (simp add: addr_of_def)
next
  case (snoc x xs)
  then show ?case by (subst apply_from.simps) (auto simp: addr_of_def)
qed

lemma list_apply_find:
  assumes "is_list s l xs"
  shows "list_apply l True (\<lambda>e s. (P e s, s)) s = Some (addr_of (find (\<lambda>e. P e s) xs), s)"
    "list_apply l False (\<lambda>e s. (P e s, s)) s = Some (addr_of (find (\<lambda>e. P e s) (rev xs)), s)"
  using is_listD [OF assms] apply_forward [of s l NULL xs P] apply_backward [of s l xs NULL P]
  by (simp_all add: list_apply_def)

text \<open>
  A handler may remove the element it is called with (as every \<open>LIST_FOREACH_SAFE\<close> loop and every apply handler
  that destroys its object does): the traversal still visits all elements once, in order.
\<close>

lemma apply_removing:
  assumes "\<And>e s as bs. is_list s l (as @ e # bs) \<Longrightarrow> \<exists>as'. ah e s = (False, f e s) \<and> is_list (f e s) l (as' @ bs)"
    and "is_list s l (as @ xs)"
  shows "apply_from True ah (hd_or xs NULL) s = Some (NULL, fold f xs s)"
  using assms(2)
proof (induction xs arbitrary: as s)
  case Nil
  show ?case by (subst apply_from.simps) simp
next
  case (Cons x xs)
  from assms(1) [OF Cons.prems] obtain as' where a: "ah x s = (False, f x s)" "is_list (f x s) l (as' @ xs)" by auto
  have "le_next (h_le s x) = hd_or xs NULL" "x \<noteq> NULL" using is_listD(3,4) [OF Cons.prems] by auto
  then show ?case using Cons.IH [OF a(2)] a(1) by (subst apply_from.simps) simp
qed

section \<open>Sorted insertion\<close>

text \<open>The new element goes behind the last element that may stand before it.\<close>

fun insert_behind :: "(addr \<Rightarrow> bool) \<Rightarrow> addr \<Rightarrow> addr list \<Rightarrow> addr list" where
  "insert_behind P i [] = [i]"
| "insert_behind P i (x # xs) = (if P x \<or> (\<exists>y\<in>set xs. P y) then x # insert_behind P i xs else i # x # xs)"

lemma insert_behind_last: "insert_behind P i (xs @ [x]) = (if P x then xs @ [x, i] else insert_behind P i xs @ [x])"
  by (induction xs) auto

lemma insert_sorted_from_spec:
  assumes "is_list s l (xs @ ys)" and "i \<noteq> NULL" and "le_list (h_le s i) = NULL"
    and "\<And>y. y \<in> set ys \<Longrightarrow> \<not> sh y i s"
  shows "\<exists>s'. insert_sorted_from l sh i (last_or xs NULL) s = Some s' \<and> is_list s' l (insert_behind (\<lambda>e. sh e i s) i xs @ ys)"
  using assms
proof (induction xs arbitrary: ys rule: rev_induct)
  case Nil
  show ?case using is_list_prepend [OF Nil(1) Nil(2,3)] by (subst insert_sorted_from.simps) simp
next
  case (snoc x xs)
  have m: "x \<noteq> NULL" "le_prev (h_le s x) = last_or xs NULL" using is_listD(3,4) [OF snoc.prems(1)] by auto
  show ?case
  proof (cases "sh x i s")
    case True
    have "is_list s l (xs @ x # ys)" using snoc.prems(1) by simp
    from is_list_insert_after [OF this snoc.prems(2,3)] show ?thesis
      using m True by (subst insert_sorted_from.simps) (simp add: insert_behind_last)
  next
    case False
    then have "y \<in> set (x # ys) \<Longrightarrow> \<not> sh y i s" for y using snoc.prems(4) by auto
    from snoc.IH [of "x # ys", OF _ snoc.prems(2,3) this] show ?thesis
      using snoc.prems(1) m False by (subst insert_sorted_from.simps) (simp add: insert_behind_last)
  qed
qed

section \<open>Sorting\<close>

text \<open>One pass over the list carries an element to the right as long as it stands in the wrong order.\<close>

fun pass :: "('e \<Rightarrow> 'e \<Rightarrow> bool) \<Rightarrow> 'e \<Rightarrow> 'e list \<Rightarrow> 'e list \<times> bool" where
  "pass R e [] = ([e], False)"
| "pass R e (b # bs) =
    (if R e b then (e # fst (pass R b bs), snd (pass R b bs)) else (b # fst (pass R e bs), True))"

text \<open>The number of pairs that stand in the wrong order.\<close>

fun inversions :: "('e \<Rightarrow> 'e \<Rightarrow> bool) \<Rightarrow> 'e list \<Rightarrow> nat" where
  "inversions R [] = 0"
| "inversions R (x # xs) = size (filter_mset (\<lambda>y. \<not> R x y) (mset xs)) + inversions R xs"

lemma mset_pass [simp]: "mset (fst (pass R e bs)) = add_mset e (mset bs)"
  by (induction R e bs rule: pass.induct) simp_all

lemma pass_inversions:
  assumes "\<And>x y. R x y \<or> R y x"
  shows "inversions R (fst (pass R e bs)) + of_bool (snd (pass R e bs)) \<le> inversions R (e # bs)"
proof (induction bs arbitrary: e)
  case (Cons b bs)
  then show ?case using assms [of e b] Cons [of b] add_leD1 [OF Cons [of e]] by (cases "R e b") auto
qed simp

lemma pass_unchanged: "\<not> snd (pass R e bs) \<Longrightarrow> fst (pass R e bs) = e # bs \<and> successively R (e # bs)"
  by (induction R e bs rule: pass.induct) (auto split: if_splits)

lemma pass_stable:
  assumes "transp R"
  shows "filter (\<lambda>x. R c x \<and> R x c) (fst (pass R e bs)) = filter (\<lambda>x. R c x \<and> R x c) (e # bs)"
proof (induction bs arbitrary: e)
  case (Cons b bs)
  have "R c e \<and> R e c \<Longrightarrow> R c b \<and> R b c \<Longrightarrow> R e b" using assms by (meson transpD)
  with Cons [of b] Cons [of e] show ?case by (cases "R e b") auto
qed simp

text \<open>
  The handler of a sort compares the objects behind two elements; sorting changes links only, so its answers
  stay the same.
\<close>

definition compares :: "(addr \<Rightarrow> addr \<Rightarrow> 'a lstore_scheme \<Rightarrow> bool) \<Rightarrow> (addr \<Rightarrow> addr \<Rightarrow> bool) \<Rightarrow> 'a lstore_scheme \<Rightarrow> bool" where
  "compares sh R s \<longleftrightarrow>
    (\<forall>s' a b. (\<forall>x. le_data (h_le s' x) = le_data (h_le s x)) \<longrightarrow> lstore.more s' = lstore.more s \<longrightarrow> sh a b s' = R a b)"

lemma compares_self: "compares sh R s \<Longrightarrow> sh a b s = R a b"
  by (simp add: compares_def)

lemma compares_ops:
  "compares sh R s \<Longrightarrow> compares sh R (list_unlink e s)"
  "compares sh R s \<Longrightarrow> compares sh R (list_insert_after l t e (le_data (h_le s e)) s)"
  by (simp_all add: compares_def)

lemma sort_pass_spec:
  assumes "is_list s l (as @ e # bs)" and "compares sh R s"
  shows "\<exists>s'. sort_pass l sh e f s = Some (f \<or> snd (pass R e bs), s') \<and> is_list s' l (as @ fst (pass R e bs)) \<and> compares sh R s'"
  using assms
proof (induction bs arbitrary: as e s f)
  case Nil
  have "le_next (h_le s e) = NULL" using is_listD(4) [OF Nil(1)] by simp
  then show ?case using Nil by (subst sort_pass.simps) simp
next
  case (Cons b bs)
  have n: "le_next (h_le s e) = b" "e \<noteq> NULL" "b \<noteq> NULL" using is_listD(3,4) [OF Cons.prems(1)] by auto
  show ?case
  proof (cases "R e b")
    case True
    have "is_list s l ((as @ [e]) @ b # bs)" using Cons.prems(1) by simp
    from Cons.IH [OF this Cons.prems(2), of f] show ?thesis
      using n True by (subst sort_pass.simps) (simp add: compares_self [OF Cons.prems(2)])
  next
    case False
    let ?u = "list_unlink e s" and ?d = "le_data (h_le s e)"
    note u = is_list_unlink [OF Cons.prems(1)]
    have "is_list (list_insert_after l b e ?d ?u) l ((as @ [b]) @ e # bs)"
      using is_list_insert_after [OF u(1) n(2) u(2)] by simp
    from Cons.IH [OF this, of True] show ?thesis
      using n False compares_ops(2) [OF compares_ops(1) [OF Cons.prems(2), of e], of l b e]
      by (subst sort_pass.simps) (simp add: compares_self [OF Cons.prems(2)] Let_def)
  qed
qed

lemma list_sort_spec:
  assumes "is_list s l xs" and "compares sh R s" and "\<And>x y. R x y \<or> R y x" and "transp R"
  shows "\<exists>ys s'. list_sort l sh s = Some s' \<and> is_list s' l ys \<and> mset ys = mset xs \<and> sorted_wrt R ys
    \<and> (\<forall>c. filter (\<lambda>x. R c x \<and> R x c) ys = filter (\<lambda>x. R c x \<and> R x c) xs)"
  using assms(1,2)
proof (induction "inversions R xs" arbitrary: xs s rule: less_induct)
  case less
  note l = is_listD(1) [OF less.prems(1)] and h = is_listD(6) [OF less.prems(1)]
  show ?case
  proof (cases xs)
    case Nil
    then have "sort_pass l sh (l_head (h_list s l)) False s = Some (False, s)" using h by (subst sort_pass.simps) simp
    then show ?thesis using l Nil less.prems(1) by (subst list_sort.simps) auto
  next
    case (Cons e bs)
    obtain s' where p: "sort_pass l sh e False s = Some (snd (pass R e bs), s')" "is_list s' l (fst (pass R e bs))" "compares sh R s'"
      using sort_pass_spec [of s l "[]" e bs sh R False] less.prems Cons by auto
    have q: "list_sort l sh s = (if snd (pass R e bs) then list_sort l sh s' else Some s')"
      using l h p(1) Cons by (subst list_sort.simps) simp
    show ?thesis
    proof (cases "snd (pass R e bs)")
      case False
      note u = pass_unchanged [OF False]
      then have "sorted_wrt R xs" using successively_conv_sorted_wrt [OF assms(4)] Cons by simp
      then show ?thesis using q False u p(2) Cons by auto
    next
      case True
      then have "inversions R (fst (pass R e bs)) < inversions R xs" using pass_inversions [of R e bs, OF assms(3)] Cons by simp
      from less.hyps [OF this p(2,3)] show ?thesis using q True Cons pass_stable [OF assms(4)] by auto
    qed
  qed
qed

text \<open>
  A handler that answers \<open>false\<close> for elements of equal rank, in both orders, makes the sort run forever: the
  pair is exchanged in every pass.
\<close>

lemma list_sort_diverges:
  assumes "is_list s l [a, b]" and "\<And>s. \<not> sh a b s" and "\<And>s. \<not> sh b a s"
  shows "list_sort l sh s = None"
proof (rule ccontr)
  assume "list_sort l sh s \<noteq> None"
  then obtain s' where "list_sort l sh s = Some s'" by auto
  then have "\<not> (is_list s l [x, y] \<and> (\<forall>s. \<not> sh x y s) \<and> (\<forall>s. \<not> sh y x s))" for x y
  proof (induction l sh s s' arbitrary: x y rule: list_sort.raw_induct [rotated, consumes 1, case_names 1])
    case (1 list_sort l sh s s')
    show ?case
    proof
      assume a: "is_list s l [x, y] \<and> (\<forall>s. \<not> sh x y s) \<and> (\<forall>s. \<not> sh y x s)"
      note m = is_listD [OF conjunct1 [OF a]]
      note u = is_list_unlink [of s l "[]" x "[y]"]
      define t where "t = list_insert_after l y x (le_data (h_le (list_unlink x s) x)) (list_unlink x s)"
      have t: "is_list t l [y, x]"
        using is_list_insert_after [of "list_unlink x s" l "[]" y "[]"] u a m(3) by (simp add: t_def)
      have n: "le_next (h_le t x) = NULL" "x \<noteq> NULL" "y \<noteq> NULL" using is_listD(3,4) [OF t] by auto
      have "sort_pass l sh x True t = Some (True, t)" using n by (subst sort_pass.simps) simp
      then have "sort_pass l sh x False s = Some (True, t)"
        using a m(4) n by (subst sort_pass.simps) (simp add: Let_def t_def)
      with 1(2) have "list_sort l sh t = Some s'" using m(1,6) by simp
      from 1(1) [OF this, of y x] show False using t a by blast
    qed
  qed
  with assms show False by blast
qed

section \<open>Flushing and clearing\<close>

text \<open>
  Dropping the reference of an element's data runs the destructor of the object, which may do anything but
  change this list.
\<close>

definition flush_one :: "(addr \<Rightarrow> 'a lstore_scheme \<Rightarrow> 'a lstore_scheme) \<Rightarrow> addr \<Rightarrow> 'a lstore_scheme \<Rightarrow> 'a lstore_scheme" where
  "flush_one deref e s = deref (le_data (h_le s e)) (upd_le e (\<lambda>x. x\<lparr>le_data := NULL\<rparr>) (list_unlink e s))"

lemma is_list_data: "is_list s l xs \<Longrightarrow> is_list (upd_le e (\<lambda>x. x\<lparr>le_data := d\<rparr>) s) l xs"
proof -
  have c: "chain (h(e := (h e)\<lparr>le_data := d\<rparr>)) l p xs n = chain h l p xs n" for h p n
    by (induction xs arbitrary: p) auto
  show "is_list s l xs \<Longrightarrow> is_list (upd_le e (\<lambda>x. x\<lparr>le_data := d\<rparr>) s) l xs"
    by (simp add: is_list_def c)
qed

lemma flush_from_spec:
  assumes "\<And>d s xs. is_list s l xs \<Longrightarrow> is_list (deref d s) l xs" and "is_list s l xs"
  shows "flush_from deref (hd_or xs NULL) s = Some (fold (flush_one deref) xs s) \<and> is_list (fold (flush_one deref) xs s) l []"
  using assms(2)
proof (induction xs arbitrary: s)
  case Nil
  then show ?case by (subst flush_from.simps) simp
next
  case (Cons x xs)
  have n: "le_next (h_le s x) = hd_or xs NULL" "x \<noteq> NULL" using is_listD(3,4) [OF Cons.prems] by auto
  have "is_list (flush_one deref x s) l xs"
    unfolding flush_one_def by (rule assms(1), rule is_list_data, use is_list_unlink(1) [of s l "[]"] Cons.prems in simp)
  from Cons.IH [OF this] show ?case using n by (subst flush_from.simps) (simp add: Let_def flush_one_def [of deref x s, symmetric])
qed

lemma list_init_nil: "is_list s l [] \<Longrightarrow> is_list (list_init l s) l []"
  by (simp add: is_list_def list_init_def LIST_INIT_def)

lemma list_flush_spec:
  assumes "\<And>d s xs. is_list s l xs \<Longrightarrow> is_list (deref d s) l xs" and "is_list s l xs"
  shows "\<exists>s'. list_flush deref l s = Some s' \<and> s' = list_init l (fold (flush_one deref) xs s) \<and> is_list s' l []"
  using flush_from_spec [of l deref s xs, OF assms] is_listD(1,6) [OF assms(2)] list_init_nil by (auto simp: list_flush_def)

lemma clear_from_spec:
  assumes "chain (h_le s) l p xs NULL" and "distinct xs" and "NULL \<notin> set xs"
  shows "clear_from (hd_or xs NULL) s = Some (fold (\<lambda>e. upd_le e (\<lambda>_. LE_INIT)) xs s)"
  using assms
proof (induction xs arbitrary: s p)
  case Nil
  then show ?case by (subst clear_from.simps) simp
next
  case (Cons x xs)
  have "chain (h_le (upd_le x (\<lambda>_. LE_INIT) s)) l x xs NULL" using Cons.prems by (simp only: upd_fields chain_upd chain.simps distinct.simps simp_thms)
  from Cons.IH [OF this] show ?case using Cons.prems by (subst clear_from.simps) simp
qed

lemma LE_INIT_list: "le_list LE_INIT = NULL"
  by (simp add: LE_INIT_def)

lemma fold_clear:
  "h_le (fold (\<lambda>e. upd_le e (\<lambda>_. LE_INIT)) xs s) = (\<lambda>x. if x \<in> set xs then LE_INIT else h_le s x)"
  "h_list (fold (\<lambda>e. upd_le e (\<lambda>_. LE_INIT)) xs s) = h_list s"
  by (induction xs arbitrary: s) auto

lemma list_clear_spec:
  assumes "is_list s l xs"
  shows "\<exists>s'. list_clear l s = Some s' \<and> is_list s' l []
    \<and> h_le s' = (\<lambda>x. if x \<in> set xs then LE_INIT else h_le s x)"
proof -
  note m = is_listD [OF assms]
  let ?s = "fold (\<lambda>e. upd_le e (\<lambda>_. LE_INIT)) xs s"
  have "is_list (list_init l ?s) l []"
    by (rule is_list_init [OF m(1)]) (use m(1,5) in \<open>auto simp: fold_clear LE_INIT_list\<close>)
  then show ?thesis
    using clear_from_spec [OF m(4,2,3)] m(1,6) by (auto simp: list_clear_def fold_clear list_init_def)
qed

text \<open>Moving an element to another list.\<close>

lemma list_move_spec:
  assumes "is_list s l (as @ e # bs)" and "is_list s l' ys" and "l' \<noteq> l"
  shows "is_list (list_move e l' s) l' (ys @ [e])" "is_list (list_move e l' s) l (as @ bs)"
proof -
  note u = is_list_unlink [OF assms(1)]
  have e: "e \<noteq> NULL" "e \<notin> set ys" "e \<notin> set (as @ bs)"
    using is_listD(2,3) [OF assms(1)] chain_list [OF is_listD(4) [OF assms(1)], of e]
      chain_list [OF is_listD(4) [OF assms(2)], of e] assms(3) by auto
  have y: "is_list (list_unlink e s) l' ys"
    by (rule other_list_kept [OF unlink_outside [OF assms(1)] assms(2,3) e(2)]) simp
  show "is_list (list_move e l' s) l' (ys @ [e])" unfolding list_move_def Let_def by (rule is_list_append [OF y e(1) u(2)])
  show "is_list (list_move e l' s) l (as @ bs)"
    unfolding list_move_def Let_def
    by (rule other_list_kept [OF append_outside [OF y u(2)] u(1)]) (use assms(3) e in auto)
qed

lemma list_count_spec: "is_list s l xs \<Longrightarrow> list_count l s = of_nat (length xs)"
  using is_listD(1,8) [of s l xs] by (simp add: list_count_def) (transfer, simp add: take_bit_of_nat)

section \<open>The list as a whole\<close>

lemma kept_outside:
  assumes "same_outside l i s s'" and "is_list s l' ys" and "l' \<noteq> l" and "le_list (h_le s i) \<in> {NULL, l}"
  shows "is_list s' l' ys"
proof (rule other_list_kept [OF assms(1-3)])
  show "i \<notin> set ys" using chain_list [OF is_listD(4) [OF assms(2)], of i] is_listD(1) [OF assms(2)] assms(3,4) by auto
qed


definition example_store :: lstore where
  "example_store = list_append 1 8 108 (list_append 1 16 116 (list_append 1 12 112
     \<lparr>h_le = \<lambda>_. LE_INIT, h_list = \<lambda>_. LIST_INIT\<rparr>))"

lemma example_list: "is_list example_store 1 [12, 16, 8]"
proof -
  let ?s = "\<lparr>h_le = \<lambda>_. LE_INIT, h_list = \<lambda>_. LIST_INIT\<rparr>"
  have 0: "is_list ?s 1 []" by (simp add: is_list_def LE_INIT_def LIST_INIT_def)
  have "is_list (list_append 1 12 112 ?s) 1 ([] @ [12])" by (rule is_list_append [OF 0]) (simp_all add: LE_INIT_def)
  then have 1: "is_list (list_append 1 12 112 ?s) 1 [12]" by simp
  have "is_list (list_append 1 16 116 (list_append 1 12 112 ?s)) 1 ([12] @ [16])"
    by (rule is_list_append [OF 1]) (simp_all add: list_append_def LE_INIT_def LIST_INIT_def Let_def)
  then have 2: "is_list (list_append 1 16 116 (list_append 1 12 112 ?s)) 1 [12, 16]" by simp
  have "is_list example_store 1 ([12, 16] @ [8])"
    unfolding example_store_def
    by (rule is_list_append [OF 2]) (simp_all add: list_append_def LE_INIT_def LIST_INIT_def Let_def)
  then show ?thesis by simp
qed


text \<open>
  sorting a list ends, whatever the list, when the handler is a total preorder (it answers true for elements
  of equal rank in either order, as its documentation asks): every pass that exchanges a pair lowers the number
  of pairs in the wrong order. The result is sorted, has the same elements, and keeps the order of elements of
  equal rank. A handler that compares strictly loops forever as soon as two elements have equal rank.
\<close>

lemma list_sort_terminates:
  assumes "is_list s l xs" and "compares sh R s" and "\<And>x y. R x y \<or> R y x" and "transp R"
  shows "\<exists>ys s'. list_sort l sh s = Some s' \<and> is_list s' l ys \<and> mset ys = mset xs \<and> sorted_wrt R ys
    \<and> (\<forall>c. filter (\<lambda>x. R c x \<and> R x c) ys = filter (\<lambda>x. R c x \<and> R x c) xs)"
  by (rule list_sort_spec [OF assms])

lemma list_sort_terminates_witness:
  "\<exists>s'. list_sort 1 (\<lambda>a b s. a \<le> b) example_store = Some s' \<and> is_list s' 1 [8, 12, 16]"
proof -
  obtain ys s' where y: "list_sort 1 (\<lambda>a b s. a \<le> b) example_store = Some s'" "is_list s' 1 ys"
    "mset ys = mset [12, 16, 8]" "sorted_wrt (\<le>) ys"
    using list_sort_terminates [OF example_list, of "\<lambda>a b s. a \<le> b" "(\<le>)", OF _ linear transp_on_le]
    by (auto simp: compares_def)
  have "sorted ys" using y(4) .
  then have "ys = sort [12, 16, 8]" using y(3) by (metis properties_for_sort)
  then show ?thesis using y(1,2) by simp
qed

end
