(* ===== verification/Libre_Tmr.thy ===== *)
theory Libre_Tmr
  imports Libre_List
begin

text \<open>
  The timers of the library (\<open>tmr.c\<close>), which drive every periodic action of the program: the list of a thread's
  timers ordered by deadline, starting, continuing and cancelling a timer, the poll that runs the handlers of
  the timers that are due, and the time the event loop may sleep. A timer's list element is its first field, so
  timer and element have the same address. The mutex of the list is only recorded (\<open>tm_llock\<close>); all callbacks
  of the program run in one thread. The clock is part of the state and is advanced by the environment and by
  handlers; a handler is an argument of the poll.
\<close>

record 'h tmr =
  tm_llock :: addr
  tm_th :: "'h option"
  tm_arg :: addr
  tm_jfs :: u64

record 'h tstore = lstore +
  h_tmr :: "addr \<Rightarrow> 'h tmr"
  h_tmrl :: addr
  h_lock :: "addr \<Rightarrow> addr"
  h_clock :: "(int \<times> int) option"

definition upd_tmr :: "addr \<Rightarrow> ('h tmr \<Rightarrow> 'h tmr) \<Rightarrow> ('h, 'a) tstore_scheme \<Rightarrow> ('h, 'a) tstore_scheme" where
  "upd_tmr t f s = s\<lparr>h_tmr := (h_tmr s)(t := f (h_tmr s t))\<rparr>"

section \<open>The clock\<close>

text \<open>\<open>clock_gettime\<close> answers with seconds and nanoseconds, or fails.\<close>

definition tmr_jiffies_usec :: "('h, 'a) tstore_scheme \<Rightarrow> u64" where
  "tmr_jiffies_usec s = (case h_clock s of
      None \<Rightarrow> 0
    | Some (sec, nsec) \<Rightarrow> word_of_int sec * 1000000 + word_of_int (nsec div 1000))"

definition tmr_jiffies :: "('h, 'a) tstore_scheme \<Rightarrow> u64" where
  "tmr_jiffies s = tmr_jiffies_usec s div 1000"

section \<open>The operations\<close>

definition tmrl_alloc :: "bool \<Rightarrow> errno option \<Rightarrow> addr \<Rightarrow> addr \<Rightarrow> ('h, 'a) tstore_scheme \<Rightarrow> errno option \<times> ('h, 'a) tstore_scheme" where
  "tmrl_alloc mem mutex l lock s =
    (if \<not> mem then (Some ENOMEM, s)
     else let s = list_init l s
          in case mutex of Some e \<Rightarrow> (Some e, s) | None \<Rightarrow> (None, s\<lparr>h_lock := (h_lock s)(l := lock)\<rparr>))"

definition tmrl_destructor :: "addr \<Rightarrow> ('h, 'a) tstore_scheme \<Rightarrow> ('h, 'a) tstore_scheme option" where
  "tmrl_destructor l s =
    (case apply_from True (\<lambda>e s. (False, upd_tmr (le_data (h_le s e)) (\<lambda>x. x\<lparr>tm_llock := NULL\<rparr>) s)) (list_head l s) s of
       None \<Rightarrow> None
     | Some r \<Rightarrow> list_clear l (snd r))"

definition tmr_init :: "addr \<Rightarrow> ('h, 'a) tstore_scheme \<Rightarrow> ('h, 'a) tstore_scheme" where
  "tmr_init t s = (if t = NULL then s
     else upd_tmr t (\<lambda>_. \<lparr>tm_llock = NULL, tm_th = None, tm_arg = NULL, tm_jfs = 0\<rparr>) (upd_le t (\<lambda>_. LE_INIT) s))"

definition inspos_handler :: "u64 \<Rightarrow> addr \<Rightarrow> ('h, 'a) tstore_scheme \<Rightarrow> bool" where
  "inspos_handler now e s = (tm_jfs (h_tmr s (le_data (h_le s e))) \<le> now)"

definition inspos_handler_0 :: "u64 \<Rightarrow> addr \<Rightarrow> ('h, 'a) tstore_scheme \<Rightarrow> bool" where
  "inspos_handler_0 now e s = (tm_jfs (h_tmr s (le_data (h_le s e))) > now)"

definition tmr_startcont ::
  "addr \<Rightarrow> u64 \<Rightarrow> bool \<Rightarrow> 'h option \<Rightarrow> addr \<Rightarrow> ('h, 'a) tstore_scheme \<Rightarrow> ('h, 'a) tstore_scheme option" where
  "tmr_startcont t delay syncnow th arg s =
    (let l = h_tmrl s in
     if t = NULL \<or> l = NULL then Some s
     else let s = (if tm_th (h_tmr s t) \<noteq> None then list_unlink t s else s) in
       if th = None then Some (upd_tmr t (\<lambda>x. x\<lparr>tm_llock := NULL\<rparr>) s)
       else let s = upd_tmr t (\<lambda>x. x\<lparr>tm_llock := h_lock s l, tm_th := th, tm_arg := arg\<rparr>) s;
                s = (if syncnow then upd_tmr t (\<lambda>x. x\<lparr>tm_jfs := tmr_jiffies s\<rparr>) s else s);
                s = upd_tmr t (\<lambda>x. x\<lparr>tm_jfs := tm_jfs x + delay\<rparr>) s;
                jfs = tm_jfs (h_tmr s t)
            in if delay = 0
               then case list_apply l True (\<lambda>e s. (inspos_handler_0 jfs e s, s)) s of
                      None \<Rightarrow> None
                    | Some (e, s) \<Rightarrow> Some (if e \<noteq> NULL then list_insert_before l e t t s else list_append l t t s)
               else case list_apply l False (\<lambda>e s. (inspos_handler jfs e s, s)) s of
                      None \<Rightarrow> None
                    | Some (e, s) \<Rightarrow> Some (if e \<noteq> NULL then list_insert_after l e t t s else list_prepend l t t s))"

definition tmr_start :: "addr \<Rightarrow> u64 \<Rightarrow> 'h option \<Rightarrow> addr \<Rightarrow> ('h, 'a) tstore_scheme \<Rightarrow> ('h, 'a) tstore_scheme option" where
  "tmr_start t delay th arg s = tmr_startcont t delay True th arg s"

definition tmr_continue :: "addr \<Rightarrow> u64 \<Rightarrow> 'h option \<Rightarrow> addr \<Rightarrow> ('h, 'a) tstore_scheme \<Rightarrow> ('h, 'a) tstore_scheme option" where
  "tmr_continue t delay th arg s = tmr_startcont t delay False th arg s"

definition tmr_cancel :: "addr \<Rightarrow> ('h, 'a) tstore_scheme \<Rightarrow> ('h, 'a) tstore_scheme option" where
  "tmr_cancel t s = tmr_start t 0 None NULL s"

definition tmr_isrunning :: "addr \<Rightarrow> ('h, 'a) tstore_scheme \<Rightarrow> bool" where
  "tmr_isrunning t s = (if t = NULL then False else tm_th (h_tmr s t) \<noteq> None)"

definition tmr_get_expire :: "addr \<Rightarrow> ('h, 'a) tstore_scheme \<Rightarrow> u64" where
  "tmr_get_expire t s =
    (if t = NULL \<or> tm_th (h_tmr s t) = None then 0
     else if tm_jfs (h_tmr s t) > tmr_jiffies s then tm_jfs (h_tmr s t) - tmr_jiffies s else 0)"

definition tmr_next_timeout :: "addr \<Rightarrow> ('h, 'a) tstore_scheme \<Rightarrow> u64" where
  "tmr_next_timeout l s =
    (if l = NULL then 0
     else let t = list_ledata (l_head (h_list s l)) s
          in if t = NULL then 0
             else if tm_jfs (h_tmr s t) \<le> tmr_jiffies s then 1
             else tm_jfs (h_tmr s t) - tmr_jiffies s)"

definition tmrl_count :: "addr \<Rightarrow> ('h, 'a) tstore_scheme \<Rightarrow> u32" where
  "tmrl_count l s = (if l = NULL then 0 else list_count l s)"

text \<open>A due timer is taken off the list, and marked as stopped, before its handler runs.\<close>

definition detach :: "addr \<Rightarrow> ('h, 'a) tstore_scheme \<Rightarrow> ('h, 'a) tstore_scheme" where
  "detach t s = upd_tmr t (\<lambda>x. x\<lparr>tm_llock := NULL\<rparr>) (list_unlink t (upd_tmr t (\<lambda>x. x\<lparr>tm_th := None\<rparr>) s))"

partial_function (option) poll_loop ::
  "('h \<Rightarrow> addr \<Rightarrow> ('h, 'a) tstore_scheme \<Rightarrow> ('h, 'a) tstore_scheme) \<Rightarrow> addr \<Rightarrow> u64 \<Rightarrow> ('h, 'a) tstore_scheme
    \<Rightarrow> ('h, 'a) tstore_scheme option" where
  "poll_loop call l jfs s =
    (let t = list_ledata (l_head (h_list s l)) s in
     if t = NULL \<or> tm_jfs (h_tmr s t) > jfs then Some s
     else case tm_th (h_tmr s t) of
       None \<Rightarrow> poll_loop call l jfs (detach t s)
     | Some h \<Rightarrow> poll_loop call l jfs (call h (tm_arg (h_tmr s t)) (detach t s)))"

definition tmr_poll ::
  "('h \<Rightarrow> addr \<Rightarrow> ('h, 'a) tstore_scheme \<Rightarrow> ('h, 'a) tstore_scheme) \<Rightarrow> addr \<Rightarrow> ('h, 'a) tstore_scheme
    \<Rightarrow> ('h, 'a) tstore_scheme option" where
  "tmr_poll call l s = (if l = NULL then Some s else poll_loop call l (tmr_jiffies s) s)"

section \<open>The ordered list of timers\<close>

definition jfs_of :: "('h, 'a) tstore_scheme \<Rightarrow> addr \<Rightarrow> u64" where
  "jfs_of s t = tm_jfs (h_tmr s t)"

definition tmrl_wf :: "('h, 'a) tstore_scheme \<Rightarrow> addr \<Rightarrow> addr list \<Rightarrow> bool" where
  "tmrl_wf s l ts \<longleftrightarrow> is_list s l ts \<and> h_tmrl s = l
    \<and> (\<forall>t\<in>set ts. le_data (h_le s t) = t \<and> tm_th (h_tmr s t) \<noteq> None) \<and> sorted (map (jfs_of s) ts)"

lemma upd_tmr_fields [simp]:
  "h_le (upd_tmr t f s) = h_le s" "h_list (upd_tmr t f s) = h_list s"
  "h_tmr (upd_tmr t f s) = (h_tmr s)(t := f (h_tmr s t))" "h_tmrl (upd_tmr t f s) = h_tmrl s"
  "h_lock (upd_tmr t f s) = h_lock s" "h_clock (upd_tmr t f s) = h_clock s"
  "tmr_jiffies (upd_tmr t f s) = tmr_jiffies s"
  by (simp_all add: upd_tmr_def tmr_jiffies_def tmr_jiffies_usec_def)

lemma is_list_upd_tmr [simp]: "is_list (upd_tmr t f s) l ts = is_list s l ts"
  by (simp add: is_list_def)

lemma tstore_moreD:
  fixes s s' :: "('h, 'a) tstore_scheme"
  assumes "lstore.more s' = lstore.more s"
  shows "h_tmr s' = h_tmr s" "h_tmrl s' = h_tmrl s" "h_lock s' = h_lock s" "h_clock s' = h_clock s"
    "tmr_jiffies s' = tmr_jiffies s"
  using assms by (cases s; cases s'; simp add: tmr_jiffies_def tmr_jiffies_usec_def)+

lemmas list_ops_tmr [simp] = list_ops_more [THEN tstore_moreD(1)] list_ops_more [THEN tstore_moreD(2)]
  list_ops_more [THEN tstore_moreD(3)] list_ops_more [THEN tstore_moreD(4)] list_ops_more [THEN tstore_moreD(5)]

text \<open>Starting a timer puts it behind all timers that are due no later.\<close>

definition insert_due :: "(addr \<Rightarrow> u64) \<Rightarrow> u64 \<Rightarrow> addr \<Rightarrow> addr list \<Rightarrow> addr list" where
  "insert_due f j t ts = takeWhile (\<lambda>x. f x \<le> j) ts @ t # dropWhile (\<lambda>x. f x \<le> j) ts"

lemma set_insert_due [simp]: "set (insert_due f j t ts) = insert t (set ts)"
  by (simp add: insert_due_def) (metis Un_insert_right set_append takeWhile_dropWhile_id)

lemma sorted_rest_later:
  assumes "sorted (map f ts)" and "x \<in> set (dropWhile (\<lambda>x. f x \<le> (j :: u64)) ts)"
  shows "j < f x"
  using assms by (induction ts) (auto split: if_splits)

lemma sorted_between:
  fixes j :: "'b :: linorder"
  assumes "sorted xs" and "sorted ys" and "\<And>x. x \<in> set xs \<Longrightarrow> x \<le> j" and "\<And>y. y \<in> set ys \<Longrightarrow> j \<le> y"
  shows "sorted (xs @ j # ys)"
  using assms order_trans by (fastforce simp: sorted_append)

lemma sorted_insert_due:
  assumes "sorted (map f ts)" and "f t = (j :: u64)"
  shows "sorted (map f (insert_due f j t ts))"
proof -
  let ?A = "takeWhile (\<lambda>x. f x \<le> j) ts" and ?B = "dropWhile (\<lambda>x. f x \<le> j) ts"
  have "sorted (map f ?A @ map f ?B)" using assms(1) by (simp flip: map_append)
  then have AB: "sorted (map f ?A)" "sorted (map f ?B)" by (simp_all only: sorted_append)
  show ?thesis
    unfolding insert_due_def map_append list.map assms(2)
  proof (rule sorted_between [OF AB])
    show "x \<le> j" if "x \<in> set (map f ?A)" for x using that set_takeWhileD by fastforce
    show "j \<le> y" if y: "y \<in> set (map f ?B)" for y
    proof -
      obtain b where "b \<in> set ?B" "y = f b" using y by auto
      from sorted_rest_later [OF assms(1) this(1)] show ?thesis unfolding \<open>y = f b\<close> by (rule less_imp_le)
    qed
  qed
qed

lemma find_forward:
  "find (\<lambda>e. j < f e) ts = (case dropWhile (\<lambda>x. f x \<le> (j :: u64)) ts of [] \<Rightarrow> None | b # _ \<Rightarrow> Some b)"
  by (induction ts) auto

lemma find_backward:
  assumes "sorted (map f ts)"
  shows "find (\<lambda>e. f e \<le> (j :: u64)) (rev ts) =
    (if takeWhile (\<lambda>x. f x \<le> j) ts = [] then None else Some (last (takeWhile (\<lambda>x. f x \<le> j) ts)))"
proof -
  have none: "find P (xs @ ys) = find P ys" if "\<And>x. x \<in> set xs \<Longrightarrow> \<not> P x" for P :: "'b \<Rightarrow> bool" and xs ys
    using that by (induction xs) auto
  have r: "rev ts = rev (dropWhile (\<lambda>x. f x \<le> j) ts) @ rev (takeWhile (\<lambda>x. f x \<le> j) ts)"
    by (metis rev_append takeWhile_dropWhile_id)
  have "\<not> f x \<le> j" if "x \<in> set (rev (dropWhile (\<lambda>x. f x \<le> j) ts))" for x
    using sorted_rest_later [OF assms] that by (simp add: not_le)
  then have "find (\<lambda>e. f e \<le> j) (rev ts) = find (\<lambda>e. f e \<le> j) (rev (takeWhile (\<lambda>x. f x \<le> j) ts))"
    by (subst r) (rule none)
  also have "\<dots> = (if takeWhile (\<lambda>x. f x \<le> j) ts = [] then None else Some (last (takeWhile (\<lambda>x. f x \<le> j) ts)))"
  proof (cases "takeWhile (\<lambda>x. f x \<le> j) ts" rule: rev_cases)
    case (snoc ys y)
    then have "f y \<le> j" using set_takeWhileD [of y "\<lambda>x. f x \<le> j" ts] by simp
    then show ?thesis using snoc by simp
  qed simp
  finally show ?thesis .
qed

lemma find_cong: "(\<And>x. x \<in> set xs \<Longrightarrow> P x = Q x) \<Longrightarrow> find P xs = find Q xs"
  by (induction xs) auto

lemma insert_timer:
  assumes "is_list s l ts" and "t \<noteq> NULL" and "le_list (h_le s t) = NULL"
    and "\<And>x. x \<in> set ts \<Longrightarrow> le_data (h_le s x) = x" and "sorted (map (jfs_of s) ts)"
  shows "\<exists>s'. (case list_apply l True (\<lambda>e s. (inspos_handler_0 j e s, s)) s of
                 None \<Rightarrow> None
               | Some (e, s) \<Rightarrow> Some (if e \<noteq> NULL then list_insert_before l e t t s else list_append l t t s)) = Some s'
      \<and> is_list s' l (insert_due (jfs_of s) j t ts) \<and> lstore.more s' = lstore.more s
      \<and> (\<forall>x. le_data (h_le s' x) = (if x = t then t else le_data (h_le s x)))" (is ?first)
    and "\<exists>s'. (case list_apply l False (\<lambda>e s. (inspos_handler j e s, s)) s of
                 None \<Rightarrow> None
               | Some (e, s) \<Rightarrow> Some (if e \<noteq> NULL then list_insert_after l e t t s else list_prepend l t t s)) = Some s'
      \<and> is_list s' l (insert_due (jfs_of s) j t ts) \<and> lstore.more s' = lstore.more s
      \<and> (\<forall>x. le_data (h_le s' x) = (if x = t then t else le_data (h_le s x)))" (is ?second)
proof -
  define A B where "A = takeWhile (\<lambda>x. jfs_of s x \<le> j) ts" and "B = dropWhile (\<lambda>x. jfs_of s x \<le> j) ts"
  note AB = A_def [symmetric] B_def [symmetric]
  have ts: "ts = A @ B" by (simp add: A_def B_def)
  note m = is_listD(1,3) [OF assms(1)]
  have f: "find (\<lambda>e. inspos_handler_0 j e s) ts = find (\<lambda>e. j < jfs_of s e) ts"
    by (rule find_cong) (simp add: inspos_handler_0_def assms(4) jfs_of_def)
  show ?first
  proof (cases B)
    case Nil
    then have "is_list (list_append l t t s) l (A @ [t])" using is_list_append [OF assms(1-3)] ts by simp
    then show ?thesis
      using Nil f m assms(2,3)
      by (simp add: list_apply_find [OF assms(1)] find_forward addr_of_def insert_due_def AB)
  next
    case (Cons b bs)
    then have "is_list s l (A @ b # bs)" "b \<noteq> NULL" using assms(1) m ts by auto
    then show ?thesis
      using Cons f is_list_insert_before [of s l A b bs] m assms(2,3)
      by (simp add: list_apply_find [OF assms(1)] find_forward addr_of_def insert_due_def AB)
  qed
  have g: "find (\<lambda>e. inspos_handler j e s) (rev ts) = find (\<lambda>e. jfs_of s e \<le> j) (rev ts)"
    by (rule find_cong) (simp add: inspos_handler_def assms(4) jfs_of_def)
  show ?second
  proof (cases A rule: rev_cases)
    case Nil
    then have "is_list (list_prepend l t t s) l (t # B)" using is_list_prepend [OF assms(1-3)] ts by simp
    then show ?thesis
      using Nil g m assms(2,3)
      by (simp add: list_apply_find [OF assms(1)] find_backward [OF assms(5)] addr_of_def insert_due_def AB)
  next
    case (snoc as a)
    then have "is_list s l (as @ a # B)" "a \<noteq> NULL" using assms(1) m ts by auto
    then show ?thesis
      using snoc g is_list_insert_after [of s l as a B] m assms(2,3)
      by (simp add: list_apply_find [OF assms(1)] find_backward [OF assms(5)] addr_of_def insert_due_def AB)
  qed
qed

lemma tmrl_wfD:
  assumes "tmrl_wf s l ts"
  shows "is_list s l ts" "h_tmrl s = l" "l \<noteq> NULL" "sorted (map (jfs_of s) ts)"
    "t \<in> set ts \<Longrightarrow> le_data (h_le s t) = t" "t \<in> set ts \<Longrightarrow> tm_th (h_tmr s t) \<noteq> None"
    "t \<in> set ts \<Longrightarrow> t \<noteq> NULL"
  using assms by (auto simp: tmrl_wf_def is_list_def)

lemma unlink_timer:
  assumes "is_list s l ts" and "t \<in> set ts"
  shows "is_list (list_unlink t s) l (removeAll t ts)" "le_list (h_le (list_unlink t s) t) = NULL"
proof -
  obtain as bs where "ts = as @ t # bs" "t \<notin> set as" "t \<notin> set bs"
    using split_list [OF assms(2)] is_listD(2) [OF assms(1)] by auto
  then show "is_list (list_unlink t s) l (removeAll t ts)" "le_list (h_le (list_unlink t s) t) = NULL"
    using is_list_unlink [of s l as t bs] assms(1) by simp_all
qed

lemma stopped_timer:
  assumes "tmrl_wf s l ts" and "t \<noteq> NULL" and "le_list (h_le s t) \<in> {NULL, l}"
  defines "s1 \<equiv> (if tm_th (h_tmr s t) \<noteq> None then list_unlink t s else s)"
  shows "is_list s1 l (removeAll t ts)" "le_list (h_le s1 t) = NULL" "lstore.more s1 = lstore.more s"
    "le_data (h_le s1 x) = le_data (h_le s x)"
proof -
  note w = tmrl_wfD [OF assms(1)]
  have "is_list s1 l (removeAll t ts) \<and> le_list (h_le s1 t) = NULL"
  proof (cases "t \<in> set ts")
    case True
    then show ?thesis using unlink_timer [OF w(1) True] w(6) [OF True] by (simp add: s1_def)
  next
    case False
    then have n: "le_list (h_le s t) = NULL" using is_listD(5) [OF w(1) False assms(2)] assms(3) by simp
    then have "list_unlink t s = s" by (simp add: list_unlink_def)
    then show ?thesis using w(1) False n by (simp add: s1_def)
  qed
  then show "is_list s1 l (removeAll t ts)" "le_list (h_le s1 t) = NULL" by simp_all
  show "lstore.more s1 = lstore.more s" "le_data (h_le s1 x) = le_data (h_le s x)" by (simp_all add: s1_def)
qed

lemma insert_due_cong: "(\<And>x. x \<in> set ts \<Longrightarrow> f x = g x) \<Longrightarrow> insert_due f j t ts = insert_due g j t ts"
  by (simp add: insert_due_def cong: takeWhile_cong dropWhile_cong)

lemma sorted_removeAll: "sorted (map f xs) \<Longrightarrow> sorted (map f (removeAll t xs))"
  using sorted_filter [of f xs "\<lambda>x. t \<noteq> x"] by (simp add: removeAll_filter_not_eq)

definition started :: "addr \<Rightarrow> u64 \<Rightarrow> bool \<Rightarrow> 'h \<Rightarrow> addr \<Rightarrow> ('h, 'a) tstore_scheme \<Rightarrow> 'h tmr" where
  "started t delay syncnow h arg s = \<lparr>tm_llock = h_lock s (h_tmrl s), tm_th = Some h, tm_arg = arg,
     tm_jfs = (if syncnow then tmr_jiffies s else tm_jfs (h_tmr s t)) + delay\<rparr>"

lemma tmr_startcont_spec:
  fixes s :: "('h, 'a) tstore_scheme" and h :: 'h and delay :: u64 and syncnow :: bool and arg :: addr
  assumes "tmrl_wf s l ts" and "t \<noteq> NULL" and "le_list (h_le s t) \<in> {NULL, l}"
  defines "r \<equiv> started t delay syncnow h arg s"
  shows "\<exists>s'. tmr_startcont t delay syncnow (Some h) arg s = Some s'
    \<and> tmrl_wf s' l (insert_due (jfs_of s) (tm_jfs r) t (removeAll t ts))
    \<and> h_tmr s' = (h_tmr s)(t := r) \<and> h_clock s' = h_clock s \<and> h_lock s' = h_lock s
    \<and> tstore.more s' = tstore.more s"
proof -
  note w = tmrl_wfD [OF assms(1)]
  define s1 where "s1 = (if tm_th (h_tmr s t) \<noteq> None then list_unlink t s else s)"
  note s1 = stopped_timer [OF assms(1-3), folded s1_def] and m1 = tstore_moreD [OF s1(3)]
  define s2 where "s2 = upd_tmr t (\<lambda>x. x\<lparr>tm_llock := h_lock s1 l, tm_th := Some h, tm_arg := arg\<rparr>) s1"
  define s3 where "s3 = (if syncnow then upd_tmr t (\<lambda>x. x\<lparr>tm_jfs := tmr_jiffies s2\<rparr>) s2 else s2)"
  define s4 where "s4 = upd_tmr t (\<lambda>x. x\<lparr>tm_jfs := tm_jfs x + delay\<rparr>) s3"
  have h4: "h_tmr s4 = (h_tmr s)(t := r)"
    using m1 w(2) by (simp add: s4_def s3_def s2_def r_def started_def fun_eq_iff)
  have e4: "h_le s4 = h_le s1" "h_list s4 = h_list s1" "h_clock s4 = h_clock s" "h_lock s4 = h_lock s" "h_tmrl s4 = l"
    using m1 w(2) by (simp_all add: s4_def s3_def s2_def)
  have more4: "tstore.more s4 = tstore.more s"
    using s1(3) by (cases s; cases s1) (simp add: s4_def s3_def s2_def upd_tmr_def)
  have jf: "x \<in> set (removeAll t ts) \<Longrightarrow> jfs_of s4 x = jfs_of s x" for x by (simp add: jfs_of_def h4)
  have l4: "is_list s4 l (removeAll t ts)" using s1(1) e4(1,2) by (simp add: is_list_def)
  have srt: "sorted (map (jfs_of s4) (removeAll t ts))"
    by (subst map_cong [OF refl jf]) (assumption, rule sorted_removeAll [OF w(4)])
  have d4: "x \<in> set (removeAll t ts) \<Longrightarrow> le_data (h_le s4 x) = x" for x using w(5) s1(4) e4(1) by simp
  have n4: "le_list (h_le s4 t) = NULL" using s1(2) e4(1) by simp
  have j4: "tm_jfs (h_tmr s4 t) = tm_jfs r" by (simp add: h4)
  have due: "insert_due (jfs_of s4) (tm_jfs r) t (removeAll t ts) = insert_due (jfs_of s) (tm_jfs r) t (removeAll t ts)"
    by (rule insert_due_cong) (rule jf)
  obtain s' where s': "tmr_startcont t delay syncnow (Some h) arg s = Some s'"
    "is_list s' l (insert_due (jfs_of s4) (tm_jfs r) t (removeAll t ts))" "lstore.more s' = lstore.more s4"
    "\<forall>x. le_data (h_le s' x) = (if x = t then t else le_data (h_le s4 x))"
  proof (cases "delay = 0")
    case True
    from insert_timer(1) [OF l4 assms(2) n4 d4 srt, of "tm_jfs r"] show ?thesis
      using that True assms(2) w(2,3) j4
      unfolding tmr_startcont_def Let_def s4_def s3_def s2_def s1_def by auto
  next
    case False
    from insert_timer(2) [OF l4 assms(2) n4 d4 srt, of "tm_jfs r"] show ?thesis
      using that False assms(2) w(2,3) j4
      unfolding tmr_startcont_def Let_def s4_def s3_def s2_def s1_def by auto
  qed
  note m' = tstore_moreD [OF s'(3)]
  have js: "jfs_of s' = jfs_of s4" by (simp add: jfs_of_def m'(1) fun_eq_iff)
  have "tmrl_wf s' l (insert_due (jfs_of s4) (tm_jfs r) t (removeAll t ts))"
    unfolding tmrl_wf_def js
    using s'(2,4) m' h4 e4 d4 w(6) sorted_insert_due [OF srt, of t "tm_jfs r"]
    by (auto simp: jfs_of_def r_def started_def)
  moreover have "tstore.more s' = tstore.more s" using s'(3) more4 by (cases s'; cases s4) simp
  ultimately show ?thesis using s'(1) m' h4 e4 due by auto
qed

lemma tmr_cancel_spec:
  assumes "tmrl_wf s l ts" and "t \<noteq> NULL" and "le_list (h_le s t) \<in> {NULL, l}"
  shows "\<exists>s'. tmr_cancel t s = Some s' \<and> tmrl_wf s' l (removeAll t ts)
    \<and> h_tmr s' = (h_tmr s)(t := (h_tmr s t)\<lparr>tm_llock := NULL\<rparr>) \<and> le_list (h_le s' t) = NULL"
proof -
  note w = tmrl_wfD [OF assms(1)]
  define s1 where "s1 = (if tm_th (h_tmr s t) \<noteq> None then list_unlink t s else s)"
  note s1 = stopped_timer [OF assms(1-3), folded s1_def] and m1 = tstore_moreD [OF s1(3)]
  let ?s = "upd_tmr t (\<lambda>x. x\<lparr>tm_llock := NULL\<rparr>) s1"
  have j: "jfs_of ?s = jfs_of s" by (simp add: jfs_of_def m1 fun_eq_iff)
  have "tmrl_wf ?s l (removeAll t ts)"
    unfolding tmrl_wf_def j using s1 m1 w sorted_removeAll [OF w(4), of t] by auto
  moreover have "tmr_cancel t s = Some ?s"
    using assms(2) w(2,3) by (simp add: tmr_cancel_def tmr_start_def tmr_startcont_def Let_def s1_def)
  ultimately show ?thesis using m1(1) s1(2) by auto
qed

section \<open>Polling\<close>

lemma detach_spec:
  assumes "tmrl_wf s l (t # ts)"
  shows "tmrl_wf (detach t s) l ts" "h_tmr (detach t s) = (h_tmr s)(t := (h_tmr s t)\<lparr>tm_th := None, tm_llock := NULL\<rparr>)"
    "h_clock (detach t s) = h_clock s" "le_list (h_le (detach t s) t) = NULL"
proof -
  note w = tmrl_wfD [OF assms]
  have u: "is_list (list_unlink t (upd_tmr t f s)) l ts" "le_list (h_le (list_unlink t (upd_tmr t f s)) t) = NULL" for f
    using is_list_unlink [of "upd_tmr t f s" l "[]" t ts] w(1) by simp_all
  show h: "h_tmr (detach t s) = (h_tmr s)(t := (h_tmr s t)\<lparr>tm_th := None, tm_llock := NULL\<rparr>)" by (simp add: detach_def)
  have j: "jfs_of (detach t s) = jfs_of s" by (simp add: jfs_of_def h fun_eq_iff)
  have "t \<notin> set ts" using is_listD(2) [OF w(1)] by simp
  then show "tmrl_wf (detach t s) l ts"
    unfolding tmrl_wf_def j using u(1) w(2,4,5,6) by (auto simp: detach_def)
  show "h_clock (detach t s) = h_clock s" "le_list (h_le (detach t s) t) = NULL" using u(2) by (simp_all add: detach_def)
qed

definition due :: "u64 \<Rightarrow> ('h, 'a) tstore_scheme \<Rightarrow> addr list \<Rightarrow> addr list" where
  "due now s ts = takeWhile (\<lambda>t. jfs_of s t \<le> now) ts"

lemma poll_head:
  assumes "tmrl_wf s l ts"
  shows "poll_loop call l now s = (case due now s ts of
      [] \<Rightarrow> Some s
    | t # _ \<Rightarrow> poll_loop call l now (call (the (tm_th (h_tmr s t))) (tm_arg (h_tmr s t)) (detach t s)))"
proof -
  note w = tmrl_wfD [OF assms]
  have hd: "list_ledata (l_head (h_list s l)) s = hd_or ts NULL"
    using is_listD(6) [OF w(1)] w(5,7) by (cases ts) (simp_all add: list_ledata_def)
  show ?thesis
  proof (cases ts)
    case Nil
    then show ?thesis using hd by (subst poll_loop.simps) (simp add: due_def Let_def)
  next
    case (Cons t ts')
    then obtain h where "tm_th (h_tmr s t) = Some h" "t \<noteq> NULL" using w(6,7) [of t] by auto
    then show ?thesis using hd Cons by (subst poll_loop.simps) (auto simp: due_def Let_def jfs_of_def not_le [symmetric])
  qed
qed

definition fire :: "('h \<Rightarrow> addr \<Rightarrow> ('h, 'a) tstore_scheme \<Rightarrow> ('h, 'a) tstore_scheme) \<Rightarrow> (addr \<Rightarrow> 'h tmr) \<Rightarrow> addr
    \<Rightarrow> ('h, 'a) tstore_scheme \<Rightarrow> ('h, 'a) tstore_scheme" where
  "fire call tm t s = call (the (tm_th (tm t))) (tm_arg (tm t)) (detach t s)"

lemma due_detach:
  assumes "tmrl_wf s l (t # ts)" and "jfs_of s t \<le> now"
  shows "due now s (t # ts) = t # due now (detach t s) ts"
proof -
  have "jfs_of (detach t s) = jfs_of s" using detach_spec(2) [OF assms(1)] by (simp add: jfs_of_def fun_eq_iff)
  then show ?thesis using assms(2) by (simp add: due_def)
qed

lemma due_ConsD: "due now s ts = t # rest \<Longrightarrow> \<exists>ts1. ts = t # ts1 \<and> jfs_of s t \<le> now"
  by (cases ts) (auto simp: due_def split: if_splits)

text \<open>
  The contract between the poll and the handlers it runs. For the poll to end, a handler must leave the list
  well formed and must not add to the timers that are already due; \<open>inv\<close> is what the handlers may rely on.
\<close>

locale timer_handlers =
  fixes call :: "'h \<Rightarrow> addr \<Rightarrow> ('h, 'a) tstore_scheme \<Rightarrow> ('h, 'a) tstore_scheme"
    and l :: addr and now :: u64 and inv :: "('h, 'a) tstore_scheme \<Rightarrow> bool"
  assumes settles: "inv s \<Longrightarrow> tmrl_wf s l (t # ts) \<Longrightarrow> jfs_of s t \<le> now \<Longrightarrow>
    \<exists>ts'. inv (fire call (h_tmr s) t s) \<and> tmrl_wf (fire call (h_tmr s) t s) l ts'
      \<and> length (due now (fire call (h_tmr s) t s) ts') \<le> length (due now (detach t s) ts)"
begin

lemma poll_returns:
  assumes "tmrl_wf s l ts" and "inv s"
  shows "\<exists>s' ts'. poll_loop call l now s = Some s' \<and> tmrl_wf s' l ts' \<and> due now s' ts' = [] \<and> inv s'"
  using assms
proof (induction "length (due now s ts)" arbitrary: s ts rule: less_induct)
  case less
  show ?case
  proof (cases "due now s ts")
    case Nil
    then show ?thesis using poll_head [OF less.prems(1), of call now] less.prems by auto
  next
    case (Cons t rest)
    then obtain ts1 where ts: "ts = t # ts1" "jfs_of s t \<le> now" using due_ConsD by blast
    define s1 where "s1 = fire call (h_tmr s) t s"
    obtain ts' where s1: "inv s1" "tmrl_wf s1 l ts'" "length (due now s1 ts') \<le> length (due now (detach t s) ts1)"
      using settles [OF less.prems(2), of t ts1] less.prems(1) ts unfolding s1_def by blast
    have "length (due now s1 ts') < length (due now s ts)" using s1(3) due_detach [of s l t ts1 now] less.prems(1) ts by simp
    from less.hyps [OF this s1(2,1)] show ?thesis
      using poll_head [OF less.prems(1), of call now] Cons by (simp add: s1_def fire_def)
  qed
qed

end

text \<open>When the handlers leave the other due timers as they are, the poll runs exactly the due timers, in order.\<close>

locale own_timer_handlers =
  fixes call :: "'h \<Rightarrow> addr \<Rightarrow> ('h, 'a) tstore_scheme \<Rightarrow> ('h, 'a) tstore_scheme"
    and l :: addr and now :: u64 and inv :: "('h, 'a) tstore_scheme \<Rightarrow> bool"
  assumes own: "inv s \<Longrightarrow> tmrl_wf s l (t # ts) \<Longrightarrow> jfs_of s t \<le> now \<Longrightarrow>
    \<exists>ts'. inv (fire call (h_tmr s) t s) \<and> tmrl_wf (fire call (h_tmr s) t s) l ts'
      \<and> due now (fire call (h_tmr s) t s) ts' = due now (detach t s) ts
      \<and> (\<forall>x\<in>set (due now (detach t s) ts). h_tmr (fire call (h_tmr s) t s) x = h_tmr s x)"

sublocale own_timer_handlers \<subseteq> timer_handlers
proof unfold_locales
  fix s t ts
  assume "inv s" "tmrl_wf s l (t # ts)" "jfs_of s t \<le> now"
  from own [OF this] show "\<exists>ts'. inv (fire call (h_tmr s) t s) \<and> tmrl_wf (fire call (h_tmr s) t s) l ts'
      \<and> length (due now (fire call (h_tmr s) t s) ts') \<le> length (due now (detach t s) ts)" by auto
qed

context own_timer_handlers
begin

lemma poll_fires:
  assumes "tmrl_wf s l ts" and "inv s" and "\<And>t. t \<in> set (due now s ts) \<Longrightarrow> h_tmr s t = tm t"
  shows "poll_loop call l now s = Some (fold (fire call tm) (due now s ts) s)"
  using assms
proof (induction "due now s ts" arbitrary: s ts)
  case Nil
  then show ?case using poll_head [OF Nil.prems(1), of call now] by simp
next
  case (Cons t rest)
  then obtain ts1 where ts: "ts = t # ts1" "jfs_of s t \<le> now" using due_ConsD by metis
  have r: "due now (detach t s) ts1 = rest" using Cons(2) due_detach [of s l t ts1 now] Cons.prems(1) ts by simp
  define s1 where "s1 = fire call tm t s"
  have "h_tmr s t = tm t" using Cons.prems(3) by (simp flip: Cons(2))
  then have c: "s1 = fire call (h_tmr s) t s" by (simp add: s1_def fire_def)
  obtain ts' where s1: "inv s1" "tmrl_wf s1 l ts'" "due now s1 ts' = rest" "\<forall>x\<in>set rest. h_tmr s1 x = h_tmr s x"
    using own [OF Cons.prems(2), of t ts1] Cons.prems(1) ts r unfolding c by blast
  have "h_tmr s1 x = tm x" if "x \<in> set (due now s1 ts')" for x
    using s1(3,4) that Cons.prems(3) by (simp flip: Cons(2))
  with Cons.hyps(1) [OF s1(3) [symmetric] s1(2,1)] s1(3)
  have "poll_loop call l now s1 = Some (fold (fire call tm) rest s1)" by simp
  moreover have "poll_loop call l now s = poll_loop call l now s1"
    using poll_head [OF Cons.prems(1), of call now, folded Cons(2)] by (simp add: c fire_def)
  ultimately show ?case by (simp add: s1_def flip: Cons(2))
qed

end

section \<open>The program's kinds of handlers\<close>

text \<open>
  The media timers of the RTSP server and of calls begin by restarting themselves with a fixed delay
  (\<open>Periodic\<close>); the session and reconnection timers run once (\<open>OneShot\<close>).
\<close>

datatype handler = OneShot | Periodic addr u64

definition call_handler :: "handler \<Rightarrow> addr \<Rightarrow> (handler, 'a) tstore_scheme \<Rightarrow> (handler, 'a) tstore_scheme" where
  "call_handler h arg s = (case h of
      OneShot \<Rightarrow> s
    | Periodic t d \<Rightarrow> (case tmr_start t d (Some h) arg s of None \<Rightarrow> s | Some s' \<Rightarrow> s'))"

text \<open>A periodic handler restarts the timer it runs on, with a delay that is neither zero nor overflows the clock.\<close>

definition handlers_ok :: "u64 \<Rightarrow> (handler, 'a) tstore_scheme \<Rightarrow> bool" where
  "handlers_ok now s \<longleftrightarrow> now \<le> tmr_jiffies s
    \<and> (\<forall>t t' d. tm_th (h_tmr s t) = Some (Periodic t' d) \<longrightarrow> t' = t \<and> tmr_jiffies s < tmr_jiffies s + d)"

lemma due_insert_later:
  assumes "\<And>x. x \<in> set ts \<Longrightarrow> g x = jfs_of s' x" and "jfs_of s' t = j" and "now < j" and "t \<notin> set ts"
    and "sorted (map g ts)"
  shows "due now s' (insert_due g j t ts) = takeWhile (\<lambda>x. g x \<le> now) ts"
  using assms(1,4,5)
proof (induction ts)
  case Nil
  then show ?case using assms(2,3) by (simp add: insert_due_def due_def)
next
  case (Cons x xs)
  have x: "jfs_of s' x = g x" using Cons.prems(1) [of x] by simp
  show ?case
  proof (cases "g x \<le> now")
    case True
    then have "g x \<le> j" by (rule order_trans) (rule less_imp_le [OF assms(3)])
    moreover have "due now s' (insert_due g j t xs) = takeWhile (\<lambda>x. g x \<le> now) xs"
      using Cons.IH Cons.prems by auto
    ultimately show ?thesis using x True by (simp add: insert_due_def due_def)
  next
    case False
    have "\<not> j \<le> now" using assms(3) by (simp add: not_le)
    then show ?thesis using False x assms(2) by (simp add: insert_due_def due_def)
  qed
qed

lemma jiffies_clock: "h_clock s' = h_clock s \<Longrightarrow> tmr_jiffies s' = tmr_jiffies s"
  by (simp add: tmr_jiffies_def tmr_jiffies_usec_def)

lemma periodic_restart:
  fixes s :: "(handler, 'a) tstore_scheme"
  assumes "handlers_ok now s" and "tmrl_wf s l (t # ts)" and "tm_th (h_tmr s t) = Some (Periodic t d)"
  shows "\<exists>ts'. handlers_ok now (fire call_handler (h_tmr s) t s) \<and> tmrl_wf (fire call_handler (h_tmr s) t s) l ts'
      \<and> due now (fire call_handler (h_tmr s) t s) ts' = due now (detach t s) ts
      \<and> (\<forall>x\<in>set (due now (detach t s) ts). h_tmr (fire call_handler (h_tmr s) t s) x = h_tmr s x)"
proof -
  let ?s = "detach t s" and ?h = "Periodic t d" and ?a = "tm_arg (h_tmr s t)"
  note d = detach_spec [OF assms(2)] and w = tmrl_wfD [OF assms(2)]
  have jc: "tmr_jiffies ?s = tmr_jiffies s" by (rule jiffies_clock [OF d(3)])
  have t: "t \<notin> set ts" "t \<noteq> NULL" using is_listD(2) [OF w(1)] w(7) [of t] by auto
  define r where "r = started t d True ?h ?a ?s"
  obtain s' where s': "tmr_start t d (Some ?h) ?a ?s = Some s'" "tmrl_wf s' l (insert_due (jfs_of ?s) (tm_jfs r) t (removeAll t ts))"
    "h_tmr s' = (h_tmr ?s)(t := r)" "h_clock s' = h_clock ?s"
    using tmr_startcont_spec [OF d(1) t(2), of d True ?h ?a] d(4) unfolding tmr_start_def r_def by auto
  have f: "fire call_handler (h_tmr s) t s = s'" using assms(3) s'(1) by (simp add: fire_def call_handler_def)
  have js: "tmr_jiffies s' = tmr_jiffies s" using jiffies_clock [OF s'(4)] jc by simp
  have jr: "tm_jfs r = tmr_jiffies s + d" by (simp add: r_def started_def jc)
  have lt: "tmr_jiffies s < tmr_jiffies s + d" and le: "now \<le> tmr_jiffies s" using assms(1,3) unfolding handlers_ok_def by auto
  have "handlers_ok now s'"
    unfolding handlers_ok_def js s'(3) d(2)
    using assms(1,3) by (auto simp: handlers_ok_def r_def started_def)
  moreover have "due now s' (insert_due (jfs_of ?s) (tm_jfs r) t ts) = due now ?s ts"
    unfolding due_def [of now ?s]
  proof (rule due_insert_later)
    show "jfs_of ?s x = jfs_of s' x" if "x \<in> set ts" for x using s'(3) t(1) that by (auto simp: jfs_of_def)
    show "jfs_of s' t = tm_jfs r" by (simp add: s'(3) jfs_of_def)
    show "now < tm_jfs r" unfolding jr by (rule le_less_trans [OF le lt])
    show "t \<notin> set ts" by (rule t(1))
    show "sorted (map (jfs_of ?s) ts)" by (rule tmrl_wfD(4) [OF d(1)])
  qed
  moreover have "h_tmr s' x = h_tmr s x" if "x \<in> set (due now ?s ts)" for x
  proof -
    have "x \<noteq> t" using that t(1) by (auto simp: due_def dest: set_takeWhileD)
    then show ?thesis by (simp add: s'(3) d(2))
  qed
  ultimately show ?thesis unfolding f using s'(2) t(1) by auto
qed

lemma one_shot:
  fixes s :: "(handler, 'a) tstore_scheme"
  assumes "handlers_ok now s" and "tmrl_wf s l (t # ts)" and "tm_th (h_tmr s t) = Some OneShot"
  shows "\<exists>ts'. handlers_ok now (fire call_handler (h_tmr s) t s) \<and> tmrl_wf (fire call_handler (h_tmr s) t s) l ts'
      \<and> due now (fire call_handler (h_tmr s) t s) ts' = due now (detach t s) ts
      \<and> (\<forall>x\<in>set (due now (detach t s) ts). h_tmr (fire call_handler (h_tmr s) t s) x = h_tmr s x)"
proof -
  note d = detach_spec [OF assms(2)]
  have f: "fire call_handler (h_tmr s) t s = detach t s" using assms(3) by (simp add: fire_def call_handler_def)
  have "t \<notin> set ts" using is_listD(2) [OF tmrl_wfD(1) [OF assms(2)]] by simp
  then have "\<forall>x\<in>set (due now (detach t s) ts). h_tmr (detach t s) x = h_tmr s x"
    by (auto simp: d(2) due_def dest: set_takeWhileD)
  moreover have "handlers_ok now (detach t s)"
    using assms(1) unfolding handlers_ok_def jiffies_clock [OF d(3)] d(2) by auto
  ultimately show ?thesis unfolding f using d(1) by blast
qed

interpretation periodic: own_timer_handlers call_handler l now "handlers_ok now"
proof unfold_locales
  fix s :: "(handler, 'a) tstore_scheme" and t ts
  assume a: "handlers_ok now s" "tmrl_wf s l (t # ts)" "jfs_of s t \<le> now"
  obtain h where h: "tm_th (h_tmr s t) = Some h" using tmrl_wfD(6) [OF a(2), of t] by auto
  show "\<exists>ts'. handlers_ok now (fire call_handler (h_tmr s) t s) \<and> tmrl_wf (fire call_handler (h_tmr s) t s) l ts'
      \<and> due now (fire call_handler (h_tmr s) t s) ts' = due now (detach t s) ts
      \<and> (\<forall>x\<in>set (due now (detach t s) ts). h_tmr (fire call_handler (h_tmr s) t s) x = h_tmr s x)"
  proof (cases h)
    case OneShot
    with one_shot [OF a(1,2)] h show ?thesis by simp
  next
    case (Periodic t' d)
    moreover have "t' = t" using a(1) h Periodic unfolding handlers_ok_def by blast
    ultimately show ?thesis using periodic_restart [OF a(1,2), of d] h by simp
  qed
qed


definition example_timers :: "handler tstore" where
  "example_timers = \<lparr>h_le = \<lambda>_. LE_INIT, h_list = \<lambda>_. LIST_INIT,
     h_tmr = \<lambda>_. \<lparr>tm_llock = NULL, tm_th = None, tm_arg = NULL, tm_jfs = 0\<rparr>, h_tmrl = 1, h_lock = \<lambda>_. 9,
     h_clock = Some (100, 0)\<rparr>"

lemma example_timers_wf: "tmrl_wf example_timers 1 []" "le_list (h_le example_timers t) = NULL"
  "tmr_jiffies example_timers = 100000"
  by (simp_all add: tmrl_wf_def is_list_def example_timers_def LE_INIT_def LIST_INIT_def tmr_jiffies_def tmr_jiffies_usec_def)

lemma tmrl_wf_clock [simp]: "tmrl_wf (s\<lparr>h_clock := c\<rparr>) l ts = tmrl_wf s l ts"
  by (simp add: tmrl_wf_def is_list_def jfs_of_def cong: map_cong)

lemma example_started:
  "\<exists>s'. tmr_start 16 20 (Some (Periodic 16 20)) NULL example_timers = Some s' \<and> tmrl_wf s' 1 [16]
    \<and> h_tmr s' = (h_tmr example_timers)(16 := \<lparr>tm_llock = 9, tm_th = Some (Periodic 16 20), tm_arg = NULL, tm_jfs = 100020\<rparr>)"
  using tmr_startcont_spec [OF example_timers_wf(1), of 16 20 True "Periodic 16 20" NULL] example_timers_wf(2,3)
  by (auto simp: tmr_start_def started_def insert_due_def) (simp_all add: example_timers_def)


text \<open>
  starting a timer, whether it runs or not, takes it out of the list and puts it back behind all timers
  that are due no later and before all others; the search from the head (delay 0) and the search from the tail
  find the same place, and the list stays sorted by deadline.
\<close>

lemma tmr_start_ordered:
  assumes "tmrl_wf s l ts" and "t \<noteq> NULL" and "le_list (h_le s t) \<in> {NULL, l}"
  shows "\<exists>s'. tmr_start t delay (Some h) arg s = Some s'
    \<and> tmrl_wf s' l (takeWhile (\<lambda>x. jfs_of s x \<le> tmr_jiffies s + delay) (removeAll t ts)
        @ t # dropWhile (\<lambda>x. jfs_of s x \<le> tmr_jiffies s + delay) (removeAll t ts))
    \<and> jfs_of s' t = tmr_jiffies s + delay \<and> (\<forall>x. x \<noteq> t \<longrightarrow> h_tmr s' x = h_tmr s x)"
  using tmr_startcont_spec [OF assms, of delay True h arg]
  by (auto simp: tmr_start_def started_def insert_due_def jfs_of_def)

lemma tmr_start_ordered_witness:
  "\<exists>s'. tmr_start 16 0 (Some OneShot) NULL example_timers = Some s' \<and> tmrl_wf s' 1 [16] \<and> jfs_of s' 16 = 100000"
  using tmr_start_ordered [OF example_timers_wf(1), of 16 0 OneShot NULL] example_timers_wf(2,3) by auto

text \<open>
  the time the event loop sleeps is exact: it waits without limit only when there is no timer; after sleeping
  for the time it was given at least one timer is due; and if none was due before, none becomes due earlier.
\<close>

lemma tmr_sleep_exact:
  assumes "tmrl_wf s l ts"
  shows "(tmr_next_timeout l s = 0 \<longleftrightarrow> ts = [])
    \<and> (ts \<noteq> [] \<longrightarrow> unat (tmr_jiffies s) + unat (tmr_next_timeout l s) \<le> unat later \<longrightarrow> due later s ts \<noteq> [])
    \<and> (due (tmr_jiffies s) s ts = [] \<longrightarrow> unat later < unat (tmr_jiffies s) + unat (tmr_next_timeout l s) \<longrightarrow> due later s ts = [])"
proof (intro conjI impI)
  note w = tmrl_wfD [OF assms(1)]
  have e: "list_ledata (l_head (h_list s l)) s = hd_or ts NULL"
    using is_listD(6) [OF w(1)] w(5,7) by (cases ts) (simp_all add: list_ledata_def)
  have nt: "tmr_next_timeout l s = (case ts of [] \<Rightarrow> 0
      | t # _ \<Rightarrow> if jfs_of s t \<le> tmr_jiffies s then 1 else jfs_of s t - tmr_jiffies s)"
    using w(3,7) by (cases ts) (simp_all add: tmr_next_timeout_def e Let_def jfs_of_def)
  have d: "due n s (t # ts') = [] \<longleftrightarrow> \<not> jfs_of s t \<le> n" for n t ts' by (simp add: due_def)
  have sub: "unat (a - b) = unat a - unat b" if "\<not> a \<le> b" for a b :: u64 using that by (simp add: unat_sub)
  show "tmr_next_timeout l s = 0 \<longleftrightarrow> ts = []" by (auto simp: nt split: list.split)
  show "due later s ts \<noteq> []" if "ts \<noteq> []" "unat (tmr_jiffies s) + unat (tmr_next_timeout l s) \<le> unat later"
    using that by (cases ts) (auto simp: nt d sub word_le_nat_alt split: if_splits)
  show "due later s ts = []" if "due (tmr_jiffies s) s ts = []" "unat later < unat (tmr_jiffies s) + unat (tmr_next_timeout l s)"
    using that by (cases ts) (auto simp: nt d sub word_le_nat_alt due_def split: if_splits)
qed

lemma tmr_sleep_exact_witness:
  "\<exists>s. tmrl_wf (s :: handler tstore) 1 [16] \<and> tmr_next_timeout 1 s \<noteq> 0"
proof -
  obtain s' :: "handler tstore" where "tmrl_wf s' 1 [16]" using example_started by blast
  with tmr_sleep_exact [OF this] show ?thesis by auto
qed

text \<open>
  Cancelling a timer takes it off the list, so its handler does not run any more, but does not clear the
  handler: \<open>tmr_isrunning\<close> still answers true.
\<close>

lemma tmr_cancel_still_running:
  assumes "tmrl_wf s l ts" and "t \<in> set ts"
  shows "\<exists>s'. tmr_cancel t s = Some s' \<and> tmrl_wf s' l (removeAll t ts) \<and> tmr_isrunning t s'"
proof -
  note w = tmrl_wfD [OF assms(1)]
  have "le_list (h_le s t) \<in> {NULL, l}" using chain_list [OF is_listD(4) [OF w(1)] assms(2)] by simp
  from tmr_cancel_spec [OF assms(1) w(7) [OF assms(2)] this] show ?thesis
    using w(6,7) [OF assms(2)] by (auto simp: tmr_isrunning_def)
qed

end
