(* ===== verification/Crc32.thy ===== *)
theory Crc32
  imports Prelude
begin

text \<open>
  The checksum of the STUN fingerprint (\<open>crc32.c\<close>): the table of 256 feedback terms and the loop over the bytes of
  a buffer, as the library has them when it is built without zlib. The reference is the shift register the
  comment of the file describes: one bit at a time, with the polynomial \<open>0xedb88320\<close>.
\<close>

definition crc32_tab :: "u32 list" where
  "crc32_tab = [
     0x00000000, 0x77073096, 0xee0e612c, 0x990951ba, 0x076dc419, 0x706af48f, 0xe963a535, 0x9e6495a3,
     0x0edb8832, 0x79dcb8a4, 0xe0d5e91e, 0x97d2d988, 0x09b64c2b, 0x7eb17cbd, 0xe7b82d07, 0x90bf1d91,
     0x1db71064, 0x6ab020f2, 0xf3b97148, 0x84be41de, 0x1adad47d, 0x6ddde4eb, 0xf4d4b551, 0x83d385c7,
     0x136c9856, 0x646ba8c0, 0xfd62f97a, 0x8a65c9ec, 0x14015c4f, 0x63066cd9, 0xfa0f3d63, 0x8d080df5,
     0x3b6e20c8, 0x4c69105e, 0xd56041e4, 0xa2677172, 0x3c03e4d1, 0x4b04d447, 0xd20d85fd, 0xa50ab56b,
     0x35b5a8fa, 0x42b2986c, 0xdbbbc9d6, 0xacbcf940, 0x32d86ce3, 0x45df5c75, 0xdcd60dcf, 0xabd13d59,
     0x26d930ac, 0x51de003a, 0xc8d75180, 0xbfd06116, 0x21b4f4b5, 0x56b3c423, 0xcfba9599, 0xb8bda50f,
     0x2802b89e, 0x5f058808, 0xc60cd9b2, 0xb10be924, 0x2f6f7c87, 0x58684c11, 0xc1611dab, 0xb6662d3d,
     0x76dc4190, 0x01db7106, 0x98d220bc, 0xefd5102a, 0x71b18589, 0x06b6b51f, 0x9fbfe4a5, 0xe8b8d433,
     0x7807c9a2, 0x0f00f934, 0x9609a88e, 0xe10e9818, 0x7f6a0dbb, 0x086d3d2d, 0x91646c97, 0xe6635c01,
     0x6b6b51f4, 0x1c6c6162, 0x856530d8, 0xf262004e, 0x6c0695ed, 0x1b01a57b, 0x8208f4c1, 0xf50fc457,
     0x65b0d9c6, 0x12b7e950, 0x8bbeb8ea, 0xfcb9887c, 0x62dd1ddf, 0x15da2d49, 0x8cd37cf3, 0xfbd44c65,
     0x4db26158, 0x3ab551ce, 0xa3bc0074, 0xd4bb30e2, 0x4adfa541, 0x3dd895d7, 0xa4d1c46d, 0xd3d6f4fb,
     0x4369e96a, 0x346ed9fc, 0xad678846, 0xda60b8d0, 0x44042d73, 0x33031de5, 0xaa0a4c5f, 0xdd0d7cc9,
     0x5005713c, 0x270241aa, 0xbe0b1010, 0xc90c2086, 0x5768b525, 0x206f85b3, 0xb966d409, 0xce61e49f,
     0x5edef90e, 0x29d9c998, 0xb0d09822, 0xc7d7a8b4, 0x59b33d17, 0x2eb40d81, 0xb7bd5c3b, 0xc0ba6cad,
     0xedb88320, 0x9abfb3b6, 0x03b6e20c, 0x74b1d29a, 0xead54739, 0x9dd277af, 0x04db2615, 0x73dc1683,
     0xe3630b12, 0x94643b84, 0x0d6d6a3e, 0x7a6a5aa8, 0xe40ecf0b, 0x9309ff9d, 0x0a00ae27, 0x7d079eb1,
     0xf00f9344, 0x8708a3d2, 0x1e01f268, 0x6906c2fe, 0xf762575d, 0x806567cb, 0x196c3671, 0x6e6b06e7,
     0xfed41b76, 0x89d32be0, 0x10da7a5a, 0x67dd4acc, 0xf9b9df6f, 0x8ebeeff9, 0x17b7be43, 0x60b08ed5,
     0xd6d6a3e8, 0xa1d1937e, 0x38d8c2c4, 0x4fdff252, 0xd1bb67f1, 0xa6bc5767, 0x3fb506dd, 0x48b2364b,
     0xd80d2bda, 0xaf0a1b4c, 0x36034af6, 0x41047a60, 0xdf60efc3, 0xa867df55, 0x316e8eef, 0x4669be79,
     0xcb61b38c, 0xbc66831a, 0x256fd2a0, 0x5268e236, 0xcc0c7795, 0xbb0b4703, 0x220216b9, 0x5505262f,
     0xc5ba3bbe, 0xb2bd0b28, 0x2bb45a92, 0x5cb36a04, 0xc2d7ffa7, 0xb5d0cf31, 0x2cd99e8b, 0x5bdeae1d,
     0x9b64c2b0, 0xec63f226, 0x756aa39c, 0x026d930a, 0x9c0906a9, 0xeb0e363f, 0x72076785, 0x05005713,
     0x95bf4a82, 0xe2b87a14, 0x7bb12bae, 0x0cb61b38, 0x92d28e9b, 0xe5d5be0d, 0x7cdcefb7, 0x0bdbdf21,
     0x86d3d2d4, 0xf1d4e242, 0x68ddb3f8, 0x1fda836e, 0x81be16cd, 0xf6b9265b, 0x6fb077e1, 0x18b74777,
     0x88085ae6, 0xff0f6a70, 0x66063bca, 0x11010b5c, 0x8f659eff, 0xf862ae69, 0x616bffd3, 0x166ccf45,
     0xa00ae278, 0xd70dd2ee, 0x4e048354, 0x3903b3c2, 0xa7672661, 0xd06016f7, 0x4969474d, 0x3e6e77db,
     0xaed16a4a, 0xd9d65adc, 0x40df0b66, 0x37d83bf0, 0xa9bcae53, 0xdebb9ec5, 0x47b2cf7f, 0x30b5ffe9,
     0xbdbdf21c, 0xcabac28a, 0x53b39330, 0x24b4a3a6, 0xbad03605, 0xcdd70693, 0x54de5729, 0x23d967bf,
     0xb3667a2e, 0xc4614ab8, 0x5d681b02, 0x2a6f2b94, 0xb40bbe37, 0xc30c8ea1, 0x5a05df1b, 0x2d02ef8d]"

fun crc32_loop :: "u32 \<Rightarrow> bytes \<Rightarrow> u32" where
  "crc32_loop crc [] = crc"
| "crc32_loop crc (b # bs) = crc32_loop (crc32_tab ! unat ((crc XOR ucast b) AND 0xFF) XOR drop_bit 8 crc) bs"

definition re_crc32 :: "u32 \<Rightarrow> bytes \<Rightarrow> u32" where
  "re_crc32 crc buf = crc32_loop (NOT crc) buf XOR NOT 0"

section \<open>The shift register\<close>

definition crc_bit :: "u32 \<Rightarrow> u32" where
  "crc_bit c = (if bit c 0 then drop_bit 1 c XOR 0xEDB88320 else drop_bit 1 c)"

definition crc_byte :: "u32 \<Rightarrow> u8 \<Rightarrow> u32" where
  "crc_byte c b = (crc_bit ^^ 8) (c XOR ucast b)"

lemma crc_bit_xor: "crc_bit (x XOR y) = crc_bit x XOR crc_bit y"
  by (rule bit_word_eqI) (auto simp: crc_bit_def bit_simps)

lemma crc_bits_xor: "(crc_bit ^^ n) (x XOR y) = (crc_bit ^^ n) x XOR (crc_bit ^^ n) y"
  by (induction n) (simp_all add: crc_bit_xor)

text \<open>Zero bits only shift.\<close>

lemma crc_bits_shift:
  assumes "\<And>i. i < n \<Longrightarrow> \<not> bit x i"
  shows "(crc_bit ^^ n) x = drop_bit n x"
  using assms
proof (induction n)
  case (Suc n)
  then have "(crc_bit ^^ n) x = drop_bit n x" "\<not> bit x n" by simp_all
  then show ?case by (simp add: crc_bit_def [of "drop_bit n x"] bit_simps)
qed simp

text \<open>The table holds eight steps of the register for every byte.\<close>

lemma crc_bit_numeral:
  "crc_bit (numeral k) = (if odd (numeral k :: u32) then drop_bit 1 (numeral k) XOR 0xEDB88320 else drop_bit 1 (numeral k))"
  "crc_bit 0 = 0" "crc_bit 1 = 0xEDB88320"
  by (simp_all add: crc_bit_def bit_0)

lemma crc_bits_8: "(crc_bit ^^ 8) c = crc_bit (crc_bit (crc_bit (crc_bit (crc_bit (crc_bit (crc_bit (crc_bit c)))))))"
  by (simp add: numeral_eq_Suc)

lemma upt_0_32: "[0..<32] = 0 # 1 # [2..<32]"
  by (simp add: upt_conv_Cons)

lemma crc32_tab_entries:
  "map (\<lambda>i. (crc_bit ^^ 8) (word_of_nat i)) [0..<32] = take 32 crc32_tab"
  "map (\<lambda>i. (crc_bit ^^ 8) (word_of_nat i)) [32..<64] = take 32 (drop 32 crc32_tab)"
  "map (\<lambda>i. (crc_bit ^^ 8) (word_of_nat i)) [64..<96] = take 32 (drop 64 crc32_tab)"
  "map (\<lambda>i. (crc_bit ^^ 8) (word_of_nat i)) [96..<128] = take 32 (drop 96 crc32_tab)"
  "map (\<lambda>i. (crc_bit ^^ 8) (word_of_nat i)) [128..<160] = take 32 (drop 128 crc32_tab)"
  "map (\<lambda>i. (crc_bit ^^ 8) (word_of_nat i)) [160..<192] = take 32 (drop 160 crc32_tab)"
  "map (\<lambda>i. (crc_bit ^^ 8) (word_of_nat i)) [192..<224] = take 32 (drop 192 crc32_tab)"
  "map (\<lambda>i. (crc_bit ^^ 8) (word_of_nat i)) [224..<256] = take 32 (drop 224 crc32_tab)"
  unfolding crc_bits_8 crc32_tab_def by (simp_all add: crc_bit_numeral upt_0_32)

lemma crc32_tab_word:
  assumes "i < 256"
  shows "crc32_tab ! i = (crc_bit ^^ 8) (word_of_nat i)"
proof -
  have len: "length crc32_tab = 256" by (simp add: crc32_tab_def)
  have part: "crc32_tab ! i = (crc_bit ^^ 8) (word_of_nat i)"
    if "map (\<lambda>i. (crc_bit ^^ 8) (word_of_nat i)) [k..<k + 32] = take 32 (drop k crc32_tab)" "k \<le> i" "i < k + 32" for k
  proof -
    have "take 32 (drop k crc32_tab) ! (i - k) = crc32_tab ! i" using that(2,3) assms len by simp
    moreover have "map (\<lambda>i. (crc_bit ^^ 8) (word_of_nat i) :: u32) [k..<k + 32] ! (i - k) = (crc_bit ^^ 8) (word_of_nat i)"
      using that(2,3) nth_upt [of k "i - k" "k + 32"] by simp
    ultimately show ?thesis using that(1) by simp
  qed
  consider "i < 32" | "32 \<le> i" "i < 64" | "64 \<le> i" "i < 96" | "96 \<le> i" "i < 128" | "128 \<le> i" "i < 160"
    | "160 \<le> i" "i < 192" | "192 \<le> i" "i < 224" | "224 \<le> i" using assms by linarith
  then show ?thesis
    using part [of 0] part [of 32] part [of 64] part [of 96] part [of 128] part [of 160] part [of 192] part [of 224]
      crc32_tab_entries assms by cases simp_all
qed

lemma crc32_tab_nth:
  assumes "x AND 0xFF = x"
  shows "crc32_tab ! unat x = (crc_bit ^^ 8) x"
proof -
  have "unat (x AND 0xFF) < 256"
    by (rule le_less_trans [OF word_le_nat_alt [THEN iffD1, OF word_and_le1]]) simp
  then show ?thesis using assms crc32_tab_word [of "unat x"] by simp
qed

lemma crc_table_step: "crc32_tab ! unat ((c XOR ucast b) AND 0xFF) XOR drop_bit 8 c = crc_byte c b"
proof -
  let ?x = "c XOR ucast b"
  have m: "0xFF = (mask 8 :: u32)" by (simp add: mask_eq_exp_minus_1)
  have x: "?x = (?x AND 0xFF) XOR (?x AND NOT 0xFF)"
    by (rule bit_word_eqI) (auto simp: bit_simps)
  have lo: "\<not> bit (?x AND NOT 0xFF) i" if "i < 8" for i
    using that unfolding m by (simp add: bit_simps)
  have hi: "drop_bit 8 (?x AND NOT 0xFF) = drop_bit 8 c"
    unfolding m by (rule bit_word_eqI) (auto simp: bit_simps dest: bit_imp_le_length)
  have "crc_byte c b = (crc_bit ^^ 8) (?x AND 0xFF) XOR (crc_bit ^^ 8) (?x AND NOT 0xFF)"
    unfolding crc_byte_def by (subst x) (rule crc_bits_xor)
  also have "(crc_bit ^^ 8) (?x AND NOT 0xFF) = drop_bit 8 c" using crc_bits_shift [of 8, OF lo] hi by simp
  also have "(crc_bit ^^ 8) (?x AND 0xFF) = crc32_tab ! unat (?x AND 0xFF)"
    by (rule crc32_tab_nth [symmetric]) (simp add: and.assoc)
  finally show ?thesis by simp
qed

lemma crc32_loop_bytes: "crc32_loop crc bs = foldl crc_byte crc bs"
  by (induction bs arbitrary: crc) (simp_all add: crc_table_step)

section \<open>Results\<close>

lemma bit_crc_bit_31: "bit (crc_bit x) 31 \<longleftrightarrow> bit x 0"
proof -
  have "bit (0xEDB88320 :: u32) 31" by simp
  moreover have "\<not> bit x 32" using bit_imp_le_length [of x 32] by auto
  ultimately show ?thesis by (simp add: crc_bit_def bit_simps)
qed

lemma inj_crc_bit: "inj crc_bit"
proof (rule injI)
  fix x y :: u32
  assume e: "crc_bit x = crc_bit y"
  then have z: "bit x 0 = bit y 0" using bit_crc_bit_31 by metis
  have "drop_bit 1 x = drop_bit 1 y"
  proof (cases "bit x 0")
    case True
    then have "drop_bit 1 x XOR 0xEDB88320 = drop_bit 1 y XOR 0xEDB88320" using e z by (simp add: crc_bit_def)
    then have "(drop_bit 1 x XOR 0xEDB88320) XOR 0xEDB88320 = (drop_bit 1 y XOR 0xEDB88320) XOR 0xEDB88320" by simp
    then show ?thesis by (simp add: xor.assoc)
  next
    case False
    then show ?thesis using e z by (simp add: crc_bit_def)
  qed
  then have "bit x (Suc n) = bit y (Suc n)" for n by (metis bit_drop_bit_eq comp_apply plus_1_eq_Suc)
  then show "x = y" using z by (intro bit_word_eqI) (metis not0_implies_Suc)
qed

lemma crc_byte_inj: "crc_byte c b = crc_byte c' b \<Longrightarrow> c = c'" "crc_byte c b = crc_byte c b' \<Longrightarrow> b = b'"
proof -
  have i: "(crc_bit ^^ 8) x = (crc_bit ^^ 8) y \<Longrightarrow> x = y" for x y
    using inj_fn [OF inj_crc_bit, of 8] by (rule injD)
  have x: "a XOR b = a XOR c \<Longrightarrow> b = c" for a b c :: u32 by (metis xor.assoc xor_self_eq xor.left_neutral)
  show "crc_byte c b = crc_byte c' b \<Longrightarrow> c = c'"
    unfolding crc_byte_def using i [of "c XOR ucast b" "c' XOR ucast b"] x by (metis xor.commute)
  assume "crc_byte c b = crc_byte c b'"
  then have "(ucast b :: u32) = ucast b'" unfolding crc_byte_def using i x by blast
  then have "(ucast (ucast b :: u32) :: u8) = ucast (ucast b' :: u32)" by simp
  moreover have "ucast (ucast x :: u32) = x" for x :: u8 by (rule ucast_up_ucast_id) (simp add: is_up)
  ultimately show "b = b'" by simp
qed

lemma crc_bytes_inj: "foldl crc_byte c bs = foldl crc_byte c' bs \<Longrightarrow> c = c'"
  by (induction bs arbitrary: c c') (auto dest: crc_byte_inj(1))

lemma re_crc32_bytes: "re_crc32 crc buf = NOT (foldl crc_byte (NOT crc) buf)"
  by (simp add: re_crc32_def crc32_loop_bytes)

text \<open>
  C39: the table-driven checksum is the CRC-32 of the bytes: it equals the shift register fed with one bit after
  the other; a buffer can be checked in pieces, the checksum of one being the start value of the next; and two
  buffers that differ in a single byte never have the same checksum.
\<close>

theorem re_crc32_correct:
  "re_crc32 crc buf = NOT (foldl (\<lambda>c b. (crc_bit ^^ 8) (c XOR ucast b)) (NOT crc) buf)
   \<and> re_crc32 (re_crc32 crc xs) ys = re_crc32 crc (xs @ ys)
   \<and> (re_crc32 crc (xs @ [b] @ ys) = re_crc32 crc (xs @ [b'] @ ys) \<longleftrightarrow> b = b')"
proof (intro conjI)
  have "(\<lambda>c b. (crc_bit ^^ 8) (c XOR ucast b)) = crc_byte" by (simp add: fun_eq_iff crc_byte_def)
  then show "re_crc32 crc buf = NOT (foldl (\<lambda>c b. (crc_bit ^^ 8) (c XOR ucast b)) (NOT crc) buf)"
    by (simp only: re_crc32_bytes)
  show "re_crc32 (re_crc32 crc xs) ys = re_crc32 crc (xs @ ys)" by (simp add: re_crc32_bytes)
  show "re_crc32 crc (xs @ [b] @ ys) = re_crc32 crc (xs @ [b'] @ ys) \<longleftrightarrow> b = b'"
    unfolding re_crc32_bytes by (auto dest!: arg_cong [where f = "\<lambda>x. NOT x"] crc_bytes_inj crc_byte_inj(2))
qed

end
