(* ===== verification/Libre_Stun.thy ===== *)
theory Libre_Stun
  imports Rtp Libre_Sa Crc32
begin

text \<open>
  The STUN messages of the library (\<open>src/stun/hdr.c\<close>, \<open>addr.c\<close>, \<open>attr.c\<close>, \<open>msg.c\<close>): the header, plain and XORed
  addresses, every attribute the library knows, whole messages with the optional MESSAGE-INTEGRITY and
  FINGERPRINT, encoded into and decoded from message buffers. HMAC-SHA1 is OpenSSL's and an argument. As in the
  theory of the message buffers, allocation succeeds.

  The encoders leave a gap for a header, write the value behind it and come back; \<open>mb_at\<close> describes such
  buffers. The decoder of a message is a loop over its attributes; its end is shown by the bytes it consumes.
\<close>

abbreviation STUN_MAGIC_COOKIE :: u32 where "STUN_MAGIC_COOKIE \<equiv> 0x2112A442"
abbreviation STUN_HEADER_SIZE :: nat where "STUN_HEADER_SIZE \<equiv> 20"
abbreviation STUN_TID_SIZE :: nat where "STUN_TID_SIZE \<equiv> 12"
abbreviation STUN_AF_IPv4 :: u8 where "STUN_AF_IPv4 \<equiv> 1"
abbreviation STUN_AF_IPv6 :: u8 where "STUN_AF_IPv6 \<equiv> 2"

abbreviation STUN_METHOD_BINDING :: u16 where "STUN_METHOD_BINDING \<equiv> 1"
abbreviation STUN_CLASS_REQUEST :: u8 where "STUN_CLASS_REQUEST \<equiv> 0"
abbreviation STUN_CLASS_INDICATION :: u8 where "STUN_CLASS_INDICATION \<equiv> 1"
abbreviation STUN_CLASS_SUCCESS_RESP :: u8 where "STUN_CLASS_SUCCESS_RESP \<equiv> 2"
abbreviation STUN_CLASS_ERROR_RESP :: u8 where "STUN_CLASS_ERROR_RESP \<equiv> 3"

abbreviation STUN_ATTR_MAPPED_ADDR :: u16 where "STUN_ATTR_MAPPED_ADDR \<equiv> 0x0001"
abbreviation STUN_ATTR_CHANGE_REQ :: u16 where "STUN_ATTR_CHANGE_REQ \<equiv> 0x0003"
abbreviation STUN_ATTR_USERNAME :: u16 where "STUN_ATTR_USERNAME \<equiv> 0x0006"
abbreviation STUN_ATTR_MSG_INTEGRITY :: u16 where "STUN_ATTR_MSG_INTEGRITY \<equiv> 0x0008"
abbreviation STUN_ATTR_ERR_CODE :: u16 where "STUN_ATTR_ERR_CODE \<equiv> 0x0009"
abbreviation STUN_ATTR_UNKNOWN_ATTR :: u16 where "STUN_ATTR_UNKNOWN_ATTR \<equiv> 0x000a"
abbreviation STUN_ATTR_CHANNEL_NUMBER :: u16 where "STUN_ATTR_CHANNEL_NUMBER \<equiv> 0x000c"
abbreviation STUN_ATTR_LIFETIME :: u16 where "STUN_ATTR_LIFETIME \<equiv> 0x000d"
abbreviation STUN_ATTR_XOR_PEER_ADDR :: u16 where "STUN_ATTR_XOR_PEER_ADDR \<equiv> 0x0012"
abbreviation STUN_ATTR_DATA :: u16 where "STUN_ATTR_DATA \<equiv> 0x0013"
abbreviation STUN_ATTR_REALM :: u16 where "STUN_ATTR_REALM \<equiv> 0x0014"
abbreviation STUN_ATTR_NONCE :: u16 where "STUN_ATTR_NONCE \<equiv> 0x0015"
abbreviation STUN_ATTR_XOR_RELAY_ADDR :: u16 where "STUN_ATTR_XOR_RELAY_ADDR \<equiv> 0x0016"
abbreviation STUN_ATTR_REQ_ADDR_FAMILY :: u16 where "STUN_ATTR_REQ_ADDR_FAMILY \<equiv> 0x0017"
abbreviation STUN_ATTR_EVEN_PORT :: u16 where "STUN_ATTR_EVEN_PORT \<equiv> 0x0018"
abbreviation STUN_ATTR_REQ_TRANSPORT :: u16 where "STUN_ATTR_REQ_TRANSPORT \<equiv> 0x0019"
abbreviation STUN_ATTR_DONT_FRAGMENT :: u16 where "STUN_ATTR_DONT_FRAGMENT \<equiv> 0x001a"
abbreviation STUN_ATTR_XOR_MAPPED_ADDR :: u16 where "STUN_ATTR_XOR_MAPPED_ADDR \<equiv> 0x0020"
abbreviation STUN_ATTR_RSV_TOKEN :: u16 where "STUN_ATTR_RSV_TOKEN \<equiv> 0x0022"
abbreviation STUN_ATTR_PRIORITY :: u16 where "STUN_ATTR_PRIORITY \<equiv> 0x0024"
abbreviation STUN_ATTR_USE_CAND :: u16 where "STUN_ATTR_USE_CAND \<equiv> 0x0025"
abbreviation STUN_ATTR_RESP_PORT :: u16 where "STUN_ATTR_RESP_PORT \<equiv> 0x0027"
abbreviation STUN_ATTR_SOFTWARE :: u16 where "STUN_ATTR_SOFTWARE \<equiv> 0x8022"
abbreviation STUN_ATTR_ALT_SERVER :: u16 where "STUN_ATTR_ALT_SERVER \<equiv> 0x8023"
abbreviation STUN_ATTR_FINGERPRINT :: u16 where "STUN_ATTR_FINGERPRINT \<equiv> 0x8028"
abbreviation STUN_ATTR_CONTROLLED :: u16 where "STUN_ATTR_CONTROLLED \<equiv> 0x8029"
abbreviation STUN_ATTR_CONTROLLING :: u16 where "STUN_ATTR_CONTROLLING \<equiv> 0x802a"
abbreviation STUN_ATTR_RESP_ORIGIN :: u16 where "STUN_ATTR_RESP_ORIGIN \<equiv> 0x802b"
abbreviation STUN_ATTR_OTHER_ADDR :: u16 where "STUN_ATTR_OTHER_ADDR \<equiv> 0x802c"

section \<open>Header\<close>

definition STUN_TYPE :: "u16 \<Rightarrow> u8 \<Rightarrow> u16" where
  "STUN_TYPE met cls = push_bit 2 (met AND 0x0f80) OR push_bit 1 (met AND 0x0070) OR (met AND 0x000f)
     OR push_bit 7 (ucast cls AND 2) OR push_bit 4 (ucast cls AND 1)"

definition STUN_CLASS :: "u16 \<Rightarrow> u16" where
  "STUN_CLASS type = (drop_bit 7 type OR drop_bit 4 type) AND 3"

definition STUN_METHOD :: "u16 \<Rightarrow> u16" where
  "STUN_METHOD type = drop_bit 2 (type AND 0x3e00) OR drop_bit 1 (type AND 0x00e0) OR (type AND 0x000f)"

record stun_hdr =
  sh_type :: u16
  sh_len :: u16
  sh_cookie :: u32
  sh_tid :: bytes

definition stun_hdr_encode :: "mbuf \<Rightarrow> stun_hdr \<Rightarrow> mbuf" where
  "stun_hdr_encode mb hdr =
     (let m = mbuf_write_u16 mb (htons (sh_type hdr AND 0x3fff));
          m = mbuf_write_u16 m (htons (sh_len hdr));
          m = mbuf_write_u32 m (htonl (sh_cookie hdr))
      in mbuf_write_mem m (sh_tid hdr))"

definition stun_hdr_decode :: "mbuf \<Rightarrow> errno + stun_hdr \<times> mbuf" where
  "stun_hdr_decode mb =
     (if mbuf_get_left mb < STUN_HEADER_SIZE then Inl EBADMSG
      else let (t, m) = mbuf_read_u16 mb; type = htons t
           in if type AND 0xc000 \<noteq> 0 then Inl EBADMSG
              else let (n, m) = mbuf_read_u16 m; len = htons n
                   in if len AND 3 \<noteq> 0 then Inl EBADMSG
                      else let (c, m) = mbuf_read_u32 m
                           in case mbuf_read_mem m STUN_TID_SIZE of
                                Inl e \<Rightarrow> Inl EBADMSG
                              | Inr (tid, m) \<Rightarrow>
                                  if mbuf_get_left m < unat len then Inl EBADMSG
                                  else Inr (\<lparr>sh_type = type, sh_len = len, sh_cookie = htonl c, sh_tid = tid\<rparr>, m))"

section \<open>Addresses\<close>

definition in6_xor_tid :: "bytes \<Rightarrow> bytes \<Rightarrow> bytes" where
  "in6_xor_tid in6 tid = map2 (XOR) in6 ([0x21, 0x12, 0xa4, 0x42] @ tid)"

definition stun_addr_encode :: "mbuf \<Rightarrow> sockaddr \<Rightarrow> bytes option \<Rightarrow> errno option \<times> mbuf" where
  "stun_addr_encode mb addr tid =
     (let port = (if tid \<noteq> None then sa_port addr XOR ucast (drop_bit 16 STUN_MAGIC_COOKIE) else sa_port addr)
      in case sa_host addr of
           AF_INET a \<Rightarrow>
             (let addr4 = (if tid \<noteq> None then a XOR STUN_MAGIC_COOKIE else a);
                  m = mbuf_write_u8 mb 0;
                  m = mbuf_write_u8 m STUN_AF_IPv4;
                  m = mbuf_write_u16 m (htons port)
              in (None, mbuf_write_u32 m (htonl addr4)))
         | AF_INET6 a \<Rightarrow>
             (let addr6 = (case tid of Some t \<Rightarrow> in6_xor_tid a t | None \<Rightarrow> a);
                  m = mbuf_write_u8 mb 0;
                  m = mbuf_write_u8 m STUN_AF_IPv6;
                  m = mbuf_write_u16 m (htons port)
              in (None, mbuf_write_mem m addr6))
         | AF_UNSPEC \<Rightarrow> (Some EAFNOSUPPORT, mb))"

definition stun_addr_decode :: "mbuf \<Rightarrow> bytes option \<Rightarrow> errno + sockaddr \<times> mbuf" where
  "stun_addr_decode mb tid =
     (if mbuf_get_left mb < 4 then Inl EBADMSG
      else let (z, m) = mbuf_read_u8 mb;
               (family, m) = mbuf_read_u8 m;
               (p, m) = mbuf_read_u16 m;
               port = (if tid \<noteq> None then htons p XOR ucast (drop_bit 16 STUN_MAGIC_COOKIE) else htons p)
           in if family = STUN_AF_IPv4 then
                (if mbuf_get_left m < 4 then Inl EBADMSG
                 else let (a, m) = mbuf_read_u32 m;
                          addr4 = (if tid \<noteq> None then htonl a XOR STUN_MAGIC_COOKIE else htonl a)
                      in Inr (sa_set_in addr4 port, m))
              else if family = STUN_AF_IPv6 then
                (if mbuf_get_left m < 16 then Inl EBADMSG
                 else case mbuf_read_mem m 16 of
                        Inl e \<Rightarrow> Inl EBADMSG
                      | Inr (a, m) \<Rightarrow>
                          Inr (\<lparr>sa_host = AF_INET6 (case tid of Some t \<Rightarrow> in6_xor_tid a t | None \<Rightarrow> a), sa_prt = port\<rparr>, m))
              else Inl EAFNOSUPPORT)"

section \<open>Attributes\<close>

text \<open>
  The values of attributes, with the members of the union in \<open>struct stun_attr\<close>. A string is the block that
  \<open>mbuf_strdup\<close> allocates, without its final NUL.
\<close>

datatype stun_value =
    SaV sockaddr | ChangeReq bool bool | StrV bytes | Integrity bytes | ErrCode u16 bytes | UnknownAttr "u16 list"
  | U8V u8 | U16V u16 | U32V u32 | U64V u64 | DataV bytes | EvenPort bool | NoValue

record stun_attr =
  at_type :: u16
  at_val :: stun_value

definition plain_addr_attr :: "u16 \<Rightarrow> bool" where
  "plain_addr_attr t = (t \<in> {STUN_ATTR_MAPPED_ADDR, STUN_ATTR_ALT_SERVER, STUN_ATTR_RESP_ORIGIN, STUN_ATTR_OTHER_ADDR})"

definition xor_addr_attr :: "u16 \<Rightarrow> bool" where
  "xor_addr_attr t = (t \<in> {STUN_ATTR_XOR_PEER_ADDR, STUN_ATTR_XOR_RELAY_ADDR, STUN_ATTR_XOR_MAPPED_ADDR})"

definition str_attr :: "u16 \<Rightarrow> bool" where
  "str_attr t = (t \<in> {STUN_ATTR_USERNAME, STUN_ATTR_REALM, STUN_ATTR_NONCE, STUN_ATTR_SOFTWARE})"

definition u16_attr :: "u16 \<Rightarrow> bool" where
  "u16_attr t = (t \<in> {STUN_ATTR_CHANNEL_NUMBER, STUN_ATTR_RESP_PORT})"

definition u32_attr :: "u16 \<Rightarrow> bool" where
  "u32_attr t = (t \<in> {STUN_ATTR_LIFETIME, STUN_ATTR_PRIORITY, STUN_ATTR_FINGERPRINT})"

definition u8_attr :: "u16 \<Rightarrow> bool" where
  "u8_attr t = (t \<in> {STUN_ATTR_REQ_ADDR_FAMILY, STUN_ATTR_REQ_TRANSPORT})"

definition flag_attr :: "u16 \<Rightarrow> bool" where
  "flag_attr t = (t \<in> {STUN_ATTR_DONT_FRAGMENT, STUN_ATTR_USE_CAND})"

definition u64_attr :: "u16 \<Rightarrow> bool" where
  "u64_attr t = (t \<in> {STUN_ATTR_RSV_TOKEN, STUN_ATTR_CONTROLLED, STUN_ATTR_CONTROLLING})"

lemmas attr_kinds = plain_addr_attr_def xor_addr_attr_def str_attr_def u16_attr_def u32_attr_def u8_attr_def
  flag_attr_def u64_attr_def

definition mbuf_write_u64 :: "mbuf \<Rightarrow> u64 \<Rightarrow> mbuf" where
  "mbuf_write_u64 mb v = mbuf_write_mem mb (mem_u64 v)"

definition mbuf_read_u64 :: "mbuf \<Rightarrow> u64 \<times> mbuf" where
  "mbuf_read_u64 mb = (case mbuf_read_mem mb 8 of Inl e \<Rightarrow> (0, mb) | Inr (bs, m) \<Rightarrow> (val_u64 bs, m))"

text \<open>
  The switch of \<open>stun_attr_encode\<close>: what is written behind the gap. The value behind the \<open>void\<close> pointer must be
  of the kind the type asks for; any other pair stands for an unknown type. The case of a data attribute that
  is the buffer itself is TURN's and left out.
\<close>

definition stun_value_encode :: "mbuf \<Rightarrow> u16 \<Rightarrow> stun_value \<Rightarrow> bytes option \<Rightarrow> errno option \<times> mbuf" where
  "stun_value_encode mb t v tid =
     (case v of
        SaV a \<Rightarrow>
          if plain_addr_attr t then stun_addr_encode mb a None
          else if xor_addr_attr t then stun_addr_encode mb a tid else (Some EINVAL, mb)
      | ChangeReq ip port \<Rightarrow>
          if t = STUN_ATTR_CHANGE_REQ
          then (None, mbuf_write_u32 mb (htonl (push_bit 2 (of_bool ip) OR push_bit 1 (of_bool port)))) else (Some EINVAL, mb)
      | StrV s \<Rightarrow> if str_attr t then (None, mbuf_write_mem mb (takeWhile (\<lambda>c. c \<noteq> 0) s)) else (Some EINVAL, mb)
      | Integrity mi \<Rightarrow> if t = STUN_ATTR_MSG_INTEGRITY then (None, mbuf_write_mem mb (take 20 mi)) else (Some EINVAL, mb)
      | ErrCode code reason \<Rightarrow>
          if t = STUN_ATTR_ERR_CODE
          then (let m = mbuf_write_u16 mb 0;
                    m = mbuf_write_u8 m (ucast (code div 100));
                    m = mbuf_write_u8 m (ucast (code mod 100))
                in (None, mbuf_write_mem m (takeWhile (\<lambda>c. c \<noteq> 0) reason))) else (Some EINVAL, mb)
      | UnknownAttr ts \<Rightarrow>
          if t = STUN_ATTR_UNKNOWN_ATTR then (None, foldl (\<lambda>m x. mbuf_write_u16 m (htons x)) mb ts) else (Some EINVAL, mb)
      | U16V n \<Rightarrow> if u16_attr t then (None, mbuf_write_u16 (mbuf_write_u16 mb (htons n)) 0) else (Some EINVAL, mb)
      | U32V n \<Rightarrow> if u32_attr t then (None, mbuf_write_u32 mb (htonl n)) else (Some EINVAL, mb)
      | DataV d \<Rightarrow> if t = STUN_ATTR_DATA then (None, mbuf_write_mem mb d) else (Some EINVAL, mb)
      | U8V n \<Rightarrow>
          if u8_attr t then (None, mbuf_write_u16 (mbuf_write_u8 (mbuf_write_u8 mb n) 0) 0) else (Some EINVAL, mb)
      | EvenPort r \<Rightarrow> if t = STUN_ATTR_EVEN_PORT then (None, mbuf_write_u8 mb (push_bit 7 (of_bool r))) else (Some EINVAL, mb)
      | NoValue \<Rightarrow> if flag_attr t then (None, mb) else (Some EINVAL, mb)
      | U64V n \<Rightarrow> if u64_attr t then (None, mbuf_write_u64 mb (htonll n)) else (Some EINVAL, mb))"

definition stun_attr_encode :: "mbuf \<Rightarrow> u16 \<Rightarrow> stun_value \<Rightarrow> bytes option \<Rightarrow> u8 \<Rightarrow> errno option \<times> mbuf" where
  "stun_attr_encode mb t v tid padding =
     (let start = mb_pos mb + 4;
          (err, m) = stun_value_encode (mb\<lparr>mb_pos := start\<rparr>) t v tid;
          len = mb_pos m - start;
          m = mbuf_write_u16 (m\<lparr>mb_pos := start - 4\<rparr>) (htons t);
          m = mbuf_write_u16 m (htons (word_of_nat len));
          m = m\<lparr>mb_pos := mb_pos m + len\<rparr>
      in (err, ((\<lambda>m. mbuf_write_u8 m padding) ^^ ((4 - (mb_pos m - start) mod 4) mod 4)) m))"

fun read_u16s :: "nat \<Rightarrow> mbuf \<Rightarrow> u16 list \<times> mbuf" where
  "read_u16s 0 mb = ([], mb)"
| "read_u16s (Suc n) mb = (let (v, m) = mbuf_read_u16 mb; (vs, m) = read_u16s n m in (htons v # vs, m))"

definition str_decode :: "mbuf \<Rightarrow> nat \<Rightarrow> errno + bytes \<times> mbuf" where
  "str_decode mb len =
     (if mbuf_get_left mb < len then Inl EBADMSG
      else case mbuf_strdup mb len of Inl e \<Rightarrow> Inl e | Inr (s, m) \<Rightarrow> Inr (butlast s, m))"

text \<open>The switch of \<open>stun_attr_decode\<close>; \<open>ua\<close> collects unknown types below \<open>0x8000\<close>, at most eight.\<close>

definition stun_value_decode ::
  "mbuf \<Rightarrow> u16 \<Rightarrow> nat \<Rightarrow> bytes option \<Rightarrow> u16 list option \<Rightarrow> errno + stun_value \<times> u16 list option \<times> mbuf" where
  "stun_value_decode mb t len tid ua =
     (if plain_addr_attr t then
        (case stun_addr_decode mb None of Inl e \<Rightarrow> Inl e | Inr (a, m) \<Rightarrow> Inr (SaV a, ua, m))
      else if xor_addr_attr t then
        (case stun_addr_decode mb tid of Inl e \<Rightarrow> Inl e | Inr (a, m) \<Rightarrow> Inr (SaV a, ua, m))
      else if t = STUN_ATTR_CHANGE_REQ then
        (if len \<noteq> 4 then Inl EBADMSG
         else let (n, m) = mbuf_read_u32 mb; n = htonl n
              in Inr (ChangeReq (drop_bit 2 n AND 1 = 1) (drop_bit 1 n AND 1 = 1), ua, m))
      else if str_attr t then
        (case str_decode mb len of Inl e \<Rightarrow> Inl e | Inr (s, m) \<Rightarrow> Inr (StrV s, ua, m))
      else if t = STUN_ATTR_MSG_INTEGRITY then
        (if len \<noteq> 20 then Inl EBADMSG
         else case mbuf_read_mem mb 20 of Inl e \<Rightarrow> Inl e | Inr (mi, m) \<Rightarrow> Inr (Integrity mi, ua, m))
      else if t = STUN_ATTR_ERR_CODE then
        (if len < 4 then Inl EBADMSG
         else let m = mb\<lparr>mb_pos := mb_pos mb + 2\<rparr>;
                  (a, m) = mbuf_read_u8 m;
                  (b, m) = mbuf_read_u8 m
              in case str_decode m (len - 4) of
                   Inl e \<Rightarrow> Inl e
                 | Inr (s, m) \<Rightarrow> Inr (ErrCode (ucast (a AND 7) * 100 + ucast b) s, ua, m))
      else if t = STUN_ATTR_UNKNOWN_ATTR then
        (let (ts, m) = read_u16s (len div 2) mb in Inr (UnknownAttr (take 8 ts), ua, m))
      else if u16_attr t then
        (if len < 2 then Inl EBADMSG else let (n, m) = mbuf_read_u16 mb in Inr (U16V (htons n), ua, m))
      else if u32_attr t then
        (if len \<noteq> 4 then Inl EBADMSG else let (n, m) = mbuf_read_u32 mb in Inr (U32V (htonl n), ua, m))
      else if t = STUN_ATTR_DATA then
        Inr (DataV (take len (drop (mb_pos mb) (mb_buf mb))), ua, mb\<lparr>mb_pos := mb_pos mb + len\<rparr>)
      else if u8_attr t then
        (if len < 1 then Inl EBADMSG else let (n, m) = mbuf_read_u8 mb in Inr (U8V n, ua, m))
      else if t = STUN_ATTR_EVEN_PORT then
        (if len < 1 then Inl EBADMSG else let (n, m) = mbuf_read_u8 mb in Inr (EvenPort (drop_bit 7 n AND 1 = 1), ua, m))
      else if flag_attr t then
        (if len > 0 then Inl EBADMSG else Inr (NoValue, ua, mb))
      else if u64_attr t then
        (if len \<noteq> 8 then Inl EBADMSG else let (n, m) = mbuf_read_u64 mb in Inr (U64V (htonll n), ua, m))
      else
        Inr (NoValue,
             (if t \<ge> 0x8000 then ua
              else map_option (\<lambda>ts. if length ts < 8 then ts @ [t] else ts) ua),
             mb\<lparr>mb_pos := mb_pos mb + len\<rparr>))"

definition stun_attr_decode ::
  "mbuf \<Rightarrow> bytes option \<Rightarrow> u16 list option \<Rightarrow> errno + stun_attr \<times> u16 list option \<times> mbuf" where
  "stun_attr_decode mb tid ua =
     (if mbuf_get_left mb < 4 then Inl EBADMSG
      else let (t, m) = mbuf_read_u16 mb;
               (n, m) = mbuf_read_u16 m;
               t = htons t; len = unat (htons n)
           in if mbuf_get_left m < len then Inl EBADMSG
              else let start = mb_pos m
                   in case stun_value_decode m t len tid ua of
                        Inl e \<Rightarrow> Inl e
                      | Inr (v, ua, m) \<Rightarrow>
                          Inr (\<lparr>at_type = t, at_val = v\<rparr>, ua,
                               m\<lparr>mb_pos := mb_pos m + min ((4 - (mb_pos m - start) mod 4) mod 4) (mbuf_get_left m)\<rparr>))"

section \<open>Reading moves forward\<close>

text \<open>Every read leaves the memory and the end of the buffer alone and never moves the position back.\<close>

definition later :: "mbuf \<Rightarrow> mbuf \<Rightarrow> bool" where
  "later mb m \<longleftrightarrow> mb_buf m = mb_buf mb \<and> mb_end m = mb_end mb \<and> mb_pos mb \<le> mb_pos m"

lemma later_refl [simp]: "later mb mb" by (simp add: later_def)

lemma later_trans: "later a b \<Longrightarrow> later b c \<Longrightarrow> later a c" by (simp add: later_def)

lemma later_pos [simp]: "mb_pos mb \<le> p \<Longrightarrow> later mb (mb\<lparr>mb_pos := p\<rparr>)" by (simp add: later_def)

lemma later_left: "later mb m \<Longrightarrow> mbuf_get_left m \<le> mbuf_get_left mb"
  by (auto simp: later_def mbuf_get_left_def)

lemma read_later:
  "mbuf_read_mem mb n = Inr (bs, m) \<Longrightarrow> later mb m"
  "mbuf_read_u8 mb = (a, m) \<Longrightarrow> later mb m" "mbuf_read_u16 mb = (b, m) \<Longrightarrow> later mb m"
  "mbuf_read_u32 mb = (c, m) \<Longrightarrow> later mb m" "mbuf_read_u64 mb = (d, m) \<Longrightarrow> later mb m"
  by (auto simp: mbuf_read_mem_def mbuf_read_u8_def mbuf_read_u16_def mbuf_read_u32_def mbuf_read_u64_def
      split: if_splits)

lemma read_u16s_later: "read_u16s n mb = (vs, m) \<Longrightarrow> later mb m"
proof (induction n arbitrary: mb vs m)
  case (Suc n)
  then show ?case by (auto simp: Let_def split: prod.splits dest!: Suc.IH intro: later_trans read_later)
qed simp

lemma str_decode_later: "str_decode mb n = Inr (s, m) \<Longrightarrow> later mb m"
  by (auto simp: str_decode_def mbuf_strdup_def split: if_splits sum.splits dest: read_later(1))

lemma stun_addr_decode_later: "stun_addr_decode mb tid = Inr (a, m) \<Longrightarrow> later mb m"
  by (auto simp: stun_addr_decode_def Let_def split: if_splits prod.splits sum.splits
      dest!: read_later intro: later_trans)

lemma stun_value_decode_later:
  assumes "stun_value_decode mb t len tid ua = Inr (v, ua', m)"
  shows "later mb m"
  using assms unfolding stun_value_decode_def
  by (auto simp: Let_def split: if_splits prod.splits sum.splits
      dest!: read_later stun_addr_decode_later str_decode_later read_u16s_later intro: later_trans
      elim: later_trans [rotated] simp: later_def)

lemma read_u16_step: "2 \<le> mbuf_get_left mb \<Longrightarrow> snd (mbuf_read_u16 mb) = mb\<lparr>mb_pos := mb_pos mb + 2\<rparr>"
  by (auto simp: mbuf_read_u16_def mbuf_read_mem_def)

text \<open>Each decoded attribute uses up at least its four bytes of header.\<close>

lemma stun_attr_decode_later:
  assumes "stun_attr_decode mb tid ua = Inr (a, ua', m)"
  shows "mb_buf m = mb_buf mb" "mb_end m = mb_end mb" "mb_pos mb + 4 \<le> mb_pos m" "4 \<le> mbuf_get_left mb"
proof -
  show l: "4 \<le> mbuf_get_left mb" using assms by (auto simp: stun_attr_decode_def split: if_splits)
  define m2 where "m2 = mb\<lparr>mb_pos := mb_pos mb + 4\<rparr>"
  have l2: "2 \<le> mbuf_get_left (mb\<lparr>mb_pos := mb_pos mb + 2\<rparr>)" using l by (auto simp: mbuf_get_left_def split: if_splits)
  have r: "snd (mbuf_read_u16 mb) = mb\<lparr>mb_pos := mb_pos mb + 2\<rparr>" using read_u16_step [of mb] l by simp
  have r2: "snd (mbuf_read_u16 (mb\<lparr>mb_pos := mb_pos mb + 2\<rparr>)) = m2"
    using read_u16_step [OF l2] by (simp add: m2_def eval_nat_numeral)
  have "\<exists>v t len m3. stun_value_decode m2 t len tid ua = Inr (v, ua', m3) \<and> later m3 m"
    using assms l unfolding stun_attr_decode_def Let_def case_prod_beta r r2
    by (auto split: if_splits sum.splits intro!: exI)
  then have "later m2 m" using stun_value_decode_later later_trans by blast
  then show "mb_buf m = mb_buf mb" "mb_end m = mb_end mb" "mb_pos mb + 4 \<le> mb_pos m" by (simp_all add: later_def m2_def)
qed

section \<open>Messages\<close>

text \<open>
  The loop over the attributes. The number of bytes left inside the message is computed without a sign: when an
  address is read past the end of the message into what follows it, the difference wraps to a huge number.
\<close>

function decode_attrs ::
  "nat \<Rightarrow> bytes \<Rightarrow> mbuf \<Rightarrow> u16 list option \<Rightarrow> errno + stun_attr list \<times> u16 list option" where
  "decode_attrs extra tid mb ua =
     (if mbuf_get_left mb < extra \<or> mbuf_get_left mb - extra \<ge> 4
      then case stun_attr_decode mb (Some tid) ua of
             Inl e \<Rightarrow> Inl e
           | Inr (a, ua', m) \<Rightarrow>
               (case decode_attrs extra tid m ua' of Inl e \<Rightarrow> Inl e | Inr (as, u) \<Rightarrow> Inr (a # as, u))
      else Inr ([], ua))"
  by pat_completeness auto

termination
proof (relation "measure (\<lambda>(extra, tid, mb, ua). mbuf_get_left mb)")
  fix extra tid mb ua x2 a p ua' m
  assume "stun_attr_decode mb (Some tid) ua = Inr x2" "(a, p) = x2" "(ua', m) = p"
  then have "stun_attr_decode mb (Some tid) ua = Inr (a, ua', m)" by simp
  from stun_attr_decode_later [OF this]
  show "((extra, tid, m, ua'), extra, tid, mb, ua) \<in> measure (\<lambda>(extra, tid, mb, ua). mbuf_get_left mb)"
    by (auto simp: mbuf_get_left_def split: if_splits)
qed simp

declare decode_attrs.simps [simp del]

record stun_msg =
  sm_hdr :: stun_hdr
  sm_attrl :: "stun_attr list"
  sm_mb :: mbuf
  sm_start :: nat

definition stun_msg_decode :: "mbuf \<Rightarrow> bool \<Rightarrow> errno + stun_msg \<times> u16 list option" where
  "stun_msg_decode mb want_ua =
     (case stun_hdr_decode mb of
        Inl e \<Rightarrow> Inl e
      | Inr (hdr, m) \<Rightarrow>
          (case decode_attrs (mbuf_get_left m - unat (sh_len hdr)) (sh_tid hdr) m (if want_ua then Some [] else None) of
             Inl e \<Rightarrow> Inl e
           | Inr (as, ua) \<Rightarrow> Inr (\<lparr>sm_hdr = hdr, sm_attrl = as, sm_mb = mb, sm_start = mb_pos mb\<rparr>, ua)))"

definition stun_msg_type :: "stun_msg \<Rightarrow> u16" where "stun_msg_type msg = sh_type (sm_hdr msg)"
definition stun_msg_class :: "stun_msg \<Rightarrow> u16" where "stun_msg_class msg = STUN_CLASS (stun_msg_type msg)"
definition stun_msg_method :: "stun_msg \<Rightarrow> u16" where "stun_msg_method msg = STUN_METHOD (stun_msg_type msg)"
definition stun_msg_mcookie :: "stun_msg \<Rightarrow> bool" where "stun_msg_mcookie msg = (sh_cookie (sm_hdr msg) = STUN_MAGIC_COOKIE)"

definition stun_msg_attr :: "stun_msg \<Rightarrow> u16 \<Rightarrow> stun_attr option" where
  "stun_msg_attr msg t = find (\<lambda>a. at_type a = t) (sm_attrl msg)"

definition stun_msg_attr_apply :: "stun_msg \<Rightarrow> (stun_attr \<Rightarrow> bool) \<Rightarrow> stun_attr option" where
  "stun_msg_attr_apply msg h = find h (sm_attrl msg)"

abbreviation MI_SIZE :: nat where "MI_SIZE \<equiv> 24"
abbreviation FP_SIZE :: nat where "FP_SIZE \<equiv> 8"

definition fingerprint :: "bytes \<Rightarrow> u32" where
  "fingerprint buf = re_crc32 0 buf XOR 0x5354554e"

text \<open>The attributes to encode come as pairs; a NULL value is skipped. Errors do not stop the encoder.\<close>

fun encode_attrs :: "(u16 \<times> stun_value option) list \<Rightarrow> bytes \<Rightarrow> u8 \<Rightarrow> errno option \<times> mbuf \<Rightarrow> errno option \<times> mbuf" where
  "encode_attrs [] tid padding s = s"
| "encode_attrs ((t, None) # as) tid padding s = encode_attrs as tid padding s"
| "encode_attrs ((t, Some v) # as) tid padding (err, mb) =
     (let (e, m) = stun_attr_encode mb t v (Some tid) padding in encode_attrs as tid padding (or_err err e, m))"

definition msg_hdr :: "u16 \<Rightarrow> u8 \<Rightarrow> bytes \<Rightarrow> nat \<Rightarrow> stun_hdr" where
  "msg_hdr met cls tid len =
     \<lparr>sh_type = STUN_TYPE met cls, sh_len = word_of_nat len, sh_cookie = STUN_MAGIC_COOKIE, sh_tid = tid\<rparr>"

text \<open>
  The stages of \<open>stun_msg_vencode\<close>: the attributes behind a gap, the header with the integrity, the fingerprint
  with a new header.
\<close>

definition vencode_attrs ::
  "mbuf \<Rightarrow> (u16 \<times> bytes) option \<Rightarrow> (u16 \<times> stun_value option) list \<Rightarrow> bytes \<Rightarrow> u8 \<Rightarrow> errno option \<times> mbuf" where
  "vencode_attrs mb ec attrs tid padding =
     (let m = mb\<lparr>mb_pos := mb_pos mb + STUN_HEADER_SIZE\<rparr>;
          s = (case ec of None \<Rightarrow> (None, m)
               | Some (code, reason) \<Rightarrow> stun_attr_encode m STUN_ATTR_ERR_CODE (ErrCode code reason) None padding)
      in encode_attrs attrs tid padding s)"

definition vencode_integrity ::
  "(bytes \<Rightarrow> bytes \<Rightarrow> bytes) \<Rightarrow> nat \<Rightarrow> (nat \<Rightarrow> stun_hdr) \<Rightarrow> bytes option \<Rightarrow> u8 \<Rightarrow> errno option \<Rightarrow> mbuf \<Rightarrow> errno option \<times> mbuf" where
  "vencode_integrity hmac_sha1 start hdr key padding err m =
     (let mi_size = (if key \<noteq> None then MI_SIZE else 0);
          h = hdr (mb_pos m - start - STUN_HEADER_SIZE + mi_size);
          m = stun_hdr_encode (m\<lparr>mb_pos := start\<rparr>) h;
          m = m\<lparr>mb_pos := mb_pos m + unat (sh_len h) - mi_size\<rparr>
      in case key of
           None \<Rightarrow> (err, m)
         | Some k \<Rightarrow>
             (let mi = hmac_sha1 k (mbuf_data (m\<lparr>mb_pos := start\<rparr>));
                  m = m\<lparr>mb_pos := start + STUN_HEADER_SIZE + unat (sh_len h) - MI_SIZE\<rparr>;
                  (e, m) = stun_attr_encode m STUN_ATTR_MSG_INTEGRITY (Integrity mi) None padding
              in (or_err err e, m)))"

definition vencode_fingerprint ::
  "nat \<Rightarrow> (nat \<Rightarrow> stun_hdr) \<Rightarrow> u8 \<Rightarrow> errno option \<Rightarrow> mbuf \<Rightarrow> errno option \<times> mbuf" where
  "vencode_fingerprint start hdr padding err m =
     (let h = hdr (mb_pos m - start - STUN_HEADER_SIZE + FP_SIZE);
          m = stun_hdr_encode (m\<lparr>mb_pos := start\<rparr>) h;
          fprnt = fingerprint (mbuf_data (m\<lparr>mb_pos := start\<rparr>));
          m = m\<lparr>mb_pos := start + STUN_HEADER_SIZE + unat (sh_len h) - FP_SIZE\<rparr>;
          (e, m) = stun_attr_encode m STUN_ATTR_FINGERPRINT (U32V fprnt) None padding
      in (or_err err e, m))"

definition stun_msg_vencode ::
  "(bytes \<Rightarrow> bytes \<Rightarrow> bytes) \<Rightarrow> mbuf \<Rightarrow> u16 \<Rightarrow> u8 \<Rightarrow> bytes \<Rightarrow> (u16 \<times> bytes) option \<Rightarrow> bytes option \<Rightarrow> bool \<Rightarrow> u8
    \<Rightarrow> (u16 \<times> stun_value option) list \<Rightarrow> errno option \<times> mbuf" where
  "stun_msg_vencode hmac_sha1 mb met cls tid ec key fp padding attrs =
     (let start = mb_pos mb;
          hdr = msg_hdr met cls (take STUN_TID_SIZE tid);
          (err, m) = vencode_attrs mb ec attrs (take STUN_TID_SIZE tid) padding;
          (err, m) = vencode_integrity hmac_sha1 start hdr key padding err m
      in if fp then vencode_fingerprint start hdr padding err m else (err, m))"

text \<open>
  The two checks. Both leave the position of the message's buffer at its start; the length in the header that the
  first one lowers for the computation is restored, and with it the bytes of the header.
\<close>

definition stun_msg_chk_mi :: "(bytes \<Rightarrow> bytes \<Rightarrow> bytes) \<Rightarrow> stun_msg \<Rightarrow> bytes \<Rightarrow> errno option" where
  "stun_msg_chk_mi hmac_sha1 msg key =
     (case stun_msg_attr msg STUN_ATTR_MSG_INTEGRITY of
        None \<Rightarrow> Some EPROTO
      | Some mi \<Rightarrow>
          (let m = (sm_mb msg)\<lparr>mb_pos := sm_start msg\<rparr>;
               hdr = sm_hdr msg;
               fp = stun_msg_attr msg STUN_ATTR_FINGERPRINT;
               hdr = (if fp \<noteq> None then hdr\<lparr>sh_len := sh_len hdr - word_of_nat FP_SIZE\<rparr> else hdr);
               m = (if fp \<noteq> None then (stun_hdr_encode m hdr)\<lparr>mb_pos := sm_start msg\<rparr> else m);
               hmac = hmac_sha1 key (take (STUN_HEADER_SIZE + unat (sh_len hdr) - MI_SIZE) (drop (mb_pos m) (mb_buf m)))
           in case at_val mi of
                Integrity x \<Rightarrow> if x \<noteq> hmac then Some EBADMSG else None
              | _ \<Rightarrow> Some EBADMSG))"

definition stun_msg_chk_fingerprint :: "stun_msg \<Rightarrow> errno option" where
  "stun_msg_chk_fingerprint msg =
     (case stun_msg_attr msg STUN_ATTR_FINGERPRINT of
        None \<Rightarrow> Some EPROTO
      | Some fp \<Rightarrow>
          (let fprnt = fingerprint (take (STUN_HEADER_SIZE + unat (sh_len (sm_hdr msg)) - FP_SIZE)
                 (drop (sm_start msg) (mb_buf (sm_mb msg))))
           in if at_val fp \<noteq> U32V fprnt then Some EBADMSG else None))"

section \<open>Buffers with a gap\<close>

definition mb_at :: "mbuf \<Rightarrow> bytes \<Rightarrow> nat \<Rightarrow> bool" where
  "mb_at mb C p \<longleftrightarrow> mbuf_content mb = C \<and> mb_end mb = length C \<and> mb_end mb \<le> mb_size mb \<and> mb_pos mb = p"

lemma mb_at_pos: "mb_at mb C p \<Longrightarrow> mb_at (mb\<lparr>mb_pos := q\<rparr>) C q"
  by (auto simp: mb_at_def mbuf_content_def)

lemma mb_at_alloc: "mb_at (mbuf_alloc n) [] 0"
  by (simp add: mb_at_def)

lemma mb_at_write:
  fixes src :: bytes
  assumes "mb_at mb C p"
  defines "m \<equiv> mbuf_grow mb (p + length src)"
  shows "mb_at (mbuf_write_mem mb src) (take (max (length C) (p + length src)) (mem_put (mb_buf m) p src)) (p + length src)"
    "take (length C) (mb_buf m) = C" "p + length src \<le> length (mb_buf m)" "length C \<le> length (mb_buf m)"
proof -
  have e: "length C \<le> mb_size mb" "mb_pos mb = p" "mb_end mb = length C" using assms(1) by (simp_all add: mb_at_def)
  show l: "p + length src \<le> length (mb_buf m)" "length C \<le> length (mb_buf m)"
    using mbuf_grow_size(1) [of mb "p + length src"] mbuf_grow_size(2) [of "p + length src" mb] e(1) unfolding m_def by auto
  have "take (length C) (mb_buf m) = take (length C) (take (mb_size mb) (mb_buf m))" using e(1) by (simp add: min_absorb1)
  then show "take (length C) (mb_buf m) = C"
    using assms(1) unfolding m_def mbuf_grow_prefix by (auto simp: mb_at_def mbuf_content_def)
  have "mb_buf (mbuf_write_mem mb src) = mem_put (mb_buf m) p src"
    using e by (simp add: mbuf_write_mem_def Let_def m_def)
  then show "mb_at (mbuf_write_mem mb src) (take (max (length C) (p + length src)) (mem_put (mb_buf m) p src)) (p + length src)"
    using e l by (simp add: mb_at_def mbuf_content_def)
qed

lemma write_gap:
  assumes "mb_at mb C p" and "length C \<le> p"
  shows "\<exists>g. length g = p - length C \<and> mb_at (mbuf_write_mem mb src) (C @ g @ src) (p + length src)"
proof -
  note w = mb_at_write [OF assms(1), of src]
  define b where "b = mb_buf (mbuf_grow mb (p + length src))"
  define g where "g = drop (length C) (take p b)"
  have "take (length C) (take p b) = C" using w(2) assms(2) by (simp add: min_absorb1 b_def)
  then have "take p b = C @ g" unfolding g_def by (metis append_take_drop_id)
  moreover have "take (p + length src) (mem_put b p src) = take p b @ src" using w(3) by (simp add: mem_put_def b_def)
  moreover have "length g = p - length C" using w(3) by (simp add: g_def b_def)
  ultimately show ?thesis using w(1) assms(2) by (auto simp: max_absorb2 b_def)
qed

lemma write_over:
  assumes "mb_at mb C p" and "p + length src \<le> length C"
  shows "mb_at (mbuf_write_mem mb src) (take p C @ src @ drop (p + length src) C) (p + length src)"
proof -
  note w = mb_at_write [OF assms(1), of src]
  let ?b = "mb_buf (mbuf_grow mb (p + length src))"
  have "take (length C) (mem_put ?b p src) = take p ?b @ src @ take (length C - (p + length src)) (drop (p + length src) ?b)"
    using w(3,4) assms(2) by (simp add: mem_put_def)
  also have "take p ?b = take p C" using w(2) assms(2) by (metis add_leD1 min.absorb1 take_take)
  also have "take (length C - (p + length src)) (drop (p + length src) ?b) = drop (p + length src) C"
    using w(2) by (metis drop_take)
  finally show ?thesis using w(1) assms(2) by (simp add: max_absorb1)
qed

lemma write_end: "mb_at mb C (length C) \<Longrightarrow> mb_at (mbuf_write_mem mb src) (C @ src) (length C + length src)"
  using write_gap [of mb C "length C" src] by auto

lemma writes_end:
  "mb_at mb C (length C) \<Longrightarrow> mb_at (foldl mbuf_write_mem mb ps) (C @ concat ps) (length C + length (concat ps))"
proof (induction ps arbitrary: mb C)
  case (Cons p ps)
  from Cons.IH [of "mbuf_write_mem mb p" "C @ p"] write_end [OF Cons.prems] show ?case by (simp add: add.assoc)
qed simp

lemma writes_gap:
  assumes "mb_at mb C p" and "length C \<le> p" and "ps \<noteq> []"
  shows "\<exists>g. length g = p - length C \<and> mb_at (foldl mbuf_write_mem mb ps) (C @ g @ concat ps) (p + length (concat ps))"
proof -
  obtain q qs where ps: "ps = q # qs" using assms(3) by (cases ps) auto
  obtain g where g: "length g = p - length C" "mb_at (mbuf_write_mem mb q) (C @ g @ q) (p + length q)"
    using write_gap [OF assms(1,2)] by blast
  have "p + length q = length (C @ g @ q)" using g(1) assms(2) by simp
  with writes_end [of "mbuf_write_mem mb q" "C @ g @ q" qs] g ps show ?thesis by (intro exI [of _ g]) (simp add: add.assoc)
qed

section \<open>The encoded attributes\<close>

definition addr_pieces :: "sockaddr \<Rightarrow> bytes option \<Rightarrow> bytes list" where
  "addr_pieces a tid =
     (let port = (if tid \<noteq> None then sa_port a XOR ucast (drop_bit 16 STUN_MAGIC_COOKIE) else sa_port a)
      in case sa_host a of
           AF_INET ip \<Rightarrow> [[0], [STUN_AF_IPv4], rev (mem_u16 port), rev (mem_u32 (if tid \<noteq> None then ip XOR STUN_MAGIC_COOKIE else ip))]
         | AF_INET6 ip \<Rightarrow> [[0], [STUN_AF_IPv6], rev (mem_u16 port), (case tid of Some t \<Rightarrow> in6_xor_tid ip t | None \<Rightarrow> ip)]
         | AF_UNSPEC \<Rightarrow> [])"

definition value_pieces :: "u16 \<Rightarrow> stun_value \<Rightarrow> bytes option \<Rightarrow> bytes list" where
  "value_pieces t v tid =
     (case v of
        SaV a \<Rightarrow> addr_pieces a (if plain_addr_attr t then None else tid)
      | ChangeReq ip port \<Rightarrow> [rev (mem_u32 (push_bit 2 (of_bool ip) OR push_bit 1 (of_bool port)))]
      | StrV s \<Rightarrow> [s]
      | Integrity mi \<Rightarrow> [mi]
      | ErrCode code reason \<Rightarrow> [[0, 0], [ucast (code div 100)], [ucast (code mod 100)], reason]
      | UnknownAttr ts \<Rightarrow> map (\<lambda>x. rev (mem_u16 x)) ts
      | U16V n \<Rightarrow> [rev (mem_u16 n), [0, 0]]
      | U32V n \<Rightarrow> [rev (mem_u32 n)]
      | DataV d \<Rightarrow> [d]
      | U8V n \<Rightarrow> [[n], [0], [0, 0]]
      | EvenPort r \<Rightarrow> [[push_bit 7 (of_bool r)]]
      | NoValue \<Rightarrow> []
      | U64V n \<Rightarrow> [rev (mem_u64 n)])"

text \<open>An attribute whose value fits its type and the wire format.\<close>

definition sa_encodable :: "sockaddr \<Rightarrow> bool" where
  "sa_encodable a = (case sa_host a of AF_INET _ \<Rightarrow> True | AF_INET6 b \<Rightarrow> length b = 16 | AF_UNSPEC \<Rightarrow> False)"

definition attr_ok :: "u16 \<Rightarrow> stun_value \<Rightarrow> bool" where
  "attr_ok t v =
     (case v of
        SaV a \<Rightarrow> (plain_addr_attr t \<or> xor_addr_attr t) \<and> sa_encodable a
      | ChangeReq ip port \<Rightarrow> t = STUN_ATTR_CHANGE_REQ
      | StrV s \<Rightarrow> str_attr t \<and> 0 \<notin> set s \<and> length s < 2 ^ 16
      | Integrity mi \<Rightarrow> t = STUN_ATTR_MSG_INTEGRITY \<and> length mi = 20
      | ErrCode code reason \<Rightarrow> t = STUN_ATTR_ERR_CODE \<and> unat code < 800 \<and> 0 \<notin> set reason \<and> length reason + 4 < 2 ^ 16
      | UnknownAttr ts \<Rightarrow> t = STUN_ATTR_UNKNOWN_ATTR \<and> length ts \<le> 8
      | U16V n \<Rightarrow> u16_attr t
      | U32V n \<Rightarrow> u32_attr t
      | DataV d \<Rightarrow> t = STUN_ATTR_DATA \<and> length d < 2 ^ 16
      | U8V n \<Rightarrow> u8_attr t
      | EvenPort r \<Rightarrow> t = STUN_ATTR_EVEN_PORT
      | NoValue \<Rightarrow> flag_attr t
      | U64V n \<Rightarrow> u64_attr t)"

definition attr_bytes :: "u16 \<Rightarrow> stun_value \<Rightarrow> bytes option \<Rightarrow> u8 \<Rightarrow> bytes" where
  "attr_bytes t v tid padding =
     (let V = concat (value_pieces t v tid)
      in rev (mem_u16 t) @ rev (mem_u16 (word_of_nat (length V))) @ V @ replicate ((4 - length V mod 4) mod 4) padding)"

lemma mem_u16_0 [simp]: "mem_u16 0 = [0, 0]"
  by (simp add: mem_u16_def)

lemma takeWhile_no_nul: "0 \<notin> set s \<Longrightarrow> takeWhile (\<lambda>c. c \<noteq> 0) s = s"
  by (induction s) auto

lemma foldl_u16s: "foldl (\<lambda>m x. mbuf_write_u16 m (htons x)) mb ts = foldl mbuf_write_mem mb (map (\<lambda>x. rev (mem_u16 x)) ts)"
  "foldl (\<lambda>m x. mbuf_write_mem m (rev (mem_u16 x))) mb ts = foldl mbuf_write_mem mb (map (\<lambda>x. rev (mem_u16 x)) ts)"
  by (induction ts arbitrary: mb) (simp_all add: mbuf_write_u16_def layout)

lemma stun_addr_encode_pieces:
  "sa_encodable a \<Longrightarrow> stun_addr_encode mb a tid = (None, foldl mbuf_write_mem mb (addr_pieces a tid))"
  by (auto simp: stun_addr_encode_def addr_pieces_def sa_encodable_def Let_def mbuf_writes layout split: host.splits)

lemma stun_value_encode_pieces:
  "attr_ok t v \<Longrightarrow> stun_value_encode mb t v tid = (None, foldl mbuf_write_mem mb (value_pieces t v tid))"
  by (cases v) (auto simp: stun_value_encode_def attr_ok_def value_pieces_def stun_addr_encode_pieces takeWhile_no_nul
      mbuf_writes mbuf_write_u64_def layout foldl_u16s)

lemma pad_writes:
  assumes "mb_at mb C (length C)"
  shows "mb_at (((\<lambda>m. mbuf_write_u8 m x) ^^ n) mb) (C @ replicate n x) (length C + n)"
proof (induction n)
  case (Suc n)
  have "mb_at (((\<lambda>m. mbuf_write_u8 m x) ^^ n) mb) (C @ replicate n x) (length (C @ replicate n x))" using Suc by simp
  from write_end [OF this, of "[x]"] show ?case
    by (simp add: mbuf_write_u8_def replicate_append_same del: replicate_Suc) (simp add: replicate_append_same)
qed (use assms in simp)

lemma attr_encode_at:
  assumes "mb_at mb C p" and "length C \<le> p" and "attr_ok t v"
  shows "\<exists>g. length g = p - length C \<and> fst (stun_attr_encode mb t v tid padding) = None
    \<and> mb_at (snd (stun_attr_encode mb t v tid padding)) (C @ g @ attr_bytes t v tid padding)
        (p + length (attr_bytes t v tid padding))"
proof -
  define ps where "ps = value_pieces t v tid"
  define V where "V = concat ps"
  define m1 where "m1 = foldl mbuf_write_mem (mb\<lparr>mb_pos := p + 4\<rparr>) ps"
  define h1 h2 where "h1 = rev (mem_u16 t)" and "h2 = rev (mem_u16 (word_of_nat (length V)))"
  define m2 where "m2 = mbuf_write_mem (mbuf_write_mem (m1\<lparr>mb_pos := p\<rparr>) h1) h2"
  have p: "mb_pos mb = p" using assms(1) by (simp add: mb_at_def)
  have pos1: "mb_pos m1 = p + 4 + length V"
    unfolding m1_def V_def by (induction ps rule: rev_induct) simp_all
  have l: "length h1 = 2" "length h2 = 2" by (simp_all add: h1_def h2_def)
  have "\<exists>g. length g = p - length C \<and> mb_at (m2\<lparr>mb_pos := p + 4 + length V\<rparr>) (C @ g @ h1 @ h2 @ V) (p + 4 + length V)"
  proof (cases "ps = []")
    case True
    then have "mb_at (m1\<lparr>mb_pos := p\<rparr>) C p" using mb_at_pos [OF mb_at_pos [OF assms(1), of "p + 4"], of p] by (simp add: m1_def)
    from write_gap [OF this assms(2), of h1] obtain g where
      g: "length g = p - length C" "mb_at (mbuf_write_mem (m1\<lparr>mb_pos := p\<rparr>) h1) (C @ g @ h1) (p + length h1)" by blast
    have "p + length h1 = length (C @ g @ h1)" using g(1) assms(2) by simp
    with write_end [of _ "C @ g @ h1" h2] g(2) have "mb_at m2 (C @ g @ h1 @ h2) (p + 4)" by (simp add: m2_def l eval_nat_numeral)
    then show ?thesis using g(1) mb_at_pos True by (auto simp: V_def)
  next
    case False
    obtain g where g: "length g = p + 4 - length C" "mb_at m1 (C @ g @ V) (p + 4 + length V)"
      using writes_gap [OF mb_at_pos [OF assms(1)] _ False, of "p + 4"] assms(2) unfolding m1_def V_def by auto
    define g1 where "g1 = take (p - length C) g"
    have g1: "length (C @ g1) = p" "length g1 = p - length C" using g(1) assms(2) by (simp_all add: g1_def)
    obtain a b c d where gs: "g = g1 @ [a, b, c, d]"
    proof -
      define r where "r = drop (p - length C) g"
      have "length r = Suc (Suc (Suc (Suc 0)))" using g(1) assms(2) by (simp add: r_def)
      then obtain a b c d where "drop (p - length C) g = [a, b, c, d]" unfolding r_def [symmetric] by (auto simp: length_Suc_conv)
      then show ?thesis using that append_take_drop_id [of "p - length C" g] by (metis g1_def)
    qed
    have D: "C @ g @ V = (C @ g1) @ [a, b, c, d] @ V" by (simp add: gs)
    have "mb_at (m1\<lparr>mb_pos := p\<rparr>) ((C @ g1) @ [a, b, c, d] @ V) p" using mb_at_pos [OF g(2)] unfolding D .
    from write_over [OF this, of h1] have "mb_at (mbuf_write_mem (m1\<lparr>mb_pos := p\<rparr>) h1) ((C @ g1) @ h1 @ [c, d] @ V) (p + 2)"
      using g1(1) l(1) by (simp del: append_assoc add: append_assoc [of _ h1])
    from write_over [OF this, of h2] have "mb_at m2 ((C @ g1) @ h1 @ h2 @ V) (p + 4)"
      using g1(1) l by (simp add: m2_def eval_nat_numeral)
    then show ?thesis using g1(2) mb_at_pos by auto
  qed
  then obtain g where g: "length g = p - length C" "mb_at (m2\<lparr>mb_pos := p + 4 + length V\<rparr>) (C @ g @ h1 @ h2 @ V) (p + 4 + length V)"
    by blast
  have pos2: "mb_pos m2 = p + 4" by (simp add: m2_def l)
  have four: "Suc (Suc (p + length h1 + length V)) = p + 4 + length V" "length h1 + length V - 2 = length V" using l(1) by simp_all
  have enc: "stun_attr_encode mb t v tid padding = (None, ((\<lambda>m. mbuf_write_u8 m padding) ^^ ((4 - length V mod 4) mod 4))
      (m2\<lparr>mb_pos := p + 4 + length V\<rparr>))"
    using pos1 pos2
    by (simp add: stun_attr_encode_def stun_value_encode_pieces [OF assms(3)] p Let_def m1_def [symmetric] ps_def [symmetric]
        mbuf_write_u16_def layout h1_def [symmetric] h2_def [symmetric] m2_def [symmetric] four)
  have n: "p + 4 + length V = length (C @ g @ h1 @ h2 @ V)" using g(1) assms(2) l by simp
  note pad = pad_writes [OF g(2) [unfolded n], of "(4 - length V mod 4) mod 4" padding, folded n]
  have e: "p + length (h1 @ h2 @ V @ replicate k padding) = p + 4 + length V + k" for k using l by simp
  show ?thesis
    unfolding enc attr_bytes_def Let_def V_def [symmetric] ps_def [symmetric] h1_def [symmetric] h2_def [symmetric] e
    using g(1) pad by (intro exI [of _ g]) simp
qed

section \<open>The encoded message\<close>

lemma writes_over:
  "mb_at mb (A @ X @ B) (length A) \<Longrightarrow> length X = length (concat ps) \<Longrightarrow>
   mb_at (foldl mbuf_write_mem mb ps) (A @ concat ps @ B) (length A + length X)"
proof (induction ps arbitrary: mb A X)
  case (Cons p ps)
  have "mb_at (mbuf_write_mem mb p) ((A @ p) @ drop (length p) X @ B) (length (A @ p))"
    using write_over [OF Cons.prems(1), of p] Cons.prems(2) by simp
  from Cons.IH [OF this] Cons.prems(2) show ?case by (simp add: add.assoc)
qed simp

definition hdr_bytes :: "stun_hdr \<Rightarrow> bytes" where
  "hdr_bytes hdr = rev (mem_u16 (sh_type hdr AND 0x3fff)) @ rev (mem_u16 (sh_len hdr)) @ rev (mem_u32 (sh_cookie hdr)) @ sh_tid hdr"

lemma stun_hdr_encode_pieces:
  "stun_hdr_encode mb hdr = foldl mbuf_write_mem mb
     [rev (mem_u16 (sh_type hdr AND 0x3fff)), rev (mem_u16 (sh_len hdr)), rev (mem_u32 (sh_cookie hdr)), sh_tid hdr]"
  by (simp add: stun_hdr_encode_def Let_def mbuf_writes layout)

lemma length_hdr_bytes [simp]: "length (sh_tid hdr) = 12 \<Longrightarrow> length (hdr_bytes hdr) = 20"
  by (simp add: hdr_bytes_def)

lemma hdr_encode_over:
  assumes "mb_at m (C @ X @ B) q" and "length X = 20" and "length (sh_tid hdr) = 12"
  shows "mb_at (stun_hdr_encode (m\<lparr>mb_pos := length C\<rparr>) hdr) (C @ hdr_bytes hdr @ B) (length C + 20)"
  using writes_over [OF mb_at_pos [OF assms(1)], of "[rev (mem_u16 (sh_type hdr AND 0x3fff)), rev (mem_u16 (sh_len hdr)),
      rev (mem_u32 (sh_cookie hdr)), sh_tid hdr]"] assms(2,3)
  unfolding stun_hdr_encode_pieces by (simp add: hdr_bytes_def)

lemma hdr_encode_end:
  assumes "mb_at m C q" and "length (sh_tid hdr) = 12"
  shows "mb_at (stun_hdr_encode (m\<lparr>mb_pos := length C\<rparr>) hdr) (C @ hdr_bytes hdr) (length C + 20)"
  using writes_end [OF mb_at_pos [OF assms(1)], of "[rev (mem_u16 (sh_type hdr AND 0x3fff)), rev (mem_u16 (sh_len hdr)),
      rev (mem_u32 (sh_cookie hdr)), sh_tid hdr]"] assms(2)
  unfolding stun_hdr_encode_pieces by (simp add: hdr_bytes_def)

text \<open>What has been written behind the gap for the header.\<close>

definition behind_gap :: "mbuf \<Rightarrow> bytes \<Rightarrow> nat \<Rightarrow> bytes \<Rightarrow> bool" where
  "behind_gap mb C p bs \<longleftrightarrow>
     (if bs = [] then mb_at mb C p else \<exists>g. length g = p - length C \<and> mb_at mb (C @ g @ bs) (p + length bs))"

lemma attr_bytes_nonempty [simp]: "attr_bytes t v tid padding \<noteq> []"
  by (simp add: attr_bytes_def Let_def mem_u16_def)

lemma attr_encode_behind:
  assumes "behind_gap mb C p bs" and "length C \<le> p" and "attr_ok t v"
  shows "fst (stun_attr_encode mb t v tid padding) = None
    \<and> behind_gap (snd (stun_attr_encode mb t v tid padding)) C p (bs @ attr_bytes t v tid padding)"
proof (cases "bs = []")
  case True
  then have "mb_at mb C p" using assms(1) by (simp add: behind_gap_def)
  from attr_encode_at [OF this assms(2,3), of tid padding] True show ?thesis by (auto simp: behind_gap_def)
next
  case False
  then obtain g where g: "length g = p - length C" "mb_at mb (C @ g @ bs) (p + length bs)" using assms(1) by (auto simp: behind_gap_def)
  have "length (C @ g @ bs) = p + length bs" using g(1) assms(2) by simp
  with attr_encode_at [OF g(2) _ assms(3), of tid padding] show ?thesis
    using g(1) by (auto simp: behind_gap_def add.assoc)
qed

fun attrs_bytes :: "(u16 \<times> stun_value option) list \<Rightarrow> bytes \<Rightarrow> u8 \<Rightarrow> bytes" where
  "attrs_bytes [] tid padding = []"
| "attrs_bytes ((t, None) # as) tid padding = attrs_bytes as tid padding"
| "attrs_bytes ((t, Some v) # as) tid padding = attr_bytes t v (Some tid) padding @ attrs_bytes as tid padding"

definition attrs_ok :: "(u16 \<times> stun_value option) list \<Rightarrow> bool" where
  "attrs_ok as = list_all (\<lambda>(t, v). case v of None \<Rightarrow> True | Some v \<Rightarrow> attr_ok t v) as"

lemma encode_attrs_behind:
  assumes "behind_gap mb C p bs" and "length C \<le> p" and "attrs_ok as"
  shows "fst (encode_attrs as tid padding (None, mb)) = None
    \<and> behind_gap (snd (encode_attrs as tid padding (None, mb))) C p (bs @ attrs_bytes as tid padding)"
  using assms(1,3)
proof (induction as tid padding "(None :: errno option, mb)" arbitrary: mb bs rule: encode_attrs.induct)
  case (3 t v as tid padding mb)
  from attr_encode_behind [OF 3(2) assms(2), of t v "Some tid" padding] 3(3)
  have e: "stun_attr_encode mb t v (Some tid) padding = (None, snd (stun_attr_encode mb t v (Some tid) padding))"
    "behind_gap (snd (stun_attr_encode mb t v (Some tid) padding)) C p (bs @ attr_bytes t v (Some tid) padding)"
    by (auto simp: attrs_ok_def intro: prod_eqI)
  from 3(1) [OF e(1) [symmetric] refl, of "bs @ attr_bytes t v (Some tid) padding"] 3(3) e
  show ?case by (subst encode_attrs.simps) (auto simp: attrs_ok_def Let_def case_prod_beta)
qed (auto simp: attrs_ok_def)

text \<open>The bytes of a whole message; the integrity and the fingerprint cover what stands before them.\<close>

definition ec_bytes :: "(u16 \<times> bytes) option \<Rightarrow> u8 \<Rightarrow> bytes" where
  "ec_bytes ec padding = (case ec of None \<Rightarrow> [] | Some (c, r) \<Rightarrow> attr_bytes STUN_ATTR_ERR_CODE (ErrCode c r) None padding)"

definition mi_bytes :: "(bytes \<Rightarrow> bytes \<Rightarrow> bytes) \<Rightarrow> u16 \<Rightarrow> u8 \<Rightarrow> bytes \<Rightarrow> bytes option \<Rightarrow> u8 \<Rightarrow> bytes \<Rightarrow> bytes" where
  "mi_bytes hmac_sha1 met cls tid key padding B = (case key of None \<Rightarrow> []
     | Some k \<Rightarrow> attr_bytes STUN_ATTR_MSG_INTEGRITY
         (Integrity (hmac_sha1 k (hdr_bytes (msg_hdr met cls tid (length B + MI_SIZE)) @ B))) None padding)"

definition fp_bytes :: "u16 \<Rightarrow> u8 \<Rightarrow> bytes \<Rightarrow> bool \<Rightarrow> u8 \<Rightarrow> bytes \<Rightarrow> bytes" where
  "fp_bytes met cls tid fp padding B = (if fp then attr_bytes STUN_ATTR_FINGERPRINT
     (U32V (fingerprint (hdr_bytes (msg_hdr met cls tid (length B + FP_SIZE)) @ B))) None padding else [])"

definition msg_body ::
  "(bytes \<Rightarrow> bytes \<Rightarrow> bytes) \<Rightarrow> u16 \<Rightarrow> u8 \<Rightarrow> bytes \<Rightarrow> (u16 \<times> bytes) option \<Rightarrow> bytes option \<Rightarrow> bool \<Rightarrow> u8
    \<Rightarrow> (u16 \<times> stun_value option) list \<Rightarrow> bytes" where
  "msg_body hmac_sha1 met cls tid ec key fp padding attrs =
     (let B = ec_bytes ec padding @ attrs_bytes attrs tid padding;
          B = B @ mi_bytes hmac_sha1 met cls tid key padding B
      in B @ fp_bytes met cls tid fp padding B)"

definition msg_bytes ::
  "(bytes \<Rightarrow> bytes \<Rightarrow> bytes) \<Rightarrow> u16 \<Rightarrow> u8 \<Rightarrow> bytes \<Rightarrow> (u16 \<times> bytes) option \<Rightarrow> bytes option \<Rightarrow> bool \<Rightarrow> u8
    \<Rightarrow> (u16 \<times> stun_value option) list \<Rightarrow> bytes" where
  "msg_bytes hmac_sha1 met cls tid ec key fp padding attrs =
     (let B = msg_body hmac_sha1 met cls tid ec key fp padding attrs
      in hdr_bytes (msg_hdr met cls tid (length B)) @ B)"

lemma length_pad: "4 dvd n + (4 - n mod 4) mod (4 :: nat)"
proof -
  have "n + (4 - n mod 4) = 4 * (n div 4) + 4" using mult_div_mod_eq [of 4 n] mod_less_divisor [of 4 n] by linarith
  then have "(n + (4 - n mod 4)) mod 4 = 0" by simp
  then show ?thesis by (simp only: dvd_eq_mod_eq_0 mod_add_right_eq)
qed

lemma attr_bytes_aligned: "4 dvd length (attr_bytes t v tid padding)"
proof -
  let ?n = "length (concat (value_pieces t v tid))"
  have "length (attr_bytes t v tid padding) = 4 + (?n + (4 - ?n mod 4) mod 4)" by (simp add: attr_bytes_def Let_def)
  also have "4 dvd \<dots>" by (rule dvd_add [OF dvd_refl length_pad])
  finally show ?thesis .
qed

lemma attrs_bytes_aligned: "4 dvd length (attrs_bytes as tid padding)"
  by (induction as tid padding rule: attrs_bytes.induct) (simp_all add: attr_bytes_aligned)

lemma msg_attr_lengths:
  "length (attr_bytes STUN_ATTR_MSG_INTEGRITY (Integrity mi) tid padding) = 4 + length mi + (4 - length mi mod 4) mod 4"
  "length (attr_bytes STUN_ATTR_FINGERPRINT (U32V n) tid padding) = FP_SIZE"
  by (simp_all add: attr_bytes_def value_pieces_def Let_def)

lemma behind_gap_header:
  assumes "behind_gap m C (length C + 20) B" and "length (sh_tid hdr) = 12"
  shows "mb_at (stun_hdr_encode (m\<lparr>mb_pos := length C\<rparr>) hdr) (C @ hdr_bytes hdr @ B) (length C + 20)"
proof (cases "B = []")
  case True
  then show ?thesis using hdr_encode_end [of m C _ hdr] assms by (simp add: behind_gap_def)
next
  case False
  then obtain g where "length g = 20" "mb_at m (C @ g @ B) (length C + 20 + length B)" using assms(1) by (auto simp: behind_gap_def)
  then show ?thesis using hdr_encode_over [of m C g B] assms(2) by simp
qed

lemma behind_gap_pos:
  "behind_gap m C p B \<Longrightarrow> mb_pos m = p + length B"
  by (auto simp: behind_gap_def mb_at_def split: if_splits)

lemma mb_at_data: "mb_at m (A @ B) q \<Longrightarrow> mbuf_data (m\<lparr>mb_pos := length A\<rparr>) = B"
proof -
  assume a: "mb_at m (A @ B) q"
  then have "take (length B) (drop (length A) (mb_buf m)) = drop (length A) (take (length A + length B) (mb_buf m))"
    by (simp add: drop_take)
  also have "\<dots> = B" using a by (auto simp: mb_at_def mbuf_content_def)
  finally show ?thesis using a by (simp add: mbuf_data_def mbuf_get_left_def mb_at_def)
qed

text \<open>An attribute appended to a message that is complete so far.\<close>

lemma attr_encode_end:
  assumes "mb_at m A q" and "attr_ok t v"
  shows "fst (stun_attr_encode (m\<lparr>mb_pos := length A\<rparr>) t v tid padding) = None"
    "mb_at (snd (stun_attr_encode (m\<lparr>mb_pos := length A\<rparr>) t v tid padding)) (A @ attr_bytes t v tid padding)
      (length A + length (attr_bytes t v tid padding))"
  using attr_encode_at [OF mb_at_pos [OF assms(1)] _ assms(2), of "length A" tid padding] by auto

lemma unat_u16: "n < 2 ^ 16 \<Longrightarrow> unat (word_of_nat n :: u16) = n"
  by (simp add: unsigned_of_nat take_bit_nat_eq_self)

lemma vencode_attrs_behind:
  assumes "mb_at mb C (length C)" and "attrs_ok attrs" and "\<And>c r. ec = Some (c, r) \<Longrightarrow> attr_ok STUN_ATTR_ERR_CODE (ErrCode c r)"
  shows "\<exists>m. vencode_attrs mb ec attrs tid padding = (None, m)
    \<and> behind_gap m C (length C + 20) (ec_bytes ec padding @ attrs_bytes attrs tid padding)"
proof -
  have start: "mb_pos mb = length C" using assms(1) by (simp add: mb_at_def)
  let ?p = "length C + 20"
  define s0 where "s0 = (case ec of None \<Rightarrow> (None, mb\<lparr>mb_pos := ?p\<rparr>)
     | Some (c, r) \<Rightarrow> stun_attr_encode (mb\<lparr>mb_pos := ?p\<rparr>) STUN_ATTR_ERR_CODE (ErrCode c r) None padding)"
  have g0: "behind_gap (mb\<lparr>mb_pos := ?p\<rparr>) C ?p []" using mb_at_pos [OF assms(1)] by (simp add: behind_gap_def)
  have "fst s0 = None \<and> behind_gap (snd s0) C ?p (ec_bytes ec padding)"
    using g0 attr_encode_behind [OF g0 _ assms(3), of _ _ None padding]
    by (auto simp: s0_def ec_bytes_def split: option.split)
  then obtain m0 where s0: "s0 = (None, m0)" "behind_gap m0 C ?p (ec_bytes ec padding)" by (cases s0) auto
  from encode_attrs_behind [OF s0(2) _ assms(2), of tid padding] show ?thesis
    unfolding vencode_attrs_def Let_def start s0_def [symmetric] s0(1)
    by (cases "encode_attrs attrs tid padding (None, m0)") auto
qed

lemma vencode_integrity_bytes:
  assumes "behind_gap m C (length C + 20) B" and "length tid = 12" and "\<And>k x. length (hmac_sha1 k x) = 20"
    and "B1 = B @ mi_bytes hmac_sha1 met cls tid key padding B" and "length B1 < 2 ^ 16"
  shows "\<exists>m'. vencode_integrity hmac_sha1 (length C) (msg_hdr met cls tid) key padding None m = (None, m')
    \<and> mb_at m' (C @ hdr_bytes (msg_hdr met cls tid (length B1)) @ B1) (length C + 20 + length B1)"
proof -
  note B1_def = assms(4)
  define k where "k = length B + (if key \<noteq> None then MI_SIZE else 0)"
  define h where "h = msg_hdr met cls tid k"
  have ht: "length (sh_tid h) = 12" "sh_len h = word_of_nat k" using assms(2) by (simp_all add: h_def msg_hdr_def)
  have "length (mi_bytes hmac_sha1 met cls tid key padding B) = (if key \<noteq> None then MI_SIZE else 0)"
    using assms(3) by (simp add: mi_bytes_def msg_attr_lengths split: option.split)
  then have k: "k = length B1" by (simp add: k_def B1_def)
  have kw: "unat (sh_len h) = k" using assms(5) k ht(2) by (simp add: unat_u16)
  define m1 where "m1 = stun_hdr_encode (m\<lparr>mb_pos := length C\<rparr>) h"
  have m1: "mb_at m1 (C @ hdr_bytes h @ B) (length C + 20)" unfolding m1_def by (rule behind_gap_header [OF assms(1) ht(1)])
  define m2 where "m2 = m1\<lparr>mb_pos := length C + 20 + length B\<rparr>"
  have len: "length (C @ hdr_bytes h @ B) = length C + 20 + length B" using ht(1) by simp
  have m2: "mb_at m2 (C @ hdr_bytes h @ B) (length C + 20 + length B)" unfolding m2_def by (rule mb_at_pos [OF m1])
  have v: "vencode_integrity hmac_sha1 (length C) (msg_hdr met cls tid) key padding None m =
    (case key of None \<Rightarrow> (None, m2) | Some x \<Rightarrow> stun_attr_encode m2 STUN_ATTR_MSG_INTEGRITY (Integrity (hmac_sha1 x (hdr_bytes h @ B))) None padding)"
  proof -
    have hk: "msg_hdr met cls tid (mb_pos m - length C - 20 + (if key \<noteq> None then MI_SIZE else 0)) = h"
      using behind_gap_pos [OF assms(1)] by (simp add: h_def k_def)
    have p1: "mb_pos m1 + k - (if key \<noteq> None then MI_SIZE else 0) = length C + 20 + length B"
      using m1 by (simp add: mb_at_def k_def)
    have d: "mbuf_data (m2\<lparr>mb_pos := length C\<rparr>) = hdr_bytes h @ B" by (rule mb_at_data [OF m2])
    have p2: "m2\<lparr>mb_pos := length C + 20 + k - MI_SIZE\<rparr> = m2" if "key = Some x" for x using that by (simp add: m2_def k_def)
    show ?thesis
      unfolding vencode_integrity_def Let_def hk m1_def [symmetric] p1 m2_def [symmetric] d kw
      using p2 by (auto split: option.split prod.split)
  qed
  show ?thesis
  proof (cases key)
    case None
    then show ?thesis using v m2 k by (auto simp: B1_def mi_bytes_def h_def)
  next
    case (Some x)
    have m2': "m2\<lparr>mb_pos := length C + 20 + length B\<rparr> = m2" by (simp add: m2_def)
    have ok: "attr_ok STUN_ATTR_MSG_INTEGRITY (Integrity (hmac_sha1 x (hdr_bytes h @ B)))" using assms(3) by (simp add: attr_ok_def)
    have B1: "B1 = B @ attr_bytes STUN_ATTR_MSG_INTEGRITY (Integrity (hmac_sha1 x (hdr_bytes h @ B))) None padding"
      using Some by (simp add: B1_def mi_bytes_def h_def k_def)
    note e = attr_encode_end [OF m2 ok, of None padding, unfolded len, unfolded m2']
    have h: "msg_hdr met cls tid (length B1) = h" by (simp only: h_def k)
    show ?thesis
      unfolding h using e v Some unfolding B1
      by (cases "stun_attr_encode m2 STUN_ATTR_MSG_INTEGRITY (Integrity (hmac_sha1 x (hdr_bytes h @ B))) None padding") (auto simp: add.assoc)
  qed
qed

lemma vencode_fingerprint_bytes:
  assumes "mb_at m (C @ X @ B) (length C + 20 + length B)" and "length X = 20" and "length tid = 12"
    and "length B + FP_SIZE < 2 ^ 16" and "B2 = B @ fp_bytes met cls tid True padding B"
  shows "\<exists>m'. vencode_fingerprint (length C) (msg_hdr met cls tid) padding None m = (None, m')
    \<and> mb_at m' (C @ hdr_bytes (msg_hdr met cls tid (length B2)) @ B2) (length C + 20 + length B2)"
proof -
  note B2_def = assms(5)
  define h where "h = msg_hdr met cls tid (length B + FP_SIZE)"
  have ht: "length (sh_tid h) = 12" "sh_len h = word_of_nat (length B + FP_SIZE)" using assms(3) by (simp_all add: h_def msg_hdr_def)
  have kw: "unat (sh_len h) = length B + FP_SIZE" using assms(4) unfolding ht(2) by (rule unat_u16)
  define m1 where "m1 = stun_hdr_encode (m\<lparr>mb_pos := length C\<rparr>) h"
  have m1: "mb_at m1 (C @ hdr_bytes h @ B) (length C + 20)"
    unfolding m1_def by (rule hdr_encode_over [OF assms(1,2) ht(1)])
  have len: "length (C @ hdr_bytes h @ B) = length C + 20 + length B" using ht(1) by simp
  have hk: "msg_hdr met cls tid (mb_pos m - length C - 20 + FP_SIZE) = h" using assms(1) by (simp add: h_def mb_at_def)
  have d: "mbuf_data (m1\<lparr>mb_pos := length C\<rparr>) = hdr_bytes h @ B" by (rule mb_at_data [OF m1])
  have B2: "B2 = B @ attr_bytes STUN_ATTR_FINGERPRINT (U32V (fingerprint (hdr_bytes h @ B))) None padding"
    by (simp add: B2_def fp_bytes_def h_def)
  then have l2: "length B2 = length B + FP_SIZE" by (simp add: msg_attr_lengths)
  have p: "length C + 20 + (length B + FP_SIZE) - FP_SIZE = length C + 20 + length B" by simp
  have ok: "attr_ok STUN_ATTR_FINGERPRINT (U32V (fingerprint (hdr_bytes h @ B)))" by (simp add: attr_ok_def u32_attr_def)
  note e = attr_encode_end [OF m1 ok, of None padding, unfolded len]
  have v: "vencode_fingerprint (length C) (msg_hdr met cls tid) padding None m =
    stun_attr_encode (m1\<lparr>mb_pos := length C + 20 + length B\<rparr>) STUN_ATTR_FINGERPRINT (U32V (fingerprint (hdr_bytes h @ B))) None padding"
    unfolding vencode_fingerprint_def Let_def hk m1_def [symmetric] d kw p by (simp split: prod.split)
  have l3: "length C + 20 + (length B + FP_SIZE) = length C + 20 + length B + length (attr_bytes STUN_ATTR_FINGERPRINT (U32V (fingerprint (hdr_bytes h @ B))) None padding)"
    by (simp add: msg_attr_lengths)
  show ?thesis
    unfolding l2 h_def [symmetric] v l3 using e unfolding B2
    by (cases "stun_attr_encode (m1\<lparr>mb_pos := length C + 20 + length B\<rparr>) STUN_ATTR_FINGERPRINT (U32V (fingerprint (hdr_bytes h @ B))) None padding") auto
qed

lemma stun_msg_vencode_bytes:
  fixes hmac_sha1 :: "bytes \<Rightarrow> bytes \<Rightarrow> bytes"
  assumes "mb_at mb C (length C)" and "length tid = 12" and "attrs_ok attrs"
    and "\<And>c r. ec = Some (c, r) \<Longrightarrow> attr_ok STUN_ATTR_ERR_CODE (ErrCode c r)"
    and "\<And>k x. length (hmac_sha1 k x) = 20"
    and "length (msg_body hmac_sha1 met cls tid ec key fp padding attrs) < 2 ^ 16"
  shows "\<exists>m. stun_msg_vencode hmac_sha1 mb met cls tid ec key fp padding attrs = (None, m)
    \<and> mb_at m (C @ msg_bytes hmac_sha1 met cls tid ec key fp padding attrs)
        (length (C @ msg_bytes hmac_sha1 met cls tid ec key fp padding attrs))"
proof -
  define B where "B = ec_bytes ec padding @ attrs_bytes attrs tid padding"
  define B1 where "B1 = B @ mi_bytes hmac_sha1 met cls tid key padding B"
  have body: "msg_body hmac_sha1 met cls tid ec key fp padding attrs = B1 @ fp_bytes met cls tid fp padding B1"
    by (simp add: msg_body_def B1_def B_def Let_def)
  have start: "mb_pos mb = length C" using assms(1) by (simp add: mb_at_def)
  have tid: "take 12 tid = tid" using assms(2) by simp
  obtain m where m: "vencode_attrs mb ec attrs tid padding = (None, m)" "behind_gap m C (length C + 20) B"
    using vencode_attrs_behind [OF assms(1,3,4), where tid = tid and padding = padding] unfolding B_def by blast
  have l1: "length B1 < 2 ^ 16" using assms(6) unfolding body by simp
  obtain m1 where m1: "vencode_integrity hmac_sha1 (length C) (msg_hdr met cls tid) key padding None m = (None, m1)"
    "mb_at m1 (C @ hdr_bytes (msg_hdr met cls tid (length B1)) @ B1) (length C + 20 + length B1)"
    using vencode_integrity_bytes [OF m(2) assms(2,5) B1_def l1] by blast
  have ht: "length (hdr_bytes (msg_hdr met cls tid n)) = 20" for n using assms(2) by (simp add: msg_hdr_def)
  show ?thesis
  proof (cases fp)
    case True
    have "length B1 + FP_SIZE < 2 ^ 16" using assms(6) True unfolding body by (simp add: fp_bytes_def msg_attr_lengths)
    from vencode_fingerprint_bytes [OF m1(2) ht assms(2) this refl, of met cls padding] True show ?thesis
      unfolding stun_msg_vencode_def Let_def start tid m(1) msg_bytes_def body by (auto simp: m1(1) ht add.assoc)
  next
    case False
    then show ?thesis
      unfolding stun_msg_vencode_def Let_def start tid m(1) msg_bytes_def body using m1 ht by (auto simp: fp_bytes_def add.assoc)
  qed
qed

section \<open>Reading it back\<close>

definition adv :: "mbuf \<Rightarrow> nat \<Rightarrow> mbuf" where
  "adv mb n = mb\<lparr>mb_pos := mb_pos mb + n\<rparr>"

definition ahead :: "mbuf \<Rightarrow> bytes \<Rightarrow> bool" where
  "ahead mb xs \<longleftrightarrow> mbuf_wf mb \<and> mbuf_data mb = xs"

lemma adv_adv [simp]: "adv (adv mb a) b = adv mb (a + b)" by (simp add: adv_def add.assoc)
lemma adv_0 [simp]: "adv mb 0 = mb" by (simp add: adv_def)
lemma adv_pos [simp]: "mb_pos (adv mb n) = mb_pos mb + n" "mb_buf (adv mb n) = mb_buf mb" "mb_end (adv mb n) = mb_end mb"
  by (simp_all add: adv_def)

lemma ahead_left: "ahead mb xs \<Longrightarrow> mbuf_get_left mb = length xs"
  by (auto simp: ahead_def mbuf_get_left_data)

lemma read_mem:
  assumes "ahead mb (xs @ ys)"
  shows "mbuf_read_mem mb (length xs) = Inr (xs, adv mb (length xs))" "ahead (adv mb (length xs)) ys"
  using mbuf_read_data [of mb xs ys] assms by (simp_all add: ahead_def adv_def)

lemma read_mem_n: "ahead mb (xs @ ys) \<Longrightarrow> n = length xs \<Longrightarrow> mbuf_read_mem mb n = Inr (xs, adv mb n)"
  "ahead mb (xs @ ys) \<Longrightarrow> n = length xs \<Longrightarrow> ahead (adv mb n) ys"
  using read_mem by blast+

lemma read_u8:
  assumes "ahead mb (x # ys)"
  shows "mbuf_read_u8 mb = (x, adv mb 1)" "ahead (adv mb 1) ys"
  using read_mem [of mb "[x]" ys] assms by (simp_all add: mbuf_read_u8_def)

lemma read_u16:
  assumes "ahead mb (rev (mem_u16 v) @ ys)"
  shows "mbuf_read_u16 mb = (htons v, adv mb 2)" "ahead (adv mb 2) ys"
  using read_mem [OF assms] by (simp_all add: mbuf_read_u16_def htons_def)

lemma read_u32:
  assumes "ahead mb (rev (mem_u32 v) @ ys)"
  shows "mbuf_read_u32 mb = (htonl v, adv mb 4)" "ahead (adv mb 4) ys"
  using read_mem [OF assms] by (simp_all add: mbuf_read_u32_def htonl_def)

lemma read_u64:
  assumes "ahead mb (rev (mem_u64 v) @ ys)"
  shows "mbuf_read_u64 mb = (htonll v, adv mb 8)" "ahead (adv mb 8) ys"
  using read_mem [OF assms] by (simp_all add: mbuf_read_u64_def htonll_def)

lemma read_u16s_ahead:
  "ahead mb (concat (map (\<lambda>x. rev (mem_u16 x)) ts) @ ys) \<Longrightarrow>
   read_u16s (length ts) mb = (ts, adv mb (2 * length ts)) \<and> ahead (adv mb (2 * length ts)) ys"
proof (induction ts arbitrary: mb)
  case (Cons t ts)
  from read_u16 [of mb t] Cons.prems have r: "mbuf_read_u16 mb = (htons t, adv mb 2)"
    "ahead (adv mb 2) (concat (map (\<lambda>x. rev (mem_u16 x)) ts) @ ys)" by simp_all
  from Cons.IH [OF r(2)] r(1) show ?case by simp
qed simp

lemma read_str:
  assumes "ahead mb (s @ ys)"
  shows "str_decode mb (length s) = Inr (s, adv mb (length s))" "ahead (adv mb (length s)) ys"
  using read_mem [OF assms] ahead_left [OF assms] by (simp_all add: str_decode_def mbuf_strdup_def)

lemma adv_ahead: "ahead mb (xs @ ys) \<Longrightarrow> ahead (adv mb (length xs)) ys" by (rule read_mem(2))

lemma ahead_buf: "ahead mb (xs @ ys) \<Longrightarrow> take (length xs) (drop (mb_pos mb) (mb_buf mb)) = xs"
  by (metis (no_types, lifting) Inr_inject Pair_inject mbuf_read_mem_def read_mem(1) sum.distinct(1))

text \<open>XORing an address twice gives it back.\<close>

lemma xor_twice: "(a XOR k) XOR k = (a :: 'a::len word)"
  by (simp add: xor.assoc)

lemma in6_xor_tid_twice: "length a = 16 \<Longrightarrow> length t = 12 \<Longrightarrow> in6_xor_tid (in6_xor_tid a t) t = a"
  "length a = 16 \<Longrightarrow> length t = 12 \<Longrightarrow> length (in6_xor_tid a t) = 16"
  by (auto simp: in6_xor_tid_def intro!: nth_equalityI simp: xor_twice)

lemma stun_addr_decode_pieces:
  assumes "ahead mb (concat (addr_pieces a tid) @ ys)" and "sa_encodable a" and "\<And>t. tid = Some t \<Longrightarrow> length t = 12"
  shows "stun_addr_decode mb tid = Inr (a, adv mb (length (concat (addr_pieces a tid))))"
proof -
  define port where "port = (if tid \<noteq> None then sa_prt a XOR ucast (drop_bit 16 STUN_MAGIC_COOKIE) else sa_prt a)"
  have port2: "(if tid \<noteq> None then port XOR ucast (drop_bit 16 STUN_MAGIC_COOKIE) else port) = sa_prt a"
    by (simp add: port_def xor_twice)
  show ?thesis
  proof (cases "sa_host a")
    case (AF_INET ip)
    define ip' where "ip' = (if tid \<noteq> None then ip XOR STUN_MAGIC_COOKIE else ip)"
    have ip2: "(if tid \<noteq> None then ip' XOR STUN_MAGIC_COOKIE else ip') = ip" by (simp add: ip'_def xor_twice)
    have p: "addr_pieces a tid = [[0], [STUN_AF_IPv4], rev (mem_u16 port), rev (mem_u32 ip')]"
      using AF_INET by (auto simp: addr_pieces_def Let_def port_def ip'_def sa_port_def)
    have a0: "ahead mb (0 # STUN_AF_IPv4 # rev (mem_u16 port) @ rev (mem_u32 ip') @ ys)" using assms(1) p by simp
    note r0 = read_u8 [OF a0] note r1 = read_u8 [OF r0(2)] note r2 = read_u16 [OF r1(2)] note r3 = read_u32 [OF r2(2)]
    note l = ahead_left [OF a0] ahead_left [OF r2(2)]
    have e: "a = sa_set_in ip (sa_prt a)" using AF_INET by (simp add: sa_set_in_def)
    have n: "length (concat (addr_pieces a tid)) = 8" using ip2 by (simp add: p)
    show ?thesis
      unfolding stun_addr_decode_def Let_def n using r0 r1 r2 r3 l port2 ip2 e by (cases tid) simp_all
  next
    case (AF_INET6 ip)
    define ip' where "ip' = (case tid of Some t \<Rightarrow> in6_xor_tid ip t | None \<Rightarrow> ip)"
    have l16: "length ip = 16" using assms(2) AF_INET6 by (simp add: sa_encodable_def)
    have ip2: "(case tid of Some t \<Rightarrow> in6_xor_tid ip' t | None \<Rightarrow> ip') = ip" "length ip' = 16"
      using in6_xor_tid_twice [OF l16] assms(3) l16 by (auto simp: ip'_def split: option.split)
    have p: "addr_pieces a tid = [[0], [STUN_AF_IPv6], rev (mem_u16 port), ip']"
      using AF_INET6 by (auto simp: addr_pieces_def Let_def port_def ip'_def sa_port_def)
    have a0: "ahead mb (0 # STUN_AF_IPv6 # rev (mem_u16 port) @ ip' @ ys)" using assms(1) p by simp
    note r0 = read_u8 [OF a0] note r1 = read_u8 [OF r0(2)] note r2 = read_u16 [OF r1(2)] note r3 = read_mem [OF r2(2), unfolded ip2(2)]
    note l = ahead_left [OF a0] ahead_left [OF r2(2)]
    have e: "a = \<lparr>sa_host = AF_INET6 ip, sa_prt = sa_prt a\<rparr>" using AF_INET6 by simp
    have n: "length (concat (addr_pieces a tid)) = 20" using ip2 by (simp add: p)
    show ?thesis
      unfolding stun_addr_decode_def Let_def n using r0 r1 r2 r3 l port2 ip2 e by (cases tid) simp_all
  next
    case AF_UNSPEC
    then show ?thesis using assms(2) by (simp add: sa_encodable_def)
  qed
qed

text \<open>
  A value read back ends at most in the same word of four bytes as the value written: the reserved bytes of the
  short values are skipped with the padding.
\<close>

definition same_word :: "nat \<Rightarrow> nat \<Rightarrow> bool" where
  "same_word n k \<longleftrightarrow> n \<le> k \<and> n + (4 - n mod 4) mod 4 = k + (4 - k mod 4) mod 4"

lemma same_word_refl [simp]: "same_word n n" by (simp add: same_word_def)

lemma err_code_halves:
  assumes "unat code < 800"
  shows "ucast ((ucast (code div 100) :: u8) AND 7) * 100 + ucast (ucast (code mod 100) :: u8) = (code :: u16)"
proof -
  define n where "n = unat (code div 100)"
  have "n < 8" using assms by (simp add: n_def unat_div)
  then have "n \<in> {0, 1, 2, 3, 4, 5, 6, 7}" by auto
  moreover have q: "code div 100 = word_of_nat n" by (simp add: n_def)
  ultimately have a: "ucast ((ucast (code div 100) :: u8) AND 7) = code div 100" by auto
  have "code mod 100 < 100" by (simp add: word_less_nat_alt unat_mod)
  then have b: "ucast (ucast (code mod 100) :: u8) = code mod 100"
    by (intro word_unat_eq_iff [THEN iffD2]) (simp add: unat_mod unsigned_ucast_eq unsigned_take_bit_eq take_bit_nat_eq_self word_less_nat_alt)
  show ?thesis unfolding a b by (rule div_mult_mod_eq)
qed

text \<open>The kinds of attributes in the order of the decoder's switch exclude the earlier ones.\<close>

lemma str_kind: "str_attr t \<Longrightarrow> \<not> plain_addr_attr t \<and> \<not> xor_addr_attr t \<and> t \<noteq> STUN_ATTR_CHANGE_REQ"
  by (auto simp: attr_kinds)

lemma u16_kind: "u16_attr t \<or> u32_attr t \<or> u8_attr t \<or> flag_attr t \<or> u64_attr t \<Longrightarrow>
   \<not> plain_addr_attr t \<and> \<not> xor_addr_attr t \<and> t \<noteq> STUN_ATTR_CHANGE_REQ \<and> \<not> str_attr t \<and> t \<noteq> STUN_ATTR_MSG_INTEGRITY
   \<and> t \<noteq> STUN_ATTR_ERR_CODE \<and> t \<noteq> STUN_ATTR_UNKNOWN_ATTR"
  by (elim disjE; auto simp: attr_kinds)

lemma u32_kind: "u32_attr t \<or> u8_attr t \<or> flag_attr t \<or> u64_attr t \<Longrightarrow> \<not> u16_attr t"
  by (elim disjE; auto simp: attr_kinds)

lemma u8_kind: "u8_attr t \<or> flag_attr t \<or> u64_attr t \<Longrightarrow> \<not> u32_attr t \<and> t \<noteq> STUN_ATTR_DATA"
  by (elim disjE; auto simp: attr_kinds)

lemma flag_kind: "flag_attr t \<or> u64_attr t \<Longrightarrow> \<not> u8_attr t \<and> t \<noteq> STUN_ATTR_EVEN_PORT"
  by (elim disjE; auto simp: attr_kinds)

lemma u64_kind: "u64_attr t \<Longrightarrow> \<not> flag_attr t"
  by (auto simp: attr_kinds)

lemmas kinds_apart = str_kind u16_kind u32_kind u8_kind flag_kind u64_kind

lemma stun_value_decode_pieces:
  assumes "ahead mb (concat (value_pieces t v (Some tid)) @ ys)" and "attr_ok t v" and "length tid = 12"
  shows "\<exists>n. stun_value_decode mb t (length (concat (value_pieces t v (Some tid)))) (Some tid) ua = Inr (v, ua, adv mb n)
    \<and> same_word n (length (concat (value_pieces t v (Some tid))))"
proof (cases v)
  case (SaV a)
  show ?thesis
  proof (cases "plain_addr_attr t")
    case True
    with SaV assms stun_addr_decode_pieces [of mb a None ys] show ?thesis
      by (auto simp: stun_value_decode_def value_pieces_def attr_ok_def)
  next
    case False
    with SaV assms stun_addr_decode_pieces [of mb a "Some tid" ys] show ?thesis
      by (auto simp: stun_value_decode_def value_pieces_def attr_ok_def)
  qed
next
  case (ChangeReq ip port)
  with assms read_u32 [of mb "push_bit 2 (of_bool ip) OR push_bit 1 (of_bool port)" ys] show ?thesis
    by (auto simp: stun_value_decode_def value_pieces_def attr_ok_def attr_kinds)
next
  case (StrV s)
  with assms read_str [of mb s ys] show ?thesis
    by (auto simp: stun_value_decode_def value_pieces_def attr_ok_def kinds_apart)
next
  case (Integrity mi)
  with assms read_mem [of mb mi ys] show ?thesis
    by (auto simp: stun_value_decode_def value_pieces_def attr_ok_def attr_kinds)
next
  case (ErrCode code reason)
  let ?a = "ucast (code div 100) :: u8" and ?b = "ucast (code mod 100) :: u8"
  have a0: "ahead mb ([0, 0] @ ?a # ?b # reason @ ys)" using assms(1) ErrCode by (simp add: value_pieces_def)
  note a1 = adv_ahead [OF a0] note r1 = read_u8 [OF a1] note r2 = read_u8 [OF r1(2)] note r3 = read_str [OF r2(2)]
  have two: "mb\<lparr>mb_pos := Suc (Suc (mb_pos mb))\<rparr> = adv mb (Suc (Suc 0))" by (simp add: adv_def)
  from assms(2) have ok: "t = STUN_ATTR_ERR_CODE" "unat code < 800" by (simp_all add: ErrCode attr_ok_def)
  have n: "length (concat (value_pieces t v (Some tid))) = Suc (Suc (Suc (Suc (length reason))))" by (simp add: ErrCode value_pieces_def)
  show ?thesis
    unfolding n using r1(1) r2(1) r3(1) err_code_halves [OF ok(2)] two
    by (intro exI [of _ "Suc (Suc (Suc (Suc (length reason))))"])
      (simp add: stun_value_decode_def ErrCode ok(1) attr_kinds two)
next
  case (UnknownAttr ts)
  have "length (concat (map (\<lambda>x. rev (mem_u16 x)) ts)) = 2 * length ts" by (induction ts) simp_all
  with UnknownAttr assms read_u16s_ahead [of mb ts ys] show ?thesis
    by (auto simp: stun_value_decode_def value_pieces_def attr_ok_def attr_kinds)
next
  case (U8V n)
  with assms read_u8 [of mb n] show ?thesis
    by (auto simp: stun_value_decode_def value_pieces_def attr_ok_def kinds_apart same_word_def)
next
  case (U16V n)
  with assms read_u16 [of mb n] show ?thesis
    by (auto simp: stun_value_decode_def value_pieces_def attr_ok_def kinds_apart same_word_def)
next
  case (U32V n)
  with assms read_u32 [of mb n] show ?thesis
    by (auto simp: stun_value_decode_def value_pieces_def attr_ok_def kinds_apart)
next
  case (U64V n)
  with assms read_u64 [of mb n] show ?thesis
    by (auto simp: stun_value_decode_def value_pieces_def attr_ok_def kinds_apart)
next
  case (DataV d)
  with assms ahead_buf [of mb d ys] show ?thesis
    by (auto simp: stun_value_decode_def value_pieces_def attr_ok_def attr_kinds adv_def [symmetric])
next
  case (EvenPort r)
  with assms read_u8 [of mb "push_bit 7 (of_bool r)"] show ?thesis
    by (auto simp: stun_value_decode_def value_pieces_def attr_ok_def attr_kinds)
next
  case NoValue
  with assms show ?thesis
    by (auto simp: stun_value_decode_def value_pieces_def attr_ok_def kinds_apart intro: exI [of _ 0])
qed

lemma attr_ok_length: "attr_ok t v \<Longrightarrow> (\<And>x. tid = Some x \<Longrightarrow> length x = 12) \<Longrightarrow> length (concat (value_pieces t v tid)) < 2 ^ 16"
proof (cases v)
  case (SaV a)
  assume ok: "attr_ok t v" and tid: "\<And>x. tid = Some x \<Longrightarrow> length x = 12"
  have "length (concat (addr_pieces a t')) \<le> 20" if "t' = None \<or> t' = tid" for t'
    using ok SaV that tid in6_xor_tid_twice(2)
    by (auto simp: attr_ok_def sa_encodable_def addr_pieces_def Let_def split: host.splits option.splits)
  then have "length (concat (value_pieces t v tid)) \<le> 20" using SaV by (simp add: value_pieces_def del: length_concat)
  then show ?thesis by simp
next
  case (UnknownAttr ts)
  assume ok: "attr_ok t v"
  have "length (concat (map (\<lambda>x. rev (mem_u16 x)) ts)) = 2 * length ts" by (induction ts) simp_all
  then show ?thesis using UnknownAttr ok by (simp add: value_pieces_def attr_ok_def)
qed (auto simp: value_pieces_def attr_ok_def)

lemma stun_attr_decode_bytes:
  assumes "ahead mb (attr_bytes t v (Some tid) padding @ ys)" and "attr_ok t v" and "length tid = 12"
  shows "stun_attr_decode mb (Some tid) ua =
      Inr (\<lparr>at_type = t, at_val = v\<rparr>, ua, adv mb (length (attr_bytes t v (Some tid) padding)))"
    "ahead (adv mb (length (attr_bytes t v (Some tid) padding))) ys"
proof -
  define V where "V = concat (value_pieces t v (Some tid))"
  define k where "k = (4 - length V mod 4) mod 4"
  have len: "length (attr_bytes t v (Some tid) padding) = 4 + length V + k"
    by (simp add: attr_bytes_def Let_def V_def k_def)
  show "ahead (adv mb (length (attr_bytes t v (Some tid) padding))) ys" by (rule adv_ahead [OF assms(1)])
  have a: "ahead mb (rev (mem_u16 t) @ rev (mem_u16 (word_of_nat (length V))) @ V @ replicate k padding @ ys)"
    using assms(1) by (simp add: attr_bytes_def Let_def V_def [symmetric] k_def [symmetric])
  note r1 = read_u16 [OF a] note r2 = read_u16 [OF r1(2), unfolded adv_adv]
  have l2: "mbuf_get_left (adv mb (2 + 2)) = length V + k + length ys" using ahead_left [OF r2(2)] by simp
  have w: "unat (word_of_nat (length V) :: u16) = length V"
    using attr_ok_length [OF assms(2), of "Some tid"] assms(3) unfolding V_def by (intro unat_u16) auto
  obtain n where n: "stun_value_decode (adv mb (2 + 2)) t (length V) (Some tid) ua = Inr (v, ua, adv (adv mb (2 + 2)) n)"
    "same_word n (length V)"
    using stun_value_decode_pieces [OF r2(2) [unfolded V_def] assms(2,3), of ua] unfolding V_def by blast
  have nk: "n \<le> length V" "n + (4 - n mod 4) mod 4 = length V + k" using n(2) by (simp_all add: same_word_def k_def)
  have ln: "mbuf_get_left (adv mb (2 + 2 + n)) = length V + k + length ys - n"
    using l2 by (auto simp: mbuf_get_left_def adv_def split: if_splits)
  have "4 \<le> mbuf_get_left mb" using ahead_left [OF a] by simp
  then have dec: "stun_attr_decode mb (Some tid) ua = Inr (\<lparr>at_type = t, at_val = v\<rparr>, ua,
      adv mb (2 + 2 + n + min ((4 - n mod 4) mod 4) (length V + k + length ys - n)))"
    unfolding stun_attr_decode_def Let_def r1(1) prod.case r2(1) htons_htons w l2 n(1) sum.case adv_adv ln adv_pos
    by (simp add: adv_def add.assoc)
  moreover have "2 + 2 + n + min ((4 - n mod 4) mod 4) (length V + k + length ys - n) = 4 + length V + k" using nk by linarith
  ultimately show "stun_attr_decode mb (Some tid) ua =
      Inr (\<lparr>at_type = t, at_val = v\<rparr>, ua, adv mb (length (attr_bytes t v (Some tid) padding)))" unfolding len by simp
qed

definition wire :: "bytes \<Rightarrow> u8 \<Rightarrow> (u16 \<times> stun_value) list \<Rightarrow> bytes" where
  "wire tid padding as = concat (map (\<lambda>(t, v). attr_bytes t v (Some tid) padding) as)"

definition to_attr :: "u16 \<times> stun_value \<Rightarrow> stun_attr" where
  "to_attr p = \<lparr>at_type = fst p, at_val = snd p\<rparr>"

lemma decode_attrs_wire:
  assumes "ahead mb (wire tid padding as @ ys)" and "list_all (\<lambda>(t, v). attr_ok t v) as" and "length tid = 12"
  shows "decode_attrs (length ys) tid mb ua = Inr (map to_attr as, ua)"
  using assms(1,2)
proof (induction as arbitrary: mb)
  case Nil
  then show ?case using ahead_left [of mb ys] by (simp add: wire_def decode_attrs.simps)
next
  case (Cons p as)
  obtain t v where p: "p = (t, v)" by (cases p)
  have a: "ahead mb (attr_bytes t v (Some tid) padding @ wire tid padding as @ ys)" using Cons.prems(1) by (simp add: wire_def p)
  have ok: "attr_ok t v" using Cons.prems(2) by (simp add: p)
  note d = stun_attr_decode_bytes [OF a ok assms(3)]
  have "4 \<le> length (attr_bytes t v (Some tid) padding)" by (simp add: attr_bytes_def Let_def)
  then have "mbuf_get_left mb - length ys \<ge> 4" using ahead_left [OF a] by simp
  then show ?case
    using d(1) Cons.IH [OF d(2)] Cons.prems(2) by (subst decode_attrs.simps) (simp add: p to_attr_def)
qed

lemma stun_hdr_decode_bytes:
  assumes "ahead mb (hdr_bytes h @ B @ ys)" and "sh_type h AND 0x3fff = sh_type h" and "length (sh_tid h) = 12"
    and "unat (sh_len h) = length B" and "4 dvd length B"
  shows "stun_hdr_decode mb = Inr (h, adv mb 20)" "ahead (adv mb 20) (B @ ys)"
proof -
  have a: "ahead mb (rev (mem_u16 (sh_type h)) @ rev (mem_u16 (sh_len h)) @ rev (mem_u32 (sh_cookie h)) @ sh_tid h @ B @ ys)"
    using assms(1,2) by (simp add: hdr_bytes_def)
  note r1 = read_u16 [OF a] note r2 = read_u16 [OF r1(2), unfolded adv_adv] note r3 = read_u32 [OF r2(2), unfolded adv_adv]
  note r4 = read_mem [OF r3(2), unfolded adv_adv assms(3)]
  have "sh_type h AND 0xc000 = (sh_type h AND 0x3fff) AND 0xc000" by (simp only: assms(2))
  also have "\<dots> = 0" by (simp add: and.assoc)
  finally have t: "sh_type h AND 0xc000 = 0" .
  have "sh_len h AND 3 = take_bit 2 (sh_len h)" by (simp add: take_bit_eq_mask mask_eq_exp_minus_1)
  also have "unat \<dots> = length B mod 4" using assms(4) by (simp only: unsigned_take_bit_eq) (simp add: take_bit_eq_mod)
  then have "take_bit 2 (sh_len h) = 0" using assms(5) by (simp add: word_unat_eq_iff dvd_eq_mod_eq_0)
  finally have n: "sh_len h AND 3 = 0" .
  have l: "20 \<le> mbuf_get_left mb" "mbuf_get_left (adv mb (2 + 2 + 4 + 12)) = length B + length ys"
    using ahead_left [OF a] ahead_left [OF r4(2)] assms(3) by simp_all
  show "stun_hdr_decode mb = Inr (h, adv mb 20)"
    unfolding stun_hdr_decode_def Let_def r1(1) prod.case r2(1) r3(1) r4(1) htons_htons htonl_htonl sum.case l(2)
    using l(1) t n assms(4) by simp
  show "ahead (adv mb 20) (B @ ys)" using r4(2) by simp
qed

section \<open>Whole messages\<close>

text \<open>The attributes of an encoded message: the error code, those given, the integrity and the fingerprint.\<close>

definition present :: "(u16 \<times> stun_value option) list \<Rightarrow> (u16 \<times> stun_value) list" where
  "present as = List.map_filter (\<lambda>(t, v). map_option (Pair t) v) as"

definition given_attrs :: "(u16 \<times> bytes) option \<Rightarrow> (u16 \<times> stun_value option) list \<Rightarrow> (u16 \<times> stun_value) list" where
  "given_attrs ec attrs =
     (case ec of None \<Rightarrow> [] | Some (c, r) \<Rightarrow> [(STUN_ATTR_ERR_CODE, ErrCode c r)]) @ present attrs"

definition mi_attrs ::
  "(bytes \<Rightarrow> bytes \<Rightarrow> bytes) \<Rightarrow> u16 \<Rightarrow> u8 \<Rightarrow> bytes \<Rightarrow> bytes option \<Rightarrow> bytes \<Rightarrow> (u16 \<times> stun_value) list" where
  "mi_attrs hmac_sha1 met cls tid key B = (case key of None \<Rightarrow> []
     | Some k \<Rightarrow> [(STUN_ATTR_MSG_INTEGRITY, Integrity (hmac_sha1 k (hdr_bytes (msg_hdr met cls tid (length B + MI_SIZE)) @ B)))])"

definition fp_attrs :: "u16 \<Rightarrow> u8 \<Rightarrow> bytes \<Rightarrow> bool \<Rightarrow> bytes \<Rightarrow> (u16 \<times> stun_value) list" where
  "fp_attrs met cls tid fp B = (if fp
     then [(STUN_ATTR_FINGERPRINT, U32V (fingerprint (hdr_bytes (msg_hdr met cls tid (length B + FP_SIZE)) @ B)))] else [])"

definition msg_attrs ::
  "(bytes \<Rightarrow> bytes \<Rightarrow> bytes) \<Rightarrow> u16 \<Rightarrow> u8 \<Rightarrow> bytes \<Rightarrow> (u16 \<times> bytes) option \<Rightarrow> bytes option \<Rightarrow> bool \<Rightarrow> u8
    \<Rightarrow> (u16 \<times> stun_value option) list \<Rightarrow> (u16 \<times> stun_value) list" where
  "msg_attrs hmac_sha1 met cls tid ec key fp padding attrs =
     (let B = wire tid padding (given_attrs ec attrs);
          mi = mi_attrs hmac_sha1 met cls tid key B
      in given_attrs ec attrs @ mi @ fp_attrs met cls tid fp (B @ wire tid padding mi))"

lemma present_simps [simp]: "present [] = []" "present ((t, None) # as) = present as" "present ((t, Some v) # as) = (t, v) # present as"
  by (simp_all add: present_def List.map_filter_def)

lemma wire_simps [simp]: "wire tid padding [] = []" "wire tid padding (p # as) = attr_bytes (fst p) (snd p) (Some tid) padding @ wire tid padding as"
  "wire tid padding (as @ bs) = wire tid padding as @ wire tid padding bs"
  by (simp_all add: wire_def case_prod_beta)

lemma attrs_bytes_wire: "attrs_bytes as tid padding = wire tid padding (present as)"
  by (induction as tid padding rule: attrs_bytes.induct) simp_all

lemma attr_bytes_tid: "(\<And>a. v \<noteq> SaV a) \<Longrightarrow> attr_bytes t v tid padding = attr_bytes t v None padding"
  by (simp add: attr_bytes_def value_pieces_def Let_def split: stun_value.split)

lemma given_wire: "ec_bytes ec padding @ attrs_bytes attrs tid padding = wire tid padding (given_attrs ec attrs)"
  by (simp add: ec_bytes_def given_attrs_def attrs_bytes_wire attr_bytes_tid [of _ _ "Some tid"] split: option.split)

lemma mi_wire: "mi_bytes hmac_sha1 met cls tid key padding B = wire tid padding (mi_attrs hmac_sha1 met cls tid key B)"
  by (simp add: mi_bytes_def mi_attrs_def attr_bytes_tid [of _ _ "Some tid"] split: option.split)

lemma fp_wire: "fp_bytes met cls tid fp padding B = wire tid padding (fp_attrs met cls tid fp B)"
  by (simp add: fp_bytes_def fp_attrs_def attr_bytes_tid [of _ _ "Some tid"])

lemma msg_body_wire:
  "msg_body hmac_sha1 met cls tid ec key fp padding attrs = wire tid padding (msg_attrs hmac_sha1 met cls tid ec key fp padding attrs)"
  by (simp add: msg_body_def msg_attrs_def Let_def given_wire mi_wire fp_wire)

lemma wire_aligned: "4 dvd length (wire tid padding as)"
  by (induction as) (auto intro: dvd_add attr_bytes_aligned)

definition ec_ok :: "(u16 \<times> bytes) option \<Rightarrow> bool" where
  "ec_ok ec = (case ec of None \<Rightarrow> True | Some (c, r) \<Rightarrow> attr_ok STUN_ATTR_ERR_CODE (ErrCode c r))"

lemma msg_attrs_ok:
  assumes "attrs_ok attrs" and "ec_ok ec" and "\<And>k x. length (hmac_sha1 k x) = 20"
  shows "list_all (\<lambda>(t, v). attr_ok t v) (msg_attrs hmac_sha1 met cls tid ec key fp padding attrs)"
proof -
  have "list_all (\<lambda>(t, v). attr_ok t v) (present attrs)"
    using assms(1) by (induction attrs rule: induct_list012) (auto simp: attrs_ok_def present_def List.map_filter_def split: option.splits)
  then have "list_all (\<lambda>(t, v). attr_ok t v) (given_attrs ec attrs)"
    using assms(2) by (auto simp: given_attrs_def ec_ok_def split: option.split)
  moreover have "list_all (\<lambda>(t, v). attr_ok t v) (mi_attrs hmac_sha1 met cls tid key B)" for B
    using assms(3) by (simp add: mi_attrs_def attr_ok_def split: option.split)
  moreover have "list_all (\<lambda>(t, v). attr_ok t v) (fp_attrs met cls tid fp B)" for B
    by (simp add: fp_attrs_def attr_ok_def u32_attr_def)
  ultimately show ?thesis by (simp add: msg_attrs_def Let_def)
qed

text \<open>
  The method and the class share the bits of the type without touching each other or the two top bits. But
  \<open>STUN_CLASS\<close> does not mask the bits of the method that lie between the two bits of the class.
\<close>

lemma u16_eqI:
  fixes a b :: u16
  assumes "list_all (\<lambda>n. bit a n = bit b n) [0, 1, 2, 3, 4, 5, 6, 7, 8, 9, 10, 11, 12, 13, 14, 15]"
  shows "a = b"
proof (rule bit_word_eqI)
  fix n :: nat assume "n < LENGTH(16)"
  then have "n \<in> set [0..<16]" by simp
  moreover have "[0..<16] = [0, 1, 2, 3, 4, 5, 6, 7, 8, 9, 10, 11, 12, 13, 14, 15]" by (simp add: upt_conv_Cons)
  ultimately have "n \<in> set [0, 1, 2, 3, 4, 5, 6, 7, 8, 9, 10, 11, 12, 13, 14, 15]" by simp
  with assms show "bit a n = bit b n" by auto
qed

lemma bit_times_2: "bit (v * 2 :: u16) n \<longleftrightarrow> n \<noteq> 0 \<and> n < 16 \<and> bit v (n - 1)"
  by (auto simp: mult.commute [of v 2] bit_double_iff possible_bit_word)

lemma STUN_TYPE_fits: "STUN_TYPE met cls AND 0x3fff = STUN_TYPE met cls"
  by (rule u16_eqI) (simp add: STUN_TYPE_def bit_simps)

lemma STUN_METHOD_TYPE: "STUN_METHOD (STUN_TYPE met cls) = met AND 0xfff"
  by (rule u16_eqI) (simp add: STUN_TYPE_def STUN_METHOD_def bit_simps bit_times_2)

lemma STUN_CLASS_TYPE:
  assumes "met AND 0x50 = 0"
  shows "STUN_CLASS (STUN_TYPE met cls) = ucast cls AND 3"
proof -
  have "\<not> bit (met AND 0x50) 4" "\<not> bit (met AND 0x50) 6" using assms by simp_all
  then have "\<not> bit met 4" "\<not> bit met 6" by (simp_all add: bit_simps)
  then show ?thesis by (intro u16_eqI) (simp add: STUN_TYPE_def STUN_CLASS_def bit_simps bit_times_2)
qed

lemma STUN_CLASS_confused: "STUN_CLASS (STUN_TYPE 0x10 STUN_CLASS_REQUEST) = 2" "STUN_CLASS (STUN_TYPE 0x40 STUN_CLASS_REQUEST) = 1"
  by (simp_all add: STUN_TYPE_def STUN_CLASS_def)

lemma stun_msg_decode_bytes:
  assumes "ahead mb (msg_bytes hmac_sha1 met cls tid ec key fp padding attrs @ ys)" and "length tid = 12"
    and "attrs_ok attrs" and "ec_ok ec" and "\<And>k x. length (hmac_sha1 k x) = 20"
    and "length (msg_body hmac_sha1 met cls tid ec key fp padding attrs) < 2 ^ 16"
  shows "stun_msg_decode mb want_ua = Inr (\<lparr>
      sm_hdr = msg_hdr met cls tid (length (msg_body hmac_sha1 met cls tid ec key fp padding attrs)),
      sm_attrl = map to_attr (msg_attrs hmac_sha1 met cls tid ec key fp padding attrs),
      sm_mb = mb, sm_start = mb_pos mb\<rparr>, if want_ua then Some [] else None)"
proof -
  define B where "B = msg_body hmac_sha1 met cls tid ec key fp padding attrs"
  define h where "h = msg_hdr met cls tid (length B)"
  have a: "ahead mb (hdr_bytes h @ B @ ys)" using assms(1) by (simp add: msg_bytes_def Let_def B_def h_def)
  have h: "sh_type h AND 0x3fff = sh_type h" "sh_tid h = tid" "unat (sh_len h) = length B"
    using assms(6) by (simp_all add: h_def msg_hdr_def STUN_TYPE_fits B_def unat_u16)
  have al: "4 dvd length B" unfolding B_def msg_body_wire by (rule wire_aligned)
  note d = stun_hdr_decode_bytes [OF a h(1) _ h(3) al, unfolded h(2), OF assms(2)]
  have l: "mbuf_get_left (adv mb 20) - unat (sh_len h) = length ys" using ahead_left [OF d(2)] h(3) by simp
  note w = decode_attrs_wire [OF d(2) [unfolded B_def msg_body_wire] msg_attrs_ok [OF assms(3,4,5)] assms(2)]
  show ?thesis
    unfolding stun_msg_decode_def d(1) sum.case prod.case l h(2) w by (simp add: h_def B_def)
qed

lemma mb_at_ahead:
  assumes "mb_at m (C @ X) q"
  shows "ahead (m\<lparr>mb_pos := length C\<rparr>) X"
  using mb_at_data [OF assms] assms by (auto simp: ahead_def mbuf_wf_def mb_at_def)

lemma encode_then_decode:
  fixes hmac_sha1 :: "bytes \<Rightarrow> bytes \<Rightarrow> bytes"
  assumes "mb_at mb C (length C)" and "length tid = 12" and "attrs_ok attrs" and "ec_ok ec"
    and "\<And>k x. length (hmac_sha1 k x) = 20"
    and "length (msg_body hmac_sha1 met cls tid ec key fp padding attrs) < 2 ^ 16"
  obtains m where "stun_msg_vencode hmac_sha1 mb met cls tid ec key fp padding attrs = (None, m)"
    "ahead (m\<lparr>mb_pos := length C\<rparr>) (msg_bytes hmac_sha1 met cls tid ec key fp padding attrs)"
proof -
  have "attr_ok STUN_ATTR_ERR_CODE (ErrCode c r)" if "ec = Some (c, r)" for c r using assms(4) that by (simp add: ec_ok_def)
  from stun_msg_vencode_bytes [OF assms(1,2,3) this assms(5,6)] mb_at_ahead that show ?thesis by blast
qed

definition no_checks :: "(u16 \<times> stun_value option) list \<Rightarrow> bool" where
  "no_checks attrs = list_all (\<lambda>(t, v). t \<noteq> STUN_ATTR_MSG_INTEGRITY \<and> t \<noteq> STUN_ATTR_FINGERPRINT) attrs"

text \<open>A request with a short-term credential, for the witnesses.\<close>

definition request_attrs :: "(u16 \<times> stun_value option) list" where
  "request_attrs = [(STUN_ATTR_USERNAME, Some (StrV [97, 58, 98])), (STUN_ATTR_XOR_MAPPED_ADDR, Some (SaV (sa_set_in 0xC0000201 5000))),
     (STUN_ATTR_SOFTWARE, None), (STUN_ATTR_PRIORITY, Some (U32V 7))]"

lemma request_attrs_ok: "attrs_ok request_attrs" "no_checks request_attrs"
  by (simp_all add: request_attrs_def attrs_ok_def attr_ok_def attr_kinds no_checks_def sa_encodable_def sa_set_in_def)

lemma length_mi_attr: "length mi = 20 \<Longrightarrow> length (attr_bytes STUN_ATTR_MSG_INTEGRITY (Integrity mi) tid padding) = 24"
  by (simp add: msg_attr_lengths)

lemma request_body:
  assumes "\<And>k x. length (hmac_sha1 k x) = 20"
  shows "length (msg_body hmac_sha1 met cls tid None (Some key) True padding request_attrs) = 60"
  using assms
  by (simp add: msg_body_def Let_def ec_bytes_def request_attrs_def mi_bytes_def fp_bytes_def length_mi_attr msg_attr_lengths)
    (simp add: attr_bytes_def value_pieces_def addr_pieces_def sa_set_in_def sa_port_def attr_kinds Let_def)

text \<open>
  C20: A message that \<open>stun_msg_vencode\<close> writes is read back by \<open>stun_msg_decode\<close> exactly, whatever the buffer
  held before: the method, the class, the transaction id, and in order the error code, every attribute given (plain
  and XORed IPv4 and IPv6 addresses among them), the integrity and the fingerprint; no attribute counts as unknown.
\<close>

theorem stun_msg_roundtrip:
  fixes hmac_sha1 :: "bytes \<Rightarrow> bytes \<Rightarrow> bytes"
  assumes "mb_at mb C (length C)" and "length tid = 12" and "attrs_ok attrs" and "ec_ok ec"
    and "\<And>k x. length (hmac_sha1 k x) = 20"
    and "length (msg_body hmac_sha1 met cls tid ec key fp padding attrs) < 2 ^ 16"
    and "met AND 0xfaf = met" and "cls < 4"
  shows "\<exists>m msg. stun_msg_vencode hmac_sha1 mb met cls tid ec key fp padding attrs = (None, m)
    \<and> stun_msg_decode (m\<lparr>mb_pos := mb_pos mb\<rparr>) True = Inr (msg, Some [])
    \<and> stun_msg_method msg = met \<and> stun_msg_class msg = ucast cls \<and> stun_msg_mcookie msg \<and> sh_tid (sm_hdr msg) = tid
    \<and> sm_attrl msg = map to_attr (msg_attrs hmac_sha1 met cls tid ec key fp padding attrs)"
proof -
  from assms(1) have p: "mb_pos mb = length C" by (simp add: mb_at_def)
  obtain m where m: "stun_msg_vencode hmac_sha1 mb met cls tid ec key fp padding attrs = (None, m)"
    "ahead (m\<lparr>mb_pos := length C\<rparr>) (msg_bytes hmac_sha1 met cls tid ec key fp padding attrs @ [])"
    using encode_then_decode [OF assms(1-6)] by auto
  have "(met AND 0xfaf) AND 0xfff = met AND 0xfaf" "(met AND 0xfaf) AND 0x50 = 0" by (simp_all add: and.assoc)
  then have met: "met AND 0xfff = met" "met AND 0x50 = 0" unfolding assms(7) .
  define n where "n = unat cls"
  have "n < 4" using assms(8) by (simp add: n_def word_less_nat_alt)
  then have "n \<in> {0, 1, 2, 3}" by auto
  moreover have "cls = word_of_nat n" by (simp add: n_def)
  ultimately have "ucast cls AND 3 = (ucast cls :: u16)" by auto
  then show ?thesis
    unfolding p m(1) using stun_msg_decode_bytes [OF m(2) assms(2-6), of True] STUN_METHOD_TYPE STUN_CLASS_TYPE [OF met(2)] met(1)
    by (simp add: stun_msg_method_def stun_msg_class_def stun_msg_type_def stun_msg_mcookie_def msg_hdr_def)
qed

theorem stun_msg_roundtrip_witness:
  "\<exists>m msg. stun_msg_vencode (\<lambda>k x. replicate 20 (of_nat (length k + length x))) (mbuf_alloc 0) STUN_METHOD_BINDING STUN_CLASS_REQUEST
        (replicate 12 9) None (Some [1]) True 0 request_attrs = (None, m)
    \<and> stun_msg_decode (m\<lparr>mb_pos := mb_pos (mbuf_alloc 0)\<rparr>) True = Inr (msg, Some [])
    \<and> stun_msg_method msg = STUN_METHOD_BINDING \<and> stun_msg_class msg = ucast STUN_CLASS_REQUEST \<and> stun_msg_mcookie msg
    \<and> sh_tid (sm_hdr msg) = replicate 12 9
    \<and> sm_attrl msg = map to_attr (msg_attrs (\<lambda>k x. replicate 20 (of_nat (length k + length x))) STUN_METHOD_BINDING STUN_CLASS_REQUEST
        (replicate 12 9) None (Some [1]) True 0 request_attrs)"
proof (rule stun_msg_roundtrip [where C = "[]"])
  show "mb_at (mbuf_alloc 0) [] (length [])" using mb_at_alloc [of 0] by simp
qed (simp_all add: request_attrs_ok request_body ec_ok_def)

lemma find_given:
  assumes "no_checks attrs" and "t = STUN_ATTR_MSG_INTEGRITY \<or> t = STUN_ATTR_FINGERPRINT"
  shows "find (\<lambda>a. at_type a = t) (map to_attr (given_attrs ec attrs) @ xs) = find (\<lambda>a. at_type a = t) xs"
proof -
  have "find (\<lambda>a. at_type a = t) (map to_attr (present attrs) @ xs) = find (\<lambda>a. at_type a = t) xs"
    using assms by (induction attrs rule: induct_list012)
      (auto simp: no_checks_def present_def List.map_filter_def to_attr_def split: option.splits)
  then show ?thesis using assms(2) by (auto simp: given_attrs_def to_attr_def split: option.split)
qed

lemma at_val_find: "find (\<lambda>a. at_type a = t) (to_attr (t, v) # xs) = Some \<lparr>at_type = t, at_val = v\<rparr>"
  by (simp add: to_attr_def)

lemma take_msg: "ahead mb (xs @ ys) \<Longrightarrow> n = length xs \<Longrightarrow> take n (drop (mb_pos mb) (mb_buf mb)) = xs"
  using ahead_buf by blast

lemma ahead_mb_at:
  assumes "ahead mb xs"
  shows "\<exists>A. length A = mb_pos mb \<and> mb_at mb (A @ xs) (mb_pos mb)"
proof -
  have wf: "mb_pos mb \<le> mb_end mb" "mb_end mb \<le> mb_size mb" and d: "mbuf_data mb = xs" using assms by (simp_all add: ahead_def mbuf_wf_def)
  have e: "mb_end mb = mb_pos mb + mbuf_get_left mb" using wf by (simp add: mbuf_get_left_def)
  have "mbuf_content mb = take (mb_pos mb) (mb_buf mb) @ xs"
    unfolding mbuf_content_def e take_add d [symmetric] mbuf_data_def by simp
  moreover have "length xs = mb_end mb - mb_pos mb" using wf d [symmetric] by (simp add: mbuf_data_def mbuf_get_left_def)
  ultimately show ?thesis using wf by (intro exI [of _ "take (mb_pos mb) (mb_buf mb)"]) (simp add: mb_at_def)
qed

lemma chk_fingerprint_bytes:
  assumes "ahead mb (hdr_bytes h @ B @ R)" and "length (sh_tid h) = 12" and "unat (sh_len h) = length B + FP_SIZE"
    and "find (\<lambda>a. at_type a = STUN_ATTR_FINGERPRINT) as = Some \<lparr>at_type = t, at_val = U32V (fingerprint (hdr_bytes h @ B))\<rparr>"
  shows "stun_msg_chk_fingerprint \<lparr>sm_hdr = h, sm_attrl = as, sm_mb = mb, sm_start = mb_pos mb\<rparr> = None"
proof -
  have "take (20 + (length B + FP_SIZE) - FP_SIZE) (drop (mb_pos mb) (mb_buf mb)) = hdr_bytes h @ B"
    using assms(1,2) by (intro take_msg [of _ _ R]) simp_all
  with assms(3,4) show ?thesis by (simp add: stun_msg_chk_fingerprint_def stun_msg_attr_def)
qed

lemma chk_mi_bytes:
  fixes hmac_sha1 :: "bytes \<Rightarrow> bytes \<Rightarrow> bytes"
  assumes "ahead mb (hdr_bytes h0 @ B @ M @ R)" and "length (sh_tid h0) = 12" and "length M = MI_SIZE"
    and "h = (if find (\<lambda>a. at_type a = STUN_ATTR_FINGERPRINT) as \<noteq> None then h0\<lparr>sh_len := sh_len h0 - word_of_nat FP_SIZE\<rparr> else h0)"
    and "unat (sh_len h) = length B + MI_SIZE"
    and "find (\<lambda>a. at_type a = STUN_ATTR_MSG_INTEGRITY) as = Some \<lparr>at_type = t, at_val = Integrity (hmac_sha1 k (hdr_bytes h @ B))\<rparr>"
  shows "stun_msg_chk_mi hmac_sha1 \<lparr>sm_hdr = h0, sm_attrl = as, sm_mb = mb, sm_start = mb_pos mb\<rparr> k = None"
proof -
  define fp where "fp \<longleftrightarrow> find (\<lambda>a. at_type a = STUN_ATTR_FINGERPRINT) as \<noteq> None"
  define m2 where "m2 = (if fp then (stun_hdr_encode mb h)\<lparr>mb_pos := mb_pos mb\<rparr> else mb)"
  have tidh: "length (sh_tid h) = 12" using assms(2,4) by simp
  have "ahead m2 (hdr_bytes h @ B @ M @ R)"
  proof (cases fp)
    case True
    obtain A where A: "length A = mb_pos mb" "mb_at mb (A @ hdr_bytes h0 @ B @ M @ R) (mb_pos mb)" using ahead_mb_at [OF assms(1)] by auto
    have "mb_at (stun_hdr_encode mb h) (A @ hdr_bytes h @ B @ M @ R) (mb_pos mb + 20)"
      using hdr_encode_over [OF A(2) _ tidh] A(1) assms(2) by simp
    from mb_at_ahead [OF this] A(1) True show ?thesis by (simp add: m2_def)
  next
    case False
    then show ?thesis using assms(1,4) by (simp add: m2_def fp_def)
  qed
  then have "take (20 + (length B + MI_SIZE) - MI_SIZE) (drop (mb_pos m2) (mb_buf m2)) = hdr_bytes h @ B"
    using tidh by (intro take_msg [of _ _ "M @ R"]) simp_all
  moreover have "stun_msg_chk_mi hmac_sha1 \<lparr>sm_hdr = h0, sm_attrl = as, sm_mb = mb, sm_start = mb_pos mb\<rparr> k =
      (if hmac_sha1 k (hdr_bytes h @ B) \<noteq> hmac_sha1 k (take (20 + (length B + MI_SIZE) - MI_SIZE) (drop (mb_pos m2) (mb_buf m2)))
       then Some EBADMSG else None)"
    using assms(4,5,6) unfolding stun_msg_chk_mi_def stun_msg_attr_def Let_def m2_def fp_def
    by (cases "find (\<lambda>a. at_type a = STUN_ATTR_FINGERPRINT) as") simp_all
  ultimately show ?thesis by simp
qed

text \<open>
  The two checks accept what the encoder writes: a receiver that has the key finds the integrity of a message
  with a MESSAGE-INTEGRITY correct, also when a FINGERPRINT follows and the length in the header has to be taken
  back for it, and the CRC of a message with a FINGERPRINT is correct.
\<close>

lemma stun_msg_checks:
  fixes hmac_sha1 :: "bytes \<Rightarrow> bytes \<Rightarrow> bytes"
  assumes "mb_at mb C (length C)" and "length tid = 12" and "attrs_ok attrs" and "ec_ok ec" and "no_checks attrs"
    and "\<And>k x. length (hmac_sha1 k x) = 20"
    and "length (msg_body hmac_sha1 met cls tid ec key fp padding attrs) < 2 ^ 16"
  shows "\<exists>m msg. stun_msg_vencode hmac_sha1 mb met cls tid ec key fp padding attrs = (None, m)
    \<and> stun_msg_decode (m\<lparr>mb_pos := mb_pos mb\<rparr>) False = Inr (msg, None)
    \<and> stun_msg_chk_fingerprint msg = (if fp then None else Some EPROTO)
    \<and> (case key of None \<Rightarrow> stun_msg_chk_mi hmac_sha1 msg [] = Some EPROTO | Some k \<Rightarrow> stun_msg_chk_mi hmac_sha1 msg k = None)"
proof -
  define as where "as = given_attrs ec attrs"
  define B where "B = wire tid padding as"
  define mi where "mi = mi_attrs hmac_sha1 met cls tid key B"
  define B1 where "B1 = B @ wire tid padding mi"
  define fs where "fs = fp_attrs met cls tid fp B1"
  define hdr where "hdr = msg_hdr met cls tid"
  have body: "msg_attrs hmac_sha1 met cls tid ec key fp padding attrs = as @ mi @ fs"
    "msg_body hmac_sha1 met cls tid ec key fp padding attrs = B1 @ wire tid padding fs"
    by (simp_all add: msg_body_wire msg_attrs_def Let_def as_def B_def mi_def B1_def fs_def)
  have tidh: "length (sh_tid (hdr n)) = 12" for n using assms(2) by (simp add: hdr_def msg_hdr_def)
  have fsl: "length (wire tid padding fs) = (if fp then FP_SIZE else 0)"
    by (simp add: fs_def fp_attrs_def attr_bytes_tid [of _ _ "Some tid"] msg_attr_lengths)
  have mil: "length (wire tid padding mi) = (if key \<noteq> None then MI_SIZE else 0)"
    using assms(6) by (simp add: mi_def mi_attrs_def attr_bytes_tid [of _ _ "Some tid"] msg_attr_lengths split: option.split)
  from assms(1) have p: "mb_pos mb = length C" by (simp add: mb_at_def)
  obtain m where m: "stun_msg_vencode hmac_sha1 mb met cls tid ec key fp padding attrs = (None, m)"
    "ahead (m\<lparr>mb_pos := length C\<rparr>) (msg_bytes hmac_sha1 met cls tid ec key fp padding attrs @ [])"
    using encode_then_decode [OF assms(1-4,6,7)] by auto
  define mb' where "mb' = m\<lparr>mb_pos := length C\<rparr>"
  define N where "N = length B1 + (if fp then FP_SIZE else 0)"
  define msg where "msg = \<lparr>sm_hdr = hdr N, sm_attrl = map to_attr (as @ mi @ fs), sm_mb = mb', sm_start = length C\<rparr>"
  have dec: "stun_msg_decode mb' False = Inr (msg, None)"
    using stun_msg_decode_bytes [OF m(2) assms(2-4,6,7), of False] fsl
    by (simp add: body msg_def mb'_def N_def hdr_def)
  have a: "ahead mb' (hdr_bytes (hdr N) @ B1 @ wire tid padding fs)"
    using m(2) fsl by (simp add: mb'_def msg_bytes_def body hdr_def N_def Let_def)
  have posm: "mb_pos mb' = length C" by (simp add: mb'_def)
  have "N < 2 ^ 16" using assms(7) fsl unfolding body by (simp add: N_def)
  then have lenN: "unat (sh_len (hdr N)) = N" unfolding hdr_def msg_hdr_def by (simp only: unat_u16 stun_hdr.simps)
  have find_mi: "find (\<lambda>a. at_type a = STUN_ATTR_MSG_INTEGRITY) (map to_attr (as @ mi @ fs)) = map_option to_attr (find (\<lambda>a. True) mi)"
    unfolding as_def by (auto simp: find_given [OF assms(5)] mi_def mi_attrs_def fs_def fp_attrs_def to_attr_def split: option.split)
  have find_fp: "find (\<lambda>a. at_type a = STUN_ATTR_FINGERPRINT) (map to_attr (as @ mi @ fs)) = map_option to_attr (find (\<lambda>a. True) fs)"
    unfolding as_def by (auto simp: find_given [OF assms(5)] mi_def mi_attrs_def fs_def fp_attrs_def to_attr_def split: option.split)
  have fpok: "stun_msg_chk_fingerprint msg = (if fp then None else Some EPROTO)"
  proof (cases fp)
    case True
    with find_fp lenN show ?thesis
      unfolding msg_def posm [symmetric] using chk_fingerprint_bytes [OF a tidh] by (simp add: fs_def fp_attrs_def to_attr_def N_def hdr_def)
  next
    case False
    then show ?thesis using find_fp by (simp add: stun_msg_chk_fingerprint_def stun_msg_attr_def msg_def fs_def fp_attrs_def)
  qed
  have miok: "case key of None \<Rightarrow> stun_msg_chk_mi hmac_sha1 msg [] = Some EPROTO | Some k \<Rightarrow> stun_msg_chk_mi hmac_sha1 msg k = None"
  proof (cases key)
    case None
    then show ?thesis using find_mi by (simp add: stun_msg_chk_mi_def stun_msg_attr_def msg_def mi_def mi_attrs_def)
  next
    case (Some k)
    have h: "hdr (length B1) = (if find (\<lambda>a. at_type a = STUN_ATTR_FINGERPRINT) (map to_attr (as @ mi @ fs)) \<noteq> None
        then hdr N\<lparr>sh_len := sh_len (hdr N) - word_of_nat FP_SIZE\<rparr> else hdr N)"
      unfolding find_fp by (simp add: fs_def fp_attrs_def N_def hdr_def msg_hdr_def)
    have n: "length B1 = length B + MI_SIZE" "length B1 < 2 ^ 16" using assms(7) mil Some unfolding body by (simp_all add: B1_def)
    have l: "unat (sh_len (hdr (length B1))) = length B + MI_SIZE"
      unfolding hdr_def msg_hdr_def by (simp only: unat_u16 [OF n(2)] stun_hdr.simps n(1) [symmetric])
    have "stun_msg_chk_mi hmac_sha1 msg k = None"
      unfolding msg_def posm [symmetric] using a mil Some tidh find_mi
      by (intro chk_mi_bytes [OF _ _ _ h l]) (simp_all add: B1_def mi_def mi_attrs_def to_attr_def hdr_def)
    then show ?thesis using Some by simp
  qed
  show ?thesis unfolding p using m(1) dec [unfolded mb'_def] fpok miok by blast
qed

lemma stun_msg_checks_witness:
  "\<exists>m msg. stun_msg_vencode (\<lambda>k x. replicate 20 (of_nat (length k + length x))) (mbuf_alloc 0) STUN_METHOD_BINDING STUN_CLASS_REQUEST
        (replicate 12 9) None (Some [1]) True 0 request_attrs = (None, m)
    \<and> stun_msg_decode (m\<lparr>mb_pos := mb_pos (mbuf_alloc 0)\<rparr>) False = Inr (msg, None)
    \<and> stun_msg_chk_fingerprint msg = None
    \<and> stun_msg_chk_mi (\<lambda>k x. replicate 20 (of_nat (length k + length x))) msg [1] = None"
  using stun_msg_checks [where C = "[]" and mb = "mbuf_alloc 0" and tid = "replicate 12 9" and attrs = request_attrs and ec = None
      and ?hmac_sha1.0 = "\<lambda>k x. replicate 20 (of_nat (length k + length x))" and key = "Some [1]" and fp = True
      and met = STUN_METHOD_BINDING and cls = STUN_CLASS_REQUEST and padding = 0] mb_at_alloc [of 0] request_attrs_ok request_body
  by (simp add: ec_ok_def)

text \<open>
  C38: A message that has been cut anywhere is refused as a bad message: no attribute of it is used, and nothing is
  read beyond the end of the buffer to make up for the missing bytes.
\<close>

theorem stun_truncated_rejected:
  fixes hmac_sha1 :: "bytes \<Rightarrow> bytes \<Rightarrow> bytes"
  assumes "length tid = 12" and "length (msg_body hmac_sha1 met cls tid ec key fp padding attrs) < 2 ^ 16"
    and "n < length (msg_bytes hmac_sha1 met cls tid ec key fp padding attrs)"
    and "mbuf_wf mb" and "mbuf_data mb = take n (msg_bytes hmac_sha1 met cls tid ec key fp padding attrs)"
  shows "stun_msg_decode mb want_ua = Inl EBADMSG"
proof -
  define B where "B = msg_body hmac_sha1 met cls tid ec key fp padding attrs"
  define h where "h = msg_hdr met cls tid (length B)"
  have hl: "length (hdr_bytes h) = 20" using assms(1) by (simp add: h_def msg_hdr_def)
  have M: "msg_bytes hmac_sha1 met cls tid ec key fp padding attrs = hdr_bytes h @ B" by (simp add: msg_bytes_def Let_def B_def h_def)
  have a: "ahead mb (take n (hdr_bytes h @ B))" using assms(4,5) by (simp add: ahead_def M)
  have left: "mbuf_get_left mb = n" using ahead_left [OF a] assms(3) hl by (simp add: M)
  have "stun_hdr_decode mb = Inl EBADMSG"
  proof (cases "n < 20")
    case False
    have lw: "unat (sh_len h) = length B" using assms(2) by (simp add: h_def msg_hdr_def B_def unat_u16)
    have "ahead mb (rev (mem_u16 (sh_type h)) @ rev (mem_u16 (sh_len h)) @ rev (mem_u32 (sh_cookie h)) @ sh_tid h @ take (n - 20) B)"
      using a False hl by (simp add: hdr_bytes_def h_def msg_hdr_def STUN_TYPE_fits)
    note r1 = read_u16 [OF this] note r2 = read_u16 [OF r1(2), unfolded adv_adv] note r3 = read_u32 [OF r2(2), unfolded adv_adv]
    have tl: "length (sh_tid h) = 12" using assms(1) by (simp add: h_def msg_hdr_def)
    note r4 = read_mem [OF r3(2), unfolded adv_adv tl]
    have "mbuf_get_left (adv mb (2 + 2 + 4 + 12)) < length B" using ahead_left [OF r4(2)] assms(3) False hl by (simp add: M)
    then show ?thesis
      unfolding stun_hdr_decode_def Let_def r1(1) prod.case r2(1) r3(1) r4(1) htons_htons htonl_htonl sum.case using lw by simp
  qed (simp add: stun_hdr_decode_def left)
  then show ?thesis by (simp add: stun_msg_decode_def)
qed

theorem stun_truncated_rejected_witness:
  "stun_msg_decode (packet_mbuf (take 79 (msg_bytes (\<lambda>k x. replicate 20 (of_nat (length k + length x))) STUN_METHOD_BINDING STUN_CLASS_REQUEST
     (replicate 12 9) None (Some [1]) True 0 request_attrs))) False = Inl EBADMSG"
proof (rule stun_truncated_rejected)
  show "(79 :: nat) < length (msg_bytes (\<lambda>k x. replicate 20 (of_nat (length k + length x))) STUN_METHOD_BINDING STUN_CLASS_REQUEST
     (replicate 12 9) None (Some [1]) True 0 request_attrs)"
    by (simp add: msg_bytes_def Let_def msg_hdr_def request_body)
qed (simp_all add: request_body)

end
