(* ===== verification/Stun_Trans.thy ===== *)
theory Stun_Trans
  imports Libre_Stun
begin

text \<open>
  The STUN stack of the library above its messages: client transactions with retransmission (\<open>src/stun/ctrans.c\<close>),
  the instance that receives messages (\<open>stun.c\<close>), requests, replies and indications (\<open>req.c\<close>, \<open>rep.c\<close>,
  \<open>ind.c\<close>), and what the stack uses of a UDP socket: its receive handler and its references.

  Addresses of transactions and sockets are numbers that are never used again. The state is that of one STUN
  instance. A call of a response handler is the last thing that happens in each operation and is recorded in
  \<open>nw_calls\<close>; a client is composed with the stack by running its handler on those records. Timers are the
  points in time they expire at. What the system calls answer is an argument.
\<close>

section \<open>State\<close>

datatype stun_proto = IPPROTO_UDP | IPPROTO_TCP | STUN_TRANSP_DTLS | OtherProto

text \<open>The receive handlers that occur: the one of \<open>udp.c\<close> that does nothing, and \<open>udp_recv_handler\<close> of \<open>ctrans.c\<close>.\<close>

datatype udp_recv_h = DummyH | StunH

record usock =
  us_rh :: udp_recv_h
  us_refs :: nat

record stun_conf =
  cf_rto :: u32
  cf_rc :: u32
  cf_rm :: u32
  cf_ti :: u32
  cf_tos :: u8

record ctrans =
  ct_id :: nat
  ct_tid :: bytes
  ct_met :: u16
  ct_key :: "bytes option"
  ct_proto :: stun_proto
  ct_sock :: "nat option"
  ct_mb :: mbuf
  ct_pos :: nat
  ct_dst :: "sockaddr option"
  ct_txc :: u32
  ct_ival :: u32
  ct_tmr :: "u64 option"
  ct_ctp :: "nat option"
  ct_resph :: bool

record resp_call =
  rp_ct :: nat
  rp_err :: "errno option"
  rp_scode :: u16
  rp_reason :: "bytes option"
  rp_msg :: "stun_msg option"

record stun_net =
  nw_ctl :: "ctrans list"
  nw_conf :: stun_conf
  nw_indh :: bool
  nw_socks :: "nat \<Rightarrow> usock option"
  nw_ctps :: "nat \<Rightarrow> nat option"
  nw_next :: nat
  nw_now :: u64
  nw_tick :: nat
  nw_sent :: "(nat \<times> sockaddr option \<times> bytes) list"
  nw_calls :: "resp_call list"
  nw_inds :: "stun_msg list"

record stun_env =
  se_send :: "nat \<Rightarrow> errno option"
  se_listen :: "nat \<Rightarrow> errno option"
  se_connect :: "nat \<Rightarrow> errno option"
  se_tid :: "nat \<Rightarrow> bytes"
  se_hmac :: "bytes \<Rightarrow> bytes \<Rightarrow> bytes"

definition net_tick :: "stun_net \<Rightarrow> stun_net" where "net_tick w = w\<lparr>nw_tick := nw_tick w + 1\<rparr>"

abbreviation STUN_DEFAULT_RTO :: u32 where "STUN_DEFAULT_RTO \<equiv> 500"
abbreviation STUN_DEFAULT_RC :: u32 where "STUN_DEFAULT_RC \<equiv> 7"
abbreviation STUN_DEFAULT_RM :: u32 where "STUN_DEFAULT_RM \<equiv> 16"
abbreviation STUN_DEFAULT_TI :: u32 where "STUN_DEFAULT_TI \<equiv> 39500"

definition conf_default :: stun_conf where
  "conf_default = \<lparr>cf_rto = STUN_DEFAULT_RTO, cf_rc = STUN_DEFAULT_RC, cf_rm = STUN_DEFAULT_RM, cf_ti = STUN_DEFAULT_TI, cf_tos = 0\<rparr>"

definition stun_alloc :: "stun_conf option \<Rightarrow> bool \<Rightarrow> stun_net \<Rightarrow> stun_net" where
  "stun_alloc conf indh w = w\<lparr>nw_ctl := [], nw_conf := (case conf of Some c \<Rightarrow> c | None \<Rightarrow> conf_default), nw_indh := indh\<rparr>"

section \<open>Sockets\<close>

definition sock_ref :: "nat option \<Rightarrow> stun_net \<Rightarrow> stun_net" where
  "sock_ref s w = (case s of None \<Rightarrow> w
     | Some k \<Rightarrow> w\<lparr>nw_socks := (nw_socks w)(k := map_option (\<lambda>u. u\<lparr>us_refs := us_refs u + 1\<rparr>) (nw_socks w k))\<rparr>)"

definition sock_deref :: "nat option \<Rightarrow> stun_net \<Rightarrow> stun_net" where
  "sock_deref s w = (case s of None \<Rightarrow> w
     | Some k \<Rightarrow> w\<lparr>nw_socks := (nw_socks w)(k := (case nw_socks w k of None \<Rightarrow> None
         | Some u \<Rightarrow> if us_refs u \<le> 1 then None else Some (u\<lparr>us_refs := us_refs u - 1\<rparr>)))\<rparr>)"

text \<open>\<open>udp_listen\<close>: without a receive handler the socket gets the one that does nothing.\<close>

definition udp_listen :: "stun_env \<Rightarrow> udp_recv_h option \<Rightarrow> stun_net \<Rightarrow> (errno + nat) \<times> stun_net" where
  "udp_listen env rh w =
     (case se_listen env (nw_tick w) of
        Some e \<Rightarrow> (Inl e, net_tick w)
      | None \<Rightarrow>
          (Inr (nw_next w),
           (net_tick w)\<lparr>nw_next := nw_next w + 1,
              nw_socks := (nw_socks w)(nw_next w \<mapsto> \<lparr>us_rh = (case rh of Some h \<Rightarrow> h | None \<Rightarrow> DummyH), us_refs = 1\<rparr>)\<rparr>))"

definition stun_send :: "stun_env \<Rightarrow> stun_proto \<Rightarrow> nat option \<Rightarrow> sockaddr option \<Rightarrow> mbuf \<Rightarrow> stun_net \<Rightarrow> errno option \<times> stun_net" where
  "stun_send env proto sock dst mb w =
     (case sock of None \<Rightarrow> (Some EINVAL, w)
      | Some s \<Rightarrow>
          if proto = OtherProto then (Some EPROTONOSUPPORT, w)
          else case se_send env (nw_tick w) of
                 Some e \<Rightarrow> (Some e, net_tick w)
               | None \<Rightarrow> (None, (net_tick w)\<lparr>nw_sent := nw_sent w @ [(s, dst, mbuf_data mb)]\<rparr>))"

section \<open>Client transactions\<close>

definition ct_find :: "nat \<Rightarrow> stun_net \<Rightarrow> ctrans option" where
  "ct_find i w = find (\<lambda>ct. ct_id ct = i) (nw_ctl w)"

definition ct_set :: "ctrans \<Rightarrow> stun_net \<Rightarrow> stun_net" where
  "ct_set ct w = w\<lparr>nw_ctl := map (\<lambda>c. if ct_id c = ct_id ct then ct else c) (nw_ctl w)\<rparr>"

text \<open>The destructor of a transaction: unlinked, its timer cancelled with it, its socket released.\<close>

definition ct_destructor :: "ctrans \<Rightarrow> stun_net \<Rightarrow> stun_net" where
  "ct_destructor ct w = sock_deref (ct_sock ct) (w\<lparr>nw_ctl := filter (\<lambda>c. ct_id c \<noteq> ct_id ct) (nw_ctl w)\<rparr>)"

definition completed :: "ctrans \<Rightarrow> errno option \<Rightarrow> u16 \<Rightarrow> bytes option \<Rightarrow> stun_msg option \<Rightarrow> stun_net \<Rightarrow> stun_net" where
  "completed ct err scode reason msg w =
     (let w = (case ct_ctp ct of None \<Rightarrow> w | Some l \<Rightarrow> w\<lparr>nw_ctps := (nw_ctps w)(l := None)\<rparr>);
          w = ct_destructor ct w
      in if ct_resph ct
         then w\<lparr>nw_calls := nw_calls w @ [\<lparr>rp_ct = ct_id ct, rp_err = err, rp_scode = scode, rp_reason = reason, rp_msg = msg\<rparr>]\<rparr>
         else w)"

definition timeout_handler :: "stun_env \<Rightarrow> ctrans \<Rightarrow> stun_net \<Rightarrow> stun_net" where
  "timeout_handler env ct w =
     (let cfg = nw_conf w
      in if ct_txc ct \<ge> cf_rc cfg then completed ct (Some ETIMEDOUT) 0 None None w
         else let ct = ct\<lparr>ct_txc := ct_txc ct + 1, ct_mb := (ct_mb ct)\<lparr>mb_pos := ct_pos ct\<rparr>, ct_tmr := None\<rparr>;
                  (err, w) = stun_send env (ct_proto ct) (ct_sock ct) (ct_dst ct) (ct_mb ct) (ct_set ct w)
              in case err of
                   Some e \<Rightarrow> completed ct (Some e) 0 None None w
                 | None \<Rightarrow>
                     (let ival = (if ct_txc ct \<ge> cf_rc cfg then cf_rto cfg * cf_rm cfg else ct_ival ct * 2)
                      in ct_set (ct\<lparr>ct_ival := ival, ct_tmr := Some (nw_now w + ucast ival)\<rparr>) w))"

definition match_handler :: "stun_msg \<Rightarrow> ctrans \<Rightarrow> bool" where
  "match_handler msg ct = (ct_met ct = stun_msg_method msg \<and> ct_tid ct = sh_tid (sm_hdr msg))"

definition stun_ctrans_recv :: "stun_env \<Rightarrow> stun_msg \<Rightarrow> u16 list \<Rightarrow> stun_net \<Rightarrow> errno option \<times> stun_net" where
  "stun_ctrans_recv env msg ua w =
     (if stun_msg_class msg \<noteq> ucast STUN_CLASS_ERROR_RESP \<and> stun_msg_class msg \<noteq> ucast STUN_CLASS_SUCCESS_RESP then (None, w)
      else let (herr, code, reason) =
                 (if stun_msg_class msg = ucast STUN_CLASS_ERROR_RESP
                  then case map_option at_val (stun_msg_attr msg STUN_ATTR_ERR_CODE) of
                         Some (ErrCode c r) \<Rightarrow> (None, c, r)
                       | _ \<Rightarrow> (Some EPROTO, 0, text_bytes ''OK'')
                  else (None, 0, text_bytes ''OK''))
           in case find (match_handler msg) (nw_ctl w) of
                None \<Rightarrow> (Some ENOENT, w)
              | Some ct \<Rightarrow>
                  (let err = (if code = 401 \<or> code = 438 then None
                              else case ct_key ct of None \<Rightarrow> None | Some k \<Rightarrow> stun_msg_chk_mi (se_hmac env) msg k)
                   in if err \<noteq> None then (err, w)
                      else (None, completed ct (if herr = None \<and> ua \<noteq> [] then Some EPROTO else herr) code (Some reason) (Some msg) w)))"

definition stun_recv :: "stun_env \<Rightarrow> mbuf \<Rightarrow> stun_net \<Rightarrow> errno option \<times> stun_net" where
  "stun_recv env mb w =
     (case stun_msg_decode mb True of
        Inl e \<Rightarrow> (Some e, w)
      | Inr (msg, ua) \<Rightarrow>
          (let ua = (case ua of None \<Rightarrow> [] | Some u \<Rightarrow> u)
           in if stun_msg_class msg = ucast STUN_CLASS_INDICATION then
                (None, if ua = [] \<and> nw_indh w then w\<lparr>nw_inds := nw_inds w @ [msg]\<rparr> else w)
              else if stun_msg_class msg = ucast STUN_CLASS_ERROR_RESP \<or> stun_msg_class msg = ucast STUN_CLASS_SUCCESS_RESP then
                stun_ctrans_recv env msg ua w
              else (None, w)))"

text \<open>What \<open>udp_read\<close> does with a datagram on a socket without helpers: the first 8192 bytes go to the receive handler.\<close>

definition udp_read :: "stun_env \<Rightarrow> nat \<Rightarrow> bytes \<Rightarrow> stun_net \<Rightarrow> stun_net" where
  "udp_read env s bs w =
     (case nw_socks w s of
        None \<Rightarrow> w
      | Some u \<Rightarrow> (case us_rh u of DummyH \<Rightarrow> w | StunH \<Rightarrow> snd (stun_recv env (packet_mbuf (take 8192 bs)) w)))"

text \<open>The switch of \<open>stun_ctrans_request\<close>; a TCP connection receives like a socket with \<open>udp_recv_handler\<close>.\<close>

definition ct_start ::
  "stun_env \<Rightarrow> stun_proto \<Rightarrow> nat option \<Rightarrow> sockaddr option \<Rightarrow> mbuf \<Rightarrow> ctrans \<Rightarrow> stun_net \<Rightarrow> errno option \<times> ctrans \<times> stun_net" where
  "ct_start env proto sock dst mb ct w =
     (case proto of
        IPPROTO_UDP \<Rightarrow>
          if dst = None then (Some EINVAL, ct, w)
          else (let ct = ct\<lparr>ct_dst := dst, ct_ival := cf_rto (nw_conf w), ct_tmr := Some (nw_now w + ucast (cf_rto (nw_conf w)))\<rparr>;
                    (err, ct, w) =
                      (case sock of
                         Some s \<Rightarrow> (None, ct, w)
                       | None \<Rightarrow> (case udp_listen env (Some StunH) w of
                                    (Inl e, w) \<Rightarrow> (Some e, ct, w)
                                  | (Inr s, w) \<Rightarrow> (None, ct\<lparr>ct_sock := Some s\<rparr>, w)))
                in case err of
                     Some e \<Rightarrow> (Some e, ct, w)
                   | None \<Rightarrow> (let ct = ct\<lparr>ct_txc := 1\<rparr>; (err, w) = stun_send env proto (ct_sock ct) dst mb w in (err, ct, w)))
      | IPPROTO_TCP \<Rightarrow>
          (let ct = ct\<lparr>ct_txc := cf_rc (nw_conf w), ct_tmr := Some (nw_now w + ucast (cf_ti (nw_conf w)))\<rparr>
           in case sock of
                Some s \<Rightarrow> (let (err, w) = stun_send env proto sock None mb w in (err, ct, w))
              | None \<Rightarrow>
                  (case se_connect env (nw_tick w) of
                     Some e \<Rightarrow> (Some e, ct, net_tick w)
                   | None \<Rightarrow> (None, ct\<lparr>ct_sock := Some (nw_next w)\<rparr>,
                       (net_tick w)\<lparr>nw_next := nw_next w + 1,
                          nw_socks := (nw_socks w)(nw_next w \<mapsto> \<lparr>us_rh = StunH, us_refs = 1\<rparr>)\<rparr>)))
      | STUN_TRANSP_DTLS \<Rightarrow>
          (case sock of
             None \<Rightarrow> (Some EINVAL, ct, w)
           | Some s \<Rightarrow>
               (let ct = ct\<lparr>ct_ival := cf_rto (nw_conf w), ct_tmr := Some (nw_now w + ucast (cf_rto (nw_conf w))), ct_txc := 1\<rparr>;
                    (err, w) = stun_send env proto sock None mb w
                in (err, ct, w)))
      | OtherProto \<Rightarrow> (Some EPROTONOSUPPORT, ct, w))"

definition stun_ctrans_request ::
  "stun_env \<Rightarrow> nat option \<Rightarrow> stun_proto \<Rightarrow> nat option \<Rightarrow> sockaddr option \<Rightarrow> mbuf \<Rightarrow> bytes \<Rightarrow> u16 \<Rightarrow> bytes option \<Rightarrow> bool
    \<Rightarrow> stun_net \<Rightarrow> errno option \<times> stun_net" where
  "stun_ctrans_request env ctp proto sock dst mb tid met key resph w =
     (let ct = \<lparr>ct_id = nw_next w, ct_tid = take STUN_TID_SIZE tid, ct_met = met, ct_key = key, ct_proto = proto, ct_sock = sock,
                ct_mb = mb, ct_pos = mb_pos mb, ct_dst = None, ct_txc = 0, ct_ival = 0, ct_tmr = None, ct_ctp = None, ct_resph = False\<rparr>;
          w = (sock_ref sock w)\<lparr>nw_next := nw_next w + 1, nw_ctl := nw_ctl w @ [ct]\<rparr>;
          (err, ct, w) = ct_start env proto sock dst mb ct w
      in case err of
           Some e \<Rightarrow> (Some e, ct_destructor ct w)
         | None \<Rightarrow> (None, (ct_set (ct\<lparr>ct_ctp := ctp, ct_resph := resph\<rparr>) w)
              \<lparr>nw_ctps := (case ctp of None \<Rightarrow> nw_ctps w | Some l \<Rightarrow> (nw_ctps w)(l \<mapsto> ct_id ct))\<rparr>))"

text \<open>The handlers of a TCP connection that a transaction opened.\<close>

definition tcp_estab_handler :: "stun_env \<Rightarrow> ctrans \<Rightarrow> stun_net \<Rightarrow> stun_net" where
  "tcp_estab_handler env ct w =
     (let (err, w) = stun_send env IPPROTO_TCP (ct_sock ct) None (ct_mb ct) w
      in if err = None then w else completed ct err 0 None None w)"

definition tcp_close_handler :: "errno \<Rightarrow> ctrans \<Rightarrow> stun_net \<Rightarrow> stun_net" where
  "tcp_close_handler err ct w = completed ct (Some err) 0 None None w"

definition close_handler :: "ctrans \<Rightarrow> stun_net \<Rightarrow> stun_net" where
  "close_handler ct w = completed ct (Some ECONNABORTED) 0 None None w"

definition stun_ctrans_close :: "stun_net \<Rightarrow> stun_net" where
  "stun_ctrans_close w = fold close_handler (nw_ctl w) w"

section \<open>Requests, replies and indications\<close>

definition stun_request ::
  "stun_env \<Rightarrow> nat option \<Rightarrow> stun_proto \<Rightarrow> nat option \<Rightarrow> sockaddr option \<Rightarrow> nat \<Rightarrow> u16 \<Rightarrow> bytes option \<Rightarrow> bool \<Rightarrow> bool
    \<Rightarrow> (u16 \<times> stun_value option) list \<Rightarrow> stun_net \<Rightarrow> errno option \<times> stun_net" where
  "stun_request env ctp proto sock dst presz met key fp resph attrs w =
     (let tid = se_tid env (nw_tick w);
          (err, mb) = stun_msg_vencode (se_hmac env) ((mbuf_alloc 512)\<lparr>mb_pos := presz\<rparr>) met STUN_CLASS_REQUEST tid None key fp 0 attrs
      in if err \<noteq> None then (err, net_tick w)
         else stun_ctrans_request env ctp proto sock dst (mb\<lparr>mb_pos := presz\<rparr>) tid met key resph (net_tick w))"

definition stun_reply ::
  "stun_env \<Rightarrow> stun_proto \<Rightarrow> nat option \<Rightarrow> sockaddr option \<Rightarrow> nat \<Rightarrow> stun_msg \<Rightarrow> bytes option \<Rightarrow> bool
    \<Rightarrow> (u16 \<times> stun_value option) list \<Rightarrow> stun_net \<Rightarrow> errno option \<times> stun_net" where
  "stun_reply env proto sock dst presz req key fp attrs w =
     (if sock = None then (Some EINVAL, w)
      else let (err, mb) = stun_msg_vencode (se_hmac env) ((mbuf_alloc 256)\<lparr>mb_pos := presz\<rparr>) (stun_msg_method req)
                 STUN_CLASS_SUCCESS_RESP (sh_tid (sm_hdr req)) None key fp 0 attrs
           in if err \<noteq> None then (err, w) else stun_send env proto sock dst (mb\<lparr>mb_pos := presz\<rparr>) w)"

definition stun_ereply ::
  "stun_env \<Rightarrow> stun_proto \<Rightarrow> nat option \<Rightarrow> sockaddr option \<Rightarrow> nat \<Rightarrow> stun_msg \<Rightarrow> u16 \<Rightarrow> bytes \<Rightarrow> bytes option \<Rightarrow> bool
    \<Rightarrow> (u16 \<times> stun_value option) list \<Rightarrow> stun_net \<Rightarrow> errno option \<times> stun_net" where
  "stun_ereply env proto sock dst presz req scode reason key fp attrs w =
     (if sock = None \<or> scode = 0 then (Some EINVAL, w)
      else let (err, mb) = stun_msg_vencode (se_hmac env) ((mbuf_alloc 256)\<lparr>mb_pos := presz\<rparr>) (stun_msg_method req)
                 STUN_CLASS_ERROR_RESP (sh_tid (sm_hdr req)) (Some (scode, reason)) key fp 0 attrs
           in if err \<noteq> None then (err, w) else stun_send env proto sock dst (mb\<lparr>mb_pos := presz\<rparr>) w)"

definition stun_indication ::
  "stun_env \<Rightarrow> stun_proto \<Rightarrow> nat option \<Rightarrow> sockaddr option \<Rightarrow> nat \<Rightarrow> u16 \<Rightarrow> bytes option \<Rightarrow> bool
    \<Rightarrow> (u16 \<times> stun_value option) list \<Rightarrow> stun_net \<Rightarrow> errno option \<times> stun_net" where
  "stun_indication env proto sock dst presz met key fp attrs w =
     (if sock = None then (Some EINVAL, w)
      else let (err, mb) = stun_msg_vencode (se_hmac env) ((mbuf_alloc 2048)\<lparr>mb_pos := presz\<rparr>) met STUN_CLASS_INDICATION
                 (se_tid env (nw_tick w)) None key fp 0 attrs
           in if err \<noteq> None then (err, net_tick w) else stun_send env proto sock dst (mb\<lparr>mb_pos := presz\<rparr>) (net_tick w))"

section \<open>At most one answer\<close>

text \<open>The events of an instance, and the state after any sequence of them.\<close>

datatype net_event =
    Request "nat option" stun_proto "nat option" "sockaddr option" nat u16 "bytes option" bool "(u16 \<times> stun_value option) list"
  | Expire nat | Datagram nat bytes | Established nat | Closed nat errno | CloseAll

definition fire :: "stun_env \<Rightarrow> nat \<Rightarrow> stun_net \<Rightarrow> stun_net" where
  "fire env i w =
     (case ct_find i w of
        None \<Rightarrow> w
      | Some ct \<Rightarrow> (case ct_tmr ct of None \<Rightarrow> w | Some t \<Rightarrow> timeout_handler env ct (w\<lparr>nw_now := t\<rparr>)))"

definition net_step :: "stun_env \<Rightarrow> net_event \<Rightarrow> stun_net \<Rightarrow> stun_net" where
  "net_step env e w =
     (case e of
        Request ctp proto sock dst presz met key fp attrs \<Rightarrow> snd (stun_request env ctp proto sock dst presz met key fp True attrs w)
      | Expire i \<Rightarrow> fire env i w
      | Datagram s bs \<Rightarrow> udp_read env s bs w
      | Established i \<Rightarrow> (case ct_find i w of None \<Rightarrow> w | Some ct \<Rightarrow> tcp_estab_handler env ct w)
      | Closed i err \<Rightarrow> (case ct_find i w of None \<Rightarrow> w | Some ct \<Rightarrow> tcp_close_handler err ct w)
      | CloseAll \<Rightarrow> stun_ctrans_close w)"

text \<open>
  The invariant: the addresses are in use once, what has answered is gone, and a pointer that a client holds
  belongs to a transaction that still exists and knows of it.
\<close>

definition net_inv :: "stun_net \<Rightarrow> bool" where
  "net_inv w \<longleftrightarrow> distinct (map ct_id (nw_ctl w) @ map rp_ct (nw_calls w))
     \<and> (\<forall>i \<in> ct_id ` set (nw_ctl w) \<union> rp_ct ` set (nw_calls w). i < nw_next w)
     \<and> (\<forall>l i. nw_ctps w l = Some i \<longrightarrow> (\<exists>ct \<in> set (nw_ctl w). ct_id ct = i \<and> ct_ctp ct = Some l))"

lemma net_inv_fresh: "net_inv w \<Longrightarrow> c \<in> set (nw_ctl w) \<Longrightarrow> ct_id c < nw_next w"
  "net_inv w \<Longrightarrow> r \<in> set (nw_calls w) \<Longrightarrow> rp_ct r < nw_next w"
  unfolding net_inv_def by blast+

lemma net_inv_other [simp]:
  "net_inv (w\<lparr>nw_now := t\<rparr>) = net_inv w" "net_inv (w\<lparr>nw_inds := x\<rparr>) = net_inv w" "net_inv (w\<lparr>nw_sent := y\<rparr>) = net_inv w"
  "net_inv (net_tick w) = net_inv w" "net_inv (w\<lparr>nw_socks := z\<rparr>) = net_inv w"
  by (simp_all add: net_inv_def net_tick_def)

lemma net_tick_fields [simp]:
  "nw_ctl (net_tick w) = nw_ctl w" "nw_calls (net_tick w) = nw_calls w" "nw_next (net_tick w) = nw_next w"
  "nw_ctps (net_tick w) = nw_ctps w" "nw_conf (net_tick w) = nw_conf w" "nw_socks (net_tick w) = nw_socks w"
  "nw_sent (net_tick w) = nw_sent w" "nw_now (net_tick w) = nw_now w" "nw_inds (net_tick w) = nw_inds w"
  by (simp_all add: net_tick_def)

lemma sock_ref_inv [simp]: "net_inv (sock_ref s w) = net_inv w" "net_inv (sock_deref s w) = net_inv w"
  by (simp_all add: sock_ref_def sock_deref_def split: option.split)

lemma sock_ref_fields [simp]:
  "nw_ctl (sock_ref s w) = nw_ctl w" "nw_calls (sock_ref s w) = nw_calls w" "nw_next (sock_ref s w) = nw_next w"
  "nw_ctps (sock_ref s w) = nw_ctps w" "nw_conf (sock_ref s w) = nw_conf w" "nw_now (sock_ref s w) = nw_now w"
  "nw_sent (sock_ref s w) = nw_sent w" "nw_tick (sock_ref s w) = nw_tick w"
  "nw_ctl (sock_deref s w) = nw_ctl w" "nw_calls (sock_deref s w) = nw_calls w" "nw_next (sock_deref s w) = nw_next w"
  "nw_ctps (sock_deref s w) = nw_ctps w" "nw_conf (sock_deref s w) = nw_conf w" "nw_now (sock_deref s w) = nw_now w"
  "nw_sent (sock_deref s w) = nw_sent w"
  by (simp_all add: sock_ref_def sock_deref_def split: option.split)

lemma stun_send_fields:
  assumes "stun_send env proto sock dst mb w = (err, w')"
  shows "nw_ctl w' = nw_ctl w" "nw_calls w' = nw_calls w" "nw_next w' = nw_next w" "nw_ctps w' = nw_ctps w"
    "nw_conf w' = nw_conf w" "nw_now w' = nw_now w" "nw_socks w' = nw_socks w"
  using assms by (auto simp: stun_send_def split: option.splits if_splits)

lemma ct_find_mem: "ct_find i w = Some ct \<Longrightarrow> ct \<in> set (nw_ctl w) \<and> ct_id ct = i"
  by (auto simp: ct_find_def find_Some_iff)

lemma find_by_key: "distinct (map f xs) \<Longrightarrow> x \<in> set xs \<Longrightarrow> find (\<lambda>c. f c = f x) xs = Some x"
  by (induction xs) (auto intro: rev_image_eqI)

lemma ct_find_distinct:
  "distinct (map ct_id (nw_ctl w)) \<Longrightarrow> ct \<in> set (nw_ctl w) \<Longrightarrow> ct_find (ct_id ct) w = Some ct"
  unfolding ct_find_def by (rule find_by_key)

text \<open>A transaction that ends moves from the list to the calls, and takes its client's pointer with it.\<close>

lemma completed_fields:
  "nw_ctl (completed ct err scode reason msg w) = filter (\<lambda>c. ct_id c \<noteq> ct_id ct) (nw_ctl w)"
  "nw_calls (completed ct err scode reason msg w) = nw_calls w @
     (if ct_resph ct then [\<lparr>rp_ct = ct_id ct, rp_err = err, rp_scode = scode, rp_reason = reason, rp_msg = msg\<rparr>] else [])"
  "nw_next (completed ct err scode reason msg w) = nw_next w"
  "nw_ctps (completed ct err scode reason msg w) = (case ct_ctp ct of None \<Rightarrow> nw_ctps w | Some l \<Rightarrow> (nw_ctps w)(l := None))"
  "nw_sent (completed ct err scode reason msg w) = nw_sent w"
  "nw_now (completed ct err scode reason msg w) = nw_now w"
  "nw_conf (completed ct err scode reason msg w) = nw_conf w"
  by (simp_all add: completed_def ct_destructor_def Let_def split: option.split)

lemma completed_inv:
  assumes "net_inv w" and "ct' \<in> set (nw_ctl w)" and "ct_id ct = ct_id ct'" and "ct_ctp ct = ct_ctp ct'"
  shows "net_inv (completed ct err scode reason msg w)"
proof -
  have d: "distinct (map ct_id (nw_ctl w))" "distinct (map rp_ct (nw_calls w))"
    "ct_id ` set (nw_ctl w) \<inter> rp_ct ` set (nw_calls w) = {}" using assms(1) by (auto simp: net_inv_def)
  have new: "ct_id ct \<notin> rp_ct ` set (nw_calls w)" "ct_id ct < nw_next w" using d(3) assms(1-3) by (auto simp: net_inv_def)
  let ?w = "completed ct err scode reason msg w"
  have keep: "\<exists>c \<in> set (nw_ctl ?w). ct_id c = i \<and> ct_ctp c = Some l"
    if l: "nw_ctps ?w l = Some i" for l i
  proof -
    have old: "nw_ctps w l = Some i" and ne: "ct_ctp ct \<noteq> Some l"
      using l by (auto simp: completed_fields split: option.splits if_splits)
    from old assms(1) obtain c where c: "c \<in> set (nw_ctl w)" "ct_id c = i" "ct_ctp c = Some l" unfolding net_inv_def by blast
    have "ct_id c \<noteq> ct_id ct'"
    proof
      assume "ct_id c = ct_id ct'"
      then have "c = ct'" using d(1) c(1) assms(2) by (simp add: distinct_map inj_on_def)
      then show False using ne c(3) assms(4) by simp
    qed
    then show ?thesis using c assms(3) by (auto simp: completed_fields(1))
  qed
  have "distinct (map ct_id (filter (\<lambda>c. ct_id c \<noteq> ct_id ct) (nw_ctl w)))" using d(1) by (rule distinct_map_filter)
  then have "distinct (map ct_id (nw_ctl ?w) @ map rp_ct (nw_calls ?w))" using d(2,3) new(1) by (auto simp: completed_fields)
  moreover have "\<forall>i \<in> ct_id ` set (nw_ctl ?w) \<union> rp_ct ` set (nw_calls ?w). i < nw_next ?w"
    using assms(1) new(2) by (auto simp: net_inv_def completed_fields)
  ultimately show ?thesis using keep unfolding net_inv_def by blast
qed

lemma ct_set_ids: "map ct_id (nw_ctl (ct_set ct w)) = map ct_id (nw_ctl w)"
  by (auto simp: ct_set_def)

lemma ct_set_fields [simp]:
  "nw_calls (ct_set ct w) = nw_calls w" "nw_next (ct_set ct w) = nw_next w" "nw_ctps (ct_set ct w) = nw_ctps w"
  "nw_conf (ct_set ct w) = nw_conf w" "nw_now (ct_set ct w) = nw_now w" "nw_sent (ct_set ct w) = nw_sent w"
  "nw_socks (ct_set ct w) = nw_socks w" "nw_tick (ct_set ct w) = nw_tick w"
  by (simp_all add: ct_set_def)

lemma ct_set_mem: "ct \<in> set (nw_ctl w) \<Longrightarrow> ct_id ct' = ct_id ct \<Longrightarrow> ct' \<in> set (nw_ctl (ct_set ct' w))"
  by (auto simp: ct_set_def)

lemma ct_set_inv:
  assumes "net_inv w" and "ct \<in> set (nw_ctl w)" and "ct_id ct' = ct_id ct" and "ct_ctp ct' = ct_ctp ct"
  shows "net_inv (ct_set ct' w)"
proof -
  have i: "ct_id ` set (nw_ctl (ct_set ct' w)) = ct_id ` set (nw_ctl w)"
    using arg_cong [OF ct_set_ids [of ct' w], of set] by simp
  have "\<exists>c \<in> set (nw_ctl (ct_set ct' w)). ct_id c = i \<and> ct_ctp c = Some l" if l: "nw_ctps w l = Some i" for l i
  proof -
    from l assms(1) obtain c where c: "c \<in> set (nw_ctl w)" "ct_id c = i" "ct_ctp c = Some l" unfolding net_inv_def by blast
    show ?thesis
    proof (cases "ct_id c = ct_id ct'")
      case True
      then have "c = ct" using assms c(1) by (auto simp: net_inv_def distinct_map inj_on_def)
      then show ?thesis using c assms ct_set_mem [OF assms(2,3)] by auto
    next
      case False
      then show ?thesis using c by (auto simp: ct_set_def intro!: bexI [of _ c] rev_image_eqI [of c])
    qed
  qed
  then show ?thesis using assms(1) unfolding net_inv_def ct_set_fields ct_set_ids i by blast
qed

lemma stun_send_inv: "stun_send env proto sock dst mb w = (err, w') \<Longrightarrow> net_inv w' = net_inv w"
  using stun_send_fields [of env proto sock dst mb w err w'] by (simp add: net_inv_def)

lemma timeout_handler_inv:
  assumes "net_inv w" and "ct \<in> set (nw_ctl w)"
  shows "net_inv (timeout_handler env ct w)"
proof (cases "ct_txc ct \<ge> cf_rc (nw_conf w)")
  case True
  then show ?thesis using completed_inv [OF assms refl refl] by (simp add: timeout_handler_def)
next
  case False
  define ct1 where "ct1 = ct\<lparr>ct_txc := ct_txc ct + 1, ct_mb := (ct_mb ct)\<lparr>mb_pos := ct_pos ct\<rparr>, ct_tmr := None\<rparr>"
  have c1: "ct_id ct1 = ct_id ct" "ct_ctp ct1 = ct_ctp ct" by (simp_all add: ct1_def)
  obtain err w1 where s: "stun_send env (ct_proto ct1) (ct_sock ct1) (ct_dst ct1) (ct_mb ct1) (ct_set ct1 w) = (err, w1)" by fastforce
  have w1: "net_inv w1" "ct1 \<in> set (nw_ctl w1)"
    using stun_send_inv [OF s] ct_set_inv [OF assms c1] stun_send_fields(1) [OF s] ct_set_mem [OF assms(2) c1(1)] by simp_all
  show ?thesis
    using False completed_inv [OF w1 refl refl] ct_set_inv [OF w1]
    by (simp add: timeout_handler_def Let_def ct1_def [symmetric] s split: option.split)
qed

lemma stun_ctrans_recv_inv:
  assumes "net_inv w"
  shows "net_inv (snd (stun_ctrans_recv env msg ua w))"
proof -
  have "ct \<in> set (nw_ctl w)" if "find (match_handler msg) (nw_ctl w) = Some ct" for ct using that by (auto simp: find_Some_iff)
  with assms show ?thesis
    by (auto simp: stun_ctrans_recv_def Let_def split: option.splits prod.splits intro: completed_inv)
qed

lemma stun_recv_inv: "net_inv w \<Longrightarrow> net_inv (snd (stun_recv env mb w))"
  by (auto simp: stun_recv_def Let_def stun_ctrans_recv_inv split: sum.splits prod.splits)

lemma close_all_inv:
  "net_inv w \<Longrightarrow> distinct (map ct_id cts) \<Longrightarrow> set cts \<subseteq> set (nw_ctl w) \<Longrightarrow> net_inv (fold close_handler cts w)"
proof (induction cts arbitrary: w)
  case (Cons ct cts)
  have "net_inv (close_handler ct w)" using Cons.prems completed_inv [of w ct ct] by (simp add: close_handler_def)
  moreover have "set cts \<subseteq> set (nw_ctl (close_handler ct w))"
    using Cons.prems by (auto simp: close_handler_def completed_fields intro: rev_image_eqI)
  ultimately show ?case using Cons by simp
qed simp

text \<open>A new transaction has a new address; when the request fails it is gone again.\<close>

lemma ct_start_fields:
  assumes "ct_start env proto sock dst mb ct w = (err, ct', w')"
  shows "nw_ctl w' = nw_ctl w" "nw_calls w' = nw_calls w" "nw_next w \<le> nw_next w'" "nw_ctps w' = nw_ctps w"
    "nw_conf w' = nw_conf w" "nw_now w' = nw_now w" "ct_id ct' = ct_id ct"
  using assms
  by (auto simp: ct_start_def udp_listen_def Let_def split: stun_proto.splits option.splits if_splits prod.splits dest: stun_send_fields)

lemma stun_ctrans_request_cases:
  fixes w :: stun_net
  assumes "stun_ctrans_request env ctp proto sock dst mb tid met key resph w = (err, w')"
    and "nw_next w \<notin> ct_id ` set (nw_ctl w)"
  shows "nw_calls w' = nw_calls w" "nw_next w < nw_next w'" "nw_conf w' = nw_conf w"
    and "(\<exists>ct. nw_ctl w' = nw_ctl w @ [ct] \<and> ct_id ct = nw_next w \<and> ct_ctp ct = ctp
          \<and> nw_ctps w' = (case ctp of None \<Rightarrow> nw_ctps w | Some l \<Rightarrow> (nw_ctps w)(l \<mapsto> nw_next w)))
      \<or> nw_ctl w' = nw_ctl w \<and> nw_ctps w' = nw_ctps w"
proof -
  define ct0 where "ct0 = \<lparr>ct_id = nw_next w, ct_tid = take STUN_TID_SIZE tid, ct_met = met, ct_key = key, ct_proto = proto, ct_sock = sock,
                ct_mb = mb, ct_pos = mb_pos mb, ct_dst = None, ct_txc = 0, ct_ival = 0, ct_tmr = None, ct_ctp = None, ct_resph = False\<rparr>"
  define w0 where "w0 = (sock_ref sock w)\<lparr>nw_next := nw_next w + 1, nw_ctl := nw_ctl w @ [ct0]\<rparr>"
  obtain e ct1 w1 where s: "ct_start env proto sock dst mb ct0 w0 = (e, ct1, w1)" by (metis prod_cases3)
  note f = ct_start_fields [OF s]
  have w': "(err, w') = (case e of Some e \<Rightarrow> (Some e, ct_destructor ct1 w1)
      | None \<Rightarrow> (None, (ct_set (ct1\<lparr>ct_ctp := ctp, ct_resph := resph\<rparr>) w1)
           \<lparr>nw_ctps := (case ctp of None \<Rightarrow> nw_ctps w1 | Some l \<Rightarrow> (nw_ctps w1)(l \<mapsto> ct_id ct1))\<rparr>))"
    using assms(1) s unfolding stun_ctrans_request_def Let_def ct0_def [symmetric] w0_def [symmetric] by simp
  have l: "nw_ctl w1 = nw_ctl w @ [ct0]" "ct_id ct0 = nw_next w" "ct_id ct1 = nw_next w" "nw_next w < nw_next w1"
    using f by (simp_all add: w0_def ct0_def)
  have ne: "ct_id c \<noteq> nw_next w" if "c \<in> set (nw_ctl w)" for c using assms(2) that by (metis imageI)
  have old: "map (\<lambda>c. if ct_id c = nw_next w then x else c) (nw_ctl w) = nw_ctl w" for x by (simp add: ne map_idI)
  have new: "filter (\<lambda>c. ct_id c \<noteq> nw_next w) (nw_ctl w) = nw_ctl w" by (simp add: ne filter_id_conv)
  show "nw_calls w' = nw_calls w" "nw_next w < nw_next w'" "nw_conf w' = nw_conf w"
    using w' f(2,5) l(4) by (auto simp: w0_def ct_destructor_def split: option.splits)
  show "(\<exists>ct. nw_ctl w' = nw_ctl w @ [ct] \<and> ct_id ct = nw_next w \<and> ct_ctp ct = ctp
          \<and> nw_ctps w' = (case ctp of None \<Rightarrow> nw_ctps w | Some l \<Rightarrow> (nw_ctps w)(l \<mapsto> nw_next w)))
      \<or> nw_ctl w' = nw_ctl w \<and> nw_ctps w' = nw_ctps w"
    using w' f(4) l old new by (auto simp: w0_def ct_destructor_def ct_set_def split: option.splits)
qed

lemma request_inv:
  assumes "net_inv w" and "stun_ctrans_request env ctp proto sock dst mb tid met key resph w = (err, w')"
  shows "net_inv w'"
proof -
  note fresh = net_inv_fresh(1) [OF assms(1)]
  then have n0: "nw_next w \<notin> ct_id ` set (nw_ctl w)" by fastforce
  note c = stun_ctrans_request_cases [OF assms(2) n0]
  have old: "ct_id x < nw_next w \<and> ct_id x < nw_next w'" if "x \<in> set (nw_ctl w)" for x
    using fresh [OF that] c(2) by simp
  note calls0 = net_inv_fresh(2) [OF assms(1)]
  then have n1: "nw_next w \<notin> rp_ct ` set (nw_calls w)" by fastforce
  have calls: "rp_ct r < nw_next w \<and> rp_ct r < nw_next w'" if "r \<in> set (nw_calls w)" for r
    using calls0 [OF that] c(2) by simp
  have ptr: "nw_ctps w l = Some i \<Longrightarrow> \<exists>ct \<in> set (nw_ctl w). ct_id ct = i \<and> ct_ctp ct = Some l" for l i
    using assms(1) unfolding net_inv_def by blast
  have d: "distinct (map ct_id (nw_ctl w) @ map rp_ct (nw_calls w))" using assms(1) by (simp add: net_inv_def)
  from c(4) show ?thesis
  proof (elim disjE exE conjE)
    fix ct assume ct: "nw_ctl w' = nw_ctl w @ [ct]" "ct_id ct = nw_next w" "ct_ctp ct = ctp"
      "nw_ctps w' = (case ctp of None \<Rightarrow> nw_ctps w | Some l \<Rightarrow> (nw_ctps w)(l \<mapsto> nw_next w))"
    have "distinct (map ct_id (nw_ctl w') @ map rp_ct (nw_calls w'))"
      using d n0 n1 by (simp add: ct c(1))
    moreover have "\<forall>i \<in> ct_id ` set (nw_ctl w') \<union> rp_ct ` set (nw_calls w'). i < nw_next w'"
      using old calls c(2) by (auto simp: ct c(1))
    moreover have "\<exists>c \<in> set (nw_ctl w'). ct_id c = i \<and> ct_ctp c = Some l" if "nw_ctps w' l = Some i" for l i
      using that ptr [of l i] by (auto simp: ct split: option.splits if_splits)
    ultimately show ?thesis unfolding net_inv_def by blast
  next
    assume ct: "nw_ctl w' = nw_ctl w" "nw_ctps w' = nw_ctps w"
    then show ?thesis using d old calls ptr unfolding net_inv_def ct c(1) by auto
  qed
qed

lemma net_step_inv: "net_inv w \<Longrightarrow> net_inv (net_step env e w)"
proof -
  assume w: "net_inv w"
  have found: "ct \<in> set (nw_ctl w)" if "ct_find i w = Some ct" for i ct using ct_find_mem [OF that] by simp
  have "net_inv (snd (stun_request env ctp proto sock dst presz met key fp True attrs w))" for ctp proto sock dst presz met key fp attrs
    using w request_inv [of "net_tick w"] by (auto simp: stun_request_def Let_def split: prod.split) (metis prod.collapse net_inv_other(4))
  moreover have "net_inv (tcp_estab_handler env ct w)" if ct: "ct \<in> set (nw_ctl w)" for ct
  proof -
    obtain err w1 where s: "stun_send env IPPROTO_TCP (ct_sock ct) None (ct_mb ct) w = (err, w1)" by fastforce
    show ?thesis
      using completed_inv [of w1 ct ct] stun_send_inv [OF s] stun_send_fields(1) [OF s] w ct by (simp add: tcp_estab_handler_def s)
  qed
  moreover have "net_inv (stun_ctrans_close w)"
    using close_all_inv [OF w] w by (simp add: stun_ctrans_close_def net_inv_def)
  ultimately show ?thesis
    using w found timeout_handler_inv stun_recv_inv completed_inv [OF w _ refl refl]
    by (auto simp: net_step_def fire_def udp_read_def tcp_close_handler_def split: net_event.split option.split udp_recv_h.split)
qed

definition net_run :: "stun_env \<Rightarrow> net_event list \<Rightarrow> stun_net \<Rightarrow> stun_net" where
  "net_run env es w = fold (net_step env) es w"

lemma net_run_inv: "net_inv w \<Longrightarrow> net_inv (net_run env es w)"
  unfolding net_run_def by (induction es arbitrary: w) (simp_all add: net_step_inv)

definition net_start :: "stun_conf option \<Rightarrow> stun_net" where
  "net_start conf = stun_alloc conf False \<lparr>nw_ctl = [], nw_conf = conf_default, nw_indh = False, nw_socks = (\<lambda>_. None),
     nw_ctps = (\<lambda>_. None), nw_next = 0, nw_now = 0, nw_tick = 0, nw_sent = [], nw_calls = [], nw_inds = []\<rparr>"

lemma net_start_inv: "net_inv (net_start conf)"
  by (simp add: net_start_def stun_alloc_def net_inv_def)

text \<open>
  C21: Whatever requests are made, whatever datagrams arrive, timers expire and connections open and close, in any order:
  the response handler of a transaction is called at most once, never for a transaction that is still waiting, and a
  pointer that the library has stored for its client never refers to a transaction that has been freed.
\<close>

theorem stun_answers_once:
  "let w = net_run env es (net_start conf)
   in distinct (map rp_ct (nw_calls w)) \<and> rp_ct ` set (nw_calls w) \<inter> ct_id ` set (nw_ctl w) = {}
      \<and> ran (nw_ctps w) \<subseteq> ct_id ` set (nw_ctl w)"
proof -
  define w where "w = net_run env es (net_start conf)"
  have w: "net_inv w" unfolding w_def by (rule net_run_inv [OF net_start_inv])
  then have "distinct (map rp_ct (nw_calls w))" "rp_ct ` set (nw_calls w) \<inter> ct_id ` set (nw_ctl w) = {}"
    by (auto simp: net_inv_def)
  moreover have "ran (nw_ctps w) \<subseteq> ct_id ` set (nw_ctl w)"
    using w unfolding net_inv_def ran_def by blast
  ultimately show ?thesis unfolding Let_def w_def by blast
qed

definition calm_env :: stun_env where
  "calm_env = \<lparr>se_send = (\<lambda>_. None), se_listen = (\<lambda>_. None), se_connect = (\<lambda>_. None), se_tid = (\<lambda>n. replicate 12 (of_nat n)),
     se_hmac = (\<lambda>k x. replicate 20 (of_nat (length k + length x)))\<rparr>"

section \<open>Retransmission\<close>

text \<open>What has passed when a transaction over UDP has timed out \<open>k\<close> times: the timeouts double.\<close>

definition waited :: "u32 \<Rightarrow> nat \<Rightarrow> nat" where
  "waited rto k = unat rto * (2 ^ k - 1)"

lemma waited_Suc: "waited rto (Suc k) = waited rto k + unat rto * 2 ^ k"
proof -
  have "(2 :: nat) ^ Suc k - 1 = (2 ^ k - 1) + 2 ^ k" by simp
  then show ?thesis unfolding waited_def by (simp only: distrib_left)
qed

text \<open>The transaction \<open>i\<close> before its \<open>k\<close>-th timeout, counted from zero.\<close>

definition pending :: "stun_net \<Rightarrow> nat \<Rightarrow> nat \<Rightarrow> sockaddr \<Rightarrow> bytes \<Rightarrow> stun_net \<Rightarrow> nat \<Rightarrow> bool" where
  "pending w0 i s dst bs w k \<longleftrightarrow>
     (\<exists>ct. ct_find i w = Some ct \<and> distinct (map ct_id (nw_ctl w)) \<and> ct_id ct = i \<and> ct_proto ct = IPPROTO_UDP \<and> ct_sock ct = Some s
       \<and> ct_dst ct = Some dst \<and> mbuf_data ((ct_mb ct)\<lparr>mb_pos := ct_pos ct\<rparr>) = bs \<and> ct_resph ct
       \<and> unat (ct_txc ct) = Suc k
       \<and> ct_ival ct = (if k > 0 \<and> Suc k \<ge> unat (cf_rc (nw_conf w0)) then cf_rto (nw_conf w0) * cf_rm (nw_conf w0)
             else cf_rto (nw_conf w0) * 2 ^ k)
       \<and> ct_tmr ct = Some (nw_now w + ucast (ct_ival ct)))
     \<and> nw_conf w = nw_conf w0 \<and> nw_calls w = nw_calls w0
     \<and> nw_now w = nw_now w0 + of_nat (waited (cf_rto (nw_conf w0)) k)
     \<and> nw_sent w = nw_sent w0 @ replicate (Suc k) (s, Some dst, bs)"

lemma ct_find_set: "ct_find (ct_id ct) w = Some c \<Longrightarrow> ct_find (ct_id ct) (ct_set ct w) = Some ct"
  unfolding ct_find_def ct_set_def by (simp, induction "nw_ctl w" arbitrary: w) (auto simp: find_Some_iff split: if_splits)

definition patient :: "stun_conf \<Rightarrow> bool" where
  "patient c \<longleftrightarrow> 2 \<le> unat (cf_rc c) \<and> unat (cf_rto c) * 2 ^ unat (cf_rc c) < 2 ^ 32 \<and> unat (cf_rto c) * unat (cf_rm c) < 2 ^ 32"

lemma u32_mult_nat:
  fixes a b :: u32
  assumes "unat a * unat b < 2 ^ 32"
  shows "ucast (a * b) = (of_nat (unat a * unat b) :: u64)"
proof -
  have "unat (a * b) = unat a * unat b" using assms by (simp add: unat_mult_lem [THEN iffD1])
  then have "of_nat (unat (a * b)) = (of_nat (unat a * unat b) :: u64)" by simp
  then show ?thesis by (simp add: of_nat_unat)
qed

lemma patient_ival:
  assumes "patient c" and "k < unat (cf_rc c)"
  shows "ucast (cf_rto c * 2 ^ k) = (of_nat (unat (cf_rto c) * 2 ^ k) :: u64)"
proof -
  have le: "unat (cf_rto c) * 2 ^ k < 2 ^ 32"
  proof -
    have "(2 :: nat) ^ k \<le> 2 ^ unat (cf_rc c)" using assms(2) by (intro power_increasing) simp_all
    then have "unat (cf_rto c) * 2 ^ k \<le> unat (cf_rto c) * 2 ^ unat (cf_rc c)" by (rule mult_le_mono2)
    also have "\<dots> < 2 ^ 32" using assms(1) by (simp add: patient_def)
    finally show ?thesis .
  qed
  show ?thesis
  proof (cases "cf_rto c = 0")
    case False
    then have "1 \<le> unat (cf_rto c)" by (simp add: Suc_le_eq unat_gt_0)
    then have "(2 :: nat) ^ k < 2 ^ 32" using le by (metis le_less_trans mult_1 mult_le_mono1)
    then have "k < 32" by (rule power_less_imp_less_exp [rotated]) simp
    then have "unat (of_nat (2 ^ k) :: u32) = 2 ^ k" by (simp only: unsigned_of_nat) (simp add: take_bit_nat_eq_self)
    then have p: "unat ((2 :: u32) ^ k) = 2 ^ k" by simp
    then show ?thesis using u32_mult_nat [of "cf_rto c" "2 ^ k"] le by (simp only: p)
  qed simp
qed

lemma pending_fire:
  assumes "pending w0 i s dst bs w k" and "\<And>t. se_send env t = None" and "patient (nw_conf w0)" and "Suc k < unat (cf_rc (nw_conf w0))"
  shows "pending w0 i s dst bs (fire env i w) (Suc k)"
proof -
  let ?c = "nw_conf w0"
  from assms(1) obtain ct where ct: "ct_find i w = Some ct" "distinct (map ct_id (nw_ctl w))" "ct_id ct = i" "ct_proto ct = IPPROTO_UDP"
      "ct_sock ct = Some s" "ct_dst ct = Some dst" "mbuf_data ((ct_mb ct)\<lparr>mb_pos := ct_pos ct\<rparr>) = bs" "ct_resph ct" "unat (ct_txc ct) = Suc k"
      "ct_ival ct = cf_rto ?c * 2 ^ k" "ct_tmr ct = Some (nw_now w + ucast (ct_ival ct))"
    and w: "nw_conf w = ?c" "nw_calls w = nw_calls w0" "nw_now w = nw_now w0 + of_nat (waited (cf_rto ?c) k)"
      "nw_sent w = nw_sent w0 @ replicate (Suc k) (s, Some dst, bs)"
    using assms(4) unfolding pending_def by auto
  define t where "t = nw_now w + ucast (ct_ival ct)"
  have t: "t = nw_now w0 + of_nat (waited (cf_rto ?c) (Suc k))"
    using patient_ival [OF assms(3), of k] assms(4) by (simp add: t_def w(3) ct(10) waited_Suc)
  define ct1 where "ct1 = ct\<lparr>ct_txc := ct_txc ct + 1, ct_mb := (ct_mb ct)\<lparr>mb_pos := ct_pos ct\<rparr>, ct_tmr := None\<rparr>"
  have "unat (ct_txc ct) < 2 ^ 32 - 1" using assms(4) ct(9) unsigned_less [of "cf_rc ?c", where 'a = nat] by simp
  then have txc: "unat (ct_txc ct1) = Suc (Suc k)" using ct(9) by (simp add: ct1_def unat_word_ariths)
  have less: "\<not> ct_txc ct \<ge> cf_rc ?c" using ct(9) assms(4) by (simp add: word_le_nat_alt)
  define ival where "ival = (if ct_txc ct1 \<ge> cf_rc ?c then cf_rto ?c * cf_rm ?c else ct_ival ct * 2)"
  define w1 where "w1 = net_tick (ct_set ct1 (w\<lparr>nw_now := t\<rparr>))\<lparr>nw_sent := nw_sent w @ [(s, Some dst, bs)]\<rparr>"
  have s1: "stun_send env (ct_proto ct1) (ct_sock ct1) (ct_dst ct1) (ct_mb ct1) (ct_set ct1 (w\<lparr>nw_now := t\<rparr>)) = (None, w1)"
    using ct(4-7) assms(2) by (simp add: stun_send_def ct1_def w1_def)
  have f: "fire env i w = ct_set (ct1\<lparr>ct_ival := ival, ct_tmr := Some (t + ucast ival)\<rparr>) w1"
    unfolding fire_def ct(1,11) option.case t_def [symmetric] timeout_handler_def Let_def
    using less by (simp add: w(1) ct1_def [symmetric] s1 ival_def [symmetric]) (simp add: w1_def ct1_def ival_def)
  have ids: "ct_id ct1 = i" by (simp add: ct1_def ct(3))
  have found: "ct_find i w1 = Some ct1"
    using ct_find_set [of ct1 "w\<lparr>nw_now := t\<rparr>" ct] ct(1) ids by (simp add: w1_def ct_find_def)
  have iv: "ival = (if Suc k > 0 \<and> Suc (Suc k) \<ge> unat (cf_rc ?c) then cf_rto ?c * cf_rm ?c else cf_rto ?c * 2 ^ Suc k)"
    using txc ct(10) by (simp add: ival_def word_le_nat_alt)
  define ct2 where "ct2 = ct1\<lparr>ct_ival := ival, ct_tmr := Some (t + ucast ival)\<rparr>"
  have "ct_find i (ct_set ct2 w1) = Some ct2" using ct_find_set [of ct2 w1 ct1] found ids by (simp add: ct2_def)
  moreover have "distinct (map ct_id (nw_ctl (ct_set ct2 w1)))"
    unfolding ct_set_ids using ct(2) ct_set_ids [of ct1 "w\<lparr>nw_now := t\<rparr>"] by (simp add: w1_def del: map_map)
  ultimately show ?thesis
    unfolding pending_def f ct2_def [symmetric] using ct txc iv ids w t
    by (auto simp: ct2_def ct1_def w1_def replicate_append_same [symmetric])
qed

lemma pending_run:
  assumes "pending w0 i s dst bs w 0" and "\<And>t. se_send env t = None" and "patient (nw_conf w0)"
  shows "k < unat (cf_rc (nw_conf w0)) \<Longrightarrow> pending w0 i s dst bs ((fire env i ^^ k) w) k"
proof (induction k)
  case (Suc k)
  then show ?case using pending_fire [OF _ assms(2,3), of i s dst bs "(fire env i ^^ k) w" k] by simp
qed (use assms(1) in simp)

lemma pending_last:
  assumes "pending w0 i s dst bs w k" and "patient (nw_conf w0)" and "Suc k = unat (cf_rc (nw_conf w0))"
  shows "ct_find i (fire env i w) = None"
    "nw_calls (fire env i w) = nw_calls w0 @ [\<lparr>rp_ct = i, rp_err = Some ETIMEDOUT, rp_scode = 0, rp_reason = None, rp_msg = None\<rparr>]"
    "nw_now (fire env i w) = nw_now w0 + of_nat (waited (cf_rto (nw_conf w0)) k + unat (cf_rto (nw_conf w0)) * unat (cf_rm (nw_conf w0)))"
    "nw_sent (fire env i w) = nw_sent w0 @ replicate (Suc k) (s, Some dst, bs)"
proof -
  let ?c = "nw_conf w0"
  have k: "k > 0" using assms(2,3) by (simp add: patient_def)
  from assms(1) k assms(3) obtain ct where ct: "ct_find i w = Some ct" "ct_id ct = i" "ct_resph ct" "unat (ct_txc ct) = Suc k"
      "ct_ival ct = cf_rto ?c * cf_rm ?c" "ct_tmr ct = Some (nw_now w + ucast (ct_ival ct))"
    and w: "nw_conf w = ?c" "nw_calls w = nw_calls w0" "nw_now w = nw_now w0 + of_nat (waited (cf_rto ?c) k)"
      "nw_sent w = nw_sent w0 @ replicate (Suc k) (s, Some dst, bs)"
    unfolding pending_def by auto
  have le: "ct_txc ct \<ge> cf_rc ?c" using ct(4) assms(3) by (simp add: word_le_nat_alt)
  have u: "ucast (cf_rto ?c * cf_rm ?c) = (of_nat (unat (cf_rto ?c) * unat (cf_rm ?c)) :: u64)"
    using assms(2) by (intro u32_mult_nat) (simp add: patient_def)
  have f: "fire env i w = completed ct (Some ETIMEDOUT) 0 None None (w\<lparr>nw_now := nw_now w + ucast (ct_ival ct)\<rparr>)"
    using le by (simp add: fire_def ct(1,6) timeout_handler_def w(1))
  show "ct_find i (fire env i w) = None"
    unfolding f ct_find_def completed_fields by (simp add: ct(2) find_None_iff)
  show "nw_calls (fire env i w) = nw_calls w0 @ [\<lparr>rp_ct = i, rp_err = Some ETIMEDOUT, rp_scode = 0, rp_reason = None, rp_msg = None\<rparr>]"
    unfolding f completed_fields using ct(2,3) w(2) by simp
  show "nw_now (fire env i w) = nw_now w0 + of_nat (waited (cf_rto (nw_conf w0)) k + unat (cf_rto (nw_conf w0)) * unat (cf_rm (nw_conf w0)))"
    unfolding f completed_fields by (simp add: ct(5) w(3) u add.assoc)
  show "nw_sent (fire env i w) = nw_sent w0 @ replicate (Suc k) (s, Some dst, bs)" unfolding f completed_fields using w(4) by simp
qed

text \<open>The transaction of a request over a given UDP socket.\<close>

definition udp_ct :: "stun_env \<Rightarrow> nat option \<Rightarrow> nat \<Rightarrow> sockaddr \<Rightarrow> nat \<Rightarrow> u16 \<Rightarrow> bytes option \<Rightarrow> bool \<Rightarrow> mbuf \<Rightarrow> stun_net \<Rightarrow> ctrans" where
  "udp_ct env ctp s dst presz met key resph mb w = \<lparr>ct_id = nw_next w, ct_tid = take STUN_TID_SIZE (se_tid env (nw_tick w)), ct_met = met,
     ct_key = key, ct_proto = IPPROTO_UDP, ct_sock = Some s, ct_mb = mb\<lparr>mb_pos := presz\<rparr>, ct_pos = presz, ct_dst = Some dst, ct_txc = 1,
     ct_ival = cf_rto (nw_conf w), ct_tmr = Some (nw_now w + ucast (cf_rto (nw_conf w))), ct_ctp = ctp, ct_resph = resph\<rparr>"

lemma stun_request_udp:
  assumes "stun_request env ctp IPPROTO_UDP (Some s) (Some dst) presz met key fp resph attrs w = (None, w1)"
    and "nw_next w \<notin> ct_id ` set (nw_ctl w)"
  obtains mb where "nw_ctl w1 = nw_ctl w @ [udp_ct env ctp s dst presz met key resph mb w]" "nw_conf w1 = nw_conf w" "nw_calls w1 = nw_calls w"
    "nw_now w1 = nw_now w" "nw_sent w1 = nw_sent w @ [(s, Some dst, mbuf_data (mb\<lparr>mb_pos := presz\<rparr>))]"
proof -
  let ?tid = "se_tid env (nw_tick w)"
  obtain mb where mb: "stun_ctrans_request env ctp IPPROTO_UDP (Some s) (Some dst) (mb\<lparr>mb_pos := presz\<rparr>) ?tid met key resph (net_tick w) = (None, w1)"
    using assms(1) unfolding stun_request_def Let_def by (auto split: prod.splits if_splits)
  have "ct_id c \<noteq> nw_next w" if "c \<in> set (nw_ctl w)" for c using assms(2) that by (metis imageI)
  then have old: "map (\<lambda>c. if ct_id c = nw_next w then x else c) (nw_ctl w) = nw_ctl w" for x by (simp add: map_idI)
  show ?thesis
  proof (cases "se_send env (nw_tick (net_tick w))")
    case None
    show ?thesis
      by (rule that [of mb]) (use mb None in \<open>auto simp: stun_ctrans_request_def ct_start_def stun_send_def Let_def ct_set_def udp_ct_def old sock_ref_def\<close>)
  next
    case (Some e)
    then show ?thesis using mb by (auto simp: stun_ctrans_request_def ct_start_def stun_send_def Let_def sock_ref_def)
  qed
qed

lemma stun_request_pending:
  assumes "stun_request env ctp IPPROTO_UDP (Some s) (Some dst) presz met key fp True attrs w = (None, w1)" and "net_inv w"
  shows "\<exists>bs. pending w (nw_next w) s dst bs w1 0"
proof -
  have n: "nw_next w \<notin> ct_id ` set (nw_ctl w)" using net_inv_fresh(1) [OF assms(2)] by fastforce
  obtain mb where w1: "nw_ctl w1 = nw_ctl w @ [udp_ct env ctp s dst presz met key True mb w]" "nw_conf w1 = nw_conf w" "nw_calls w1 = nw_calls w"
    "nw_now w1 = nw_now w" "nw_sent w1 = nw_sent w @ [(s, Some dst, mbuf_data (mb\<lparr>mb_pos := presz\<rparr>))]"
    using stun_request_udp [OF assms(1) n] .
  define ct where "ct = udp_ct env ctp s dst presz met key True mb w"
  have ci: "ct_id ct = nw_next w" by (simp add: ct_def udp_ct_def)
  have d: "distinct (map ct_id (nw_ctl w @ [ct]))" using assms(2) n by (simp add: net_inv_def ci)
  moreover have "find (\<lambda>c. ct_id c = nw_next w) (nw_ctl w @ [ct]) = Some ct" using find_by_key [OF d, of ct] by (simp add: ci)
  ultimately show ?thesis
    unfolding pending_def ct_find_def w1 ct_def [symmetric]
    by (intro exI [of _ "mbuf_data (mb\<lparr>mb_pos := presz\<rparr>)"] conjI exI [of _ ct]) (simp_all add: ct_def udp_ct_def waited_def)
qed

text \<open>
  C22: A request over UDP that nobody answers ends: it is sent as often as the configuration says, with the timeouts
  doubling from one to the next and the last one \<open>rto * rm\<close> long, and then the response handler is called once with
  \<open>ETIMEDOUT\<close> and the transaction is freed. With the library's defaults these are 7 transmissions in 39.5 seconds.
\<close>

theorem stun_request_times_out:
  assumes "stun_request env ctp IPPROTO_UDP (Some s) (Some dst) presz met key fp True attrs w = (None, w1)" and "net_inv w"
    and "\<And>t. se_send env t = None" and "patient (nw_conf w)"
  defines "i \<equiv> nw_next w" and "rc \<equiv> unat (cf_rc (nw_conf w))"
  defines "w2 \<equiv> (fire env i ^^ rc) w1"
  shows "ct_find i w2 = None
    \<and> nw_calls w2 = nw_calls w @ [\<lparr>rp_ct = i, rp_err = Some ETIMEDOUT, rp_scode = 0, rp_reason = None, rp_msg = None\<rparr>]
    \<and> nw_sent w2 = nw_sent w @ replicate rc (last (nw_sent w1))
    \<and> nw_now w2 = nw_now w + of_nat (unat (cf_rto (nw_conf w)) * (2 ^ (rc - 1) - 1) + unat (cf_rto (nw_conf w)) * unat (cf_rm (nw_conf w)))"
proof -
  obtain bs where p: "pending w i s dst bs w1 0" unfolding i_def using stun_request_pending [OF assms(1,2)] by blast
  have l: "last (nw_sent w1) = (s, Some dst, bs)" using p by (simp add: pending_def)
  obtain k where k: "rc = Suc k" using assms(4) by (cases rc) (auto simp: patient_def rc_def)
  have q: "pending w i s dst bs ((fire env i ^^ k) w1) k"
    using pending_run [OF p assms(3,4), of k] k by (simp add: rc_def [symmetric])
  note e = pending_last [OF q assms(4), of env, folded rc_def, OF k [symmetric]]
  have w2: "w2 = fire env i ((fire env i ^^ k) w1)" by (simp add: w2_def k)
  show ?thesis using e unfolding w2 l k by (simp add: waited_def)
qed

lemma calm_request:
  "\<exists>w1. stun_request calm_env None IPPROTO_UDP (Some 0) (Some (sa_set_in 1 2)) 0 STUN_METHOD_BINDING None False True [] (net_start None) = (None, w1)"
proof -
  have at: "mb_at ((mbuf_alloc 512)\<lparr>mb_pos := 0\<rparr>) [] (length [])" using mb_at_pos [OF mb_at_alloc [of 512], of 0] by simp
  have len: "length (msg_body (se_hmac calm_env) STUN_METHOD_BINDING STUN_CLASS_REQUEST (se_tid calm_env 0) None None False 0 []) < 2 ^ 16"
    by (simp add: msg_body_def ec_bytes_def mi_bytes_def fp_bytes_def)
  have ok: "attrs_ok []" "ec_ok None" "length (se_tid calm_env 0) = 12" "\<And>k x. length (se_hmac calm_env k x) = 20"
    by (simp_all add: attrs_ok_def ec_ok_def calm_env_def)
  obtain m where "stun_msg_vencode (se_hmac calm_env) ((mbuf_alloc 512)\<lparr>mb_pos := 0\<rparr>) STUN_METHOD_BINDING STUN_CLASS_REQUEST
      (se_tid calm_env 0) None None False 0 [] = (None, m)"
    using encode_then_decode [of _ "[]" "se_tid calm_env 0" "[]" None "se_hmac calm_env", OF at ok(3,1,2,4) len] by blast
  moreover have "nw_tick (net_start None) = 0" "\<And>t. se_send calm_env t = None" by (simp_all add: net_start_def stun_alloc_def calm_env_def)
  ultimately show ?thesis
    by (simp add: stun_request_def stun_ctrans_request_def ct_start_def stun_send_def Let_def)
qed

theorem stun_request_times_out_witness:
  "\<exists>w1. stun_request calm_env None IPPROTO_UDP (Some 0) (Some (sa_set_in 1 2)) 0 STUN_METHOD_BINDING None False True [] (net_start None) = (None, w1)
    \<and> ct_find 0 ((fire calm_env 0 ^^ 7) w1) = None \<and> length (nw_sent ((fire calm_env 0 ^^ 7) w1)) = 7
    \<and> nw_now ((fire calm_env 0 ^^ 7) w1) = 39500"
proof -
  obtain w1 where r: "stun_request calm_env None IPPROTO_UDP (Some 0) (Some (sa_set_in 1 2)) 0 STUN_METHOD_BINDING None False True [] (net_start None) = (None, w1)"
    using calm_request by blast
  have c: "nw_conf (net_start None) = conf_default" "nw_next (net_start None) = 0" "nw_sent (net_start None) = []" "nw_now (net_start None) = 0"
    by (simp_all add: net_start_def stun_alloc_def)
  have p: "patient (nw_conf (net_start None))" by (simp add: c patient_def conf_default_def)
  have s: "\<And>t. se_send calm_env t = None" by (simp add: calm_env_def)
  note e = stun_request_times_out [OF r net_start_inv s p]
  show ?thesis using r e by (intro exI [of _ w1]) (simp add: c conf_default_def)
qed

end
