(* ===== verification/Stun_Discovery.thy ===== *)
theory Stun_Discovery
  imports Stun_Client Stun_Trans
begin

text \<open>
  The discovery of the public address (\<open>stun_client.c\<close>) on top of the STUN stack: the same \<open>stun_discover\<close> as in the
  theory of the STUN client, with the library's \<open>udp_listen\<close>, \<open>stun_alloc\<close> and \<open>stun_request\<close> in place of their
  results, and the client's response handler run on every call the stack makes. The name of the server has been
  resolved to \<open>srv\<close>.
\<close>

record discovery =
  dc_client :: stun_client
  dc_net :: stun_net
  dc_out :: "string option list"

definition discover_net :: "stun_env \<Rightarrow> sockaddr \<Rightarrow> u16 \<Rightarrow> bool \<Rightarrow> discovery \<Rightarrow> errno option \<times> discovery" where
  "discover_net env srv local_port cb d =
     (let st0 = (dc_client d)\<lparr>sn_cb := cb, sn_discovered := False, sn_public_addr := []\<rparr>
      in case udp_listen env None (dc_net d) of
           (Inl e, w) \<Rightarrow> (Some e, d\<lparr>dc_client := st0, dc_net := w\<rparr>)
         | (Inr us, w) \<Rightarrow>
             (let (err, w) = stun_request env (Some 0) IPPROTO_UDP (Some us) (Some srv) 0 STUN_METHOD_BINDING None False True []
                     (stun_alloc None False w)
              in case err of
                   Some e \<Rightarrow> (Some e, d\<lparr>dc_client := st0\<lparr>sn_us := None, sn_stun := False\<rparr>, dc_net := stun_ctrans_close (sock_deref (Some us) w)\<rparr>)
                 | None \<Rightarrow> (None, d\<lparr>dc_client := st0\<lparr>sn_us := Some local_port, sn_stun := True, sn_ct := True\<rparr>, dc_net := w\<rparr>)))"

definition addr_attr :: "stun_msg option \<Rightarrow> u16 \<Rightarrow> sockaddr option" where
  "addr_attr msg t =
     (case msg of None \<Rightarrow> None
      | Some m \<Rightarrow> (case map_option at_val (stun_msg_attr m t) of Some (SaV a) \<Rightarrow> Some a | _ \<Rightarrow> None))"

definition on_call :: "inet_sys \<Rightarrow> resp_call \<Rightarrow> discovery \<Rightarrow> discovery" where
  "on_call sys c d =
     (let (out, st) = stun_resp_handler sys (rp_err c) (rp_scode c) (addr_attr (rp_msg c) STUN_ATTR_XOR_MAPPED_ADDR)
            (addr_attr (rp_msg c) STUN_ATTR_MAPPED_ADDR) (dc_client d)
      in d\<lparr>dc_client := st, dc_out := dc_out d @ (case out of None \<Rightarrow> [] | Some a \<Rightarrow> [a])\<rparr>)"

definition with_net :: "inet_sys \<Rightarrow> (stun_net \<Rightarrow> stun_net) \<Rightarrow> discovery \<Rightarrow> discovery" where
  "with_net sys f d = (let w = f (dc_net d) in fold (on_call sys) (drop (length (nw_calls (dc_net d))) (nw_calls w)) (d\<lparr>dc_net := w\<rparr>))"

definition disc_run :: "inet_sys \<Rightarrow> stun_env \<Rightarrow> net_event list \<Rightarrow> discovery \<Rightarrow> discovery" where
  "disc_run sys env es d = fold (\<lambda>e. with_net sys (net_step env e)) es d"

text \<open>
  \<open>discover_net\<close> implements the \<open>stun_discover\<close> of the theory of the STUN client, where the library's answers are arguments:
  for the answers that the stack gives, both return the same and leave the client in the same state.
\<close>

lemma discover_net_refines:
  fixes w :: "'a devices_scheme"
  assumes "sa_set_str (en_inet env) server port = Inr srv" and "port \<noteq> 0"
    and "en_udp_listen env (dv_tick w) = (case se_listen senv (nw_tick (dc_net d)) of Some e \<Rightarrow> Inl e | None \<Rightarrow> Inr local_port)"
    and "en_stun_alloc env (dv_tick w) = None"
    and "en_stun_request env (dv_tick w) srv = fst (stun_request senv (Some 0) IPPROTO_UDP (Some (nw_next (dc_net d))) (Some srv) 0
           STUN_METHOD_BINDING None False True [] (stun_alloc None False (snd (udp_listen senv None (dc_net d)))))"
  shows "stun_discover env (Some server) port local_port cb (dc_client d, w) =
     (fst (discover_net senv srv local_port cb d), dc_client (snd (discover_net senv srv local_port cb d)), tick w)"
  using assms
  by (simp add: stun_discover_def discover_net_def udp_listen_def Let_def case_prod_beta split: option.split)

section \<open>No answer arrives\<close>

text \<open>What can happen while the program waits: datagrams arrive on any socket and timers expire.\<close>

definition outside :: "net_event \<Rightarrow> bool" where
  "outside e = (case e of Expire i \<Rightarrow> True | Datagram s bs \<Rightarrow> True | _ \<Rightarrow> False)"

definition deaf :: "stun_net \<Rightarrow> bool" where
  "deaf w \<longleftrightarrow> StunH \<notin> us_rh ` ran (nw_socks w)"

lemma deaf_other [simp]:
  "deaf (w\<lparr>nw_ctl := a\<rparr>) = deaf w" "deaf (w\<lparr>nw_ctps := b\<rparr>) = deaf w" "deaf (w\<lparr>nw_calls := c\<rparr>) = deaf w" "deaf (w\<lparr>nw_now := t\<rparr>) = deaf w"
  "deaf (ct_set ct w) = deaf w" "deaf (stun_alloc conf indh w) = deaf w" "deaf (net_tick w) = deaf w" "deaf (w\<lparr>nw_next := n\<rparr>) = deaf w"
  by (simp_all add: deaf_def stun_alloc_def)

lemma deaf_send: "stun_send env proto sock dst mb w = (err, w') \<Longrightarrow> deaf w' = deaf w"
  using stun_send_fields(7) by (simp add: deaf_def)

lemma deaf_sock: "deaf w \<Longrightarrow> deaf (sock_ref s w)" "deaf w \<Longrightarrow> deaf (sock_deref s w)"
  by (force simp: deaf_def sock_ref_def sock_deref_def ran_def split: option.splits if_splits)+

lemma completed_deaf: "deaf w \<Longrightarrow> deaf (completed ct err scode reason msg w)"
  by (auto simp: completed_def ct_destructor_def Let_def intro: deaf_sock split: option.split)

text \<open>On a deaf instance an expired timer can only end a transaction with an error, and a datagram does nothing.\<close>

definition only_errors :: "stun_net \<Rightarrow> stun_net \<Rightarrow> bool" where
  "only_errors w w' \<longleftrightarrow> deaf w' \<and> list_all (\<lambda>c. rp_err c \<noteq> None) (drop (length (nw_calls w)) (nw_calls w'))"

lemma timeout_only_errors:
  assumes "deaf w"
  shows "only_errors w (timeout_handler env ct w)"
proof -
  define ct1 where "ct1 = ct\<lparr>ct_txc := ct_txc ct + 1, ct_mb := (ct_mb ct)\<lparr>mb_pos := ct_pos ct\<rparr>, ct_tmr := None\<rparr>"
  obtain err w1 where s: "stun_send env (ct_proto ct1) (ct_sock ct1) (ct_dst ct1) (ct_mb ct1) (ct_set ct1 w) = (err, w1)" by fastforce
  have w1: "deaf w1" "nw_calls w1 = nw_calls w" using deaf_send [OF s] stun_send_fields(2) [OF s] assms by simp_all
  have "only_errors w (completed c (Some e) 0 None None w')" if "deaf w'" "nw_calls w' = nw_calls w" for c e w'
    using that completed_deaf by (simp add: only_errors_def completed_fields)
  then show ?thesis using w1 assms
    by (simp add: timeout_handler_def Let_def ct1_def [symmetric] s split: option.split) (simp add: only_errors_def)
qed

lemma deaf_step:
  assumes "deaf w" and "outside e"
  shows "only_errors w (net_step env e w)"
proof (cases e)
  case (Expire i)
  have "only_errors w w" using assms(1) by (simp add: only_errors_def)
  moreover have "only_errors w (timeout_handler env ct (w\<lparr>nw_now := t\<rparr>))" for ct t
    using timeout_only_errors [of "w\<lparr>nw_now := t\<rparr>" env ct] assms(1) by (simp add: only_errors_def)
  ultimately show ?thesis using Expire by (simp add: net_step_def fire_def split: option.split)
next
  case (Datagram s bs)
  have "us_rh u = DummyH" if "nw_socks w s = Some u" for u
    using assms(1) that by (cases "us_rh u") (auto simp: deaf_def ran_def image_iff)
  then show ?thesis using assms(1) Datagram by (auto simp: net_step_def udp_read_def only_errors_def split: option.split)
qed (use assms(2) in \<open>simp_all add: outside_def\<close>)

lemma errors_report_nothing:
  assumes "list_all (\<lambda>c. rp_err c \<noteq> None) cs" and "\<not> sn_discovered (dc_client d)"
  shows "\<not> sn_discovered (dc_client (fold (on_call sys) cs d))"
  using assms
proof (induction cs arbitrary: d)
  case (Cons c cs)
  have "\<not> sn_discovered (dc_client (on_call sys c d))" using Cons.prems by (auto simp: on_call_def stun_resp_handler_def Let_def)
  with Cons show ?case by simp
qed simp

lemma fold_on_call_net [simp]: "dc_net (fold (on_call sys) cs d) = dc_net d"
  by (induction cs arbitrary: d) (simp_all add: on_call_def Let_def split: prod.split)

lemma deaf_run:
  assumes "deaf (dc_net d)" and "\<not> sn_discovered (dc_client d)" and "list_all outside es"
  shows "\<not> sn_discovered (dc_client (disc_run sys env es d))"
  using assms unfolding disc_run_def
proof (induction es arbitrary: d)
  case (Cons e es)
  have o: "only_errors (dc_net d) (net_step env e (dc_net d))" using Cons.prems deaf_step by simp
  then have "\<not> sn_discovered (dc_client (with_net sys (net_step env e) d))"
    unfolding with_net_def Let_def using Cons.prems(2) by (intro errors_report_nothing) (simp_all add: only_errors_def)
  moreover have "deaf (dc_net (with_net sys (net_step env e) d))" using o by (simp add: with_net_def Let_def only_errors_def)
  ultimately show ?case using Cons by simp
qed simp

text \<open>The socket of the client has no receive handler, and the stack opens none.\<close>

lemma request_deaf:
  assumes "stun_request env ctp IPPROTO_UDP (Some s) dst presz met key fp resph attrs w = (err, w')" and "deaf w"
  shows "deaf w'"
proof -
  have "deaf (w1\<lparr>nw_next := n, nw_ctl := x\<rparr>)" if "deaf w1" for w1 n x using that by simp
  then have "deaf (snd (stun_ctrans_request env ctp IPPROTO_UDP (Some s) dst mb tid met key resph w1))" if "deaf w1" for w1 mb tid
    using that by (auto simp: stun_ctrans_request_def ct_start_def ct_destructor_def Let_def deaf_sock deaf_send
        split: prod.split option.split dest!: deaf_send)
  then show ?thesis using assms by (auto simp: stun_request_def Let_def split: prod.splits if_splits) (metis deaf_other(7) snd_conv)
qed

lemma discover_net_ok:
  assumes "discover_net env srv local_port cb d = (None, d')"
  obtains us w1 where "udp_listen env None (dc_net d) = (Inr us, w1)"
    "stun_request env (Some 0) IPPROTO_UDP (Some us) (Some srv) 0 STUN_METHOD_BINDING None False True [] (stun_alloc None False w1) = (None, dc_net d')"
    "dc_client d' = (dc_client d)\<lparr>sn_cb := cb, sn_discovered := False, sn_public_addr := [], sn_us := Some local_port, sn_stun := True, sn_ct := True\<rparr>"
  using assms unfolding discover_net_def Let_def by (auto split: prod.splits sum.splits option.splits)

lemma discover_deaf:
  assumes "discover_net env srv local_port cb d = (None, d')" and "deaf (dc_net d)"
  shows "deaf (dc_net d')" and "\<not> sn_discovered (dc_client d')"
proof -
  obtain us w1 where w1: "udp_listen env None (dc_net d) = (Inr us, w1)"
    "stun_request env (Some 0) IPPROTO_UDP (Some us) (Some srv) 0 STUN_METHOD_BINDING None False True [] (stun_alloc None False w1) = (None, dc_net d')"
    "dc_client d' = (dc_client d)\<lparr>sn_cb := cb, sn_discovered := False, sn_public_addr := [], sn_us := Some local_port, sn_stun := True, sn_ct := True\<rparr>"
    using assms(1) by (rule discover_net_ok)
  have "ran (m(k \<mapsto> v)) \<subseteq> insert v (ran m)" for m :: "nat \<Rightarrow> usock option" and k v by (auto simp: ran_def split: if_splits)
  then have "us_rh ` ran (nw_socks w1) \<subseteq> insert DummyH (us_rh ` ran (nw_socks (dc_net d)))"
    using w1(1) by (fastforce simp: udp_listen_def split: option.splits)
  then have "deaf w1" using assms(2) by (auto simp: deaf_def)
  then show "deaf (dc_net d')" using request_deaf [OF w1(2)] by simp
  show "\<not> sn_discovered (dc_client d')" using w1(3) by simp
qed

text \<open>With a system that lets it listen and send, the request goes out.\<close>

lemma discover_net_sends:
  assumes "\<And>t. se_listen env t = None" and "\<And>t. se_send env t = None" and "\<And>t. length (se_tid env t) = 12"
    and "\<And>k x. length (se_hmac env k x) = 20"
  shows "fst (discover_net env srv local_port cb d) = None"
proof -
  have enc: "fst (stun_msg_vencode (se_hmac env) ((mbuf_alloc 512)\<lparr>mb_pos := 0\<rparr>) STUN_METHOD_BINDING STUN_CLASS_REQUEST (se_tid env t) None None False 0 []) = None" for t
  proof -
    have at: "mb_at ((mbuf_alloc 512)\<lparr>mb_pos := 0\<rparr>) [] (length [])" using mb_at_pos [OF mb_at_alloc [of 512], of 0] by simp
    have len: "length (msg_body (se_hmac env) STUN_METHOD_BINDING STUN_CLASS_REQUEST (se_tid env t) None None False 0 []) < 2 ^ 16"
      by (simp add: msg_body_def ec_bytes_def mi_bytes_def fp_bytes_def)
    have ok: "attrs_ok []" "ec_ok None" by (simp_all add: attrs_ok_def ec_ok_def)
    obtain m where "stun_msg_vencode (se_hmac env) ((mbuf_alloc 512)\<lparr>mb_pos := 0\<rparr>) STUN_METHOD_BINDING STUN_CLASS_REQUEST
        (se_tid env t) None None False 0 [] = (None, m)"
      using encode_then_decode [of _ "[]" "se_tid env t" "[]" None "se_hmac env", OF at assms(3) ok assms(4) len] by blast
    then show ?thesis by (simp only: fst_conv)
  qed
  have "fst (stun_request env ctp IPPROTO_UDP (Some s) (Some dst) 0 STUN_METHOD_BINDING None False True [] w) = None" for ctp s dst w
    using enc [of "nw_tick w"] assms(2)
    by (simp add: stun_request_def stun_ctrans_request_def ct_start_def stun_send_def Let_def case_prod_beta)
  then show ?thesis using assms(1)
    by (simp add: discover_net_def udp_listen_def Let_def case_prod_beta)
qed

text \<open>
  C8: The program never learns its public address. It opens its socket without a receive handler and gives it to
  \<open>stun_request\<close>, which installs one only on a socket of its own: whatever datagrams arrive after \<open>stun_discover\<close> has
  succeeded, the correct response of the server among them, and whatever timers expire, in any order,
  \<open>stun_get_public_addr\<close> answers that there is none.
\<close>

theorem stun_never_discovers:
  assumes "discover_net env srv local_port cb d = (None, d')" and "StunH \<notin> us_rh ` ran (nw_socks (dc_net d))" and "list_all outside es"
  shows "stun_get_public_addr (dc_client (disc_run sys env es d')) = None"
proof -
  have "deaf (dc_net d)" using assms(2) by (simp add: deaf_def)
  from deaf_run [OF discover_deaf [OF assms(1) this] assms(3)] show ?thesis by (simp add: stun_get_public_addr_def)
qed

theorem stun_never_discovers_witness:
  "stun_get_public_addr (dc_client (disc_run (en_inet good_env) calm_env [Datagram 0 [1, 1, 0, 0], Expire 1, Datagram 0 []]
     (snd (discover_net calm_env (sa_set_in 1 2) 3 True \<lparr>dc_client = stun_zero, dc_net = net_start None, dc_out = []\<rparr>)))) = None"
proof (rule stun_never_discovers)
  show "discover_net calm_env (sa_set_in 1 2) 3 True \<lparr>dc_client = stun_zero, dc_net = net_start None, dc_out = []\<rparr>
    = (None, snd (discover_net calm_env (sa_set_in 1 2) 3 True \<lparr>dc_client = stun_zero, dc_net = net_start None, dc_out = []\<rparr>))"
    by (rule prod_eqI) (simp_all add: discover_net_sends calm_env_def)
qed (simp_all add: net_start_def stun_alloc_def outside_def)

section \<open>What the answer would be\<close>

lemma discover_pending:
  assumes "discover_net env srv local_port cb d = (None, d')"
  obtains ct where "nw_ctl (dc_net d') = [ct]" "ct_met ct = STUN_METHOD_BINDING" "ct_key ct = None" "ct_resph ct"
    "ct_tid ct = take 12 (se_tid env (nw_tick (dc_net d) + 1))"
proof -
  obtain us w1 where w1: "udp_listen env None (dc_net d) = (Inr us, w1)"
    "stun_request env (Some 0) IPPROTO_UDP (Some us) (Some srv) 0 STUN_METHOD_BINDING None False True [] (stun_alloc None False w1) = (None, dc_net d')"
    using assms(1) by (rule discover_net_ok)
  have t: "nw_tick w1 = nw_tick (dc_net d) + 1" using w1(1) by (auto simp: udp_listen_def net_tick_def split: option.splits)
  obtain mb where ctl: "nw_ctl (dc_net d') = [udp_ct env (Some 0) us srv 0 STUN_METHOD_BINDING None True mb (stun_alloc None False w1)]"
    using stun_request_udp [OF w1(2)] by (auto simp: stun_alloc_def)
  show ?thesis by (rule that [OF ctl]) (simp_all add: udp_ct_def stun_alloc_def t)
qed

text \<open>
  C23: The rest of the chain is right: when the response of the server, a success response with the transaction id of the
  request and the client's address in an XOR-MAPPED-ADDRESS attribute (any other attributes may follow), is given
  to \<open>stun_recv\<close>, the transaction is found, the response handler runs, and the text that \<open>stun_get_public_addr\<close>
  returns is that address and port.
\<close>

theorem stun_response_reported:
  assumes "discover_net env srv local_port cb d = (None, d')" and "\<And>t. length (se_tid env t) = 12" and "\<And>k x. length (se_hmac env k x) = 20"
    and "attrs_ok rest" and "attrs = (STUN_ATTR_XOR_MAPPED_ADDR, Some (SaV (sa_set_in ip port))) # rest"
    and "tid = ct_tid (hd (nw_ctl (dc_net d')))"
    and "length (msg_body (se_hmac env) STUN_METHOD_BINDING STUN_CLASS_SUCCESS_RESP tid None None fp padding attrs) < 2 ^ 16"
  shows "map_option (sa_decode sys) (stun_get_public_addr (dc_client (with_net sys (\<lambda>w. snd (stun_recv env
      (packet_mbuf (msg_bytes (se_hmac env) STUN_METHOD_BINDING STUN_CLASS_SUCCESS_RESP tid None None fp padding attrs)) w)) d')))
    = Some (Inr (sa_set_in ip port))"
proof -
  let ?bs = "msg_bytes (se_hmac env) STUN_METHOD_BINDING STUN_CLASS_SUCCESS_RESP tid None None fp padding attrs"
  obtain ct where ct: "nw_ctl (dc_net d') = [ct]" "ct_met ct = STUN_METHOD_BINDING" "ct_key ct = None" "ct_resph ct"
    "ct_tid ct = take 12 (se_tid env (nw_tick (dc_net d) + 1))" using assms(1) by (rule discover_pending)
  have tid: "ct_tid ct = tid" "length tid = 12" using ct(1,5) assms(2,6) by simp_all
  have ok: "attrs_ok attrs" using assms(4,5) by (simp add: attrs_ok_def attr_ok_def xor_addr_attr_def sa_encodable_def sa_set_in_def)
  define msg where "msg = \<lparr>
      sm_hdr = msg_hdr STUN_METHOD_BINDING STUN_CLASS_SUCCESS_RESP tid (length (msg_body (se_hmac env) STUN_METHOD_BINDING STUN_CLASS_SUCCESS_RESP tid None None fp padding attrs)),
      sm_attrl = map to_attr (msg_attrs (se_hmac env) STUN_METHOD_BINDING STUN_CLASS_SUCCESS_RESP tid None None fp padding attrs),
      sm_mb = packet_mbuf ?bs, sm_start = mb_pos (packet_mbuf ?bs)\<rparr>"
  have "ahead (packet_mbuf ?bs) (?bs @ [])" by (simp add: ahead_def)
  from stun_msg_decode_bytes [OF this tid(2) ok _ assms(3,7), of True]
  have dec: "stun_msg_decode (packet_mbuf ?bs) True = Inr (msg, Some [])" by (simp add: msg_def ec_ok_def)
  have cls: "stun_msg_class msg = 2" "stun_msg_method msg = STUN_METHOD_BINDING" "sh_tid (sm_hdr msg) = tid"
    by (simp_all add: stun_msg_class_def stun_msg_method_def stun_msg_type_def msg_def msg_hdr_def STUN_TYPE_def STUN_CLASS_def STUN_METHOD_def)
  have recv: "snd (stun_recv env (packet_mbuf ?bs) (dc_net d')) = completed ct None 0 (Some (text_bytes ''OK'')) (Some msg) (dc_net d')"
    by (simp add: stun_recv_def dec cls stun_ctrans_recv_def match_handler_def ct(1-3) tid(1))
  have a: "addr_attr (Some msg) STUN_ATTR_XOR_MAPPED_ADDR = Some (sa_set_in ip port)"
    by (simp add: addr_attr_def stun_msg_attr_def msg_def msg_attrs_def given_attrs_def Let_def assms(5) to_attr_def)
  show ?thesis
    unfolding with_net_def Let_def recv
    using length_fmt_J_in [of sys ip port]
    by (simp add: completed_fields ct(4) on_call_def a stun_resp_handler_def stun_get_public_addr_def Let_def re_snprintf_fits sa_print_decode)
qed

theorem stun_response_reported_witness:
  "let d' = snd (discover_net calm_env (sa_set_in 1 2) 3 True \<lparr>dc_client = stun_zero, dc_net = net_start None, dc_out = []\<rparr>)
   in map_option (sa_decode (en_inet good_env)) (stun_get_public_addr (dc_client (with_net (en_inet good_env) (\<lambda>w. snd (stun_recv calm_env
      (packet_mbuf (msg_bytes (se_hmac calm_env) STUN_METHOD_BINDING STUN_CLASS_SUCCESS_RESP (ct_tid (hd (nw_ctl (dc_net d')))) None None False 0
        [(STUN_ATTR_XOR_MAPPED_ADDR, Some (SaV (sa_set_in 0xCB007105 8555)))])) w)) d')))
    = Some (Inr (sa_set_in 0xCB007105 8555))"
  unfolding Let_def
proof (rule stun_response_reported)
  show "discover_net calm_env (sa_set_in 1 2) 3 True \<lparr>dc_client = stun_zero, dc_net = net_start None, dc_out = []\<rparr>
    = (None, snd (discover_net calm_env (sa_set_in 1 2) 3 True \<lparr>dc_client = stun_zero, dc_net = net_start None, dc_out = []\<rparr>))"
    by (rule prod_eqI) (simp_all add: discover_net_sends calm_env_def)
qed (simp_all add: calm_env_def attrs_ok_def msg_body_def ec_bytes_def mi_bytes_def fp_bytes_def attr_bytes_def value_pieces_def
    addr_pieces_def plain_addr_attr_def sa_set_in_def sa_port_def Let_def)

end
