(* ===== verification/Libre_Regex.thy ===== *)
theory Libre_Regex
  imports Prelude
begin

text \<open>
  The expressions of \<open>re_regex\<close> (\<open>re-4.6.0/src/fmt/regex.c\<close>), which the library uses to take requests and header
  values apart. An expression is a sequence of literal characters and of classes in brackets, each class
  followed by \<open>*\<close>, \<open>+\<close> or a digit. A class takes as many characters as it can and never gives one back.

  \<open>rx_match\<close> interprets the expression at one position of the text; \<open>re_regex\<close> moves the position on until the
  expression fits. The pointers that the C function stores for the classes are pairs of offset and length.
  The variables of a class (\<open>n\<close>, \<open>ec\<close>, \<open>neg\<close>, \<open>range\<close>, \<open>qesc\<close>) keep their values when the position moves, but are
  set again at the bracket that opens the next class before they are read; the model starts each position afresh.
\<close>

section \<open>Classes\<close>

text \<open>\<open>rx_range\<close> is the flag \<open>range\<close> together with the lower bound that waits for its upper bound.\<close>

record rx_state =
  rx_fm :: bool
  rx_ec :: bool
  rx_neg :: bool
  rx_qesc :: bool
  rx_eesc :: bool
  rx_range :: "nat option"
  rx_chrv :: "(nat \<times> nat) list"

definition rx0 :: rx_state where
  "rx0 = \<lparr>rx_fm = False, rx_ec = False, rx_neg = False, rx_qesc = False, rx_eesc = False, rx_range = None, rx_chrv = []\<rparr>"

definition rx_open :: "rx_state \<Rightarrow> rx_state" where
  "rx_open m = \<lparr>rx_fm = True, rx_ec = False, rx_neg = False, rx_qesc = False, rx_eesc = rx_eesc m, rx_range = None, rx_chrv = []\<rparr>"

definition expr_match :: "(nat \<times> nat) list \<Rightarrow> nat \<Rightarrow> bool \<Rightarrow> bool" where
  "expr_match chrv c neg \<longleftrightarrow> (list_ex (\<lambda>(lo, hi). lo \<le> c \<and> c \<le> hi) chrv \<noteq> neg)"

text \<open>A character between the brackets. \<open>None\<close>: the table of 64 entries is full.\<close>

definition rx_chr :: "char \<Rightarrow> rx_state \<Rightarrow> rx_state option" where
  "rx_chr e m =
     (if 64 \<le> length (rx_chrv m) then None
      else (let c = of_char (tolower e)
            in Some (m\<lparr>rx_chrv := rx_chrv m @ [(case rx_range m of None \<Rightarrow> c | Some lo \<Rightarrow> lo, c)], rx_range := None\<rparr>)))"

definition rx_class_char :: "char \<Rightarrow> rx_state \<Rightarrow> rx_state option" where
  "rx_class_char e m =
     (if rx_eesc m then rx_chr e (m\<lparr>rx_eesc := False\<rparr>)
      else if e = CHR '']'' then Some (m\<lparr>rx_ec := True\<rparr>)
      else if e = CHR ''~'' \<and> rx_chrv m = [] then Some (m\<lparr>rx_qesc := True, rx_neg := True\<rparr>)
      else if e = CHR ''^'' \<and> rx_chrv m = [] then Some (m\<lparr>rx_neg := True\<rparr>)
      else if e = CHR ''-'' \<and> rx_chrv m \<noteq> [] \<and> rx_range m = None
      then Some (m\<lparr>rx_range := Some (fst (last (rx_chrv m))), rx_chrv := butlast (rx_chrv m)\<rparr>)
      else rx_chr e m)"

text \<open>
  The least and the greatest number of repetitions, where \<open>nmax = -1\<close> is the greatest \<open>uint32_t\<close>; and the text that the
  loop over the repetitions can reach.
\<close>

definition rx_count :: "char \<Rightarrow> (nat \<times> int) option" where
  "rx_count e =
     (if e = CHR ''*'' then Some (0, 4294967295)
      else if e = CHR ''+'' then Some (1, 4294967295)
      else if is_digit e \<and> e \<noteq> CHR ''0'' then Some (of_char e - 48, int (of_char e - 48))
      else None)"

definition rx_reach :: "int \<Rightarrow> string \<Rightarrow> string" where
  "rx_reach nmax s = (if int (length s) \<le> nmax then s else take (nat nmax) s)"

text \<open>The number of characters that a class takes.\<close>

fun rx_span :: "rx_state \<Rightarrow> bool \<Rightarrow> bool \<Rightarrow> string \<Rightarrow> nat" where
  "rx_span m quote esc [] = 0"
| "rx_span m quote esc (c # s) =
     (if rx_qesc m \<and> esc then Suc (rx_span m quote False s)
      else if rx_qesc m \<and> c = BSL then Suc (rx_span m quote True s)
      else if rx_qesc m \<and> c = DQ then Suc (rx_span m (\<not> quote) esc s)
      else if rx_qesc m \<and> quote then Suc (rx_span m quote esc s)
      else if expr_match (rx_chrv m) (of_char (tolower c)) (rx_neg m) then Suc (rx_span m quote esc s)
      else 0)"

section \<open>Matching\<close>

datatype rx_result = RxAgain | RxErr errno | RxOk "(nat \<times> nat) list"

definition rx_cons :: "nat \<times> nat \<Rightarrow> rx_result \<Rightarrow> rx_result" where
  "rx_cons cap r = (case r of RxOk caps \<Rightarrow> RxOk (cap # caps) | _ \<Rightarrow> r)"

fun rx_match :: "rx_state \<Rightarrow> string \<Rightarrow> nat \<Rightarrow> string \<Rightarrow> rx_result" where
  "rx_match m [] p s = (if rx_fm m then RxErr EINVAL else RxOk [])"
| "rx_match m (e # ep) p s =
     (if e = BSL \<and> \<not> rx_eesc m then rx_match (m\<lparr>rx_eesc := True\<rparr>) ep p s
      else if \<not> rx_fm m
      then (if e = CHR ''['' \<and> \<not> rx_eesc m then rx_match (rx_open m) ep p s
            else case s of
                   [] \<Rightarrow> RxErr ENOENT
                 | c # s' \<Rightarrow> if tolower e \<noteq> tolower c then RxAgain
                            else rx_match (m\<lparr>rx_eesc := False\<rparr>) ep (Suc p) s')
      else if rx_ec m
      then (case rx_count e of
              None \<Rightarrow> RxErr EINVAL
            | Some (nmin, nmax) \<Rightarrow>
                (let nm = rx_span m False False (rx_reach nmax s);
                     strip = (rx_qesc m \<and> 1 < nm \<and> s ! 0 = DQ \<and> s ! (nm - 1) = DQ);
                     cap = (if strip then (Suc p, nm - 2) else (p, nm))
                 in if snd cap < nmin then RxAgain
                    else rx_cons cap (rx_match (m\<lparr>rx_fm := False, rx_eesc := False\<rparr>) ep (p + nm) (drop nm s))))
      else (case rx_class_char e m of None \<Rightarrow> RxErr EINVAL | Some m' \<Rightarrow> rx_match m' ep p s))"

fun re_regex_from :: "string \<Rightarrow> nat \<Rightarrow> string \<Rightarrow> errno + (nat \<times> nat) list" where
  "re_regex_from expr p [] = (if expr = [] then Inr [] else Inl ENOENT)"
| "re_regex_from expr p (c # s) =
     (case rx_match rx0 expr p (c # s) of
        RxAgain \<Rightarrow> re_regex_from expr (Suc p) s
      | RxErr e \<Rightarrow> Inl e
      | RxOk caps \<Rightarrow> Inr caps)"

definition re_regex :: "string \<Rightarrow> string \<Rightarrow> errno + (nat \<times> nat) list" where
  "re_regex s expr = re_regex_from expr 0 s"

text \<open>The text of a \<open>struct pl\<close>.\<close>

definition pl_text :: "string \<Rightarrow> nat \<times> nat \<Rightarrow> string" where
  "pl_text s cap = take (snd cap) (drop (fst cap) s)"

section \<open>Properties\<close>

lemma rx_span_le: "rx_span m q e s \<le> length s"
  by (induction m q e s rule: rx_span.induct) auto

text \<open>Without quotes a class takes the longest run of characters that it contains.\<close>

lemma rx_span_takeWhile:
  "\<not> rx_qesc m \<Longrightarrow>
   rx_span m q e s = length (takeWhile (\<lambda>c. expr_match (rx_chrv m) (of_char (tolower c)) (rx_neg m)) s)"
  by (induction s) auto

text \<open>Every capture lies inside the text.\<close>

definition caps_within :: "nat \<Rightarrow> nat \<Rightarrow> (nat \<times> nat) list \<Rightarrow> bool" where
  "caps_within lo hi caps \<longleftrightarrow> list_all (\<lambda>(i, l). lo \<le> i \<and> i + l \<le> hi) caps"

lemma rx_cons_Ok: "rx_cons cap r = RxOk caps \<longleftrightarrow> (\<exists>caps'. r = RxOk caps' \<and> caps = cap # caps')"
  by (auto simp: rx_cons_def split: rx_result.splits)

lemma caps_within_mono: "caps_within lo hi caps \<Longrightarrow> lo' \<le> lo \<Longrightarrow> caps_within lo' hi caps"
  by (auto simp: caps_within_def list_all_iff)

lemma rx_match_caps: "rx_match m ep p s = RxOk caps \<Longrightarrow> caps_within p (p + length s) caps"
proof (induction m ep p s arbitrary: caps rule: rx_match.induct)
  case (1 m p s)
  then show ?case by (simp add: caps_within_def split: if_splits)
next
  case (2 m e ep p s)
  note IH = "2.IH"
  consider (esc) "e = BSL" "\<not> rx_eesc m" | (op) "\<not> (e = BSL \<and> \<not> rx_eesc m)" "\<not> rx_fm m" "e = CHR ''['' \<and> \<not> rx_eesc m"
    | (lit) "\<not> (e = BSL \<and> \<not> rx_eesc m)" "\<not> rx_fm m" "\<not> (e = CHR ''['' \<and> \<not> rx_eesc m)"
    | (cls) "\<not> (e = BSL \<and> \<not> rx_eesc m)" "rx_fm m" "\<not> rx_ec m"
    | (rep) "\<not> (e = BSL \<and> \<not> rx_eesc m)" "rx_fm m" "rx_ec m"
    by blast
  then show ?case
  proof cases
    case esc
    then show ?thesis using 2 by simp
  next
    case op
    then show ?thesis using 2 by auto
  next
    case lit
    then obtain c s' where s: "s = c # s'" "rx_match (m\<lparr>rx_eesc := False\<rparr>) ep (Suc p) s' = RxOk caps" "tolower e = tolower c"
      using "2.prems" by (auto split: list.splits if_splits)
    then have "caps_within (Suc p) (Suc p + length s') caps" using IH(3) lit by auto
    then show ?thesis using s caps_within_mono by fastforce
  next
    case cls
    then show ?thesis using 2 by (auto split: option.splits)
  next
    case rep
    then obtain nmin nmax where n: "rx_count e = Some (nmin, nmax)" using "2.prems" by (auto split: option.splits)
    define nm where "nm = rx_span m False False (rx_reach nmax s)"
    have le: "nm \<le> length s" using rx_span_le [of m False False "rx_reach nmax s"] by (simp add: nm_def rx_reach_def split: if_splits)
    obtain cap caps' where c: "caps = cap # caps'" "rx_match (m\<lparr>rx_fm := False, rx_eesc := False\<rparr>) ep (p + nm) (drop nm s) = RxOk caps'"
      "cap = (p, nm) \<or> 1 < nm \<and> cap = (Suc p, nm - 2)"
      using "2.prems" rep n by (auto simp: Let_def nm_def rx_cons_Ok split: if_splits)
    have "caps_within (p + nm) (p + nm + length (drop nm s)) caps'"
      using IH(4) [OF rep(1) _ _ n] rep c(2) "2.prems" n by (auto simp: Let_def nm_def rx_cons_Ok split: if_splits)
    then have "caps_within p (p + length s) caps'" using le caps_within_mono [of "p + nm" _ caps' p] by simp
    then show ?thesis using c le by (auto simp: caps_within_def)
  qed
qed

lemma re_regex_from_caps: "re_regex_from expr p s = Inr caps \<Longrightarrow> caps_within p (p + length s) caps"
proof (induction expr p s rule: re_regex_from.induct)
  case (1 expr p)
  then show ?case by (simp add: caps_within_def split: if_splits)
next
  case (2 expr p c s)
  then show ?case
    using caps_within_mono [of "Suc p" _ caps p] rx_match_caps [of rx0 expr p "c # s" caps]
    by (auto split: rx_result.splits)
qed

text \<open>
  Between classes only the escape is remembered. A class is entered with \<open>rx_open\<close>, and when it is complete it is
  described by its ranges and its sign; the three kinds of repetition then read as runs of the text.
\<close>

lemma rx_match_outside:
  "\<not> rx_fm m \<Longrightarrow> \<not> rx_fm m' \<Longrightarrow> rx_eesc m = rx_eesc m' \<Longrightarrow> rx_match m ep p s = rx_match m' ep p s"
proof (induction ep arbitrary: m m' p s)
  case (Cons e ep)
  have "rx_open m = rx_open m'" using Cons.prems by (simp add: rx_open_def)
  then show ?case
    using Cons.prems Cons.IH [of "m\<lparr>rx_eesc := True\<rparr>" "m'\<lparr>rx_eesc := True\<rparr>"]
      Cons.IH [of "m\<lparr>rx_eesc := False\<rparr>" "m'\<lparr>rx_eesc := False\<rparr>"]
    by (simp split: list.split)
qed simp

definition rx_cls :: "bool \<Rightarrow> (nat \<times> nat) list \<Rightarrow> rx_state" where
  "rx_cls neg chrv = \<lparr>rx_fm = True, rx_ec = True, rx_neg = neg, rx_qesc = False, rx_eesc = False, rx_range = None, rx_chrv = chrv\<rparr>"

definition in_cls :: "bool \<Rightarrow> (nat \<times> nat) list \<Rightarrow> char \<Rightarrow> bool" where
  "in_cls neg chrv c = expr_match chrv (of_char (tolower c)) neg"

lemma rx_span_cls: "rx_span (rx_cls neg chrv) q e s = length (takeWhile (in_cls neg chrv) s)"
  by (simp add: rx_span_takeWhile rx_cls_def in_cls_def [abs_def])

lemma rx_reach_all: "length s \<le> 4294967295 \<Longrightarrow> rx_reach 4294967295 s = s"
  by (simp add: rx_reach_def)

lemma rx_match_rep:
  assumes "rx_count e = Some (nmin, nmax)" "e \<noteq> BSL"
  defines "n \<equiv> \<lambda>neg chrv s. length (takeWhile (in_cls neg chrv) (rx_reach nmax s))"
  shows "rx_match (rx_cls neg chrv) (e # ep) p s =
    (if n neg chrv s < nmin then RxAgain
     else rx_cons (p, n neg chrv s) (rx_match rx0 ep (p + n neg chrv s) (drop (n neg chrv s) s)))"
proof -
  have "rx_match ((rx_cls neg chrv)\<lparr>rx_fm := False, rx_eesc := False\<rparr>) ep q r = rx_match rx0 ep q r" for q r
    by (rule rx_match_outside) (simp_all add: rx0_def)
  moreover have "rx_fm (rx_cls neg chrv)" "rx_ec (rx_cls neg chrv)" "\<not> rx_qesc (rx_cls neg chrv)"
    by (simp_all add: rx_cls_def)
  ultimately show ?thesis using assms(1,2) by (simp add: Let_def n_def rx_span_cls)
qed

lemma rx_match_star:
  "length s \<le> 4294967295 \<Longrightarrow>
   rx_match (rx_cls neg chrv) (CHR ''*'' # ep) p s =
     rx_cons (p, length (takeWhile (in_cls neg chrv) s))
       (rx_match rx0 ep (p + length (takeWhile (in_cls neg chrv) s)) (dropWhile (in_cls neg chrv) s))"
  using rx_match_rep [of "CHR ''*''" 0 4294967295 neg chrv ep p s]
  by (simp add: rx_count_def rx_reach_all dropWhile_eq_drop)

lemma rx_match_plus:
  "length s \<le> 4294967295 \<Longrightarrow>
   rx_match (rx_cls neg chrv) (CHR ''+'' # ep) p s =
     (if s = [] \<or> \<not> in_cls neg chrv (hd s) then RxAgain
      else rx_cons (p, length (takeWhile (in_cls neg chrv) s))
             (rx_match rx0 ep (p + length (takeWhile (in_cls neg chrv) s)) (dropWhile (in_cls neg chrv) s)))"
  using rx_match_rep [of "CHR ''+''" 1 4294967295 neg chrv ep p s]
  by (cases s) (simp_all add: rx_count_def rx_reach_all dropWhile_eq_drop)

lemma rx_match_one:
  "rx_match (rx_cls neg chrv) (CHR ''1'' # ep) p s =
     (if s = [] \<or> \<not> in_cls neg chrv (hd s) then RxAgain else rx_cons (p, 1) (rx_match rx0 ep (Suc p) (tl s)))"
  using rx_match_rep [of "CHR ''1''" 1 1 neg chrv ep p s]
  by (cases s) (simp_all add: rx_count_def is_digit_def rx_reach_def)

lemma rx_match_lit:
  "e \<noteq> BSL \<Longrightarrow> e \<noteq> CHR ''['' \<Longrightarrow>
   rx_match rx0 (e # ep) p s =
     (case s of [] \<Rightarrow> RxErr ENOENT | c # s' \<Rightarrow> if tolower e \<noteq> tolower c then RxAgain else rx_match rx0 ep (Suc p) s')"
  by (simp add: rx0_def split: list.split)

lemma rx_match_end: "rx_match rx0 [] p s = RxOk []"
  by (simp add: rx0_def)

text \<open>\<open>rx_parse\<close> reads a class up to its closing bracket.\<close>

fun rx_parse :: "rx_state \<Rightarrow> string \<Rightarrow> (rx_state \<times> string) option" where
  "rx_parse m [] = None"
| "rx_parse m (e # ep) =
     (if e = BSL \<and> \<not> rx_eesc m then None
      else case rx_class_char e m of None \<Rightarrow> None | Some m' \<Rightarrow> if rx_ec m' then Some (m', ep) else rx_parse m' ep)"

lemma rx_class_char_fm: "rx_class_char e m = Some m' \<Longrightarrow> rx_fm m' = rx_fm m"
  by (auto simp: rx_class_char_def rx_chr_def Let_def split: if_split_asm)

lemma rx_match_parse:
  "rx_parse m ep = Some (m', ep') \<Longrightarrow> rx_fm m \<Longrightarrow> \<not> rx_ec m \<Longrightarrow> rx_match m ep p s = rx_match m' ep' p s"
proof (induction m ep rule: rx_parse.induct)
  case (2 m e ep)
  obtain x where x: "\<not> (e = BSL \<and> \<not> rx_eesc m)" "rx_class_char e m = Some x"
    "if rx_ec x then (m', ep') = (x, ep) else rx_parse x ep = Some (m', ep')"
    using "2.prems"(1) by (simp split: if_split_asm option.split_asm)
  have "rx_match m (e # ep) p s = rx_match x ep p s" using x(1,2) "2.prems"(2,3) by auto
  moreover have "rx_fm x" using x(2) "2.prems"(2) rx_class_char_fm by blast
  ultimately show ?case using "2.IH" [OF x(1,2)] x(3) by (cases "rx_ec x") simp_all
qed simp

lemma rx_match_class:
  "rx_parse (rx_open rx0) ep = Some (m', ep') \<Longrightarrow> rx_match rx0 (CHR ''['' # ep) p s = rx_match m' ep' p s"
  using rx_match_parse [of "rx_open rx0" ep m' ep' p s] by (simp add: rx_open_def rx0_def)

declare rx_match.simps [simp del]

end
