(* ===== verification/Libre_Http.thy ===== *)
theory Libre_Http
  imports Libre_Sa Libre_Regex
begin

unbundle bit_operations_syntax

text \<open>
  HTTP messages of the library (\<open>re-4.6.0/src/http/msg.c\<close>, \<open>include/re_http.h\<close>), with the hash of \<open>hash/func.c\<close> and the
  content type of \<open>msg/ctype.c\<close>: how the bytes of a connection become a request.

  The pointers into the buffer are offsets from its read position. \<open>http_msg_decode\<close> returns the message
  and the offset of the first byte behind its header. \<open>al i\<close> tells whether the \<open>i\<close>-th allocation of a call succeeds.
\<close>

section \<open>Header names\<close>

text \<open>\<open>char\<close> is signed, so a byte above 127 is added with its sign.\<close>

definition joaat_char :: "u32 \<Rightarrow> char \<Rightarrow> u32" where
  "joaat_char h c =
     (let h1 = h + scast (word_of_nat (of_char (tolower c)) :: u8);
          h2 = h1 + push_bit 10 h1
      in h2 XOR drop_bit 6 h2)"

definition hash_joaat_ci :: "string \<Rightarrow> u32" where
  "hash_joaat_ci s =
     (let h = foldl joaat_char 0 s;
          h1 = h + push_bit 3 h;
          h2 = h1 XOR drop_bit 11 h1
      in h2 + push_bit 15 h2)"

abbreviation HTTP_HDR_NONE :: int where "HTTP_HDR_NONE \<equiv> -1"
abbreviation HTTP_HDR_CONTENT_LENGTH :: int where "HTTP_HDR_CONTENT_LENGTH \<equiv> 3861"
abbreviation HTTP_HDR_CONTENT_TYPE :: int where "HTTP_HDR_CONTENT_TYPE \<equiv> 809"

definition hdr_hash :: "string \<Rightarrow> int" where
  "hdr_hash name =
     (if name = [] then HTTP_HDR_NONE
      else if (hd name = CHR ''x'' \<or> hd name = CHR ''X'') \<and> 1 < length name \<and> name ! 1 = CHR ''-'' then HTTP_HDR_NONE
      else uint (hash_joaat_ci name AND 0xFFF))"

text \<open>The enumerators of \<open>enum http_hdrid\<close>, with the names that they stand for.\<close>

definition http_hdrids :: "(string \<times> int) list" where
  "http_hdrids =
     [(''Accept'', 3186), (''Accept-Charset'', 24), (''Accept-Encoding'', 708), (''Accept-Language'', 2867),
      (''Accept-Ranges'', 3027), (''Age'', 742), (''Allow'', 2429), (''Authorization'', 2503),
      (''Cache-Control'', 2530), (''Connection'', 865), (''Content-Encoding'', 580), (''Content-Language'', 3371),
      (''Content-Length'', 3861), (''Content-Location'', 3927), (''Content-MD5'', 406), (''Content-Range'', 2846),
      (''Content-Type'', 809), (''Date'', 1027), (''ETag'', 2392), (''Expect'', 1550),
      (''Expires'', 1983), (''From'', 1963), (''Host'', 3191), (''If-Match'', 2684),
      (''If-Modified-Since'', 2187), (''If-None-Match'', 4030), (''If-Range'', 2220), (''If-Unmodified-Since'', 962),
      (''Last-Modified'', 2946), (''Location'', 2514), (''Max-Forwards'', 3549), (''Pragma'', 1673),
      (''Proxy-Authenticate'', 116), (''Proxy-Authorization'', 2363), (''Range'', 4004), (''Referer'', 2991),
      (''Retry-After'', 409), (''Sec-WebSocket-Accept'', 2959), (''Sec-WebSocket-Extensions'', 2937), (''Sec-WebSocket-Key'', 746),
      (''Sec-WebSocket-Protocol'', 2076), (''Sec-WebSocket-Version'', 3158), (''Server'', 973), (''TE'', 2035),
      (''Trailer'', 2577), (''Transfer-Encoding'', 2115), (''Upgrade'', 717), (''User-Agent'', 4064),
      (''Vary'', 3076), (''Via'', 3961), (''Warning'', 2108), (''WWW-Authenticate'', 2763)]"

text \<open>Accept and its variants, Allow, Cache-Control, Connection, the content codings, Expect, the matches, and so on.\<close>

definition hdr_comma_separated :: "int \<Rightarrow> bool" where
  "hdr_comma_separated i \<longleftrightarrow>
     i \<in> set [3186, 24, 708, 2867, 3027, 2429, 2530, 865, 580, 3371, 1550, 2684, 4030, 1673, 2937, 2076, 3158, 2035, 2577,
             2115, 717, 3076, 3961, 2108]"

section \<open>Messages\<close>

record http_hdr =
  hh_name :: string
  hh_val :: string
  hh_id :: int

record msg_ctype =
  ct_type :: string
  ct_subtype :: string
  ct_params :: string

record hmsg =
  hq_ver :: string
  hq_met :: string
  hq_path :: string
  hq_prm :: string
  hq_scode :: u16
  hq_reason :: string
  hq_hdrl :: "http_hdr list"
  hq_ctyp :: msg_ctype
  hq_clen :: u32

definition hmsg0 :: hmsg where
  "hmsg0 = \<lparr>hq_ver = [], hq_met = [], hq_path = [], hq_prm = [], hq_scode = 0, hq_reason = [], hq_hdrl = [],
            hq_ctyp = \<lparr>ct_type = [], ct_subtype = [], ct_params = []\<rparr>, hq_clen = 0\<rparr>"

abbreviation HT :: char where "HT \<equiv> CHR 0x09"

definition ctype_expr :: string where
  "ctype_expr =
     ''[ '' @ [HT, CR, LF] @ '']*[^ '' @ [HT, CR, LF] @ '';/]+[ '' @ [HT, CR, LF] @ '']*/[ '' @ [HT, CR, LF] @ '']*[^ ''
     @ [HT, CR, LF] @ '';]+[^]*''"

definition msg_ctype_decode :: "string \<Rightarrow> errno + msg_ctype" where
  "msg_ctype_decode s =
     (case re_regex s ctype_expr of
        Inr [ws, ty, _, _, sub, prm] \<Rightarrow>
          if fst ws \<noteq> 0 then Inl EBADMSG
          else Inr \<lparr>ct_type = pl_text s ty, ct_subtype = pl_text s sub, ct_params = pl_text s prm\<rparr>
      | _ \<Rightarrow> Inl EBADMSG)"

text \<open>\<open>hdr_add\<close> with the texts of the name and of the value.\<close>

definition hdr_add :: "(nat \<Rightarrow> bool) \<Rightarrow> string \<Rightarrow> int \<Rightarrow> string \<Rightarrow> hmsg \<Rightarrow> errno + hmsg" where
  "hdr_add al name i v msg =
     (if \<not> al (2 + length (hq_hdrl msg)) then Inl ENOMEM
      else (let m = msg\<lparr>hq_hdrl := hq_hdrl msg @ [\<lparr>hh_name = name, hh_val = v, hh_id = i\<rparr>]\<rparr>
            in if i = HTTP_HDR_CONTENT_TYPE
               then (case msg_ctype_decode v of Inl e \<Rightarrow> Inl e | Inr ct \<Rightarrow> Inr (m\<lparr>hq_ctyp := ct\<rparr>))
               else if i = HTTP_HDR_CONTENT_LENGTH then Inr (m\<lparr>hq_clen := pl_u32 v\<rparr>)
               else Inr m))"

section \<open>The start line\<close>

definition start_expr :: string where
  "start_expr = ''['' @ [CR, LF] @ '']*[^'' @ [CR, LF] @ '']+['' @ [CR] @ '']*['' @ [LF] @ '']1''"

definition request_expr :: string where
  "request_expr = ''[a-z]+ [^? ]+[^ ]* HTTP/[0-9.]+''"

definition response_expr :: string where
  "response_expr = ''HTTP/[0-9.]+ [0-9]+[ ]*[^]*''"

definition request_line :: "string \<Rightarrow> errno + hmsg" where
  "request_line s =
     (case re_regex s request_expr of
        Inr [met, path, prm, ver] \<Rightarrow>
          if fst met \<noteq> 0 then Inl EBADMSG
          else Inr (hmsg0\<lparr>hq_met := pl_text s met, hq_path := pl_text s path, hq_prm := pl_text s prm,
                          hq_ver := pl_text s ver\<rparr>)
      | _ \<Rightarrow> Inl EBADMSG)"

definition response_line :: "string \<Rightarrow> errno + hmsg" where
  "response_line s =
     (case re_regex s response_expr of
        Inr [ver, scode, _, reason] \<Rightarrow>
          if fst ver \<noteq> 5 then Inl EBADMSG
          else Inr (hmsg0\<lparr>hq_ver := pl_text s ver, hq_reason := pl_text s reason,
                          hq_scode := ucast (pl_u32 (pl_text s scode))\<rparr>)
      | _ \<Rightarrow> Inl EBADMSG)"

section \<open>The headers\<close>

text \<open>The variables of the loop; \<open>hp_name\<close> is \<open>name.p\<close>, \<open>hp_nl\<close> is \<open>name.l\<close>.\<close>

record hparse =
  hp_name :: "nat option"
  hp_nl :: nat
  hp_cv :: "nat option"
  hp_ws :: nat
  hp_lf :: nat
  hp_comsep :: bool
  hp_quote :: bool
  hp_id :: int
  hp_msg :: hmsg

definition hparse0 :: "hmsg \<Rightarrow> hparse" where
  "hparse0 m = \<lparr>hp_name = None, hp_nl = 0, hp_cv = None, hp_ws = 0, hp_lf = 0, hp_comsep = False, hp_quote = False,
                hp_id = HTTP_HDR_NONE, hp_msg = m\<rparr>"

datatype hstep = HNext hparse | HDone nat hmsg | HFail errno

text \<open>The name, and the value that ends before \<open>p\<close> without the white space seen last.\<close>

definition hp_name_text :: "string \<Rightarrow> hparse \<Rightarrow> string" where
  "hp_name_text t st = pl_text t (case hp_name st of None \<Rightarrow> 0 | Some i \<Rightarrow> i, hp_nl st)"

definition hp_val_text :: "string \<Rightarrow> nat \<Rightarrow> hparse \<Rightarrow> string" where
  "hp_val_text t p st = (case hp_cv st of None \<Rightarrow> [] | Some cv \<Rightarrow> pl_text t (cv, p - cv - hp_ws st))"

definition hp_flush :: "(nat \<Rightarrow> bool) \<Rightarrow> string \<Rightarrow> nat \<Rightarrow> hparse \<Rightarrow> errno + hmsg" where
  "hp_flush al t p st =
     (if hp_nl st = 0 then Inl EBADMSG
      else hdr_add al (hp_name_text t st) (hp_id st) (hp_val_text t p st) (hp_msg st))"

text \<open>A character of a name or of a value, behind the handling of a finished header.\<close>

definition hp_text_char :: "string \<Rightarrow> nat \<Rightarrow> char \<Rightarrow> hparse \<Rightarrow> hstep" where
  "hp_text_char t p c st0 =
     (let st = (if hp_name st0 = None then st0\<lparr>hp_name := Some p, hp_nl := 0, hp_ws := 0\<rparr> else st0)
      in if hp_nl st = 0
         then (if c \<noteq> CHR '':'' then HNext (st\<lparr>hp_ws := 0\<rparr>)
               else (let nl = p - the (hp_name st) - hp_ws st
                     in if nl = 0 then HFail EBADMSG
                        else (let i = hdr_hash (pl_text t (the (hp_name st), nl))
                              in HNext (st\<lparr>hp_nl := nl, hp_id := i, hp_comsep := hdr_comma_separated i\<rparr>))))
         else (let st1 = (if hp_cv st = None then st\<lparr>hp_quote := False, hp_cv := Some p\<rparr> else st)
               in HNext (st1\<lparr>hp_quote := (hp_quote st1 \<noteq> (c = DQ)), hp_ws := 0\<rparr>)))"

definition hp_char :: "(nat \<Rightarrow> bool) \<Rightarrow> string \<Rightarrow> nat \<Rightarrow> char \<Rightarrow> hparse \<Rightarrow> hstep" where
  "hp_char al t p c st =
     (if c = CHR '' '' \<or> c = HT then HNext (st\<lparr>hp_lf := 0, hp_ws := Suc (hp_ws st)\<rparr>)
      else if c = CR then HNext (st\<lparr>hp_ws := Suc (hp_ws st)\<rparr>)
      else if c = LF
      then (if hp_name st = None then HDone (Suc p) (hp_msg st)
            else if hp_lf st = 0 then HNext (st\<lparr>hp_ws := Suc (hp_ws st), hp_lf := 1\<rparr>)
            else (case hp_flush al t (Suc p) (st\<lparr>hp_ws := Suc (hp_ws st)\<rparr>) of
                    Inl e \<Rightarrow> HFail e
                  | Inr m \<Rightarrow> HDone (Suc p) m))
      else if hp_lf st \<noteq> 0
      then (case hp_flush al t p st of
              Inl e \<Rightarrow> HFail e
            | Inr m \<Rightarrow> hp_text_char t p c (st\<lparr>hp_msg := m, hp_comsep := False, hp_name := None, hp_cv := None, hp_lf := 0\<rparr>))
      else if c = CHR '','' \<and> hp_comsep st \<and> \<not> hp_quote st
      then (case hp_flush al t p st of Inl e \<Rightarrow> HFail e | Inr m \<Rightarrow> HNext (st\<lparr>hp_msg := m, hp_cv := None\<rparr>))
      else hp_text_char t p c st)"

text \<open>The loop over the rest \<open>r\<close> of the text from offset \<open>p\<close> on.\<close>

fun hp_loop :: "(nat \<Rightarrow> bool) \<Rightarrow> string \<Rightarrow> nat \<Rightarrow> string \<Rightarrow> hparse \<Rightarrow> errno + hmsg \<times> nat" where
  "hp_loop al t p [] st = Inl ENODATA"
| "hp_loop al t p (c # r) st =
     (case hp_char al t p c st of
        HNext st' \<Rightarrow> hp_loop al t (Suc p) r st'
      | HDone q m \<Rightarrow> Inr (m, q)
      | HFail e \<Rightarrow> Inl e)"

abbreviation STARTLINE_MAX :: nat where "STARTLINE_MAX \<equiv> 8192"

definition http_msg_decode :: "(nat \<Rightarrow> bool) \<Rightarrow> bool \<Rightarrow> string \<Rightarrow> errno + hmsg \<times> nat" where
  "http_msg_decode al req t =
     (case re_regex t start_expr of
        Inr [b, s, _, e] \<Rightarrow>
          if \<not> al 0 \<or> \<not> al 1 then Inl ENOMEM
          else (case (if req then request_line (pl_text t s) else response_line (pl_text t s)) of
                  Inl er \<Rightarrow> Inl er
                | Inr m \<Rightarrow> (let p = fst e + snd e in hp_loop al t p (drop p t) (hparse0 m)))
      | _ \<Rightarrow> Inl (if STARTLINE_MAX < length t then EBADMSG else ENODATA))"

section \<open>Searching the headers\<close>

definition http_msg_hdr_apply :: "hmsg \<Rightarrow> bool \<Rightarrow> int \<Rightarrow> (http_hdr \<Rightarrow> bool) \<Rightarrow> http_hdr option" where
  "http_msg_hdr_apply msg fwd i h =
     find (\<lambda>hdr. hh_id hdr = i \<and> h hdr) (if fwd then hq_hdrl msg else rev (hq_hdrl msg))"

definition http_msg_hdr :: "hmsg \<Rightarrow> int \<Rightarrow> http_hdr option" where
  "http_msg_hdr msg i = http_msg_hdr_apply msg True i (\<lambda>_. True)"

definition http_msg_xhdr_apply :: "hmsg \<Rightarrow> bool \<Rightarrow> string \<Rightarrow> (http_hdr \<Rightarrow> bool) \<Rightarrow> http_hdr option" where
  "http_msg_xhdr_apply msg fwd name h =
     find (\<lambda>hdr. strcaseeq (hh_name hdr) name \<and> h hdr) (if fwd then hq_hdrl msg else rev (hq_hdrl msg))"

definition http_msg_xhdr :: "hmsg \<Rightarrow> string \<Rightarrow> http_hdr option" where
  "http_msg_xhdr msg name = http_msg_xhdr_apply msg True name (\<lambda>_. True)"

text \<open>\<open>count_handler\<close> is called for each header of the kind and never ends the search.\<close>

definition http_msg_hdr_count :: "hmsg \<Rightarrow> int \<Rightarrow> u32" where
  "http_msg_hdr_count msg i = foldl (\<lambda>n hdr. if hh_id hdr = i then n + 1 else n) 0 (hq_hdrl msg)"

definition http_msg_xhdr_count :: "hmsg \<Rightarrow> string \<Rightarrow> u32" where
  "http_msg_xhdr_count msg name = foldl (\<lambda>n hdr. if strcaseeq (hh_name hdr) name then n + 1 else n) 0 (hq_hdrl msg)"

definition http_msg_hdr_has_value :: "hmsg \<Rightarrow> int \<Rightarrow> string \<Rightarrow> bool" where
  "http_msg_hdr_has_value msg i v \<longleftrightarrow> http_msg_hdr_apply msg True i (\<lambda>hdr. strcaseeq (hh_val hdr) v) \<noteq> None"

definition http_msg_xhdr_has_value :: "hmsg \<Rightarrow> string \<Rightarrow> string \<Rightarrow> bool" where
  "http_msg_xhdr_has_value msg name v \<longleftrightarrow> http_msg_xhdr_apply msg True name (\<lambda>hdr. strcaseeq (hh_val hdr) v) \<noteq> None"

definition msg_ctype_cmp :: "msg_ctype \<Rightarrow> string \<Rightarrow> string \<Rightarrow> bool" where
  "msg_ctype_cmp ct ty sub \<longleftrightarrow> strcaseeq (ct_type ct) ty \<and> strcaseeq (ct_subtype ct) sub"

end
