(* ===== verification/Http_Parse.thy ===== *)
theory Http_Parse
  imports Libre_Http
begin

text \<open>
  What the parser of \<open>http/msg.c\<close> accepts. The expressions are evaluated once for all texts: the start line ends
  at the first line feed behind a visible character, and a message that is complete does not change
  when more bytes follow it.
\<close>

section \<open>Classes\<close>

definition is_crlf :: "char \<Rightarrow> bool" where
  "is_crlf c \<longleftrightarrow> c = CR \<or> c = LF"

lemma of_char_tolower: "(of_char (tolower c) :: nat) = (let n = of_char c in if 65 \<le> n \<and> n \<le> 90 then n + 32 else n)"
  by (simp add: tolower_def Let_def)

lemma of_char_iff: "(of_char c :: nat) = n \<longleftrightarrow> n < 256 \<and> c = char_of n"
  using nat_of_char_less_256 [of c] by (auto simp: char_of_char)

lemma tolower_class:
  "n < 65 \<or> 90 < n \<and> n < 97 \<or> 122 < n \<Longrightarrow>
   ((n :: nat) \<le> of_char (tolower c) \<and> of_char (tolower c) \<le> n) = (n < 256 \<and> c = char_of n)"
  unfolding of_char_iff [symmetric] by (auto simp: of_char_tolower Let_def)

lemmas in_cls_eval = in_cls_def expr_match_def tolower_class char_of_def bit_0

lemma class_crlf: "in_cls neg [(13, 13), (10, 10)] c = (is_crlf c \<noteq> neg)"
  by (simp add: in_cls_eval is_crlf_def)

lemma class_cr: "in_cls False [(13, 13)] c = (c = CR)"
  by (simp add: in_cls_eval)

lemma class_lf: "in_cls False [(10, 10)] c = (c = LF)"
  by (simp add: in_cls_eval)

lemmas rx_eval = rx_open_def rx0_def rx_class_char_def rx_chr_def Let_def rx_cls_def

lemma parse_crlf: "rx_parse (rx_open rx0) (CR # LF # CHR '']'' # ep) = Some (rx_cls False [(13, 13), (10, 10)], ep)"
  "rx_parse (rx_open rx0) (CHR ''^'' # CR # LF # CHR '']'' # ep) = Some (rx_cls True [(13, 13), (10, 10)], ep)"
  "rx_parse (rx_open rx0) (CR # CHR '']'' # ep) = Some (rx_cls False [(13, 13)], ep)"
  "rx_parse (rx_open rx0) (LF # CHR '']'' # ep) = Some (rx_cls False [(10, 10)], ep)"
  by (simp_all add: rx_eval of_char_tolower)

section \<open>The start line\<close>

lemma rx_match_start:
  assumes "length s \<le> 4294967295"
  shows "rx_match rx0 start_expr p s =
    (let s1 = dropWhile is_crlf s; s2 = dropWhile (\<lambda>c. \<not> is_crlf c) s1; s3 = dropWhile (\<lambda>c. c = CR) s2;
         n1 = length (takeWhile is_crlf s); n2 = length (takeWhile (\<lambda>c. \<not> is_crlf c) s1);
         n3 = length (takeWhile (\<lambda>c. c = CR) s2)
     in if s1 \<noteq> [] \<and> s3 \<noteq> [] \<and> hd s3 = LF then RxOk [(p, n1), (p + n1, n2), (p + n1 + n2, n3), (p + n1 + n2 + n3, 1)]
        else RxAgain)"
proof -
  define s1 where "s1 = dropWhile is_crlf s"
  define s2 where "s2 = dropWhile (\<lambda>c. \<not> is_crlf c) s1"
  have len: "length s1 \<le> 4294967295" "length s2 \<le> 4294967295"
    using assms length_dropWhile_le [of is_crlf s] length_dropWhile_le [of "\<lambda>c. \<not> is_crlf c" s1]
    by (auto simp: s1_def s2_def)
  have hd: "s1 \<noteq> [] \<Longrightarrow> \<not> is_crlf (hd s1)" unfolding s1_def by (rule hd_dropWhile)
  show ?thesis
    using assms len hd
    by (simp add: start_expr_def rx_match_class [OF parse_crlf(1)] rx_match_class [OF parse_crlf(2)]
        rx_match_class [OF parse_crlf(3)] rx_match_class [OF parse_crlf(4)] rx_match_star rx_match_plus rx_match_one
        class_crlf [abs_def] class_cr [abs_def] class_lf [abs_def] rx_match_end rx_cons_def Let_def
        flip: s1_def s2_def)
qed

text \<open>
  A text has a start line if a line feed follows its first visible character. This is when the expression fits
  somewhere; otherwise the parser waits for more.
\<close>

definition has_line :: "string \<Rightarrow> bool" where
  "has_line t \<longleftrightarrow> LF \<in> set (dropWhile is_crlf t)"

lemma has_line_append: "has_line t \<Longrightarrow> has_line (t @ u)"
proof -
  have "set (dropWhile is_crlf t) \<subseteq> set (dropWhile is_crlf (t @ u))" by (induction t) auto
  then show "has_line t \<Longrightarrow> has_line (t @ u)" by (auto simp: has_line_def)
qed

lemma rest_no_lf: "LF \<notin> set (takeWhile (\<lambda>c. \<not> is_crlf c) s)" "LF \<notin> set (takeWhile (\<lambda>c. c = CR) s)"
  by (auto simp: is_crlf_def dest: set_takeWhileD)

text \<open>The text behind the first run of visible characters and the carriage returns that follow it.\<close>

definition line_rest :: "string \<Rightarrow> string" where
  "line_rest t = dropWhile (\<lambda>c. c = CR) (dropWhile (\<lambda>c. \<not> is_crlf c) (dropWhile is_crlf t))"

lemma has_line_rest: "has_line t \<longleftrightarrow> LF \<in> set (line_rest t)"
proof -
  define s1 where "s1 = dropWhile is_crlf t"
  define s2 where "s2 = dropWhile (\<lambda>c. \<not> is_crlf c) s1"
  have "s1 = takeWhile (\<lambda>c. \<not> is_crlf c) s1 @ s2" "s2 = takeWhile (\<lambda>c. c = CR) s2 @ dropWhile (\<lambda>c. c = CR) s2"
    by (simp_all add: s2_def)
  then have "set s1 = set (takeWhile (\<lambda>c. \<not> is_crlf c) s1) \<union> set (takeWhile (\<lambda>c. c = CR) s2) \<union> set (dropWhile (\<lambda>c. c = CR) s2)"
    by (metis set_append sup_assoc)
  then show ?thesis using rest_no_lf by (auto simp: has_line_def line_rest_def s1_def s2_def)
qed

definition line_here :: "string \<Rightarrow> bool" where
  "line_here t \<longleftrightarrow> dropWhile is_crlf t \<noteq> [] \<and> line_rest t \<noteq> [] \<and> hd (line_rest t) = LF"

definition line_caps :: "nat \<Rightarrow> string \<Rightarrow> (nat \<times> nat) list" where
  "line_caps p t =
     (let s1 = dropWhile is_crlf t; s2 = dropWhile (\<lambda>c. \<not> is_crlf c) s1;
          n1 = length (takeWhile is_crlf t); n2 = length (takeWhile (\<lambda>c. \<not> is_crlf c) s1);
          n3 = length (takeWhile (\<lambda>c. c = CR) s2)
      in [(p, n1), (p + n1, n2), (p + n1 + n2, n3), (p + n1 + n2 + n3, 1)])"

lemma rx_match_start_line:
  "length s \<le> 4294967295 \<Longrightarrow> rx_match rx0 start_expr p s = (if line_here s then RxOk (line_caps p s) else RxAgain)"
  by (simp add: rx_match_start line_here_def line_rest_def line_caps_def Let_def)

lemma regex_start_Cons:
  "length (c # s) \<le> 4294967295 \<Longrightarrow>
   re_regex_from start_expr p (c # s) =
     (if line_here (c # s) then Inr (line_caps p (c # s)) else re_regex_from start_expr (Suc p) s)"
  by (simp add: rx_match_start_line)

lemma start_expr_nonempty [simp]: "start_expr \<noteq> []"
  by (simp add: start_expr_def)

lemma line_here_has_line: "line_here t \<Longrightarrow> has_line t"
  unfolding has_line_rest line_here_def by (metis list.set_sel(1))

text \<open>Where the expression does not fit although there is a line, moving on does not lose the line.\<close>

lemma dropWhile_append_visible: "list_all P a \<Longrightarrow> r \<noteq> [] \<Longrightarrow> \<not> P (hd r) \<Longrightarrow> dropWhile P (a @ r) = r"
  by (induction a) (auto simp: neq_Nil_conv)

lemma has_line_Cons:
  assumes "\<not> line_here (c # s)"
  shows "has_line (c # s) \<longleftrightarrow> has_line s"
proof (cases "is_crlf c")
  case True
  then show ?thesis by (simp add: has_line_def)
next
  case False
  have sub: "set (dropWhile is_crlf s) \<subseteq> set s" by (auto dest: set_dropWhileD)
  have "has_line s" if "has_line (c # s)"
  proof -
    define v where "v = takeWhile (\<lambda>c. \<not> is_crlf c) s"
    define r where "r = line_rest (c # s)"
    define k where "k = takeWhile (\<lambda>c. c = CR) (dropWhile (\<lambda>c. \<not> is_crlf c) s)"
    have s: "s = v @ k @ r" using False by (simp add: v_def k_def r_def line_rest_def)
    have "LF \<in> set r" using that by (simp add: has_line_rest r_def)
    then have "r \<noteq> []" by auto
    then have "hd r \<noteq> LF" using assms False by (auto simp: line_here_def r_def)
    moreover have "hd r \<noteq> CR"
      using hd_dropWhile [of "\<lambda>c. c = CR" "dropWhile (\<lambda>c. \<not> is_crlf c) s"] \<open>r \<noteq> []\<close> False
      by (simp add: r_def line_rest_def)
    ultimately have "\<not> is_crlf (hd r)" by (simp add: is_crlf_def)
    then have "dropWhile is_crlf (k @ r) = r"
      using \<open>r \<noteq> []\<close> by (intro dropWhile_append_visible) (auto simp: k_def list_all_iff is_crlf_def dest: set_takeWhileD)
    moreover have "set (dropWhile is_crlf (k @ r)) \<subseteq> set (dropWhile is_crlf (v @ k @ r))"
      by (induction v) (auto dest: set_dropWhileD)
    ultimately show ?thesis using \<open>LF \<in> set r\<close> by (auto simp: has_line_def s)
  qed
  moreover have "has_line s \<Longrightarrow> has_line (c # s)" using sub False by (auto simp: has_line_def)
  ultimately show ?thesis by blast
qed

lemma regex_start_found:
  "length t \<le> 4294967295 \<Longrightarrow>
   if has_line t then \<exists>i. re_regex_from start_expr p t = Inr (line_caps (p + i) (drop i t)) \<and> line_here (drop i t) \<and> i \<le> length t
   else re_regex_from start_expr p t = Inl ENOENT"
proof (induction t arbitrary: p)
  case Nil
  then show ?case by (simp add: has_line_def)
next
  case (Cons c s)
  show ?case
  proof (cases "line_here (c # s)")
    case True
    then have "re_regex_from start_expr p (c # s) = Inr (line_caps (p + 0) (drop 0 (c # s)))"
      using Cons.prems by (simp add: rx_match_start_line)
    then show ?thesis using True line_here_has_line by (metis drop0 le0)
  next
    case False
    then have step: "re_regex_from start_expr p (c # s) = re_regex_from start_expr (Suc p) s"
      using Cons.prems regex_start_Cons by simp
    have "length s \<le> 4294967295" using Cons.prems by simp
    note IH = Cons.IH [OF this, of "Suc p"]
    show ?thesis
    proof (cases "has_line s")
      case True
      then obtain i where "re_regex_from start_expr (Suc p) s = Inr (line_caps (Suc p + i) (drop i s))" "line_here (drop i s)"
        "i \<le> length s" using IH by auto
      then have "re_regex_from start_expr p (c # s) = Inr (line_caps (p + Suc i) (drop (Suc i) (c # s)))
        \<and> line_here (drop (Suc i) (c # s)) \<and> Suc i \<le> length (c # s)" using step by simp
      then have "\<exists>j. re_regex_from start_expr p (c # s) = Inr (line_caps (p + j) (drop j (c # s)))
        \<and> line_here (drop j (c # s)) \<and> j \<le> length (c # s)" by (rule exI)
      then show ?thesis using True has_line_Cons [OF False] by (simp only: if_True)
    next
      case no: False
      then show ?thesis using IH has_line_Cons [OF False] step by simp
    qed
  qed
qed

text \<open>A line that is there stays the same when more text follows.\<close>

lemma dropWhile_stable: "dropWhile P t \<noteq> [] \<Longrightarrow> dropWhile P (t @ u) = dropWhile P t @ u"
  by (induction t) auto

lemma takeWhile_stable: "dropWhile P t \<noteq> [] \<Longrightarrow> takeWhile P (t @ u) = takeWhile P t"
  by (induction t) auto

lemma line_rest_stable:
  assumes "line_rest t \<noteq> []"
  shows "line_rest (t @ u) = line_rest t @ u" and "line_caps p (t @ u) = line_caps p t"
    and "line_here (t @ u) = line_here t"
proof -
  define s1 where "s1 = dropWhile is_crlf t"
  define s2 where "s2 = dropWhile (\<lambda>c. \<not> is_crlf c) s1"
  have s3: "dropWhile (\<lambda>c. c = CR) s2 \<noteq> []" using assms by (simp add: line_rest_def s1_def s2_def)
  then have s2: "s2 \<noteq> []" by auto
  then have s1: "s1 \<noteq> []" by (auto simp: s2_def)
  note stable = dropWhile_stable [of is_crlf t u, folded s1_def, OF s1] takeWhile_stable [of is_crlf t u, folded s1_def, OF s1]
    dropWhile_stable [of "\<lambda>c. \<not> is_crlf c" s1 u, folded s2_def, OF s2]
    takeWhile_stable [of "\<lambda>c. \<not> is_crlf c" s1 u, folded s2_def, OF s2]
    dropWhile_stable [OF s3, of u] takeWhile_stable [OF s3, of u]
  show eq: "line_rest (t @ u) = line_rest t @ u"
    unfolding line_rest_def s1_def [symmetric] stable s2_def [symmetric] ..
  show "line_caps p (t @ u) = line_caps p t"
    unfolding line_caps_def Let_def s1_def [symmetric] stable s2_def [symmetric] ..
  show "line_here (t @ u) = line_here t"
    using assms unfolding line_here_def eq s1_def [symmetric] stable by (simp add: s1)
qed

lemma has_line_suffix_stable: "has_line t \<Longrightarrow> line_rest t \<noteq> []"
  by (auto simp: has_line_rest)

lemma regex_start_stable:
  "has_line t \<Longrightarrow> length (t @ u) \<le> 4294967295 \<Longrightarrow> re_regex_from start_expr p (t @ u) = re_regex_from start_expr p t"
proof (induction t arbitrary: p)
  case Nil
  then show ?case by (simp add: has_line_def)
next
  case (Cons c s)
  have st: "line_caps p (c # s @ u) = line_caps p (c # s)" "line_here (c # s @ u) = line_here (c # s)"
    using line_rest_stable(2,3) [OF has_line_suffix_stable [OF Cons.prems(1)], where u = u] by simp_all
  have "re_regex_from start_expr (Suc p) (s @ u) = re_regex_from start_expr (Suc p) s" if "\<not> line_here (c # s)"
    using that Cons by (simp add: has_line_Cons)
  then show ?case using Cons.prems(2) by (simp add: rx_match_start_line st)
qed

text \<open>The captures of a line lie inside the text.\<close>

lemma regex_start_shape:
  assumes "has_line t" "length t \<le> 4294967295"
  obtains b so sl k e where "re_regex t start_expr = Inr [b, (so, sl), k, (e, 1)]" "so + sl \<le> length t" "e < length t"
proof -
  obtain i where i: "re_regex t start_expr = Inr (line_caps i (drop i t))"
    using regex_start_found [OF assms(2), of 0] assms(1) by (auto simp: re_regex_def)
  moreover obtain b s k e where c: "line_caps i (drop i t) = [b, s, k, (e, 1)]" by (simp add: line_caps_def Let_def)
  moreover have "caps_within 0 (length t) [b, s, k, (e, 1)]"
    using re_regex_from_caps [of start_expr 0 t] i c by (simp add: re_regex_def)
  ultimately show thesis by (intro that [of b "fst s" "snd s" k e]) (auto simp: caps_within_def)
qed

section \<open>The header loop\<close>

lemma pl_text_stable: "fst cap + snd cap \<le> length t \<Longrightarrow> pl_text (t @ u) cap = pl_text t cap"
  by (simp add: pl_text_def)

text \<open>The offsets of a name and of a value never exceed the position of the loop.\<close>

definition hp_ok :: "nat \<Rightarrow> hparse \<Rightarrow> bool" where
  "hp_ok p st \<longleftrightarrow>
     (case hp_name st of None \<Rightarrow> 0 | Some i \<Rightarrow> i) + hp_nl st \<le> p \<and> (case hp_cv st of None \<Rightarrow> 0 | Some i \<Rightarrow> i) \<le> p"

lemma hp_ok0 [simp]: "hp_ok p (hparse0 m)"
  by (simp add: hp_ok_def hparse0_def)

lemma hp_flush_stable:
  "hp_ok p st \<Longrightarrow> p \<le> q \<Longrightarrow> q \<le> length t \<Longrightarrow> hp_flush al (t @ u) q st = hp_flush al t q st"
  by (auto simp: hp_flush_def hp_name_text_def hp_val_text_def hp_ok_def pl_text_stable split: option.splits)

lemma hp_text_char_stable:
  "hp_ok p st \<Longrightarrow> p < length t \<Longrightarrow> hp_text_char (t @ u) p c st = hp_text_char t p c st"
  by (auto simp: hp_text_char_def Let_def hp_ok_def pl_text_stable split: option.splits)

lemma hp_char_stable:
  assumes "hp_ok p st" "p < length t"
  shows "hp_char al (t @ u) p c st = hp_char al t p c st"
proof -
  have ok: "hp_ok p (st\<lparr>hp_ws := n\<rparr>)" "hp_ok p (st\<lparr>hp_msg := m, hp_comsep := False, hp_name := None, hp_cv := None, hp_lf := 0\<rparr>)" for n m
    using assms(1) by (auto simp: hp_ok_def split: option.splits)
  have fl: "hp_flush al (t @ u) p st = hp_flush al t p st"
    "hp_flush al (t @ u) (Suc p) (st\<lparr>hp_ws := n\<rparr>) = hp_flush al t (Suc p) (st\<lparr>hp_ws := n\<rparr>)" for n
    using assms ok hp_flush_stable [of p _ p t] hp_flush_stable [of p _ "Suc p" t] by simp_all
  show ?thesis
    unfolding hp_char_def fl hp_text_char_stable [OF ok(2) assms(2)] hp_text_char_stable [OF assms] ..
qed

lemma hp_text_char_ok: "hp_ok p st \<Longrightarrow> hp_text_char t p c st = HNext st' \<Longrightarrow> hp_ok (Suc p) st'"
  by (auto simp: hp_text_char_def Let_def hp_ok_def split: option.splits if_splits)

lemma hp_text_char_fail: "hp_text_char t p c st = HFail e \<Longrightarrow> e = EBADMSG"
  by (auto simp: hp_text_char_def Let_def split: if_splits)

lemma hp_text_char_not_done: "hp_text_char t p c st \<noteq> HDone q m"
  by (auto simp: hp_text_char_def Let_def split: if_splits)

lemma hp_char_ok:
  assumes "hp_ok p st" "hp_char al t p c st = HNext st'"
  shows "hp_ok (Suc p) st'"
proof -
  have "hp_ok p (st\<lparr>hp_msg := m, hp_comsep := False, hp_name := None, hp_cv := None, hp_lf := 0\<rparr>)" for m
    using assms(1) by (auto simp: hp_ok_def split: option.splits)
  note tc = hp_text_char_ok [OF this] hp_text_char_ok [OF assms(1)]
  show ?thesis
    using assms by (auto simp: hp_char_def split: if_split_asm sum.split_asm intro: tc) (auto simp: hp_ok_def split: option.splits)
qed

lemma hp_char_done: "hp_char al t p c st = HDone q m \<Longrightarrow> q = Suc p \<and> c = LF"
  by (auto simp: hp_char_def hp_text_char_not_done split: if_split_asm sum.split_asm)

lemma hdr_add_errors: "hdr_add al n i v m = Inl e \<Longrightarrow> e = EBADMSG \<or> e = ENOMEM"
  by (auto simp: hdr_add_def Let_def msg_ctype_decode_def split: if_splits sum.splits list.splits)

lemma hp_flush_errors: "hp_flush al t p st = Inl e \<Longrightarrow> e = EBADMSG \<or> e = ENOMEM"
  by (auto simp: hp_flush_def split: if_splits dest: hdr_add_errors)

lemma hp_char_fail: "hp_char al t p c st = HFail e \<Longrightarrow> e = EBADMSG \<or> e = ENOMEM"
  by (auto simp: hp_char_def split: if_split_asm sum.split_asm dest: hp_flush_errors hp_text_char_fail)

lemma hp_loop_stable:
  "hp_loop al t p r st \<noteq> Inl ENODATA \<Longrightarrow> hp_ok p st \<Longrightarrow> p + length r = length t \<Longrightarrow>
   hp_loop al (t @ u) p (r @ u) st = hp_loop al t p r st"
proof (induction r arbitrary: p st)
  case (Cons c r)
  then have st: "hp_char al (t @ u) p c st = hp_char al t p c st" by (intro hp_char_stable) auto
  show ?case
  proof (cases "hp_char al t p c st")
    case (HNext st')
    then show ?thesis using Cons.IH [of "Suc p" st'] Cons.prems hp_char_ok [OF Cons.prems(2) HNext] st by simp
  qed (simp_all add: st)
qed simp

lemma hp_loop_bound: "hp_loop al t p r st = Inr (m, q) \<Longrightarrow> p < q \<and> q \<le> p + length r"
  by (induction al t p r st rule: hp_loop.induct) (auto split: hstep.splits dest: hp_char_done)

section \<open>Complete messages\<close>

lemma decode_no_line:
  assumes "\<not> has_line t" "length t \<le> 4294967295"
  shows "http_msg_decode al req t = Inl (if STARTLINE_MAX < length t then EBADMSG else ENODATA)"
  using regex_start_found [OF assms(2), of 0] assms(1) by (simp add: http_msg_decode_def re_regex_def)

lemma decode_line:
  assumes "has_line t" "length t \<le> 4294967295"
  obtains s e where "e < length t"
    "\<And>u. length (t @ u) \<le> 4294967295 \<Longrightarrow> http_msg_decode al req (t @ u) =
       (if \<not> al 0 \<or> \<not> al 1 then Inl ENOMEM
        else (case (if req then request_line s else response_line s) of
                Inl er \<Rightarrow> Inl er
              | Inr m \<Rightarrow> hp_loop al (t @ u) (Suc e) (drop (Suc e) t @ u) (hparse0 m)))"
proof -
  obtain b so sl k e where r: "re_regex t start_expr = Inr [b, (so, sl), k, (e, 1)]" "so + sl \<le> length t" "e < length t"
    using regex_start_shape [OF assms] .
  show thesis
  proof (rule that [of e "pl_text t (so, sl)"])
    fix u assume "length (t @ u) \<le> 4294967295"
    then have "re_regex (t @ u) start_expr = Inr [b, (so, sl), k, (e, 1)]"
      using r(1) regex_start_stable [OF assms(1)] by (simp add: re_regex_def)
    moreover have "pl_text (t @ u) (so, sl) = pl_text t (so, sl)" using r(2) by (intro pl_text_stable) simp
    ultimately show "http_msg_decode al req (t @ u) =
       (if \<not> al 0 \<or> \<not> al 1 then Inl ENOMEM
        else (case (if req then request_line (pl_text t (so, sl)) else response_line (pl_text t (so, sl))) of
                Inl er \<Rightarrow> Inl er
              | Inr m \<Rightarrow> hp_loop al (t @ u) (Suc e) (drop (Suc e) t @ u) (hparse0 m)))"
      using r(3) by (simp add: http_msg_decode_def Let_def split: sum.split)
  qed (rule r(3))
qed

lemma line_errors: "request_line s = Inl e \<Longrightarrow> e = EBADMSG" "response_line s = Inl e \<Longrightarrow> e = EBADMSG"
  by (auto simp: request_line_def response_line_def split: sum.splits list.splits if_splits)

lemma decode_stable:
  assumes "has_line t" "length (t @ u) \<le> 4294967295" "http_msg_decode al req t \<noteq> Inl ENODATA"
  shows "http_msg_decode al req (t @ u) = http_msg_decode al req t"
proof -
  have len: "length t \<le> 4294967295" using assms(2) by simp
  obtain s e where e: "e < length t" and d: "\<And>u. length (t @ u) \<le> 4294967295 \<Longrightarrow> http_msg_decode al req (t @ u) =
       (if \<not> al 0 \<or> \<not> al 1 then Inl ENOMEM
        else (case (if req then request_line s else response_line s) of
                Inl er \<Rightarrow> Inl er
              | Inr m \<Rightarrow> hp_loop al (t @ u) (Suc e) (drop (Suc e) t @ u) (hparse0 m)))"
    using decode_line [OF assms(1) len, of al req] by blast
  have d0: "http_msg_decode al req t =
       (if \<not> al 0 \<or> \<not> al 1 then Inl ENOMEM
        else (case (if req then request_line s else response_line s) of
                Inl er \<Rightarrow> Inl er
              | Inr m \<Rightarrow> hp_loop al t (Suc e) (drop (Suc e) t) (hparse0 m)))" using d [of "[]"] len unfolding append_Nil2 .
  show ?thesis
    unfolding d [OF assms(2)] using assms(3) e hp_loop_stable [of al t "Suc e" "drop (Suc e) t" _ u]
    unfolding d0 by (auto split: if_split_asm sum.splits)
qed

lemma decode_bound:
  assumes "http_msg_decode al req t = Inr (m, q)" "length t \<le> 4294967295"
  shows "has_line t \<and> 0 < q \<and> q \<le> length t"
proof (cases "has_line t")
  case True
  obtain s e where e: "e < length t" and d: "\<And>u. length (t @ u) \<le> 4294967295 \<Longrightarrow> http_msg_decode al req (t @ u) =
       (if \<not> al 0 \<or> \<not> al 1 then Inl ENOMEM
        else (case (if req then request_line s else response_line s) of
                Inl er \<Rightarrow> Inl er
              | Inr m \<Rightarrow> hp_loop al (t @ u) (Suc e) (drop (Suc e) t @ u) (hparse0 m)))"
    using decode_line [OF True assms(2), of al req] by blast
  from d [of "[]", unfolded append_Nil2] assms obtain m0 where "hp_loop al t (Suc e) (drop (Suc e) t) (hparse0 m0) = Inr (m, q)"
    by (auto split: if_split_asm sum.splits)
  then show ?thesis using hp_loop_bound e True by fastforce
qed (use assms decode_no_line in simp)

end
