(* ===== verification/Http_Roundtrip.thy ===== *)
theory Http_Roundtrip
  imports Http_Parse
begin

text \<open>
  A request that a client writes is the request that the parser of \<open>http/msg.c\<close> reads: method, path, parameters, version,
  every header with its name and value, and the length of the head, whatever follows it.
\<close>

section \<open>The text of a request\<close>

definition request_line_text :: "string \<Rightarrow> string \<Rightarrow> string \<Rightarrow> string \<Rightarrow> string" where
  "request_line_text met path prm ver = met @ '' '' @ path @ prm @ '' HTTP/'' @ ver"

definition hdr_line :: "string \<times> string \<Rightarrow> string" where
  "hdr_line h = fst h @ '': '' @ snd h @ crlf"

definition request_head :: "string \<Rightarrow> string \<Rightarrow> string \<Rightarrow> string \<Rightarrow> (string \<times> string) list \<Rightarrow> string" where
  "request_head met path prm ver hs = request_line_text met path prm ver @ crlf @ concat (map hdr_line hs) @ crlf"

definition is_alpha :: "char \<Rightarrow> bool" where
  "is_alpha c \<longleftrightarrow> 97 \<le> (of_char (tolower c) :: nat) \<and> (of_char (tolower c) :: nat) \<le> 122"

definition is_blank :: "char \<Rightarrow> bool" where
  "is_blank c \<longleftrightarrow> c = CHR '' '' \<or> c = HT"

definition request_line_ok :: "string \<Rightarrow> string \<Rightarrow> string \<Rightarrow> string \<Rightarrow> bool" where
  "request_line_ok met path prm ver \<longleftrightarrow>
     met \<noteq> [] \<and> list_all is_alpha met
     \<and> path \<noteq> [] \<and> list_all (\<lambda>c. c \<noteq> CHR '' '' \<and> c \<noteq> CHR ''?'' \<and> \<not> is_crlf c) path
     \<and> (prm = [] \<or> hd prm = CHR ''?'') \<and> list_all (\<lambda>c. c \<noteq> CHR '' '' \<and> \<not> is_crlf c) prm
     \<and> ver \<noteq> [] \<and> list_all (\<lambda>c. is_digit c \<or> c = CHR ''.'') ver"

text \<open>A header that is read as one header: no comma in the value if its values are separated by commas.\<close>

definition hdr_ok :: "string \<times> string \<Rightarrow> bool" where
  "hdr_ok h \<longleftrightarrow>
     (case h of (n, v) \<Rightarrow>
        n \<noteq> [] \<and> list_all (\<lambda>c. c \<noteq> CHR '':'' \<and> \<not> is_blank c \<and> \<not> is_crlf c) n
        \<and> v \<noteq> [] \<and> \<not> is_blank (hd v) \<and> \<not> is_blank (last v) \<and> list_all (\<lambda>c. \<not> is_crlf c) v
        \<and> (hdr_comma_separated (hdr_hash n) \<longrightarrow> CHR '','' \<notin> set v))"

text \<open>The headers as \<open>hdr_add\<close> takes them, in their order.\<close>

fun add_hdrs :: "(nat \<Rightarrow> bool) \<Rightarrow> (string \<times> string) list \<Rightarrow> hmsg \<Rightarrow> errno + hmsg" where
  "add_hdrs al [] m = Inr m"
| "add_hdrs al (h # hs) m =
     (case hdr_add al (fst h) (hdr_hash (fst h)) (snd h) m of Inl e \<Rightarrow> Inl e | Inr m' \<Rightarrow> add_hdrs al hs m')"

section \<open>The request line\<close>

lemma class_alpha: "in_cls False [(97, 122)] c = is_alpha c"
  by (simp add: in_cls_def expr_match_def is_alpha_def)

lemma class_not_query: "in_cls True [(63, 63), (32, 32)] c = (c \<noteq> CHR '' '' \<and> c \<noteq> CHR ''?'')"
  by (auto simp: in_cls_eval)

lemma class_not_space: "in_cls True [(32, 32)] c = (c \<noteq> CHR '' '')"
  by (simp add: in_cls_eval)

lemma class_version: "in_cls False [(48, 57), (46, 46)] c = (is_digit c \<or> c = CHR ''.'')"
  by (auto simp: in_cls_def expr_match_def of_char_tolower Let_def is_digit_def of_char_iff char_of_def bit_0 tolower_class)

lemma parse_request:
  "rx_parse (rx_open rx0) (CHR ''a'' # CHR ''-'' # CHR ''z'' # CHR '']'' # ep) = Some (rx_cls False [(97, 122)], ep)"
  "rx_parse (rx_open rx0) (CHR ''^'' # CHR ''?'' # CHR '' '' # CHR '']'' # ep) = Some (rx_cls True [(63, 63), (32, 32)], ep)"
  "rx_parse (rx_open rx0) (CHR ''^'' # CHR '' '' # CHR '']'' # ep) = Some (rx_cls True [(32, 32)], ep)"
  "rx_parse (rx_open rx0) (CHR ''0'' # CHR ''-'' # CHR ''9'' # CHR ''.'' # CHR '']'' # ep)
     = Some (rx_cls False [(48, 57), (46, 46)], ep)"
  by (simp_all add: rx_eval of_char_tolower)

lemma run_append:
  "list_all P a \<Longrightarrow> r = [] \<or> \<not> P (hd r) \<Longrightarrow> takeWhile P (a @ r) = a \<and> dropWhile P (a @ r) = r"
  by (induction a) (cases r, auto)+

lemma rx_star_run:
  assumes "length (a @ r) \<le> 4294967295" "list_all (in_cls neg chrv) a" "r = [] \<or> \<not> in_cls neg chrv (hd r)"
  shows "rx_match (rx_cls neg chrv) (CHR ''*'' # ep) p (a @ r) = rx_cons (p, length a) (rx_match rx0 ep (p + length a) r)"
  using run_append [OF assms(2,3)] rx_match_star [OF assms(1)] by simp

lemma rx_plus_run:
  assumes "length (a @ r) \<le> 4294967295" "list_all (in_cls neg chrv) a" "r = [] \<or> \<not> in_cls neg chrv (hd r)" "a \<noteq> []"
  shows "rx_match (rx_cls neg chrv) (CHR ''+'' # ep) p (a @ r) = rx_cons (p, length a) (rx_match rx0 ep (p + length a) r)"
proof -
  have "in_cls neg chrv (hd (a @ r))" using assms(2,4) by (cases a) simp_all
  then show ?thesis using run_append [OF assms(2,3)] rx_match_plus [OF assms(1)] assms(4) by simp
qed

lemma rx_lit_same:
  "e \<noteq> BSL \<Longrightarrow> e \<noteq> CHR ''['' \<Longrightarrow> rx_match rx0 (e # ep) p (e # s) = rx_match rx0 ep (Suc p) s"
  by (simp add: rx_match_lit)

lemma match_request_line:
  assumes ok: "request_line_ok met path prm ver" and len: "length (request_line_text met path prm ver) \<le> 4294967295"
  shows "rx_match rx0 request_expr 0 (request_line_text met path prm ver) =
    RxOk [(0, length met), (Suc (length met), length path), (Suc (length met + length path), length prm),
          (Suc (length met + length path + length prm + 6), length ver)]"
proof -
  have a: "met \<noteq> []" "list_all (in_cls False [(97, 122)]) met"
    and b: "path \<noteq> []" "list_all (in_cls True [(63, 63), (32, 32)]) path"
    and c: "list_all (in_cls True [(32, 32)]) prm" "prm = [] \<or> hd prm = CHR ''?''"
    and d: "ver \<noteq> []" "list_all (in_cls False [(48, 57), (46, 46)]) ver"
    using ok by (auto simp: request_line_ok_def class_alpha [abs_def] class_not_query [abs_def] class_not_space [abs_def]
        class_version [abs_def] list_all_iff)
  have q: "prm @ '' HTTP/'' @ ver = [] \<or> \<not> in_cls True [(63, 63), (32, 32)] (hd (prm @ '' HTTP/'' @ ver))"
    using c(2) by (cases prm) (auto simp: class_not_query)
  have sp: "\<not> in_cls False [(97, 122)] (CHR '' '')" "\<not> in_cls True [(32, 32)] (CHR '' '')"
    by (simp_all add: in_cls_def expr_match_def of_char_tolower)
  note run1 = rx_plus_run [of met "'' '' @ path @ prm @ '' HTTP/'' @ ver", OF _ a(2) _ a(1)]
  note run2 = rx_plus_run [of path "prm @ '' HTTP/'' @ ver", OF _ b(2) q b(1)]
  note run3 = rx_star_run [of prm "'' HTTP/'' @ ver", OF _ c(1)]
  note run4 = rx_plus_run [of ver "[]", OF _ d(2) _ d(1)]
  show ?thesis
    using len run1 run2 run3 run4 sp
    by (simp add: request_expr_def request_line_text_def rx_match_class [OF parse_request(1)] rx_match_class [OF parse_request(2)]
        rx_match_class [OF parse_request(3)] rx_match_class [OF parse_request(4)] rx_lit_same rx_match_end rx_cons_def)
qed

lemma pl_text_at: "pl_text (a @ b @ c) (length a, length b) = b"
  by (simp add: pl_text_def)

lemma request_line_roundtrip:
  assumes "request_line_ok met path prm ver" "length (request_line_text met path prm ver) \<le> 4294967295"
  shows "request_line (request_line_text met path prm ver) =
    Inr (hmsg0\<lparr>hq_met := met, hq_path := path, hq_prm := prm, hq_ver := ver\<rparr>)"
proof -
  define s where "s = request_line_text met path prm ver"
  have "s \<noteq> []" by (simp add: s_def request_line_text_def)
  then have "re_regex s request_expr =
    Inr [(0, length met), (Suc (length met), length path), (Suc (length met + length path), length prm),
          (Suc (length met + length path + length prm + 6), length ver)]"
    using match_request_line [OF assms, folded s_def] by (cases s) (simp_all add: re_regex_def)
  moreover have "pl_text s (0, length met) = met" "pl_text s (Suc (length met), length path) = path"
    "pl_text s (Suc (length met + length path), length prm) = prm"
    "pl_text s (Suc (length met + length path + length prm + 6), length ver) = ver"
    using pl_text_at [of "[]" met "drop (length met) s"] pl_text_at [of "met @ '' ''" path "prm @ '' HTTP/'' @ ver"]
      pl_text_at [of "met @ '' '' @ path" prm "'' HTTP/'' @ ver"] pl_text_at [of "met @ '' '' @ path @ prm @ '' HTTP/''" ver "[]"]
    by (simp_all add: s_def request_line_text_def numeral_eq_Suc add.assoc)
  ultimately show ?thesis by (simp add: request_line_def flip: s_def)
qed

lemma start_line_here:
  assumes "l \<noteq> []" "list_all (\<lambda>c. \<not> is_crlf c) l" "length (l @ crlf @ r) \<le> 4294967295"
  shows "re_regex (l @ crlf @ r) start_expr = Inr [(0, 0), (0, length l), (length l, 1), (Suc (length l), 1)]"
    and "has_line (l @ crlf @ r)"
proof -
  have "\<not> is_crlf (hd l)" using assms(1,2) by (cases l) simp_all
  then have s1: "dropWhile is_crlf (l @ crlf @ r) = l @ crlf @ r" "takeWhile is_crlf (l @ crlf @ r) = []"
    using assms(1) by (cases l; simp)+
  have s2: "takeWhile (\<lambda>c. \<not> is_crlf c) (l @ crlf @ r) = l" "dropWhile (\<lambda>c. \<not> is_crlf c) (l @ crlf @ r) = crlf @ r"
    using run_append [OF assms(2), of "crlf @ r"] by (simp_all add: is_crlf_def)
  have "line_here (l @ crlf @ r)" "line_caps 0 (l @ crlf @ r) = [(0, 0), (0, length l), (length l, 1), (Suc (length l), 1)]"
    unfolding line_here_def line_rest_def line_caps_def Let_def s1 s2 by simp_all
  moreover have "re_regex_from start_expr 0 t = Inr (line_caps 0 t)" if "line_here t" "t \<noteq> []" "length t \<le> 4294967295" for t
    using that by (cases t) (simp_all add: rx_match_start_line)
  ultimately show "re_regex (l @ crlf @ r) start_expr = Inr [(0, 0), (0, length l), (length l, 1), (Suc (length l), 1)]"
    using assms(3) unfolding re_regex_def by (metis append_is_Nil_conv assms(1))
  show "has_line (l @ crlf @ r)" using s1 by (simp add: has_line_def)
qed

section \<open>The headers\<close>

text \<open>
  \<open>hp_fresh\<close>: no header has begun. \<open>hp_pending\<close>: a header with its line feed has been read and is entered when the next
  line shows that it is not continued.
\<close>

definition hp_fresh :: "hmsg \<Rightarrow> hparse \<Rightarrow> bool" where
  "hp_fresh m st \<longleftrightarrow> hp_name st = None \<and> hp_cv st = None \<and> hp_lf st = 0 \<and> \<not> hp_comsep st \<and> hp_msg st = m"

definition hp_pending :: "string \<Rightarrow> nat \<Rightarrow> string \<times> string \<Rightarrow> hmsg \<Rightarrow> hparse \<Rightarrow> bool" where
  "hp_pending t p h m st \<longleftrightarrow>
     hp_name st \<noteq> None \<and> hp_nl st \<noteq> 0 \<and> hp_lf st = 1 \<and> hp_msg st = m
     \<and> hp_name_text t st = fst h \<and> hp_id st = hdr_hash (fst h)
     \<and> (\<exists>cv. hp_cv st = Some cv \<and> cv + length (snd h) + hp_ws st = p \<and> pl_text t (cv, length (snd h)) = snd h)"

lemma hp_pending_flush:
  assumes "hp_pending t p h m st"
  shows "hp_flush al t p st = hdr_add al (fst h) (hdr_hash (fst h)) (snd h) m"
proof -
  from assms have "hp_val_text t p st = snd h" by (auto simp: hp_pending_def hp_val_text_def)
  then show ?thesis using assms by (simp add: hp_pending_def hp_flush_def)
qed

text \<open>A character that is neither white space nor a line end begins a header.\<close>

definition visible :: "char \<Rightarrow> bool" where
  "visible c \<longleftrightarrow> \<not> is_blank c \<and> \<not> is_crlf c"

lemma hp_char_visible:
  "visible c \<Longrightarrow> hp_lf st = 0 \<Longrightarrow> \<not> (c = CHR '','' \<and> hp_comsep st) \<Longrightarrow> hp_char al t p c st = hp_text_char t p c st"
  by (auto simp: hp_char_def visible_def is_blank_def is_crlf_def)

lemma hp_fresh_begin:
  "hp_fresh m st \<Longrightarrow> visible c \<Longrightarrow> c \<noteq> CHR '':'' \<Longrightarrow>
   hp_char al t p c st = HNext (st\<lparr>hp_name := Some p, hp_nl := 0, hp_ws := 0\<rparr>)"
  by (simp add: hp_fresh_def hp_char_visible hp_text_char_def Let_def)

lemma hp_pending_begin:
  assumes "hp_pending t p h m st" "visible c" "hdr_add al (fst h) (hdr_hash (fst h)) (snd h) m = Inr m'"
  obtains st' where "hp_fresh m' st'" "hp_char al t p c st = hp_text_char t p c st'"
proof
  let ?st = "st\<lparr>hp_msg := m', hp_comsep := False, hp_name := None, hp_cv := None, hp_lf := 0\<rparr>"
  show "hp_fresh m' ?st" by (simp add: hp_fresh_def)
  have "hp_lf st = 1" using assms(1) by (simp add: hp_pending_def)
  then show "hp_char al t p c st = hp_text_char t p c ?st"
    using assms hp_pending_flush [OF assms(1)]
    by (auto simp: hp_char_def visible_def is_blank_def is_crlf_def)
qed

text \<open>The state in the middle of a name.\<close>

definition hp_naming :: "nat \<Rightarrow> hmsg \<Rightarrow> hparse \<Rightarrow> bool" where
  "hp_naming i m st \<longleftrightarrow>
     hp_name st = Some i \<and> hp_nl st = 0 \<and> hp_cv st = None \<and> hp_ws st = 0 \<and> hp_lf st = 0 \<and> \<not> hp_comsep st \<and> hp_msg st = m"

lemma hp_naming_char:
  "hp_naming i m st \<Longrightarrow> visible c \<Longrightarrow> c \<noteq> CHR '':'' \<Longrightarrow> hp_char al t p c st = HNext st"
  by (simp add: hp_naming_def hp_char_visible hp_text_char_def Let_def)

lemma hp_loop_name:
  "hp_naming i m st \<Longrightarrow> list_all (\<lambda>c. visible c \<and> c \<noteq> CHR '':'') n \<Longrightarrow>
   hp_loop al t p (n @ r) st = hp_loop al t (p + length n) r st"
  by (induction n arbitrary: p) (simp_all add: hp_naming_char)

text \<open>The state in the middle of a value.\<close>

definition hp_valuing :: "nat \<Rightarrow> nat \<Rightarrow> int \<Rightarrow> nat \<Rightarrow> hmsg \<Rightarrow> hparse \<Rightarrow> bool" where
  "hp_valuing i nl hid cv m st \<longleftrightarrow>
     hp_name st = Some i \<and> hp_nl st = nl \<and> hp_id st = hid \<and> hp_cv st = Some cv \<and> hp_lf st = 0 \<and> hp_msg st = m
     \<and> hp_comsep st = hdr_comma_separated hid"

lemma hp_valuing_blank:
  "hp_valuing i nl hid cv m st \<Longrightarrow> is_blank c \<Longrightarrow>
   \<exists>st'. hp_char al t p c st = HNext st' \<and> hp_valuing i nl hid cv m st' \<and> hp_ws st' = Suc (hp_ws st)"
  by (simp add: hp_valuing_def hp_char_def is_blank_def)

lemma hp_valuing_visible:
  "hp_valuing i nl hid cv m st \<Longrightarrow> 0 < nl \<Longrightarrow> visible c \<Longrightarrow> \<not> (c = CHR '','' \<and> hdr_comma_separated hid) \<Longrightarrow>
   \<exists>st'. hp_char al t p c st = HNext st' \<and> hp_valuing i nl hid cv m st' \<and> hp_ws st' = 0"
  by (auto simp: hp_valuing_def hp_char_visible hp_text_char_def Let_def)

lemma hp_loop_value:
  "hp_valuing i nl hid cv m st \<Longrightarrow> 0 < nl \<Longrightarrow> list_all (\<lambda>c. \<not> is_crlf c) v \<Longrightarrow>
   (hdr_comma_separated hid \<longrightarrow> CHR '','' \<notin> set v) \<Longrightarrow>
   \<exists>st'. hp_loop al t p (v @ r) st = hp_loop al t (p + length v) r st' \<and> hp_valuing i nl hid cv m st'
     \<and> (v \<noteq> [] \<longrightarrow> \<not> is_blank (last v) \<longrightarrow> hp_ws st' = 0) \<and> (v = [] \<longrightarrow> st' = st)"
proof (induction v arbitrary: p st)
  case (Cons c v)
  obtain st1 where s: "hp_char al t p c st = HNext st1" "hp_valuing i nl hid cv m st1" "visible c \<Longrightarrow> hp_ws st1 = 0"
    using hp_valuing_blank [OF Cons.prems(1), of c al t p] hp_valuing_visible [OF Cons.prems(1,2), of c al t p] Cons.prems(3,4)
    by (auto simp: visible_def)
  have "list_all (\<lambda>c. \<not> is_crlf c) v" "hdr_comma_separated hid \<longrightarrow> CHR '','' \<notin> set v" using Cons.prems(3,4) by auto
  then obtain st2 where "hp_loop al t (Suc p) (v @ r) st1 = hp_loop al t (Suc p + length v) r st2" "hp_valuing i nl hid cv m st2"
    "v \<noteq> [] \<longrightarrow> \<not> is_blank (last v) \<longrightarrow> hp_ws st2 = 0" "v = [] \<longrightarrow> st2 = st1"
    using Cons.IH [OF s(2) Cons.prems(2)] by blast
  then have "hp_loop al t p ((c # v) @ r) st = hp_loop al t (p + length (c # v)) r st2 \<and> hp_valuing i nl hid cv m st2
     \<and> (c # v \<noteq> [] \<longrightarrow> \<not> is_blank (last (c # v)) \<longrightarrow> hp_ws st2 = 0) \<and> (c # v = [] \<longrightarrow> st2 = st)"
    using s Cons.prems(3) by (auto simp: visible_def)
  then show ?case by blast
qed simp

lemma pl_text_drop: "drop i t = b @ r \<Longrightarrow> pl_text t (i, length b) = b"
  by (simp add: pl_text_def)

text \<open>Colon, blank and the first character of the value.\<close>

lemma hp_colon:
  assumes "hp_naming i m st" "drop i t = n @ r" "n \<noteq> []"
  defines "hid \<equiv> hdr_hash n"
  shows "hp_char al t (i + length n) (CHR '':'') st =
    HNext (st\<lparr>hp_nl := length n, hp_id := hid, hp_comsep := hdr_comma_separated hid\<rparr>)"
proof -
  have "pl_text t (i, length n) = n" using assms(2) by (rule pl_text_drop)
  moreover have "visible CHR '':''" by (simp add: visible_def is_blank_def is_crlf_def)
  ultimately show ?thesis using assms(1,3) by (simp add: hp_naming_def hp_char_visible hp_text_char_def Let_def hid_def)
qed

lemma hp_value_begin:
  assumes "hp_naming i m st" "visible c" "\<not> (c = CHR '','' \<and> hdr_comma_separated hid)" "0 < nl"
  shows "\<exists>st'. hp_loop al t p (CHR '' '' # c # r) (st\<lparr>hp_nl := nl, hp_id := hid, hp_comsep := hdr_comma_separated hid\<rparr>)
           = hp_loop al t (p + 2) r st' \<and> hp_valuing i nl hid (Suc p) m st' \<and> hp_ws st' = 0"
proof -
  let ?st = "st\<lparr>hp_nl := nl, hp_id := hid, hp_comsep := hdr_comma_separated hid\<rparr>"
  have "hp_char al t p (CHR '' '') ?st = HNext (?st\<lparr>hp_lf := 0, hp_ws := 1\<rparr>)"
    using assms(1) by (simp add: hp_char_def hp_naming_def)
  then show ?thesis using assms by (auto simp: hp_naming_def hp_valuing_def hp_char_visible hp_text_char_def Let_def)
qed

lemma hp_value_end:
  assumes "hp_valuing i nl hid cv m st" "hp_ws st = 0"
  shows "\<exists>st'. hp_loop al t p (crlf @ r) st = hp_loop al t (p + 2) r st' \<and> hp_name st' = Some i \<and> hp_nl st' = nl
           \<and> hp_id st' = hid \<and> hp_cv st' = Some cv \<and> hp_ws st' = 2 \<and> hp_lf st' = 1 \<and> hp_msg st' = m"
  using assms by (auto simp: hp_valuing_def hp_char_def)

lemma hp_loop_header:
  assumes "hp_naming i m st" "hdr_ok (c # n', v)" "drop i t = hdr_line (c # n', v) @ r"
  shows "\<exists>st'. hp_loop al t (Suc i) (n' @ '': '' @ v @ crlf @ r) st = hp_loop al t (i + length (hdr_line (c # n', v))) r st'
           \<and> hp_pending t (i + length (hdr_line (c # n', v))) (c # n', v) m st'"
proof -
  define n where "n = c # n'"
  define hid where "hid = hdr_hash n"
  obtain c1 v' where v1: "v = c1 # v'" using assms(2) by (cases v) (auto simp: hdr_ok_def)
  have v: "visible c1" "list_all (\<lambda>c. \<not> is_crlf c) v'" "\<not> (c1 = CHR '','' \<and> hdr_comma_separated hid)"
      "hdr_comma_separated hid \<longrightarrow> CHR '','' \<notin> set v'" "v' \<noteq> [] \<Longrightarrow> \<not> is_blank (last v')"
    and n': "list_all (\<lambda>c. visible c \<and> c \<noteq> CHR '':'') n'"
    using assms(2) by (auto simp: hdr_ok_def visible_def hid_def n_def v1 list_all_iff)
  have t: "drop i t = n @ '': '' @ v @ crlf @ r" using assms(3) by (simp add: hdr_line_def n_def)
  have name: "pl_text t (i, length n) = n" using t by (rule pl_text_drop)
  define cv where "cv = Suc (Suc (i + length n))"
  have "drop cv t = v @ crlf @ r" using arg_cong [OF t, of "drop (Suc (Suc (length n)))"] by (simp add: cv_def add.commute)
  then have val: "pl_text t (cv, length v) = v" by (rule pl_text_drop)
  let ?st1 = "st\<lparr>hp_nl := length n, hp_id := hid, hp_comsep := hdr_comma_separated hid\<rparr>"
  have "hp_loop al t (Suc i) (n' @ '': '' @ v @ crlf @ r) st = hp_loop al t (i + length n) ('': '' @ v @ crlf @ r) st"
    using hp_loop_name [OF assms(1) n', of al t "Suc i"] by (simp add: n_def)
  also have "\<dots> = hp_loop al t (Suc (i + length n)) (CHR '' '' # c1 # v' @ crlf @ r) ?st1"
    using hp_colon [OF assms(1) t] by (simp add: n_def hid_def v1)
  finally have a: "hp_loop al t (Suc i) (n' @ '': '' @ v @ crlf @ r) st =
    hp_loop al t (Suc (i + length n)) (CHR '' '' # c1 # v' @ crlf @ r) ?st1" .
  have "0 < length n" by (simp add: n_def)
  then obtain st2 where b: "hp_loop al t (Suc (i + length n)) (CHR '' '' # c1 # v' @ crlf @ r) ?st1
      = hp_loop al t (Suc (i + length n) + 2) (v' @ crlf @ r) st2" "hp_valuing i (length n) hid cv m st2" "hp_ws st2 = 0"
    using hp_value_begin [OF assms(1) v(1,3), of "length n" al t "Suc (i + length n)" "v' @ crlf @ r"] unfolding cv_def by blast
  obtain st3 where e: "hp_loop al t (Suc (i + length n) + 2) (v' @ crlf @ r) st2
      = hp_loop al t (Suc (i + length n) + 2 + length v') (crlf @ r) st3" "hp_valuing i (length n) hid cv m st3" "hp_ws st3 = 0"
    using hp_loop_value [OF b(2) \<open>0 < length n\<close> v(2,4), of al t "Suc (i + length n) + 2" "crlf @ r"] b(3) v(5) by metis
  obtain st4 where f: "hp_loop al t (Suc (i + length n) + 2 + length v') (crlf @ r) st3
      = hp_loop al t (Suc (i + length n) + 2 + length v' + 2) r st4" "hp_name st4 = Some i" "hp_nl st4 = length n"
      "hp_id st4 = hid" "hp_cv st4 = Some cv" "hp_ws st4 = 2" "hp_lf st4 = 1" "hp_msg st4 = m"
    using hp_value_end [OF e(2,3), of al t _ r] by blast
  have pos: "Suc (i + length n) + 2 + length v' + 2 = i + length (hdr_line (c # n', v))"
    by (simp add: hdr_line_def n_def v1)
  have "hp_pending t (i + length (hdr_line (c # n', v))) (n, v) m st4"
    using f name val unfolding pos [symmetric]
    by (simp add: hp_pending_def hp_name_text_def hid_def n_def cv_def v1)
  then show ?thesis using a b(1) e(1) f(1) pos unfolding n_def by metis
qed

lemma hp_fresh_naming:
  assumes "hp_fresh m st" "visible c" "c \<noteq> CHR '':''"
  shows "\<exists>st'. hp_text_char t p c st = HNext st' \<and> hp_naming p m st'"
  using assms by (auto simp: hp_fresh_def hp_text_char_def Let_def hp_naming_def)

lemma hdr_ok_name: "hdr_ok (n, v) \<Longrightarrow> \<exists>c n'. n = c # n' \<and> visible c \<and> c \<noteq> CHR '':''"
  by (cases n) (auto simp: hdr_ok_def visible_def)

lemma hp_loop_end_of_headers:
  assumes "hp_pending t p h m st" "hdr_add al (fst h) (hdr_hash (fst h)) (snd h) m = Inr m'"
  shows "hp_loop al t p (crlf @ r) st = Inr (m', p + 2)"
proof -
  have cr: "hp_char al t p CR st = HNext (st\<lparr>hp_ws := Suc (hp_ws st)\<rparr>)" by (simp add: hp_char_def)
  have "hp_pending t (Suc (Suc p)) h m (st\<lparr>hp_ws := Suc (Suc (hp_ws st))\<rparr>)"
    using assms(1) by (auto simp: hp_pending_def hp_name_text_def)
  then have "hp_flush al t (Suc (Suc p)) (st\<lparr>hp_ws := Suc (Suc (hp_ws st))\<rparr>) = Inr m'"
    using hp_pending_flush assms(2) by simp
  then have "hp_char al t (Suc p) LF (st\<lparr>hp_ws := Suc (hp_ws st)\<rparr>) = HDone (Suc (Suc p)) m'"
    using assms(1) by (auto simp: hp_char_def hp_pending_def)
  then show ?thesis using cr by simp
qed

text \<open>A whole header line, from a state in which a visible character begins a name.\<close>

definition hp_ready :: "(nat \<Rightarrow> bool) \<Rightarrow> string \<Rightarrow> nat \<Rightarrow> hmsg \<Rightarrow> hparse \<Rightarrow> bool" where
  "hp_ready al t p m st \<longleftrightarrow>
     (\<forall>c. visible c \<and> c \<noteq> CHR '':'' \<longrightarrow> (\<exists>st'. hp_char al t p c st = HNext st' \<and> hp_naming p m st'))"

lemma hp_ready0: "hp_ready al t p m (hparse0 m)"
proof -
  have "hp_fresh m (hparse0 m)" by (simp add: hp_fresh_def hparse0_def)
  moreover have "visible c \<Longrightarrow> hp_char al t p c (hparse0 m) = hp_text_char t p c (hparse0 m)" for c
    by (rule hp_char_visible) (simp_all add: hparse0_def)
  ultimately show ?thesis using hp_fresh_naming unfolding hp_ready_def by metis
qed

lemma hp_ready_pending:
  assumes "hp_pending t p h m st" "hdr_add al (fst h) (hdr_hash (fst h)) (snd h) m = Inr m'"
  shows "hp_ready al t p m' st"
  unfolding hp_ready_def using hp_pending_begin [OF assms(1) _ assms(2)] hp_fresh_naming by metis

lemma hp_loop_line:
  assumes "hp_ready al t p m st" "hdr_ok g" "drop p t = hdr_line g @ r"
  shows "\<exists>st'. hp_loop al t p (hdr_line g @ r) st = hp_loop al t (p + length (hdr_line g)) r st'
           \<and> hp_pending t (p + length (hdr_line g)) g m st'"
proof -
  obtain n v where g: "g = (n, v)" by force
  obtain c n' where n: "n = c # n'" "visible c" "c \<noteq> CHR '':''" using assms(2) hdr_ok_name unfolding g by blast
  obtain st1 where st1: "hp_char al t p c st = HNext st1" "hp_naming p m st1"
    using assms(1) n unfolding hp_ready_def by blast
  have "hp_loop al t p (hdr_line g @ r) st = hp_loop al t (Suc p) (n' @ '': '' @ v @ crlf @ r) st1"
    using st1(1) by (simp add: hdr_line_def g n(1))
  then show ?thesis using hp_loop_header [OF st1(2), of c n' v t r al] assms(2,3) unfolding g n(1) by simp
qed

lemma hp_loop_pending:
  "hp_pending t p h m st \<Longrightarrow> add_hdrs al (h # hs) m = Inr m' \<Longrightarrow> list_all hdr_ok hs \<Longrightarrow>
   drop p t = concat (map hdr_line hs) @ crlf @ r \<Longrightarrow>
   hp_loop al t p (concat (map hdr_line hs) @ crlf @ r) st = Inr (m', p + length (concat (map hdr_line hs)) + 2)"
proof (induction hs arbitrary: p h m st)
  case Nil
  then show ?case using hp_loop_end_of_headers [of t p h m st al m' r] by (simp del: hp_loop.simps split: sum.splits)
next
  case (Cons g hs)
  obtain m1 where m1: "hdr_add al (fst h) (hdr_hash (fst h)) (snd h) m = Inr m1" "add_hdrs al (g # hs) m1 = Inr m'"
    using Cons.prems(2) unfolding add_hdrs.simps(2) [of al h] by (auto split: sum.splits)
  let ?r = "concat (map hdr_line hs) @ crlf @ r" and ?q = "p + length (hdr_line g)"
  obtain st' where st': "hp_loop al t p (hdr_line g @ ?r) st = hp_loop al t ?q ?r st'" "hp_pending t ?q g m1 st'"
    using hp_loop_line [OF hp_ready_pending [OF Cons.prems(1) m1(1)], of g ?r] Cons.prems(3,4) by auto
  have "drop ?q t = ?r" using arg_cong [OF Cons.prems(4), of "drop (length (hdr_line g))"] by (simp add: add.commute)
  then have "hp_loop al t ?q ?r st' = Inr (m', ?q + length (concat (map hdr_line hs)) + 2)"
    using Cons.IH [OF st'(2) m1(2)] Cons.prems(3) by simp
  then show ?case using st'(1) by (simp del: hp_loop.simps)
qed

lemma hp_loop_headers:
  assumes "add_hdrs al hs m = Inr m'" "list_all hdr_ok hs" "drop p t = concat (map hdr_line hs) @ crlf @ r"
  shows "hp_loop al t p (concat (map hdr_line hs) @ crlf @ r) (hparse0 m) = Inr (m', p + length (concat (map hdr_line hs)) + 2)"
proof (cases hs)
  case Nil
  then show ?thesis using assms(1) by (simp add: hp_char_def hparse0_def)
next
  case (Cons g gs)
  let ?r = "concat (map hdr_line gs) @ crlf @ r" and ?q = "p + length (hdr_line g)"
  obtain st' where st': "hp_loop al t p (hdr_line g @ ?r) (hparse0 m) = hp_loop al t ?q ?r st'" "hp_pending t ?q g m st'"
    using hp_loop_line [OF hp_ready0, where g = g and t = t and p = p and r = ?r and al = al and m = m] assms(2,3) Cons by auto
  have "drop ?q t = ?r" using arg_cong [OF assms(3), of "drop (length (hdr_line g))"] by (simp add: add.commute Cons)
  then have "hp_loop al t ?q ?r st' = Inr (m', ?q + length (concat (map hdr_line gs)) + 2)"
    using hp_loop_pending [OF st'(2) assms(1) [unfolded Cons]] assms(2) by (simp add: Cons)
  then show ?thesis using st'(1) by (simp del: hp_loop.simps add: Cons)
qed

section \<open>Requests\<close>

lemma request_line_text_ok:
  assumes "request_line_ok met path prm ver"
  shows "request_line_text met path prm ver \<noteq> []" "list_all (\<lambda>c. \<not> is_crlf c) (request_line_text met path prm ver)"
proof -
  have ctl: "\<not> is_alpha CR" "\<not> is_alpha LF" "\<not> is_digit CR" "\<not> is_digit LF"
    by (simp_all add: is_alpha_def of_char_tolower is_digit_def)
  have m: "list_all (\<lambda>c. \<not> is_crlf c) met"
    using assms ctl(1,2) unfolding request_line_ok_def is_crlf_def list_all_iff by blast
  have v: "list_all (\<lambda>c. \<not> is_crlf c) ver"
    using assms ctl(3,4) unfolding request_line_ok_def is_crlf_def list_all_iff by fastforce
  have "list_all (\<lambda>c. \<not> is_crlf c) path" "list_all (\<lambda>c. \<not> is_crlf c) prm"
    using assms unfolding request_line_ok_def list_all_iff by blast+
  then show "list_all (\<lambda>c. \<not> is_crlf c) (request_line_text met path prm ver)"
    using m v by (simp add: request_line_text_def) (simp add: is_crlf_def)
qed (simp add: request_line_text_def)

lemma message_decoded:
  assumes "l \<noteq> []" "list_all (\<lambda>c. \<not> is_crlf c) l" "(if req then request_line l else response_line l) = Inr m0"
    "add_hdrs (\<lambda>_. True) hs m0 = Inr m" "list_all hdr_ok hs"
    "length (l @ crlf @ concat (map hdr_line hs) @ crlf @ rest) \<le> 4294967295"
  shows "http_msg_decode (\<lambda>_. True) req (l @ crlf @ concat (map hdr_line hs) @ crlf @ rest) =
    Inr (m, length (l @ crlf @ concat (map hdr_line hs) @ crlf))"
proof -
  define t where "t = l @ crlf @ concat (map hdr_line hs) @ crlf @ rest"
  have "re_regex t start_expr = Inr [(0, 0), (0, length l), (length l, 1), (Suc (length l), 1)]"
    using start_line_here(1) [OF assms(1,2,6)] unfolding t_def .
  moreover have "pl_text t (0, length l) = l" by (simp add: pl_text_def t_def)
  moreover have d: "drop (Suc (Suc (length l))) t = concat (map hdr_line hs) @ crlf @ rest" by (simp add: t_def)
  ultimately have "http_msg_decode (\<lambda>_. True) req t = Inr (m, length (l @ crlf @ concat (map hdr_line hs) @ crlf))"
    using hp_loop_headers [OF assms(4,5) d] assms(3) by (cases req) (simp_all add: http_msg_decode_def del: hp_loop.simps)
  then show ?thesis by (simp add: t_def)
qed

lemma request_decoded:
  assumes "request_line_ok met path prm ver" "list_all hdr_ok hs"
    "add_hdrs (\<lambda>_. True) hs (hmsg0\<lparr>hq_met := met, hq_path := path, hq_prm := prm, hq_ver := ver\<rparr>) = Inr m"
    "length (request_head met path prm ver hs @ rest) \<le> 4294967295"
  shows "http_msg_decode (\<lambda>_. True) True (request_head met path prm ver hs @ rest) = Inr (m, length (request_head met path prm ver hs))"
proof -
  let ?l = "request_line_text met path prm ver"
  have "length ?l \<le> 4294967295" using assms(4) by (simp add: request_head_def)
  then have "(if True then request_line ?l else response_line ?l)
      = Inr (hmsg0\<lparr>hq_met := met, hq_path := path, hq_prm := prm, hq_ver := ver\<rparr>)"
    using request_line_roundtrip [OF assms(1)] by simp
  from message_decoded [OF request_line_text_ok [OF assms(1)] this assms(3,2)] assms(4)
  show ?thesis by (simp add: request_head_def)
qed

lemma hdr_add_keeps: "hdr_add al n i v m = Inr m' \<Longrightarrow>
    hq_met m' = hq_met m \<and> hq_path m' = hq_path m \<and> hq_scode m' = hq_scode m \<and> hq_reason m' = hq_reason m"
  by (auto simp: hdr_add_def Let_def split: if_split_asm sum.split_asm)

lemma add_hdrs_keeps: "add_hdrs al hs m = Inr m' \<Longrightarrow>
    hq_met m' = hq_met m \<and> hq_path m' = hq_path m \<and> hq_scode m' = hq_scode m \<and> hq_reason m' = hq_reason m"
  by (induction hs arbitrary: m) (auto split: sum.splits dest: hdr_add_keeps)

section \<open>Responses\<close>

definition response_line_text :: "nat \<Rightarrow> string \<Rightarrow> string" where
  "response_line_text scode reason = ''HTTP/1.1 '' @ itoa_dec scode @ '' '' @ reason"

lemma class_digit: "in_cls False [(48, 57)] c = is_digit c"
  by (auto simp: in_cls_def expr_match_def of_char_tolower Let_def is_digit_def)

lemma class_space: "in_cls False [(32, 32)] c = (c = CHR '' '')"
  by (simp add: in_cls_eval)

lemma class_any: "in_cls True [] c"
  by (simp add: in_cls_def expr_match_def)

lemma parse_response:
  "rx_parse (rx_open rx0) (CHR ''0'' # CHR ''-'' # CHR ''9'' # CHR '']'' # ep) = Some (rx_cls False [(48, 57)], ep)"
  "rx_parse (rx_open rx0) (CHR '' '' # CHR '']'' # ep) = Some (rx_cls False [(32, 32)], ep)"
  "rx_parse (rx_open rx0) (CHR ''^'' # CHR '']'' # ep) = Some (rx_cls True [], ep)"
  by (simp_all add: rx_eval of_char_tolower)

lemma match_response_line:
  assumes "length (response_line_text scode reason) \<le> 4294967295" "reason = [] \<or> hd reason \<noteq> CHR '' ''"
  shows "rx_match rx0 response_expr 0 (response_line_text scode reason) =
    RxOk [(5, 3), (9, length (itoa_dec scode)), (9 + length (itoa_dec scode), 1), (10 + length (itoa_dec scode), length reason)]"
proof -
  have a: "list_all (in_cls False [(48, 57), (46, 46)]) ''1.1''" by (simp add: class_version is_digit_def)
  have b: "list_all (in_cls False [(48, 57)]) (itoa_dec scode)" using itoa_dec_digits by (simp add: class_digit [abs_def])
  have c: "list_all (in_cls False [(32, 32)]) '' ''" by (simp add: class_space)
  have d: "list_all (in_cls True []) reason" by (simp add: class_any list_all_iff)
  have sp: "\<not> in_cls False [(48, 57), (46, 46)] (CHR '' '')" "\<not> in_cls False [(48, 57)] (CHR '' '')"
    by (simp_all add: class_version class_digit is_digit_def)
  have nsp: "reason = [] \<or> \<not> in_cls False [(32, 32)] (hd reason)" using assms(2) by (simp add: class_space)
  note run1 = rx_plus_run [of "''1.1''" "'' '' @ itoa_dec scode @ '' '' @ reason", OF _ a]
  note run2 = rx_plus_run [of "itoa_dec scode" "'' '' @ reason", OF _ b]
  note run3 = rx_star_run [of "'' ''" reason, OF _ c nsp]
  note run4 = rx_star_run [of reason "[]", OF _ d]
  show ?thesis
    using assms(1) run1 run2 run3 run4 sp
    by (simp add: response_expr_def response_line_text_def rx_match_class [OF parse_request(4)] rx_match_class [OF parse_response(1)]
        rx_match_class [OF parse_response(2)] rx_match_class [OF parse_response(3)] rx_lit_same rx_match_end rx_cons_def)
qed

lemma response_line_roundtrip:
  assumes "length (response_line_text scode reason) \<le> 4294967295" "reason = [] \<or> hd reason \<noteq> CHR '' ''"
  shows "response_line (response_line_text scode reason) =
    Inr (hmsg0\<lparr>hq_ver := ''1.1'', hq_reason := reason, hq_scode := word_of_nat scode\<rparr>)"
proof -
  define s where "s = response_line_text scode reason"
  have "s \<noteq> []" by (simp add: s_def response_line_text_def)
  then have "re_regex s response_expr =
    Inr [(5, 3), (9, length (itoa_dec scode)), (9 + length (itoa_dec scode), 1), (10 + length (itoa_dec scode), length reason)]"
    using match_response_line [OF assms, folded s_def] by (cases s) (simp_all add: re_regex_def)
  moreover have "pl_text s (5, 3) = ''1.1''" "pl_text s (9, length (itoa_dec scode)) = itoa_dec scode"
    "pl_text s (10 + length (itoa_dec scode), length reason) = reason"
    by (simp_all add: pl_text_def s_def response_line_text_def numeral_eq_Suc)
  moreover have "ucast (word_of_nat scode :: u32) = (word_of_nat scode :: u16)" by transfer simp
  ultimately show ?thesis by (simp add: response_line_def pl_u32_itoa flip: s_def)
qed

lemma response_line_text_ok: "list_all (\<lambda>c. \<not> is_crlf c) reason \<Longrightarrow> list_all (\<lambda>c. \<not> is_crlf c) (response_line_text scode reason)"
proof -
  have "\<not> is_digit CR" "\<not> is_digit LF" by (simp_all add: is_digit_def)
  then have "list_all (\<lambda>c. \<not> is_crlf c) (itoa_dec scode)"
    using itoa_dec_digits [of scode] unfolding list_all_iff is_crlf_def by blast
  then show "list_all (\<lambda>c. \<not> is_crlf c) reason \<Longrightarrow> ?thesis"
    by (simp add: response_line_text_def) (simp add: is_crlf_def)
qed

section \<open>Header lists\<close>

text \<open>Without a content type, entering the headers cannot fail; the last content length counts.\<close>

definition hdr_of :: "string \<times> string \<Rightarrow> http_hdr" where
  "hdr_of h = \<lparr>hh_name = fst h, hh_val = snd h, hh_id = hdr_hash (fst h)\<rparr>"

definition clen_of :: "(string \<times> string) list \<Rightarrow> u32 \<Rightarrow> u32" where
  "clen_of hs n = foldl (\<lambda>n h. if hdr_hash (fst h) = HTTP_HDR_CONTENT_LENGTH then pl_u32 (snd h) else n) n hs"

lemma add_hdrs_result:
  "list_all (\<lambda>h. hdr_hash (fst h) \<noteq> HTTP_HDR_CONTENT_TYPE) hs \<Longrightarrow>
   add_hdrs (\<lambda>_. True) hs m = Inr (m\<lparr>hq_hdrl := hq_hdrl m @ map hdr_of hs, hq_clen := clen_of hs (hq_clen m)\<rparr>)"
  by (induction hs arbitrary: m) (simp_all add: hdr_add_def hdr_of_def clen_of_def)


section \<open>Header identifiers\<close>

lemma tolower_tolower [simp]: "tolower (tolower c) = tolower c"
  by (simp add: tolower_def Let_def)

lemma foldl_joaat_ci: "map tolower s = map tolower t \<Longrightarrow> foldl joaat_char h s = foldl joaat_char h t"
  by (induction s t arbitrary: h rule: list_induct2') (simp_all add: joaat_char_def)

lemma tolower_iff: "tolower c = CHR ''x'' \<longleftrightarrow> c = CHR ''x'' \<or> c = CHR ''X''" "tolower c = CHR ''-'' \<longleftrightarrow> c = CHR ''-''"
  using of_char_eq_iff [where 'a = nat, of "tolower c" "CHR ''x''"] of_char_eq_iff [where 'a = nat, of c "CHR ''x''"]
    of_char_eq_iff [where 'a = nat, of c "CHR ''X''"] of_char_eq_iff [where 'a = nat, of "tolower c" "CHR ''-''"]
    of_char_eq_iff [where 'a = nat, of c "CHR ''-''"]
  by (auto simp: of_char_tolower Let_def split: if_splits)

lemma hdr_hash_ci: "strcaseeq s t \<Longrightarrow> hdr_hash s = hdr_hash t"
proof -
  assume "strcaseeq s t"
  then have eq: "map tolower s = map tolower t" by (simp add: strcaseeq_def)
  then have len: "length s = length t" by (rule map_eq_imp_length_eq)
  have nth: "tolower (s ! k) = tolower (t ! k)" if "k < length s" for k
    using arg_cong [OF eq, of "\<lambda>l. l ! k"] that len by simp
  have "(s ! 0 = CHR ''x'' \<or> s ! 0 = CHR ''X'') = (t ! 0 = CHR ''x'' \<or> t ! 0 = CHR ''X'')" if "s \<noteq> []"
    using nth [of 0] that tolower_iff(1) [of "s ! 0"] tolower_iff(1) [of "t ! 0"] by simp
  moreover have "(s ! 1 = CHR ''-'') = (t ! 1 = CHR ''-'')" if "1 < length s"
    using nth [OF that] tolower_iff(2) [of "s ! 1"] tolower_iff(2) [of "t ! 1"] by simp
  moreover have "hash_joaat_ci s = hash_joaat_ci t" using foldl_joaat_ci [OF eq] by (simp add: hash_joaat_ci_def)
  ultimately show ?thesis
    using len unfolding hdr_hash_def by (cases "s = []"; cases "t = []") (auto simp: hd_conv_nth)
qed

lemmas hash_eval = hdr_hash_def hash_joaat_ci_def joaat_char_def tolower_def Let_def http_hdrids_def

text \<open>The table is evaluated in parts.\<close>

lemma hdrids_hash_a: "list_all (\<lambda>(name, i). hdr_hash name = i) (take 9 (drop 0 http_hdrids))"
  by (simp add: hash_eval)

lemma hdrids_hash_b: "list_all (\<lambda>(name, i). hdr_hash name = i) (take 9 (drop 9 http_hdrids))"
  by (simp add: hash_eval)

lemma hdrids_hash_c: "list_all (\<lambda>(name, i). hdr_hash name = i) (take 9 (drop 18 http_hdrids))"
  by (simp add: hash_eval)

lemma hdrids_hash_d: "list_all (\<lambda>(name, i). hdr_hash name = i) (take 9 (drop 27 http_hdrids))"
  by (simp add: hash_eval)

lemma hdrids_hash_e: "list_all (\<lambda>(name, i). hdr_hash name = i) (take 9 (drop 36 http_hdrids))"
  by (simp add: hash_eval)

lemma hdrids_hash_f: "list_all (\<lambda>(name, i). hdr_hash name = i) (take 9 (drop 45 http_hdrids))"
  by (simp add: hash_eval)

lemma hdrids_split:
  "http_hdrids = take 9 (drop 0 http_hdrids) @ take 9 (drop 9 http_hdrids) @ take 9 (drop 18 http_hdrids)
     @ take 9 (drop 27 http_hdrids) @ take 9 (drop 36 http_hdrids) @ take 9 (drop 45 http_hdrids)"
  by (simp add: http_hdrids_def)

lemma hdrids_hash: "list_all (\<lambda>(name, i). hdr_hash name = i) http_hdrids"
  by (subst hdrids_split) (simp only: list_all_append hdrids_hash_a hdrids_hash_b hdrids_hash_c hdrids_hash_d hdrids_hash_e hdrids_hash_f simp_thms)

lemma hdrids_distinct: "distinct (map snd http_hdrids)"
  by (simp add: http_hdrids_def)

text \<open>
  The enumerators of \<open>re_http.h\<close> are a perfect hash of the header names: each is the hash that \<open>hdr_hash\<close> computes for its name,
  in any capitalisation, and it names no other header of the list.
\<close>

lemma hdrids_perfect:
  assumes "(name, i) \<in> set http_hdrids" "strcaseeq s name"
  shows "hdr_hash s = i \<and> map_of (map prod.swap http_hdrids) (hdr_hash s) = Some name"
proof -
  have "hdr_hash s = i" using assms hdr_hash_ci hdrids_hash by (fastforce simp: list_all_iff)
  moreover have "distinct (map fst (map prod.swap http_hdrids))" using hdrids_distinct by (simp add: comp_def)
  moreover have "(i, name) \<in> set (map prod.swap http_hdrids)" using assms(1) by force
  ultimately show ?thesis by simp
qed

lemma hdrids_perfect_witness:
  "hdr_hash ''content-LENGTH'' = 3861 \<and> map_of (map prod.swap http_hdrids) (hdr_hash ''content-LENGTH'') = Some ''Content-Length''"
  by (rule hdrids_perfect) (simp add: http_hdrids_def, code_simp)

text \<open>A header of the list is found under its id, and counted there, whatever the capitalisation in the request.\<close>

lemma hdr_lookup:
  assumes "hq_hdrl m = map hdr_of hs" "(n, v) \<in> set hs" "distinct (map (hdr_hash \<circ> fst) hs)"
  shows "http_msg_hdr m (hdr_hash n) = Some (hdr_of (n, v))"
proof -
  have "find (\<lambda>hdr. hh_id hdr = hdr_hash n) (map hdr_of hs) = Some (hdr_of (n, v))"
    using assms(2,3) by (induction hs) (force simp: hdr_of_def)+
  then show ?thesis using assms(1) by (simp add: http_msg_hdr_def http_msg_hdr_apply_def)
qed

lemma hdr_count_filter: "http_msg_hdr_count m i = word_of_nat (length (filter (\<lambda>hdr. hh_id hdr = i) (hq_hdrl m)))"
proof -
  have "foldl (\<lambda>n hdr. if hh_id hdr = i then n + 1 else n) a l = a + word_of_nat (length (filter (\<lambda>hdr. hh_id hdr = i) l))"
    for l :: "http_hdr list" and a :: u32 by (induction l arbitrary: a) simp_all
  then show ?thesis by (simp add: http_msg_hdr_count_def)
qed

lemma hdr_has_value_iff:
  "http_msg_hdr_has_value m i v \<longleftrightarrow> list_ex (\<lambda>hdr. hh_id hdr = i \<and> strcaseeq (hh_val hdr) v) (hq_hdrl m)"
  by (auto simp: http_msg_hdr_has_value_def http_msg_hdr_apply_def find_None_iff list_ex_iff)

text \<open>Other names are not kept apart: this one is taken for a content length.\<close>

lemma hdrid_collision: "hdr_hash ''khd'' = HTTP_HDR_CONTENT_LENGTH"
  by (simp add: hash_eval)

text \<open>The start line is searched for and not required at the beginning: text before a lone carriage return is skipped.\<close>

lemma garbage_skipped:
  "http_msg_decode (\<lambda>_. True) True (''GARBAGE'' @ [CR] @ ''GET / HTTP/1.1'' @ [LF, LF])
   = Inr (hmsg0\<lparr>hq_met := ''GET'', hq_path := ''/'', hq_prm := [], hq_ver := ''1.1''\<rparr>, 24)"
proof -
  have "request_line (request_line_text ''GET'' ''/'' [] ''1.1'')
      = Inr (hmsg0\<lparr>hq_met := ''GET'', hq_path := ''/'', hq_prm := [], hq_ver := ''1.1''\<rparr>)"
    by (rule request_line_roundtrip)
      (simp_all add: request_line_ok_def request_line_text_def is_alpha_def of_char_tolower is_digit_def is_crlf_def)
  then show ?thesis
    by (simp add: http_msg_decode_def re_regex_def rx_match_start_line line_here_def line_rest_def line_caps_def is_crlf_def
        pl_text_def request_line_text_def hparse0_def hp_char_def)
qed

lemma host_id: "hdr_hash ''Host'' = 3191" "hdr_hash ''Content-Length'' = HTTP_HDR_CONTENT_LENGTH" "hdr_hash ''Connection'' = 865"
  using hdrids_hash by (simp_all add: http_hdrids_def)

lemma example_request:
  "request_line_ok ''POST'' ''/api/doorbell'' [] ''1.1''"
  "list_all hdr_ok [(''Host'', ''door''), (''Content-Length'', ''2'')]"
  "list_all (\<lambda>h. hdr_hash (fst h) \<noteq> HTTP_HDR_CONTENT_TYPE) [(''Host'', ''door''), (''Content-Length'', ''2'')]"
  "clen_of [(''Host'', ''door''), (''Content-Length'', ''2'')] 0 = 2"
  by (simp_all add: request_line_ok_def is_alpha_def of_char_tolower is_digit_def is_crlf_def is_blank_def hdr_ok_def host_id
      hdr_comma_separated_def clen_of_def pl_u32_def)


end
