(* ===== verification/Http_Conn.thy ===== *)
theory Http_Conn
  imports Http_Server Http_Roundtrip
begin

text \<open>
  The connections of the library's HTTP server (\<open>re-4.6.0/src/http/server.c\<close>): bytes that arrive are collected until a request
  and its body are complete, then the request handler is called; the connection ends with an error, with
  the peer, with its timer, or when the handler closes it. The handler of this program (\<open>http_server.c\<close>) always
  closes it, so a connection serves one request.

  A connection is known by the number of its TCP connection. TLS is not configured. \<open>al k i\<close> tells whether the \<open>i\<close>-th
  allocation of the \<open>k\<close>-th step of a call succeeds; step \<open>0\<close> is the appending of the new bytes.
\<close>

section \<open>Connections\<close>

abbreviation TIMEOUT_IDLE :: u32 where "TIMEOUT_IDLE \<equiv> 600000"
abbreviation TIMEOUT_INIT :: u32 where "TIMEOUT_INIT \<equiv> 10000"
abbreviation BUFSIZE_MAX :: int where "BUFSIZE_MAX \<equiv> 1048576"

text \<open>\<open>hc_timeout\<close> is the delay with which the timer was started last, whose handler closes the connection.\<close>

record http_conn =
  hc_tc :: nat
  hc_mb :: "string option"
  hc_timeout :: u32

record http_sock =
  hs_connl :: "http_conn list"
  hs_max_body_size :: int

text \<open>
  A request handler gets the message, its body and the bytes that follow the body in the same buffer, and
  tells whether the connection is still open.
\<close>

type_synonym 'w http_req_h = "nat \<Rightarrow> hmsg \<Rightarrow> string \<Rightarrow> string \<Rightarrow> 'w \<Rightarrow> bool \<times> 'w"

definition conn_close :: "http_conn \<Rightarrow> 'a devices_scheme \<Rightarrow> http_conn option \<times> 'a devices_scheme" where
  "conn_close conn w = (None, emit (TcpClosed (hc_tc conn)) w)"

lemma decode_consumes: "http_msg_decode al req t = Inr (m, q) \<Longrightarrow> 0 < q"
  by (auto simp: http_msg_decode_def Let_def split: sum.splits list.splits if_splits dest: hp_loop_bound)

function recv_loop ::
  "('a devices_scheme) http_req_h \<Rightarrow> (nat \<Rightarrow> nat \<Rightarrow> bool) \<Rightarrow> http_conn \<Rightarrow> 'a devices_scheme
     \<Rightarrow> http_conn option \<times> 'a devices_scheme" where
  "recv_loop reqh al conn w =
     (case hc_mb conn of
        None \<Rightarrow> (Some conn, w)
      | Some buf \<Rightarrow>
          (case http_msg_decode (al 0) True buf of
             Inl e \<Rightarrow> if e = ENODATA then (Some conn, w) else conn_close conn w
           | Inr (msg, pos) \<Rightarrow>
               (let clen = unat (hq_clen msg); body = take clen (drop pos buf); rest = drop (pos + clen) buf
                in if length buf - pos < clen then (Some conn, w)
                   else if rest \<noteq> [] \<and> \<not> al 0 (2 + length (hq_hdrl msg)) then conn_close conn w
                   else (case reqh (hc_tc conn) msg body rest w of
                           (False, w') \<Rightarrow> (None, w')
                         | (True, w') \<Rightarrow>
                             recv_loop reqh (\<lambda>k. al (Suc k))
                               (conn\<lparr>hc_mb := (if rest = [] then None else Some rest), hc_timeout := TIMEOUT_IDLE\<rparr>) w'))))"
  by pat_completeness auto
termination
  by (relation "measure (\<lambda>(reqh, al, conn, w). case hc_mb conn of None \<Rightarrow> 0 | Some buf \<Rightarrow> Suc (length buf))")
    (auto dest: decode_consumes split: option.splits)

declare recv_loop.simps [simp del]

text \<open>The first bytes of a message are taken as they are; only what is added to them is limited.\<close>

definition conn_recv ::
  "('a devices_scheme) http_req_h \<Rightarrow> (nat \<Rightarrow> nat \<Rightarrow> bool) \<Rightarrow> int \<Rightarrow> string \<Rightarrow> http_conn \<Rightarrow> 'a devices_scheme
     \<Rightarrow> http_conn option \<times> 'a devices_scheme" where
  "conn_recv reqh al max_body_size data conn w =
     (case hc_mb conn of
        None \<Rightarrow> recv_loop reqh (\<lambda>k. al (Suc k)) (conn\<lparr>hc_mb := Some data\<rparr>) w
      | Some buf \<Rightarrow>
          if int (length buf + length data) > max_body_size then conn_close conn w
          else if \<not> al 0 0 then conn_close conn w
          else recv_loop reqh (\<lambda>k. al (Suc k)) (conn\<lparr>hc_mb := Some (buf @ data)\<rparr>) w)"

section \<open>The socket\<close>

definition sock_find :: "http_sock \<Rightarrow> nat \<Rightarrow> http_conn option" where
  "sock_find sock c = find (\<lambda>conn. hc_tc conn = c) (hs_connl sock)"

definition sock_put :: "nat \<Rightarrow> http_conn option \<Rightarrow> http_sock \<Rightarrow> http_sock" where
  "sock_put c r sock =
     sock\<lparr>hs_connl := (case r of None \<Rightarrow> filter (\<lambda>conn. hc_tc conn \<noteq> c) (hs_connl sock)
                               | Some conn' \<Rightarrow> map (\<lambda>conn. if hc_tc conn = c then conn' else conn) (hs_connl sock))\<rparr>"

text \<open>The handlers are not called any more when the connection is gone.\<close>

definition http_recv_handler ::
  "('a devices_scheme) http_req_h \<Rightarrow> (nat \<Rightarrow> nat \<Rightarrow> bool) \<Rightarrow> nat \<Rightarrow> string \<Rightarrow> http_sock \<times> 'a devices_scheme
     \<Rightarrow> http_sock \<times> 'a devices_scheme" where
  "http_recv_handler reqh al c data sw =
     (case sock_find (fst sw) c of
        None \<Rightarrow> sw
      | Some conn \<Rightarrow>
          (case conn_recv reqh al (hs_max_body_size (fst sw)) data conn (snd sw) of (r, w) \<Rightarrow> (sock_put c r (fst sw), w)))"

definition http_close_handler :: "nat \<Rightarrow> http_sock \<times> 'a devices_scheme \<Rightarrow> http_sock \<times> 'a devices_scheme" where
  "http_close_handler c sw =
     (case sock_find (fst sw) c of
        None \<Rightarrow> sw
      | Some conn \<Rightarrow> (case conn_close conn (snd sw) of (r, w) \<Rightarrow> (sock_put c r (fst sw), w)))"

definition http_timeout_handler :: "nat \<Rightarrow> http_sock \<times> 'a devices_scheme \<Rightarrow> http_sock \<times> 'a devices_scheme" where
  "http_timeout_handler c sw =
     (case sock_find (fst sw) c of
        None \<Rightarrow> sw
      | Some conn \<Rightarrow> (case conn_close conn (snd sw) of (r, w) \<Rightarrow> (sock_put c r (fst sw), w)))"

text \<open>A new connection \<open>c\<close>: \<open>alloc\<close> and \<open>accepted\<close> are the results of the allocation and of \<open>tcp_accept\<close>.\<close>

definition http_connect_handler :: "bool \<Rightarrow> bool \<Rightarrow> nat \<Rightarrow> http_sock \<Rightarrow> http_sock" where
  "http_connect_handler alloc accepted c sock =
     (if \<not> alloc \<or> \<not> accepted then sock
      else sock\<lparr>hs_connl := hs_connl sock @ [\<lparr>hc_tc = c, hc_mb = None, hc_timeout = TIMEOUT_INIT\<rparr>]\<rparr>)"

definition http_listen :: "bool \<Rightarrow> errno option \<Rightarrow> errno + http_sock" where
  "http_listen alloc listen_err =
     (if \<not> alloc then Inl ENOMEM
      else case listen_err of Some e \<Rightarrow> Inl e | None \<Rightarrow> Inr \<lparr>hs_connl = [], hs_max_body_size = BUFSIZE_MAX\<rparr>)"

definition http_set_max_body_size :: "int \<Rightarrow> http_sock \<Rightarrow> http_sock" where
  "http_set_max_body_size limit sock = sock\<lparr>hs_max_body_size := limit\<rparr>"

definition http_conn_reset_timeout :: "http_conn \<Rightarrow> http_conn" where
  "http_conn_reset_timeout conn = conn\<lparr>hc_timeout := TIMEOUT_IDLE\<rparr>"

definition http_sock_destructor :: "http_sock \<Rightarrow> 'a devices_scheme \<Rightarrow> 'a devices_scheme" where
  "http_sock_destructor sock w = fold (\<lambda>conn w. snd (conn_close conn w)) (hs_connl sock) w"

section \<open>The handler of the program\<close>

text \<open>
  \<open>http_req_handler\<close> reads the method, the path and the body, and ends with \<open>http_conn_close\<close>. \<open>slack\<close> is the memory behind
  the bytes of the buffer.
\<close>

definition reqh_view :: "string \<Rightarrow> hmsg \<Rightarrow> string \<Rightarrow> string \<Rightarrow> http_msg" where
  "reqh_view slack msg body rest = \<lparr>hm_met = hq_met msg, hm_path = hq_path msg, hm_body = body, hm_tail = rest @ slack\<rparr>"

definition intercom_reqh :: "env \<Rightarrow> string \<Rightarrow> ('a intercom_world_scheme) http_req_h" where
  "intercom_reqh env slack c msg body rest w = (False, http_req_handler env c (reqh_view slack msg body rest) w)"

section \<open>Incomplete requests\<close>

definition incomplete :: "string \<Rightarrow> bool" where
  "incomplete buf \<longleftrightarrow>
     (case http_msg_decode (\<lambda>_. True) True buf of
        Inl e \<Rightarrow> e = ENODATA
      | Inr (msg, pos) \<Rightarrow> length buf - pos < unat (hq_clen msg))"

lemma recv_loop_waits:
  "hc_mb conn = Some buf \<Longrightarrow> incomplete buf \<Longrightarrow> recv_loop reqh (\<lambda>_ _. True) conn w = (Some conn, w)"
  by (subst recv_loop.simps) (auto simp: incomplete_def Let_def split: sum.splits prod.splits)

text \<open>
  A buffer that ends before the end of the only request in the stream waits, provided that the line feed of its start
  line is not later than \<open>STARTLINE_MAX\<close>.
\<close>

lemma prefix_incomplete:
  assumes "http_msg_decode (\<lambda>_. True) True (t @ u) = Inr (m, q)" "length (t @ u) = q + unat (hq_clen m)" "u \<noteq> []"
    "length (t @ u) \<le> 4294967295" "has_line t \<or> length t \<le> STARTLINE_MAX"
  shows "incomplete t"
proof (cases "has_line t")
  case True
  show ?thesis
  proof (cases "http_msg_decode (\<lambda>_. True) True t = Inl ENODATA")
    case False
    then have "http_msg_decode (\<lambda>_. True) True t = Inr (m, q)" using decode_stable [OF True assms(4)] assms(1) by metis
    moreover from this have "q \<le> length t" using decode_bound assms(4) by fastforce
    moreover have "0 < length u" using assms(3) by simp
    ultimately have "length t - q < unat (hq_clen m)" using assms(2) [unfolded length_append] by linarith
    then show ?thesis using \<open>http_msg_decode (\<lambda>_. True) True t = Inr (m, q)\<close> by (simp add: incomplete_def)
  qed (simp add: incomplete_def)
next
  case False
  then show ?thesis using decode_no_line [OF False, of "\<lambda>_. True" True] assms(4,5) by (simp add: incomplete_def)
qed

lemma line_in_prefix: "has_line (take n (a @ b)) \<Longrightarrow> n \<le> length a \<Longrightarrow> has_line a"
  using has_line_append [of "take n a" "drop n a"] by simp

lemma sock_put_max [simp]: "hs_max_body_size (sock_put c r sock) = hs_max_body_size sock"
  by (simp add: sock_put_def)

lemma sock_find_put:
  assumes "sock_find sock c = Some conn" "hc_tc conn' = c"
  shows "sock_find (sock_put c (Some conn') sock) c = Some conn'"
proof -
  have "find (\<lambda>x. hc_tc x = c) l = Some conn \<Longrightarrow>
    find (\<lambda>x. hc_tc x = c) (map (\<lambda>x. if hc_tc x = c then conn' else x) l) = Some conn'" for l
    using assms(2) by (induction l) (auto split: if_splits)
  then show ?thesis using assms(1) by (simp add: sock_find_def sock_put_def)
qed

lemma sock_put_put: "hc_tc conn' = c \<Longrightarrow> sock_put c None (sock_put c (Some conn') sock) = sock_put c None sock"
proof -
  have "filter (\<lambda>x. hc_tc x \<noteq> c) (map (\<lambda>x. if hc_tc x = c then conn' else x) l) = filter (\<lambda>x. hc_tc x \<noteq> c) l"
    if "hc_tc conn' = c" for l using that by (induction l) auto
  then show "hc_tc conn' = c \<Longrightarrow> sock_put c None (sock_put c (Some conn') sock) = sock_put c None sock" by (simp add: sock_put_def)
qed

section \<open>A server whose handler closes\<close>

locale closing_handler =
  fixes reqh :: "('a devices_scheme) http_req_h"
  assumes closes: "\<not> fst (reqh c m b r w)"
begin

lemma recv_loop_serves:
  assumes "hc_mb conn = Some buf" "http_msg_decode (\<lambda>_. True) True buf = Inr (m, q)" "length buf = q + unat (hq_clen m)"
  shows "recv_loop reqh (\<lambda>_ _. True) conn w = (None, snd (reqh (hc_tc conn) m (drop q buf) [] w))"
  using assms closes [of "hc_tc conn" m "drop q buf" "[]" w]
  by (subst recv_loop.simps) (auto simp: Let_def split: prod.split bool.split)

lemma conn_recv_serves:
  assumes "conn = \<lparr>hc_tc = c, hc_mb = (if t = [] then None else Some t), hc_timeout = d\<rparr>"
    "http_msg_decode (\<lambda>_. True) True (t @ x) = Inr (m, q)" "length (t @ x) = q + unat (hq_clen m)" "int (length (t @ x)) \<le> n"
  shows "conn_recv reqh (\<lambda>_ _. True) n x conn w = (None, snd (reqh c m (drop q (t @ x)) [] w))"
  using assms recv_loop_serves [of "conn\<lparr>hc_mb := Some (t @ x)\<rparr>" "t @ x" m q w] by (cases "t = []") (simp_all add: conn_recv_def)

text \<open>However the stream is cut, the handler sees the request once, and complete.\<close>

lemma stream_served:
  assumes "http_msg_decode (\<lambda>_. True) True S = Inr (m, q)" "length S = q + unat (hq_clen m)"
    "has_line (take STARTLINE_MAX S)" "int (length S) \<le> hs_max_body_size sock" "length S \<le> 4294967295"
    "sock_find sock c = Some \<lparr>hc_tc = c, hc_mb = (if t = [] then None else Some t), hc_timeout = d\<rparr>"
    "t @ concat xs = S" "concat xs \<noteq> []" "list_all (\<lambda>x. x \<noteq> []) xs"
  shows "fold (http_recv_handler reqh (\<lambda>_ _. True) c) xs (sock, w) = (sock_put c None sock, snd (reqh c m (drop q S) [] w))"
  using assms(4,6-9)
proof (induction xs arbitrary: sock t)
  case (Cons x xs)
  let ?conn = "\<lparr>hc_tc = c, hc_mb = (if t = [] then None else Some t), hc_timeout = d\<rparr>"
  show ?case
  proof (cases "xs = []")
    case True
    then have "conn_recv reqh (\<lambda>_ _. True) (hs_max_body_size sock) x ?conn w = (None, snd (reqh c m (drop q S) [] w))"
      using conn_recv_serves [OF refl, of t x m q "hs_max_body_size sock" c d w] assms(1,2) Cons.prems(1,3)
      unfolding True concat.simps append_Nil2 by metis
    then show ?thesis using True Cons.prems(2) by (simp add: http_recv_handler_def)
  next
    case False
    then have ne: "concat xs \<noteq> []" using Cons.prems(5) by (cases xs) auto
    have S: "(t @ x) @ concat xs = S" using Cons.prems(3) by simp
    have line: "has_line (t @ x) \<or> length (t @ x) \<le> STARTLINE_MAX"
      using assms(3) line_in_prefix [of STARTLINE_MAX "t @ x" "concat xs"] unfolding S [symmetric] by linarith
    have "incomplete (t @ x)" using prefix_incomplete [of "t @ x" "concat xs" m q] assms(1,2,5) ne line unfolding S by blast
    moreover have "x \<noteq> []" "int (length (t @ x)) \<le> hs_max_body_size sock"
      using Cons.prems(1,5) unfolding S [symmetric] by auto
    ultimately have "conn_recv reqh (\<lambda>_ _. True) (hs_max_body_size sock) x ?conn w = (Some (?conn\<lparr>hc_mb := Some (t @ x)\<rparr>), w)"
      using recv_loop_waits [of "?conn\<lparr>hc_mb := Some (t @ x)\<rparr>" "t @ x" reqh w] by (auto simp: conn_recv_def)
    then have step: "http_recv_handler reqh (\<lambda>_ _. True) c x (sock, w) = (sock_put c (Some (?conn\<lparr>hc_mb := Some (t @ x)\<rparr>)) sock, w)"
      using Cons.prems(2) by (simp add: http_recv_handler_def)
    let ?sock = "sock_put c (Some (?conn\<lparr>hc_mb := Some (t @ x)\<rparr>)) sock"
    have "sock_find ?sock c = Some \<lparr>hc_tc = c, hc_mb = (if t @ x = [] then None else Some (t @ x)), hc_timeout = d\<rparr>"
      using Cons.prems(2) \<open>x \<noteq> []\<close> sock_find_put by simp
    then have "fold (http_recv_handler reqh (\<lambda>_ _. True) c) xs (?sock, w) = (sock_put c None ?sock, snd (reqh c m (drop q S) [] w))"
      using Cons.IH [of ?sock "t @ x"] Cons.prems(1,5) ne S by (simp add: sock_put_max)
    then show ?thesis using step by (simp add: sock_put_put)
  qed
qed simp

end

interpretation intercom: closing_handler "intercom_reqh env slack :: ('a intercom_world_scheme) http_req_h" for env slack
  by unfold_locales (simp add: intercom_reqh_def)

lemma request_head_line:
  assumes "request_line_ok met path prm ver" "length (request_line_text met path prm ver) + 2 \<le> STARTLINE_MAX"
  shows "has_line (take STARTLINE_MAX (request_head met path prm ver hs @ body))"
proof -
  let ?l = "request_line_text met path prm ver"
  obtain r where r: "take STARTLINE_MAX (request_head met path prm ver hs @ body) = ?l @ crlf @ r"
    using assms(2) by (simp add: request_head_def take_Cons')
  have "dropWhile is_crlf (?l @ crlf @ r) = ?l @ crlf @ r"
    using request_line_text_ok [OF assms(1)] by (cases ?l) simp_all
  then show ?thesis unfolding r by (simp add: has_line_def)
qed

text \<open>
  C9: The program answers a request on a connection exactly once, however TCP cuts it into pieces: when the pieces of a well-formed
  request and of a body of the announced length have arrived, the request handler has been called with its method, its path
  and its whole body, nothing else has happened to the program, and the connection is gone.
\<close>

theorem http_request_served:
  fixes w :: "'a intercom_world_scheme"
  assumes "request_line_ok met path prm ver" "list_all hdr_ok hs"
    "add_hdrs (\<lambda>_. True) hs (hmsg0\<lparr>hq_met := met, hq_path := path, hq_prm := prm, hq_ver := ver\<rparr>) = Inr m"
    "unat (hq_clen m) = length body"
    "length (request_line_text met path prm ver) + 2 \<le> STARTLINE_MAX"
    "hs_max_body_size sock = BUFSIZE_MAX" "length (request_head met path prm ver hs @ body) \<le> 1048576"
    "sock_find sock c = Some \<lparr>hc_tc = c, hc_mb = None, hc_timeout = TIMEOUT_INIT\<rparr>"
    "concat pieces = request_head met path prm ver hs @ body" "list_all (\<lambda>x. x \<noteq> []) pieces"
  shows "fold (http_recv_handler (intercom_reqh env slack) (\<lambda>_ _. True) c) pieces (sock, w) =
    (sock_put c None sock, http_req_handler env c \<lparr>hm_met = met, hm_path = path, hm_body = body, hm_tail = slack\<rparr> w)"
proof -
  define S where "S = request_head met path prm ver hs @ body"
  have d: "http_msg_decode (\<lambda>_. True) True S = Inr (m, length (request_head met path prm ver hs))"
    unfolding S_def using request_decoded [OF assms(1-3)] assms(7) by simp
  have m: "hq_met m = met" "hq_path m = path" using add_hdrs_keeps [OF assms(3)] by simp_all
  have len: "length S = length (request_head met path prm ver hs) + unat (hq_clen m)" using assms(4) by (simp add: S_def)
  have "concat pieces \<noteq> []" using assms(9) by (simp add: request_head_def)
  then have "fold (http_recv_handler (intercom_reqh env slack) (\<lambda>_ _. True) c) pieces (sock, w) =
    (sock_put c None sock, snd (intercom_reqh env slack c m (drop (length (request_head met path prm ver hs)) S) [] w))"
    using assms(6,7,8,9,10) request_head_line [OF assms(1,5), of hs body]
    by (intro intercom.stream_served [OF d len, where t = "[]" and d = TIMEOUT_INIT]) (simp_all add: S_def)
  then show ?thesis by (simp add: intercom_reqh_def reqh_view_def m S_def)
qed

definition example_pieces :: "string list" where
  "example_pieces =
     [''POST /api/doo'', ''rbell HTTP/1.1'' @ [CR], [LF] @ ''Host: door'' @ crlf @ ''Content-Len'', ''gth: 2'' @ crlf @ [CR], [LF, CHR ''{''], ''}'']"

theorem http_request_served_witness:
  "fold (http_recv_handler (intercom_reqh good_env []) (\<lambda>_ _. True) 3) example_pieces
     (\<lparr>hs_connl = [\<lparr>hc_tc = 3, hc_mb = None, hc_timeout = TIMEOUT_INIT\<rparr>], hs_max_body_size = BUFSIZE_MAX\<rparr>, intercom_zero)
   = (\<lparr>hs_connl = [], hs_max_body_size = BUFSIZE_MAX\<rparr>,
      http_req_handler good_env 3 \<lparr>hm_met = ''POST'', hm_path = ''/api/doorbell'', hm_body = ''{}'', hm_tail = []\<rparr> intercom_zero)"
proof -
  let ?sock = "\<lparr>hs_connl = [\<lparr>hc_tc = 3, hc_mb = None, hc_timeout = TIMEOUT_INIT\<rparr>], hs_max_body_size = BUFSIZE_MAX\<rparr>"
  let ?m = "hmsg0\<lparr>hq_met := ''POST'', hq_path := ''/api/doorbell'', hq_prm := [], hq_ver := ''1.1''\<rparr>"
  have "fold (http_recv_handler (intercom_reqh good_env []) (\<lambda>_ _. True) 3) example_pieces (?sock, intercom_zero)
    = (sock_put 3 None ?sock,
       http_req_handler good_env 3 \<lparr>hm_met = ''POST'', hm_path = ''/api/doorbell'', hm_body = ''{}'', hm_tail = []\<rparr> intercom_zero)"
    by (rule http_request_served [OF example_request(1,2) add_hdrs_result [OF example_request(3)]])
      (simp_all add: hmsg0_def example_request(4) [simplified] sock_find_def example_pieces_def request_line_text_def
        request_head_def hdr_line_def)
  then show ?thesis by (simp add: sock_put_def)
qed

section \<open>Replies\<close>

text \<open>
  C26: What the server sends is an HTTP response: when memory and connection do not fail, a reply goes out as one piece, and the
  library's own parser reads from it the status code and the reason that the handler gave, and its headers as they were
  written; the content begins where the header ends.
\<close>

theorem reply_readable:
  assumes "en_alloc env (dv_tick w)" "en_tcp_send env (dv_tick w + 1) = None" "0 < scode" "scode < 65536"
    "list_all (\<lambda>c. \<not> is_crlf c) reason" "reason = [] \<or> hd reason \<noteq> CHR '' ''" "list_all hdr_ok hs"
    "add_hdrs (\<lambda>_. True) hs (hmsg0\<lparr>hq_ver := ''1.1'', hq_reason := reason, hq_scode := word_of_nat scode\<rparr>) = Inr m"
    "length (response_line_text scode reason @ crlf @ concat (map hdr_line hs) @ crlf @ content) \<le> 4294967295"
  shows "\<exists>bs. dv_sent (snd (http_reply env (Some c) scode reason
             (Some (text_bytes (concat (map hdr_line hs) @ crlf @ content))) w)) = dv_sent w @ [TcpSend c bs]
    \<and> http_msg_decode (\<lambda>_. True) False (bytes_text bs) = Inr (m, length bs - length content)
    \<and> unat (hq_scode m) = scode \<and> hq_reason m = reason"
proof -
  let ?l = "response_line_text scode reason"
  define t where "t = ?l @ crlf @ concat (map hdr_line hs) @ crlf @ content"
  have "dv_sent (snd (http_reply env (Some c) scode reason (Some (text_bytes (concat (map hdr_line hs) @ crlf @ content))) w))
    = dv_sent w @ [TcpSend c (text_bytes t)]"
    using assms(1-3) by (simp add: http_reply_def dev_tcp_send_def emit_def tick_def response_line_text_def t_def flip: text_bytes_append)
  moreover have "http_msg_decode (\<lambda>_. True) False t = Inr (m, length (?l @ crlf @ concat (map hdr_line hs) @ crlf))"
    unfolding t_def
  proof (rule message_decoded)
    have "length ?l \<le> 4294967295" using assms(9) by simp
    then show "(if False then request_line ?l else response_line ?l)
        = Inr (hmsg0\<lparr>hq_ver := ''1.1'', hq_reason := reason, hq_scode := word_of_nat scode\<rparr>)"
      using response_line_roundtrip assms(6) by simp
    show "list_all (\<lambda>c. \<not> is_crlf c) ?l" using assms(5) by (rule response_line_text_ok)
  qed (use assms in \<open>simp_all add: response_line_text_def\<close>)
  moreover have "hq_scode m = word_of_nat scode" "hq_reason m = reason" using add_hdrs_keeps [OF assms(8)] by simp_all
  moreover have "unat (word_of_nat scode :: u16) = scode" using assms(4) by (simp add: unat_of_nat)
  moreover have "length (?l @ crlf @ concat (map hdr_line hs) @ crlf) = length (text_bytes t) - length content" by (simp add: t_def)
  ultimately show ?thesis by (intro exI [of _ "text_bytes t"]) simp
qed

definition example_reply :: hmsg where
  "example_reply = hmsg0\<lparr>hq_ver := ''1.1'', hq_reason := ''Not Found'', hq_scode := 404, hq_hdrl := [hdr_of (''Connection'', ''close'')]\<rparr>"

theorem reply_readable_witness:
  "\<exists>bs. dv_sent (snd (http_reply good_env (Some 3) 404 ''Not Found''
             (Some (text_bytes (concat (map hdr_line [(''Connection'', ''close'')]) @ crlf @ ''gone''))) intercom_zero)) = dv_sent intercom_zero @ [TcpSend 3 bs]
    \<and> http_msg_decode (\<lambda>_. True) False (bytes_text bs) = Inr (example_reply, length bs - length ''gone'')
    \<and> unat (hq_scode example_reply) = 404
    \<and> hq_reason example_reply = ''Not Found''"
proof (rule reply_readable)
  have "list_all (\<lambda>h. hdr_hash (fst h) \<noteq> HTTP_HDR_CONTENT_TYPE) [(''Connection'', ''close'')]" by (simp add: host_id)
  from add_hdrs_result [OF this]
  show "add_hdrs (\<lambda>_. True) [(''Connection'', ''close'')] (hmsg0\<lparr>hq_ver := ''1.1'', hq_reason := ''Not Found'', hq_scode := word_of_nat 404\<rparr>)
    = Inr example_reply"
    by (simp add: example_reply_def hmsg0_def clen_of_def host_id)
  show "list_all hdr_ok [(''Connection'', ''close'')]" by (simp add: hdr_ok_def is_blank_def is_crlf_def host_id)
  have "length (itoa_dec 404) \<le> 3" by (rule itoa_dec_length) simp_all
  then show "length (response_line_text 404 ''Not Found'' @ crlf @ concat (map hdr_line [(''Connection'', ''close'')]) @ crlf @ ''gone'') \<le> 4294967295"
    by (simp add: response_line_text_def hdr_line_def)
qed (simp_all add: good_env_def is_crlf_def)

section \<open>What a connection may keep\<close>

text \<open>Failing allocations never make the parser wait: they end the call with an error.\<close>

lemma hdr_add_alloc: "hdr_add al n i v m = Inl ENOMEM \<or> hdr_add al n i v m = hdr_add (\<lambda>_. True) n i v m"
  by (simp add: hdr_add_def)

lemma hp_flush_alloc: "hp_flush al t p st = Inl ENOMEM \<or> hp_flush al t p st = hp_flush (\<lambda>_. True) t p st"
  using hdr_add_alloc [of al] by (simp add: hp_flush_def)

lemma hp_char_alloc: "hp_char al t p c st = HFail ENOMEM \<or> hp_char al t p c st = hp_char (\<lambda>_. True) t p c st"
  using hp_flush_alloc [of al t p st] hp_flush_alloc [of al t "Suc p" "st\<lparr>hp_ws := Suc (hp_ws st)\<rparr>"]
  unfolding hp_char_def by auto

lemma hp_loop_alloc: "hp_loop al t p r st = Inl ENOMEM \<or> hp_loop al t p r st = hp_loop (\<lambda>_. True) t p r st"
proof (induction r arbitrary: p st)
  case (Cons c r)
  show ?case
  proof (cases "hp_char al t p c st = HFail ENOMEM")
    case False
    then have "hp_char al t p c st = hp_char (\<lambda>_. True) t p c st" using hp_char_alloc by blast
    then show ?thesis using Cons.IH by (simp split: hstep.split)
  qed simp
qed simp

lemma decode_alloc:
  "http_msg_decode al req t = Inl ENOMEM \<or> http_msg_decode al req t = http_msg_decode (\<lambda>_. True) req t"
  using hp_loop_alloc [of al t] by (auto simp: http_msg_decode_def Let_def split: sum.splits list.splits)

lemma recv_loop_keeps:
  "recv_loop reqh al conn w = (Some conn', w') \<Longrightarrow> (case hc_mb conn of None \<Rightarrow> True | Some buf \<Rightarrow> length buf \<le> n) \<Longrightarrow>
   hc_tc conn' = hc_tc conn \<and> (case hc_mb conn' of None \<Rightarrow> True | Some buf \<Rightarrow> incomplete buf \<and> length buf \<le> n)"
proof (induction reqh al conn w rule: recv_loop.induct)
  case (1 reqh al conn w)
  show ?case
  proof (cases "hc_mb conn")
    case None
    then show ?thesis using "1.prems" by (subst (asm) (1) recv_loop.simps) simp
  next
    case (Some buf)
    note dec = decode_alloc [of "al 0" True buf]
    show ?thesis
    proof (cases "http_msg_decode (al 0) True buf")
      case (Inl e)
      have inc: "incomplete buf" if "e = ENODATA"
      proof -
        have "http_msg_decode (\<lambda>_. True) True buf = Inl ENODATA" using dec Inl that by simp
        then show ?thesis by (simp add: incomplete_def)
      qed
      show ?thesis using "1.prems" Some Inl inc
        by (subst (asm) (1) recv_loop.simps) (auto simp: conn_close_def split: if_splits)
    next
      case (Inr mq)
      obtain m q where mq: "mq = (m, q)" by force
      let ?rest = "drop (q + unat (hq_clen m)) buf"
      have inc: "length buf - q < unat (hq_clen m) \<Longrightarrow> incomplete buf" using dec Inr mq unfolding incomplete_def by fastforce
      let ?conn1 = "conn\<lparr>hc_mb := (if ?rest = [] then None else Some ?rest), hc_timeout := TIMEOUT_IDLE\<rparr>"
      have IH: ?thesis
        if "recv_loop reqh (\<lambda>k. al (Suc k)) ?conn1 w1 = (Some conn', w')"
          "reqh (hc_tc conn) m (take (unat (hq_clen m)) (drop q buf)) ?rest w = (True, w1)"
          "\<not> length buf - q < unat (hq_clen m)" "\<not> (?rest \<noteq> [] \<and> \<not> al 0 (2 + length (hq_hdrl m)))" for w1
      proof -
        have "case hc_mb ?conn1 of None \<Rightarrow> True | Some b \<Rightarrow> length b \<le> n" using "1.prems"(2) Some by auto
        from "1.IH" [OF Some Inr mq [symmetric] refl refl refl that(3,4) that(2) [symmetric] refl that(1) this]
        show ?thesis by simp
      qed
      show ?thesis
        using "1.prems" Some Inr mq inc IH
        by (subst (asm) (1) recv_loop.simps)
          (auto simp: Let_def conn_close_def split: if_split_asm prod.split_asm bool.split_asm)
    qed
  qed
qed

lemma conn_recv_keeps:
  assumes "conn_recv reqh al n x conn w = (Some conn', w')" "int (length x) \<le> n"
  shows "hc_tc conn' = hc_tc conn \<and> (case hc_mb conn' of None \<Rightarrow> True | Some buf \<Rightarrow> incomplete buf \<and> int (length buf) \<le> n)"
proof -
  have "length b \<le> nat n \<longleftrightarrow> int (length b) \<le> n" for b :: string using assms(2) by linarith
  then show ?thesis
    using assms recv_loop_keeps [of reqh "\<lambda>k. al (Suc k)" _ w conn' w' "nat n"]
    by (fastforce simp: conn_recv_def conn_close_def split: option.splits if_splits)
qed

text \<open>
  The life of the socket: it is opened, peers connect, send at most \<open>TCP_RXSZ_DEFAULT\<close> bytes at a time and leave, timers run
  out, allocations may fail, and the rest of the program may do anything in between.
\<close>

inductive http_reach :: "('a devices_scheme) http_req_h \<Rightarrow> http_sock \<Rightarrow> 'a devices_scheme \<Rightarrow> bool" for reqh where
  listen: "http_listen alloc err = Inr sock \<Longrightarrow> http_reach reqh sock w"
| connect: "http_reach reqh sock w \<Longrightarrow> sock_find sock c = None \<Longrightarrow> http_reach reqh (http_connect_handler alloc acc c sock) w"
| recv: "http_reach reqh sock w \<Longrightarrow> length x \<le> 8192 \<Longrightarrow> http_recv_handler reqh al c x (sock, w) = (sock', w') \<Longrightarrow> http_reach reqh sock' w'"
| close: "http_reach reqh sock w \<Longrightarrow> http_close_handler c (sock, w) = (sock', w') \<Longrightarrow> http_reach reqh sock' w'"
| timeout: "http_reach reqh sock w \<Longrightarrow> http_timeout_handler c (sock, w) = (sock', w') \<Longrightarrow> http_reach reqh sock' w'"
| other: "http_reach reqh sock w \<Longrightarrow> http_reach reqh sock w'"

definition conn_ok :: "http_conn \<Rightarrow> bool" where
  "conn_ok conn \<longleftrightarrow> (case hc_mb conn of None \<Rightarrow> True | Some buf \<Rightarrow> incomplete buf \<and> int (length buf) \<le> BUFSIZE_MAX)"

definition sock_inv :: "http_sock \<Rightarrow> bool" where
  "sock_inv sock \<longleftrightarrow> hs_max_body_size sock = BUFSIZE_MAX \<and> distinct (map hc_tc (hs_connl sock)) \<and> list_all conn_ok (hs_connl sock)"

lemma sock_find_None: "sock_find sock c = None \<longleftrightarrow> c \<notin> hc_tc ` set (hs_connl sock)"
  by (auto simp: sock_find_def find_None_iff)

lemma sock_inv_remove: "sock_inv sock \<Longrightarrow> sock_inv (sock_put c None sock)"
  by (auto simp: sock_inv_def sock_put_def list_all_iff distinct_map_filter)

lemma sock_inv_put:
  assumes "sock_inv sock" "hc_tc conn = c" "conn_ok conn"
  shows "sock_inv (sock_put c (Some conn) sock)"
proof -
  have "map hc_tc (map (\<lambda>x. if hc_tc x = c then conn else x) l) = map hc_tc l" for l using assms(2) by (induction l) auto
  then show ?thesis using assms by (auto simp: sock_inv_def sock_put_def list_all_iff simp del: map_map)
qed

lemma recv_handler_inv:
  assumes "sock_inv sock" "length x \<le> 8192" "http_recv_handler reqh al c x (sock, w) = (sock', w')"
  shows "sock_inv sock'"
proof (cases "sock_find sock c")
  case None
  then show ?thesis using assms by (simp add: http_recv_handler_def)
next
  case (Some conn)
  then have c: "hc_tc conn = c" by (auto simp: sock_find_def find_Some_iff)
  obtain r w1 where r: "conn_recv reqh al (hs_max_body_size sock) x conn w = (r, w1)" by force
  then have s: "sock' = sock_put c r sock" using assms(3) Some by (simp add: http_recv_handler_def)
  have n: "hs_max_body_size sock = BUFSIZE_MAX" using assms(1) by (simp add: sock_inv_def)
  show ?thesis
  proof (cases r)
    case None
    then show ?thesis using s assms(1) sock_inv_remove by simp
  next
    case (Some conn')
    then have "hc_tc conn' = c \<and> conn_ok conn'"
      using conn_recv_keeps [of reqh al BUFSIZE_MAX x conn w conn' w1] r n assms(2) c by (simp add: conn_ok_def)
    then show ?thesis using s Some assms(1) sock_inv_put by blast
  qed
qed

lemma reach_inv: "http_reach reqh sock w \<Longrightarrow> sock_inv sock"
proof (induction rule: http_reach.induct)
  case (listen alloc err sock w)
  then show ?case by (auto simp: http_listen_def sock_inv_def split: if_splits option.splits)
next
  case (connect sock w c alloc acc)
  then show ?case by (auto simp: http_connect_handler_def sock_inv_def sock_find_None conn_ok_def)
next
  case (recv sock w x al c sock' w')
  then show ?case using recv_handler_inv by blast
next
  case (close sock w c sock' w')
  then show ?case by (auto simp: http_close_handler_def conn_close_def sock_inv_remove split: option.splits)
next
  case (timeout sock w c sock' w')
  then show ?case by (auto simp: http_timeout_handler_def conn_close_def sock_inv_remove split: option.splits)
qed

text \<open>
  C6: What a connection of the HTTP server keeps is bounded and never holds up a request: in every state that the server can reach, with
  any request handler and any failures, the bytes that wait on a connection are not a complete request, are at most one megabyte,
  and are at most \<open>STARTLINE_MAX\<close> bytes as long as they contain no start line.
\<close>

theorem http_waiting_bytes:
  assumes "http_reach reqh sock w" "conn \<in> set (hs_connl sock)" "hc_mb conn = Some buf"
  shows "incomplete buf \<and> length buf \<le> 1048576 \<and> (has_line buf \<or> length buf \<le> STARTLINE_MAX)"
proof -
  have "conn_ok conn" using reach_inv [OF assms(1)] assms(2) by (simp add: sock_inv_def list_all_iff)
  then have ok: "incomplete buf" "length buf \<le> 1048576" using assms(3) by (simp_all add: conn_ok_def)
  moreover have "has_line buf \<or> length buf \<le> STARTLINE_MAX"
    using decode_no_line [of buf "\<lambda>_. True" True] ok by (cases "has_line buf") (simp_all add: incomplete_def split: if_splits)
  ultimately show ?thesis by blast
qed

theorem http_waiting_bytes_witness:
  "incomplete ''GET /'' \<and> length ''GET /'' \<le> 1048576 \<and> (has_line ''GET /'' \<or> length ''GET /'' \<le> STARTLINE_MAX)"
proof (rule http_waiting_bytes)
  let ?sock = "\<lparr>hs_connl = [], hs_max_body_size = BUFSIZE_MAX\<rparr>" and ?reqh = "intercom_reqh good_env []"
  let ?conn = "\<lparr>hc_tc = 3, hc_mb = Some ''GET /'', hc_timeout = TIMEOUT_INIT\<rparr>"
  have "http_reach ?reqh ?sock intercom_zero" by (rule http_reach.listen [of True None]) (simp add: http_listen_def)
  then have "http_reach ?reqh (http_connect_handler True True 3 ?sock) intercom_zero"
    by (rule http_reach.connect) (simp add: sock_find_def)
  moreover have "incomplete ''GET /''"
    using decode_no_line [of "''GET /''" "\<lambda>_. True" True] by (simp add: incomplete_def has_line_def is_crlf_def)
  then have "http_recv_handler ?reqh (\<lambda>_ _. True) 3 ''GET /'' (http_connect_handler True True 3 ?sock, intercom_zero)
    = (\<lparr>hs_connl = [?conn], hs_max_body_size = BUFSIZE_MAX\<rparr>, intercom_zero)"
    using recv_loop_waits [of ?conn "''GET /''" ?reqh intercom_zero]
    by (simp add: http_recv_handler_def http_connect_handler_def sock_find_def conn_recv_def sock_put_def)
  ultimately show "http_reach ?reqh \<lparr>hs_connl = [?conn], hs_max_body_size = BUFSIZE_MAX\<rparr> intercom_zero"
    using http_reach.recv [of ?reqh "http_connect_handler True True 3 ?sock" intercom_zero "''GET /''"] by simp
  show "?conn \<in> set (hs_connl \<lparr>hs_connl = [?conn], hs_max_body_size = BUFSIZE_MAX\<rparr>)" by simp
  show "hc_mb ?conn = Some ''GET /''" by simp
qed

end
