(* ===== verification/Libre_Tcp.thy ===== *)
theory Libre_Tcp
  imports Prelude
begin

text \<open>
  TCP connections of the library (\<open>re-4.6.0/src/tcp/tcp.c\<close>, \<open>tcp_high.c\<close>): the queue of bytes that the kernel did not take at
  once, the events of the socket, and the handlers that they call.

  A connection has no helpers (they belong to TLS) and no send handler; the program registers neither. The
  answers of the kernel, of the allocator and of \<open>fd_listen\<close> during a call are the record \<open>tcp_ans\<close>; a failing \<open>fd_listen\<close> is taken to leave
  the registration as it is. A function returns the bytes that it gave to the kernel, and an event the
  handlers that it calls; each of them is called last.
\<close>

section \<open>State\<close>

datatype send_ans = Sent nat | SendErr errno
datatype recv_ans = RecvEof | RecvErr errno | RecvGot bytes

record tcp_ans =
  ta_send :: send_ans
  ta_recv :: recv_ans
  ta_listen :: "errno option"
  ta_alloc :: bool
  ta_write :: bool
  ta_soerr :: "errno + errno option"

datatype tcp_upcall = UpEstab | UpRecv bytes | UpClose "errno option"

text \<open>
  \<open>tc_fd\<close>: the socket is open. \<open>tc_poll\<close>: whether it is polled for reading and for writing. An entry of \<open>tc_sendq\<close> holds
  the bytes behind its read position.
\<close>

record tcp_conn =
  tc_sendq :: "bytes list"
  tc_fd :: bool
  tc_poll :: "(bool \<times> bool) option"
  tc_rxsz :: nat
  tc_txqsz :: nat
  tc_txqsz_max :: nat
  tc_active :: bool
  tc_connected :: bool

definition tcp_conn0 :: tcp_conn where
  "tcp_conn0 = \<lparr>tc_sendq = [], tc_fd = False, tc_poll = None, tc_rxsz = 8192, tc_txqsz = 0, tc_txqsz_max = 524288,
                tc_active = False, tc_connected = False\<rparr>"

definition tcp_poll :: "tcp_ans \<Rightarrow> bool \<times> bool \<Rightarrow> tcp_conn \<Rightarrow> errno option \<times> tcp_conn" where
  "tcp_poll a flags tc = (case ta_listen a of Some e \<Rightarrow> (Some e, tc) | None \<Rightarrow> (None, tc\<lparr>tc_poll := Some flags\<rparr>))"

section \<open>Sending\<close>

definition tcp_enqueue :: "tcp_ans \<Rightarrow> bytes \<Rightarrow> tcp_conn \<Rightarrow> errno option \<times> tcp_conn" where
  "tcp_enqueue a data tc =
     (if tc_txqsz tc + length data > tc_txqsz_max tc then (Some ENOSPC, tc)
      else (case (if tc_sendq tc = [] then tcp_poll a (True, True) tc else (None, tc)) of
              (Some e, tc1) \<Rightarrow> (Some e, tc1)
            | (None, tc1) \<Rightarrow>
                if \<not> ta_alloc a \<or> \<not> ta_write a then (Some ENOMEM, tc1)
                else (None, tc1\<lparr>tc_sendq := tc_sendq tc1 @ [data], tc_txqsz := tc_txqsz tc1 + length data\<rparr>)))"

text \<open>The kernel takes at most what it is offered.\<close>

definition tcp_dequeue :: "tcp_ans \<Rightarrow> tcp_conn \<Rightarrow> errno option \<times> tcp_conn \<times> bytes" where
  "tcp_dequeue a tc =
     (case tc_sendq tc of
        [] \<Rightarrow> (None, tc, [])
      | q # qs \<Rightarrow>
          (case ta_send a of
             SendErr e \<Rightarrow> (if e = EAGAIN then None else Some e, tc, [])
           | Sent k \<Rightarrow>
               (let n = min k (length q)
                in (None, tc\<lparr>tc_txqsz := tc_txqsz tc - n, tc_sendq := (if n \<ge> length q then qs else drop n q # qs)\<rparr>, take n q))))"

definition tcp_send :: "tcp_ans \<Rightarrow> bytes \<Rightarrow> tcp_conn \<Rightarrow> errno option \<times> tcp_conn \<times> bytes" where
  "tcp_send a data tc =
     (if \<not> tc_fd tc then (Some ENOTCONN, tc, [])
      else if data = [] then (Some EINVAL, tc, [])
      else if tc_sendq tc \<noteq> [] then (case tcp_enqueue a data tc of (e, tc') \<Rightarrow> (e, tc', []))
      else (case ta_send a of
              SendErr e \<Rightarrow>
                if e = EAGAIN then (case tcp_enqueue a data tc of (e', tc') \<Rightarrow> (e', tc', [])) else (Some e, tc, [])
            | Sent k \<Rightarrow>
                (let n = min k (length data)
                 in if n < length data then (case tcp_enqueue a (drop n data) tc of (e, tc') \<Rightarrow> (e, tc', take n data))
                    else (None, tc, data))))"

definition tcp_conn_txqsz_set :: "nat \<Rightarrow> tcp_conn \<Rightarrow> tcp_conn" where
  "tcp_conn_txqsz_set n tc = tc\<lparr>tc_txqsz_max := n\<rparr>"

definition tcp_conn_rxsz_set :: "nat \<Rightarrow> tcp_conn \<Rightarrow> tcp_conn" where
  "tcp_conn_rxsz_set n tc = tc\<lparr>tc_rxsz := n\<rparr>"

definition tcp_sendq_used :: "tcp_conn \<Rightarrow> bool" where
  "tcp_sendq_used tc \<longleftrightarrow> tc_sendq tc \<noteq> []"

section \<open>Events\<close>

definition tcp_conn_close :: "errno option \<Rightarrow> tcp_conn \<Rightarrow> tcp_conn \<times> tcp_upcall list" where
  "tcp_conn_close e tc = (tc\<lparr>tc_sendq := [], tc_txqsz := 0, tc_fd := False, tc_poll := None\<rparr>, [UpClose e])"

definition tcp_read :: "tcp_ans \<Rightarrow> tcp_conn \<Rightarrow> tcp_conn \<times> tcp_upcall list" where
  "tcp_read a tc =
     (if \<not> ta_alloc a then (tc, [])
      else case ta_recv a of
             RecvEof \<Rightarrow> tcp_conn_close None tc
           | RecvErr e \<Rightarrow> (tc, [])
           | RecvGot bs \<Rightarrow> (tc, [UpRecv (take (tc_rxsz tc) bs)]))"

text \<open>The socket can be written to: the connection is complete, or the queue can go on.\<close>

definition tcp_writable :: "tcp_ans \<Rightarrow> bool \<Rightarrow> tcp_conn \<Rightarrow> tcp_conn \<times> bytes \<times> tcp_upcall list" where
  "tcp_writable a rd tc =
     (if tc_connected tc
      then (case tcp_dequeue a tc of
              (Some e, tc1, out) \<Rightarrow> (case tcp_conn_close (Some e) tc1 of (tc2, ups) \<Rightarrow> (tc2, out, ups))
            | (None, tc1, out) \<Rightarrow>
                (case (if tc_sendq tc1 = [] then tcp_poll a (True, False) tc1 else (None, tc1)) of
                   (Some e, tc2) \<Rightarrow> (case tcp_conn_close (Some e) tc2 of (tc3, ups) \<Rightarrow> (tc3, out, ups))
                 | (None, tc2) \<Rightarrow> if rd then (case tcp_read a tc2 of (tc3, ups) \<Rightarrow> (tc3, out, ups)) else (tc2, out, [])))
      else (case tcp_poll a (True, False) (tc\<lparr>tc_connected := True\<rparr>) of
              (Some e, tc1) \<Rightarrow> (case tcp_conn_close (Some e) tc1 of (tc2, ups) \<Rightarrow> (tc2, [], ups))
            | (None, tc1) \<Rightarrow> (tc1, [], [UpEstab])))"

definition tcp_recv_handler :: "tcp_ans \<Rightarrow> bool \<Rightarrow> bool \<Rightarrow> tcp_conn \<Rightarrow> tcp_conn \<times> bytes \<times> tcp_upcall list" where
  "tcp_recv_handler a rd wr tc =
     (case (if tc_active tc \<and> \<not> tc_connected tc then ta_soerr a else Inr None) of
        Inl e \<Rightarrow> (tc, [], [])
      | Inr (Some e) \<Rightarrow> (case tcp_conn_close (Some e) tc of (tc', ups) \<Rightarrow> (tc', [], ups))
      | Inr None \<Rightarrow>
          if wr then tcp_writable a rd tc else (case tcp_read a tc of (tc', ups) \<Rightarrow> (tc', [], ups)))"

section \<open>Making connections\<close>

text \<open>\<open>fdc\<close>: the listening socket holds an accepted connection.\<close>

definition tcp_accept :: "tcp_ans \<Rightarrow> bool \<Rightarrow> errno + tcp_conn" where
  "tcp_accept a fdc =
     (if \<not> fdc then Inl EINVAL
      else if \<not> ta_alloc a then Inl ENOMEM
      else (case tcp_poll a (True, True) (tcp_conn0\<lparr>tc_fd := True\<rparr>) of (Some e, _) \<Rightarrow> Inl e | (None, tc) \<Rightarrow> Inr tc))"

text \<open>
  The attempts on the addresses of the peer, after the repetitions for \<open>EINTR\<close>. An attempt in progress does not end the loop.
\<close>

datatype connect_ans = ConnOk | ConnInProgress | ConnErr errno

fun tcp_try :: "errno option \<Rightarrow> connect_ans list \<Rightarrow> errno option" where
  "tcp_try err [] = err"
| "tcp_try err (ConnOk # r) = None"
| "tcp_try err (ConnInProgress # r) = tcp_try err r"
| "tcp_try err (ConnErr e # r) = tcp_try (Some e) r"

text \<open>\<open>addrs\<close> is the result of \<open>getaddrinfo\<close>.\<close>

definition tcp_conn_connect :: "tcp_ans \<Rightarrow> bool \<Rightarrow> connect_ans list option \<Rightarrow> tcp_conn \<Rightarrow> errno option \<times> tcp_conn" where
  "tcp_conn_connect a peer_set addrs tc0 =
     (if \<not> peer_set then (Some EINVAL, tc0)
      else (let tc = tc0\<lparr>tc_active := True\<rparr>
            in if \<not> tc_fd tc then (Some EBADF, tc)
               else case addrs of
                      None \<Rightarrow> (Some EADDRNOTAVAIL, tc)
                    | Some rs \<Rightarrow> (case tcp_try None rs of Some e \<Rightarrow> (Some e, tc) | None \<Rightarrow> tcp_poll a (True, True) tc)))"

text \<open>The sockets that \<open>tcp_conn_alloc\<close> tries: \<open>None\<close> is a socket in non-blocking mode.\<close>

fun tcp_try_socket :: "errno \<Rightarrow> errno option list \<Rightarrow> errno option" where
  "tcp_try_socket err [] = Some err"
| "tcp_try_socket err (None # r) = None"
| "tcp_try_socket err (Some e # r) = tcp_try_socket e r"

definition tcp_conn_alloc :: "tcp_ans \<Rightarrow> bool \<Rightarrow> errno option list option \<Rightarrow> errno + tcp_conn" where
  "tcp_conn_alloc a peer_set socks =
     (if \<not> peer_set then Inl EINVAL
      else if \<not> ta_alloc a then Inl ENOMEM
      else case socks of
             None \<Rightarrow> Inl EADDRNOTAVAIL
           | Some ss \<Rightarrow> (case tcp_try_socket EINVAL ss of Some e \<Rightarrow> Inl e | None \<Rightarrow> Inr (tcp_conn0\<lparr>tc_fd := True\<rparr>)))"

definition tcp_connect :: "tcp_ans \<Rightarrow> bool \<Rightarrow> errno option list option \<Rightarrow> connect_ans list option \<Rightarrow> errno + tcp_conn" where
  "tcp_connect a peer_set socks addrs =
     (case tcp_conn_alloc a peer_set socks of
        Inl e \<Rightarrow> Inl e
      | Inr tc \<Rightarrow> (case tcp_conn_connect a peer_set addrs tc of (Some e, _) \<Rightarrow> Inl e | (None, tc') \<Rightarrow> Inr tc'))"

section \<open>The queue\<close>

text \<open>The counter is the number of bytes in the queue, and no entry is empty.\<close>

definition tcp_inv :: "tcp_conn \<Rightarrow> bool" where
  "tcp_inv tc \<longleftrightarrow>
     tc_txqsz tc = length (concat (tc_sendq tc)) \<and> tc_txqsz tc \<le> tc_txqsz_max tc \<and> list_all (\<lambda>q. q \<noteq> []) (tc_sendq tc)
     \<and> (\<not> tc_fd tc \<longrightarrow> tc_sendq tc = [])"

lemma tcp_poll_keeps:
  "tcp_poll a f tc = (e, tc') \<Longrightarrow>
   tc_sendq tc' = tc_sendq tc \<and> tc_fd tc' = tc_fd tc \<and> tc_txqsz tc' = tc_txqsz tc \<and> tc_txqsz_max tc' = tc_txqsz_max tc
   \<and> tc_connected tc' = tc_connected tc \<and> (e = None \<longrightarrow> tc_poll tc' = Some f)"
  by (auto simp: tcp_poll_def split: option.splits)

lemma tcp_enqueue_result:
  assumes "tcp_enqueue a data tc = (e, tc')"
  shows "tc_fd tc' = tc_fd tc \<and> tc_connected tc' = tc_connected tc \<and> tc_txqsz_max tc' = tc_txqsz_max tc
    \<and> tc_sendq tc' = (if e = None then tc_sendq tc @ [data] else tc_sendq tc)
    \<and> tc_txqsz tc' = (if e = None then tc_txqsz tc + length data else tc_txqsz tc)
    \<and> (e = None \<longrightarrow> tc_txqsz tc + length data \<le> tc_txqsz_max tc)
    \<and> tc_poll tc' \<in> (if e = None \<and> tc_sendq tc = [] then {Some (True, True)} else {tc_poll tc, Some (True, True)})"
  using assms by (cases "ta_listen a") (auto simp: tcp_enqueue_def tcp_poll_def split: if_split_asm dest!: sym [of "Some _" "ta_listen a"])

lemma tcp_enqueue_inv:
  "tcp_inv tc \<Longrightarrow> tc_fd tc \<Longrightarrow> data \<noteq> [] \<Longrightarrow> tcp_enqueue a data tc = (e, tc') \<Longrightarrow> tcp_inv tc'"
  using tcp_enqueue_result [of a data tc e tc'] by (auto simp: tcp_inv_def split: if_splits)

lemma tcp_dequeue_result:
  assumes "tcp_dequeue a tc = (e, tc', out)"
  shows "tc_fd tc' = tc_fd tc \<and> tc_connected tc' = tc_connected tc \<and> tc_txqsz_max tc' = tc_txqsz_max tc \<and> tc_poll tc' = tc_poll tc
    \<and> concat (tc_sendq tc) = out @ concat (tc_sendq tc')"
  using assms by (auto simp: tcp_dequeue_def Let_def split: list.split_asm send_ans.split_asm if_split_asm)

lemma tcp_dequeue_inv: "tcp_inv tc \<Longrightarrow> tcp_dequeue a tc = (e, tc', out) \<Longrightarrow> tcp_inv tc'"
  by (auto simp: tcp_inv_def tcp_dequeue_def Let_def split: list.split_asm send_ans.split_asm if_split_asm)

section \<open>The stream\<close>

text \<open>
  A run of a connection: sends of the client and events of the socket, each with its answers. Beside the connection it
  collects the bytes that the kernel got and the bytes that were sent: all of a send that succeeds, and
  of a send that fails those that the kernel took before.
\<close>

datatype tcp_ev = EvSend bytes | EvIo bool bool

fun tcp_step :: "tcp_ev \<times> tcp_ans \<Rightarrow> tcp_conn \<times> bytes \<times> bytes \<Rightarrow> tcp_conn \<times> bytes \<times> bytes" where
  "tcp_step (EvSend data, a) (tc, wire, sent) =
     (case tcp_send a data tc of (e, tc', out) \<Rightarrow> (tc', wire @ out, sent @ (if e = None then data else out)))"
| "tcp_step (EvIo rd wr, a) (tc, wire, sent) =
     (case tcp_recv_handler a rd wr tc of (tc', out, ups) \<Rightarrow> (tc', wire @ out, sent))"

lemma tcp_send_result:
  assumes "tcp_send a data tc = (e, tc', out)" "tcp_inv tc"
  shows "tcp_inv tc' \<and> tc_fd tc' = tc_fd tc \<and> tc_connected tc' = tc_connected tc
    \<and> out @ concat (tc_sendq tc') = concat (tc_sendq tc) @ (if e = None then data else out) \<and> (tc_sendq tc \<noteq> [] \<longrightarrow> out = [])"
proof (cases "\<not> tc_fd tc \<or> data = []")
  case True
  then have "tc' = tc \<and> out = [] \<and> e \<noteq> None" using assms(1) by (cases "tc_fd tc") (simp_all add: tcp_send_def, auto)
  then show ?thesis using assms(2) by auto
next
  case False
  have enq: "tcp_inv tc1 \<and> tc_fd tc1 = tc_fd tc \<and> tc_connected tc1 = tc_connected tc
      \<and> tc_sendq tc1 = (if e1 = None then tc_sendq tc @ [d] else tc_sendq tc)"
    if "tcp_enqueue a d tc = (e1, tc1)" "d \<noteq> []" for d e1 tc1
    using tcp_enqueue_inv [OF assms(2) _ that(2,1)] tcp_enqueue_result [OF that(1)] False by auto
  show ?thesis
  proof (cases "tc_sendq tc = []")
    case q: False
    obtain e1 tc1 where r: "tcp_enqueue a data tc = (e1, tc1)" by force
    then show ?thesis using enq [OF r] False q assms(1) by (auto simp: tcp_send_def)
  next
    case q: True
    show ?thesis
    proof (cases "ta_send a")
      case (SendErr x)
      obtain e1 tc1 where r: "tcp_enqueue a data tc = (e1, tc1)" by force
      then show ?thesis using enq [OF r] False q assms SendErr by (auto simp: tcp_send_def split: if_split_asm)
    next
      case (Sent k)
      obtain e1 tc1 where r: "tcp_enqueue a (drop (min k (length data)) data) tc = (e1, tc1)" by force
      then show ?thesis
        using enq [OF r] False q assms Sent by (auto simp: tcp_send_def Let_def split: if_split_asm)
    qed
  qed
qed

lemma tcp_close_inv: "tcp_inv (fst (tcp_conn_close e tc))" "\<not> tc_fd (fst (tcp_conn_close e tc))"
  by (simp_all add: tcp_conn_close_def tcp_inv_def)

lemma tcp_read_result:
  "tcp_read a tc = (tc', ups) \<Longrightarrow> tc' = tc \<or> tc' = fst (tcp_conn_close None tc)"
  by (auto simp: tcp_read_def split: if_split_asm recv_ans.split_asm)

text \<open>What an event does to the stream: the kernel gets bytes from the front of the queue, or the connection is closed.\<close>

definition tcp_advances :: "tcp_conn \<Rightarrow> tcp_conn \<Rightarrow> bytes \<Rightarrow> bool" where
  "tcp_advances tc tc' out \<longleftrightarrow> tcp_inv tc' \<and> (tc_fd tc' \<longrightarrow> tc_fd tc \<and> concat (tc_sendq tc) = out @ concat (tc_sendq tc'))"

lemma tcp_advances_closed: "tcp_advances tc (fst (tcp_conn_close e tc1)) out"
  using tcp_close_inv [of e tc1] by (simp add: tcp_advances_def)

lemma tcp_advances_read: "tcp_advances tc tc1 out \<Longrightarrow> tcp_read a tc1 = (tc2, ups) \<Longrightarrow> tcp_advances tc tc2 out"
  using tcp_read_result [of a tc1 tc2 ups] tcp_advances_closed by auto

lemma tcp_advances_poll: "tcp_advances tc tc1 out \<Longrightarrow> tcp_poll a f tc1 = (e, tc2) \<Longrightarrow> tcp_advances tc tc2 out"
  using tcp_poll_keeps [of a f tc1 e tc2] by (simp add: tcp_advances_def tcp_inv_def)

lemma tcp_writable_advances:
  assumes "tcp_inv tc" "tcp_writable a rd tc = (tc', out, ups)"
  shows "tcp_advances tc tc' out"
proof (cases "tc_connected tc")
  case True
  obtain e tc1 o1 where d: "tcp_dequeue a tc = (e, tc1, o1)" using prod_cases3 by blast
  have adv: "tcp_advances tc tc1 o1" using tcp_dequeue_result [OF d] tcp_dequeue_inv [OF assms(1) d] by (simp add: tcp_advances_def)
  obtain e2 tc2 where p: "(if tc_sendq tc1 = [] then tcp_poll a (True, False) tc1 else (None, tc1)) = (e2, tc2)" by force
  then have adv2: "tcp_advances tc tc2 o1" using adv tcp_advances_poll by (auto split: if_split_asm)
  show ?thesis
    using assms(2) True d p tcp_advances_closed [of tc _ _ o1] adv2 tcp_advances_read [OF adv2, of a]
    by (auto simp: tcp_writable_def split: option.split_asm if_split_asm prod.split_asm) (metis fst_conv)+
next
  case False
  have adv: "tcp_advances tc (tc\<lparr>tc_connected := True\<rparr>) []" using assms(1) by (simp add: tcp_advances_def tcp_inv_def)
  obtain e1 tc1 where p: "tcp_poll a (True, False) (tc\<lparr>tc_connected := True\<rparr>) = (e1, tc1)" by force
  show ?thesis
    using assms(2) False p tcp_advances_poll [OF adv p] tcp_advances_closed [of tc _ tc1 "[]"]
    by (auto simp: tcp_writable_def split: option.split_asm prod.split_asm) (metis fst_conv)
qed

lemma tcp_recv_handler_advances:
  assumes "tcp_inv tc" "tcp_recv_handler a rd wr tc = (tc', out, ups)"
  shows "tcp_advances tc tc' out"
proof -
  have same: "tcp_advances tc tc []" using assms(1) by (simp add: tcp_advances_def)
  have "out = [] \<and> (tc' = tc \<or> (\<exists>e. tc' = fst (tcp_conn_close e tc)))
      \<or> tcp_writable a rd tc = (tc', out, ups)"
    using assms(2) tcp_read_result [of a tc]
    by (auto simp: tcp_recv_handler_def split: sum.split_asm option.split_asm if_split_asm prod.split_asm) (metis fst_conv)+
  then show ?thesis using same tcp_advances_closed tcp_writable_advances [OF assms(1)] by blast
qed

lemma tcp_step_stream:
  assumes "tcp_step ev (tc, wire, sent) = (tc', wire', sent')" "tcp_inv tc" "tc_fd tc \<longrightarrow> wire @ concat (tc_sendq tc) = sent"
  shows "tcp_inv tc' \<and> (tc_fd tc' \<longrightarrow> wire' @ concat (tc_sendq tc') = sent')"
proof (cases ev)
  case (Pair e a)
  show ?thesis
  proof (cases e)
    case (EvSend data)
    obtain r tc1 out where s: "tcp_send a data tc = (r, tc1, out)" using prod_cases3 by blast
    then show ?thesis using assms tcp_send_result [OF s assms(2)] Pair EvSend by auto
  next
    case (EvIo rd wr)
    obtain tc1 out ups where s: "tcp_recv_handler a rd wr tc = (tc1, out, ups)" using prod_cases3 by blast
    then show ?thesis using assms tcp_recv_handler_advances [OF assms(2) s] Pair EvIo by (auto simp: tcp_advances_def)
  qed
qed

lemma tcp_run_stream:
  "tcp_inv tc \<Longrightarrow> (tc_fd tc \<longrightarrow> wire @ concat (tc_sendq tc) = sent) \<Longrightarrow> fold tcp_step evs (tc, wire, sent) = (tc', wire', sent') \<Longrightarrow>
   tcp_inv tc' \<and> (tc_fd tc' \<longrightarrow> wire' @ concat (tc_sendq tc') = sent')"
proof (induction evs arbitrary: tc wire sent)
  case (Cons ev evs)
  obtain tc1 w1 s1 where st: "tcp_step ev (tc, wire, sent) = (tc1, w1, s1)" using prod_cases3 by blast
  show ?case using Cons.IH [of tc1 w1 s1] tcp_step_stream [OF st Cons.prems(1,2)] Cons.prems(3) st by simp
qed simp

text \<open>
  C10: A TCP connection delivers a stream: after any sends and socket events, with any partial writes and failures, as long as the
  connection is open, what the kernel got followed by what is queued is exactly what was sent, in order and without loss or
  repetition; the counter of the queue is its length and never exceeds the limit.
\<close>

theorem tcp_stream:
  assumes "tcp_accept a True = Inr tc" "fold tcp_step evs (tc, [], []) = (tc', wire, sent)" "tc_fd tc'"
  shows "wire @ concat (tc_sendq tc') = sent \<and> tc_txqsz tc' = length (concat (tc_sendq tc')) \<and> tc_txqsz tc' \<le> tc_txqsz_max tc'"
proof -
  have "tcp_inv tc \<and> tc_sendq tc = []"
    using assms(1) by (auto simp: tcp_accept_def tcp_poll_def tcp_conn0_def tcp_inv_def split: if_split_asm option.split_asm)
  then show ?thesis using tcp_run_stream [OF _ _ assms(2)] assms(3) by (simp add: tcp_inv_def)
qed

text \<open>
  A send that fails has given nothing to the kernel, unless it could not queue the rest of a partial write; and the rest can be
  queued if memory and registration do not fail and the message is not larger than the whole queue.
\<close>

lemma tcp_send_atomic:
  assumes "tcp_send a data tc = (Some e, tc', out)" "ta_alloc a" "ta_write a" "ta_listen a = None"
    "length data \<le> tc_txqsz_max tc" "tc_txqsz tc = length (concat (tc_sendq tc))"
  shows "out = []"
  using assms
  by (auto simp: tcp_send_def tcp_enqueue_def tcp_poll_def Let_def split: if_split_asm send_ans.split_asm)

text \<open>
  So, as long as memory and registration do not fail, a send is all or nothing, which is how the rest of the development
  records traffic: the bytes sent are the messages whose send succeeded, one after the other.
\<close>

fun tcp_accepted :: "(tcp_ev \<times> tcp_ans) list \<Rightarrow> tcp_conn \<times> bytes \<times> bytes \<Rightarrow> bytes list" where
  "tcp_accepted [] s = []"
| "tcp_accepted (ev # evs) s =
     (case ev of
        (EvSend data, a) \<Rightarrow> if fst (tcp_send a data (fst s)) = None then [data] else []
      | _ \<Rightarrow> []) @ tcp_accepted evs (tcp_step ev s)"

definition tcp_no_failure :: "tcp_ev \<times> tcp_ans \<Rightarrow> bool" where
  "tcp_no_failure ev \<longleftrightarrow> ta_alloc (snd ev) \<and> ta_write (snd ev) \<and> ta_listen (snd ev) = None
     \<and> (case fst ev of EvSend data \<Rightarrow> length data \<le> 524288 | _ \<Rightarrow> True)"

lemma tcp_poll_max [simp]: "tc_txqsz_max (snd (tcp_poll a f tc)) = tc_txqsz_max tc"
  by (simp add: tcp_poll_def split: option.split)

lemma tcp_send_cases: "tcp_send a data tc = (e, tc', out) \<Longrightarrow> tc' = tc \<or> (\<exists>d e1. tcp_enqueue a d tc = (e1, tc'))"
  by (auto simp: tcp_send_def Let_def split: if_split_asm prod.split_asm send_ans.split_asm)

lemma tcp_send_max: "tcp_send a data tc = (e, tc', out) \<Longrightarrow> tc_txqsz_max tc' = tc_txqsz_max tc"
  using tcp_send_cases [of a data tc e tc' out] tcp_enqueue_result by blast

lemma tcp_read_max: "tcp_read a tc = (tc', ups) \<Longrightarrow> tc_txqsz_max tc' = tc_txqsz_max tc"
  by (auto simp: tcp_read_def tcp_conn_close_def split: if_split_asm recv_ans.split_asm)

lemma tcp_recv_handler_max:
  assumes "tcp_recv_handler a rd wr tc = (tc', out, ups)"
  shows "tc_txqsz_max tc' = tc_txqsz_max tc"
proof -
  have p: "tc_txqsz_max t2 = tc_txqsz_max t1" if "tcp_poll a f t1 = (e, t2)" for f t1 t2 e using tcp_poll_keeps [OF that] by simp
  have d: "tc_txqsz_max t2 = tc_txqsz_max t1" if "tcp_dequeue a t1 = (e, t2, o')" for t1 t2 e o' using tcp_dequeue_result [OF that] by simp
  have "tc_txqsz_max t2 = tc_txqsz_max t1" if "tcp_writable a rd t1 = (t2, o', u)" for t1 t2 o' u
    using that p d tcp_read_max
    by (auto simp: tcp_writable_def tcp_conn_close_def split: if_split_asm prod.split_asm option.split_asm)
  then show ?thesis
    using assms tcp_read_max
    by (auto simp: tcp_recv_handler_def tcp_conn_close_def split: sum.split_asm option.split_asm if_split_asm prod.split_asm)
qed

lemma tcp_all_or_nothing:
  "tcp_inv tc \<Longrightarrow> tc_txqsz_max tc = 524288 \<Longrightarrow> list_all tcp_no_failure evs \<Longrightarrow>
   snd (snd (fold tcp_step evs (tc, wire, sent))) = sent @ concat (tcp_accepted evs (tc, wire, sent))"
proof (induction evs arbitrary: tc wire sent)
  case (Cons ev evs)
  obtain tc1 w1 s1 where st: "tcp_step ev (tc, wire, sent) = (tc1, w1, s1)" using prod_cases3 by blast
  obtain e a where ev: "ev = (e, a)" by force
  have inv: "tcp_inv tc1"
  proof (cases e)
    case (EvSend data)
    obtain r t out where s: "tcp_send a data tc = (r, t, out)" using prod_cases3 by blast
    then show ?thesis using tcp_send_result [OF s Cons.prems(1)] st ev EvSend by simp
  next
    case (EvIo rd wr)
    obtain t out ups where s: "tcp_recv_handler a rd wr tc = (t, out, ups)" using prod_cases3 by blast
    then show ?thesis using tcp_recv_handler_advances [OF Cons.prems(1) s] st ev EvIo by (simp add: tcp_advances_def)
  qed
  have "tc_txqsz_max tc1 = 524288 \<and> s1 = sent @ concat (tcp_accepted [ev] (tc, wire, sent))"
  proof (cases e)
    case (EvSend data)
    obtain r t out where s: "tcp_send a data tc = (r, t, out)" using prod_cases3 by blast
    moreover have "r \<noteq> None \<Longrightarrow> out = []"
      using tcp_send_atomic [of a data tc _ t out] s Cons.prems ev EvSend by (auto simp: tcp_no_failure_def tcp_inv_def)
    ultimately show ?thesis using st ev EvSend tcp_send_max [OF s] Cons.prems(2) by auto
  next
    case (EvIo rd wr)
    obtain t out ups where s: "tcp_recv_handler a rd wr tc = (t, out, ups)" using prod_cases3 by blast
    then show ?thesis using st ev EvIo tcp_recv_handler_max [OF s] Cons.prems(2) by simp
  qed
  then show ?case using Cons.IH [OF inv, of w1 s1] Cons.prems(3) st by simp
qed simp

section \<open>Delivery\<close>

text \<open>An established connection polls for writing as long as its queue is not empty.\<close>

definition tcp_ready :: "tcp_conn \<Rightarrow> bool" where
  "tcp_ready tc \<longleftrightarrow> tcp_inv tc \<and> tc_fd tc \<and> tc_connected tc \<and> (tc_sendq tc \<noteq> [] \<longrightarrow> tc_poll tc = Some (True, True))"

text \<open>The kernel takes at least one byte.\<close>

definition tcp_takes :: "tcp_ans \<Rightarrow> bool" where
  "tcp_takes a \<longleftrightarrow> ta_listen a = None \<and> (case ta_send a of Sent n \<Rightarrow> 0 < n | SendErr _ \<Rightarrow> False)"

lemma tcp_send_ready:
  assumes "tcp_send a data tc = (e, tc', out)" "tcp_ready tc"
  shows "tcp_ready tc'"
proof -
  have r: "tcp_inv tc'" "tc_fd tc'" "tc_connected tc'" using tcp_send_result [OF assms(1)] assms(2) by (auto simp: tcp_ready_def)
  from tcp_send_cases [OF assms(1)] have "tc_sendq tc' \<noteq> [] \<longrightarrow> tc_poll tc' = Some (True, True)"
  proof
    assume "\<exists>d e1. tcp_enqueue a d tc = (e1, tc')"
    then obtain d e1 where "tcp_enqueue a d tc = (e1, tc')" by blast
    from tcp_enqueue_result [OF this] show ?thesis using assms(2) by (auto simp: tcp_ready_def split: if_split_asm)
  qed (use assms(2) in \<open>simp add: tcp_ready_def\<close>)
  with r show ?thesis by (simp add: tcp_ready_def)
qed

text \<open>An event on such a connection that can be written to gives the kernel at least one byte of the queue.\<close>

lemma tcp_write_progress:
  assumes "tcp_ready tc" "tcp_takes a"
  obtains tc' out where "tcp_recv_handler a False True tc = (tc', out, [])" "tcp_ready tc'"
    "concat (tc_sendq tc) = out @ concat (tc_sendq tc')" "tc_sendq tc \<noteq> [] \<Longrightarrow> out \<noteq> []"
proof -
  obtain n where a: "ta_listen a = None" "ta_send a = Sent n" "0 < n" using assms(2) by (auto simp: tcp_takes_def split: send_ans.splits)
  have inv: "tcp_inv tc" and c: "tc_connected tc" and f: "tc_fd tc" and pl: "tc_sendq tc \<noteq> [] \<longrightarrow> tc_poll tc = Some (True, True)"
    using assms(1) by (simp_all add: tcp_ready_def)
  obtain e tc1 out where d: "tcp_dequeue a tc = (e, tc1, out)" using prod_cases3 by blast
  note r = tcp_dequeue_result [OF d]
  have e: "e = None" using d a by (auto simp: tcp_dequeue_def Let_def split: list.split_asm)
  have ne: "out \<noteq> []" if "tc_sendq tc \<noteq> []"
    using d a inv that by (auto simp: tcp_dequeue_def Let_def tcp_inv_def min_def split: list.split_asm if_split_asm)
  define tc2 where "tc2 = (if tc_sendq tc1 = [] then tc1\<lparr>tc_poll := Some (True, False)\<rparr> else tc1)"
  have "tcp_recv_handler a False True tc = (tc2, out, [])"
    using c d e a(1) by (simp add: tcp_recv_handler_def tcp_writable_def tcp_poll_def tc2_def)
  moreover have "tc_sendq tc1 \<noteq> [] \<longrightarrow> tc_sendq tc \<noteq> []"
    using d by (auto simp: tcp_dequeue_def split: list.split_asm)
  then have "tcp_ready tc2" using tcp_dequeue_inv [OF inv d] r c f pl by (auto simp: tcp_ready_def tc2_def tcp_inv_def)
  moreover have "concat (tc_sendq tc) = out @ concat (tc_sendq tc2)" using r by (simp add: tc2_def)
  ultimately show thesis using ne that by blast
qed

text \<open>
  C29: What was accepted for sending is delivered: on an established connection, after as many writable events as bytes are queued, if
  the kernel takes at least one byte each time, the queue is empty and the kernel has got everything that was sent, in order.
\<close>

theorem tcp_drains:
  assumes "tcp_ready tc" "wire @ concat (tc_sendq tc) = sent" "list_all tcp_takes as" "tc_txqsz tc \<le> length as"
  shows "\<exists>tc'. fold tcp_step (map (Pair (EvIo False True)) as) (tc, wire, sent) = (tc', sent, sent)
    \<and> tc_sendq tc' = [] \<and> tcp_ready tc'"
  using assms
proof (induction as arbitrary: tc wire)
  case Nil
  then have "tc_sendq tc = []" by (auto simp: tcp_ready_def tcp_inv_def list_all_iff)
  then show ?case using Nil by simp
next
  case (Cons a as)
  have "tcp_takes a" using Cons.prems(3) by simp
  then obtain tc1 out where s: "tcp_recv_handler a False True tc = (tc1, out, [])" "tcp_ready tc1"
    "concat (tc_sendq tc) = out @ concat (tc_sendq tc1)" "tc_sendq tc \<noteq> [] \<Longrightarrow> out \<noteq> []"
    using tcp_write_progress [OF Cons.prems(1)] by blast
  have sz: "tc_txqsz tc = length (concat (tc_sendq tc))" "tc_txqsz tc1 = length (concat (tc_sendq tc1))"
    using Cons.prems(1) s(2) by (simp_all add: tcp_ready_def tcp_inv_def)
  have len: "tc_txqsz tc = length out + tc_txqsz tc1" using sz s(3) by simp
  have "tc_txqsz tc1 \<le> length as"
  proof (cases "tc_sendq tc = []")
    case False
    then have "0 < length out" using s(4) by simp
    then show ?thesis using len Cons.prems(4) by (simp only: list.size)
  next
    case True
    then have "tc_txqsz tc = 0" using sz(1) by simp
    then show ?thesis using len by simp
  qed
  moreover have "(wire @ out) @ concat (tc_sendq tc1) = sent" using Cons.prems(2) s(3) by simp
  ultimately show ?case using Cons.IH [OF s(2), of "wire @ out"] Cons.prems(3) s(1) by simp
qed

section \<open>Sending too early\<close>

text \<open>Only events that the socket is polled for occur.\<close>

definition tcp_polled :: "tcp_ev \<Rightarrow> tcp_conn \<Rightarrow> bool" where
  "tcp_polled ev tc =
     (case ev of
        EvSend _ \<Rightarrow> True
      | EvIo rd wr \<Rightarrow> (case tc_poll tc of None \<Rightarrow> \<not> rd \<and> \<not> wr | Some (r, w) \<Rightarrow> (rd \<longrightarrow> r) \<and> (wr \<longrightarrow> w)))"

fun tcp_possible :: "(tcp_ev \<times> tcp_ans) list \<Rightarrow> tcp_conn \<times> bytes \<times> bytes \<Rightarrow> bool" where
  "tcp_possible [] s = True"
| "tcp_possible (ev # evs) s \<longleftrightarrow> tcp_polled (fst ev) (fst s) \<and> tcp_possible evs (tcp_step ev s)"

definition tcp_stuck :: "tcp_conn \<Rightarrow> bool" where
  "tcp_stuck tc \<longleftrightarrow>
     (if tc_fd tc then tc_connected tc \<and> tc_sendq tc \<noteq> [] \<and> tc_poll tc = Some (True, False) else tc_poll tc = None)"

lemma tcp_stuck_step:
  assumes "tcp_stuck tc" "tcp_polled (fst ev) tc" "tcp_step ev (tc, wire, sent) = (tc', wire', sent')"
  shows "tcp_stuck tc' \<and> wire' = wire"
proof (cases ev)
  case (Pair e a)
  show ?thesis
  proof (cases e)
    case (EvSend data)
    show ?thesis
    proof (cases "tc_fd tc")
      case True
      then have q: "tc_sendq tc \<noteq> []" "tc_poll tc = Some (True, False)" "tc_connected tc" using assms(1) by (simp_all add: tcp_stuck_def)
      obtain r tc1 where s: "tcp_enqueue a data tc = (r, tc1)" by force
      have "tcp_stuck tc1"
        using s q True by (auto simp: tcp_enqueue_def tcp_stuck_def split: if_split_asm)
      then show ?thesis using assms(1,3) Pair EvSend s q True by (auto simp: tcp_send_def split: if_split_asm)
    qed (use assms Pair EvSend in \<open>auto simp: tcp_send_def\<close>)
  next
    case (EvIo rd wr)
    have "\<not> wr" "tc_connected tc \<or> \<not> tc_fd tc"
      using assms(1,2) Pair EvIo by (auto simp: tcp_stuck_def tcp_polled_def split: if_split_asm)
    moreover have "tcp_stuck (fst (tcp_conn_close x tc))" for x by (simp add: tcp_stuck_def tcp_conn_close_def)
    ultimately show ?thesis
      using assms(1,3) Pair EvIo tcp_read_result [of a tc]
      by (auto simp: tcp_recv_handler_def split: sum.split_asm option.split_asm if_split_asm prod.split_asm) (metis fst_conv)+
  qed
qed

lemma tcp_stuck_run:
  "tcp_stuck tc \<Longrightarrow> tcp_possible evs (tc, wire, sent) \<Longrightarrow> fst (snd (fold tcp_step evs (tc, wire, sent))) = wire"
proof (induction evs arbitrary: tc sent)
  case (Cons ev evs)
  obtain tc1 w1 s1 where st: "tcp_step ev (tc, wire, sent) = (tc1, w1, s1)" using prod_cases3 by blast
  then show ?case using tcp_stuck_step [OF Cons.prems(1) _ st] Cons.IH [of tc1 s1] Cons.prems(2) by simp
qed simp

text \<open>
  C11: What is queued before a connection is established is never sent: if the kernel does not take the bytes of a send on a fresh
  connection, they are queued, but the event that establishes the connection polls for reading only, and no later send
  and no later event gives any byte to the kernel.
\<close>

theorem tcp_early_send_stuck:
  assumes "tcp_accept a True = Inr tc" "tcp_send b data tc = (None, tc1, [])"
    "tcp_recv_handler c rd True tc1 = (tc2, out, [UpEstab])" "tcp_possible evs (tc2, [], data)"
  shows "out = [] \<and> fst (snd (fold tcp_step evs (tc2, [], data))) = []"
proof -
  have tc: "tc = tcp_conn0\<lparr>tc_fd := True, tc_poll := Some (True, True)\<rparr>"
    using assms(1) by (auto simp: tcp_accept_def tcp_poll_def split: if_split_asm option.split_asm)
  have inv: "tcp_inv tc" by (simp add: tc tcp_inv_def tcp_conn0_def)
  have "data \<noteq> []" using assms(2) by (auto simp: tcp_send_def tc tcp_conn0_def)
  then have q: "tc_sendq tc1 \<noteq> []" "tc_fd tc1" "\<not> tc_connected tc1"
    using tcp_send_result [OF assms(2) inv] by (auto simp: tc tcp_conn0_def)
  have "\<not> tc_active tc1" using assms(2) by (auto simp: tcp_send_def tcp_enqueue_def tcp_poll_def tc tcp_conn0_def Let_def
        split: if_split_asm send_ans.split_asm option.split_asm)
  then have "tc2 = tc1\<lparr>tc_connected := True, tc_poll := Some (True, False)\<rparr> \<and> out = []"
    using assms(3) q by (auto simp: tcp_recv_handler_def tcp_writable_def tcp_poll_def tcp_conn_close_def split: option.split_asm)
  then show ?thesis using tcp_stuck_run [of tc2 evs "[]" data] assms(4) q by (simp add: tcp_stuck_def)
qed

section \<open>Examples\<close>

definition tcp_answer :: "send_ans \<Rightarrow> tcp_ans" where
  "tcp_answer s = \<lparr>ta_send = s, ta_recv = RecvErr EAGAIN, ta_listen = None, ta_alloc = True, ta_write = True, ta_soerr = Inr None\<rparr>"

definition tcp_example :: tcp_conn where
  "tcp_example = tcp_conn0\<lparr>tc_fd := True, tc_poll := Some (True, True)\<rparr>"

lemmas tcp_eval = tcp_answer_def tcp_example_def tcp_conn0_def tcp_accept_def tcp_poll_def tcp_send_def tcp_enqueue_def tcp_dequeue_def
  tcp_recv_handler_def tcp_writable_def tcp_conn_close_def tcp_read_def

theorem tcp_stream_witness:
  "let evs = [(EvIo False True, tcp_answer (Sent 0)), (EvSend [1, 2, 3], tcp_answer (Sent 1)), (EvSend [4], tcp_answer (Sent 1))];
       r = fold tcp_step evs (tcp_example, [], [])
   in fst (snd r) @ concat (tc_sendq (fst r)) = [1, 2, 3, 4] \<and> tc_txqsz (fst r) = 3"
proof -
  let ?evs = "[(EvIo False True, tcp_answer (Sent 0)), (EvSend [1, 2, 3], tcp_answer (Sent 1)), (EvSend [4], tcp_answer (Sent 1))]"
  have acc: "tcp_accept (tcp_answer (Sent 0)) True = Inr tcp_example" by (simp add: tcp_eval)
  obtain tc wire sent where r: "fold tcp_step ?evs (tcp_example, [], []) = (tc, wire, sent)" using prod_cases3 by blast
  then have c: "tc_fd tc" "sent = [1, 2, 3, 4]" "tc_sendq tc = [[2, 3], [4]]" by (auto simp: tcp_eval)
  show ?thesis using tcp_stream [OF acc r c(1)] c r by simp
qed

text \<open>A send that reports an error although the kernel has got its first byte.\<close>

lemma tcp_partial_refused:
  "tcp_send ((tcp_answer (Sent 1))\<lparr>ta_alloc := False\<rparr>) [1, 2, 3] tcp_example = (Some ENOMEM, tcp_example, [1])"
  by (simp add: tcp_eval)

theorem tcp_drains_witness:
  "\<exists>tc'. fold tcp_step (map (Pair (EvIo False True)) (replicate 3 (tcp_answer (Sent 1))))
       (tcp_example\<lparr>tc_connected := True, tc_sendq := [[2, 3], [4]], tc_txqsz := 3\<rparr>, [1], [1, 2, 3, 4]) = (tc', [1, 2, 3, 4], [1, 2, 3, 4])
     \<and> tc_sendq tc' = [] \<and> tcp_ready tc'"
  by (rule tcp_drains) (simp_all add: tcp_ready_def tcp_inv_def tcp_takes_def tcp_eval list_all_iff)

theorem tcp_early_send_stuck_witness:
  "let tc2 = tcp_example\<lparr>tc_connected := True, tc_poll := Some (True, False), tc_sendq := [[7]], tc_txqsz := 1\<rparr>
   in [] = ([] :: bytes) \<and> fst (snd (fold tcp_step [(EvSend [8], tcp_answer (Sent 1)), (EvIo True False, tcp_answer (Sent 1))] (tc2, [], [7]))) = []"
proof -
  let ?tc2 = "tcp_example\<lparr>tc_connected := True, tc_poll := Some (True, False), tc_sendq := [[7]], tc_txqsz := 1\<rparr>"
  have "tcp_accept (tcp_answer (Sent 0)) True = Inr tcp_example" by (simp add: tcp_eval)
  moreover have "tcp_send (tcp_answer (SendErr EAGAIN)) [7] tcp_example = (None, tcp_example\<lparr>tc_sendq := [[7]], tc_txqsz := 1\<rparr>, [])"
    by (simp add: tcp_eval)
  moreover have "tcp_recv_handler (tcp_answer (Sent 1)) False True (tcp_example\<lparr>tc_sendq := [[7]], tc_txqsz := 1\<rparr>) = (?tc2, [], [UpEstab])"
    by (simp add: tcp_eval)
  moreover have "tcp_possible [(EvSend [8], tcp_answer (Sent 1)), (EvIo True False, tcp_answer (Sent 1))] (?tc2, [], [7])"
    by (simp add: tcp_polled_def tcp_eval)
  ultimately show ?thesis unfolding Let_def by (rule tcp_early_send_stuck)
qed

end
