(* ===== verification/Spec2Isabelle.thy ===== *)
theory Spec2Isabelle
  imports Main_Program Base64 Libre_Tmr Stun_Discovery Http_Conn Libre_Tcp
begin

text \<open>
  A verification of the smart-lock intercom (\<open>src/intercom_test\<close>): a door station that streams its camera and
  microphone over RTSP, plays the visitor's audio, takes calls and doorbell rings over HTTP, finds its public
  address with STUN and keeps a connection to a relay server for clients behind a NAT; and the relay server
  itself (\<open>src/intercom_test/relay_server\<close>). The program is C on top of the vendored library libre (\<open>src/re-4.6.0\<close>);
  the functions of the library whose results the program depends on are modelled, too.

  \<^bold>\<open>The parts and their theories.\<close>

  \<^item> \<open>Prelude\<close>: machine integers, byte order, C strings and number formats (\<open>strstr\<close>, \<open>strchr\<close>, \<open>atoi\<close>, \<open>%u\<close>), the
    collections \<open>layout\<close>, \<open>keeps\<close>, \<open>frame\<close>.
  \<^item> Library, data: \<open>Libre_Fmt\<close> (\<open>re_snprintf\<close>, \<open>str_ncpy\<close>), \<open>Libre_Sa\<close> (\<open>sa.c\<close>, parts of \<open>pl.c\<close> and \<open>print.c\<close>), \<open>Mbuf\<close> (\<open>mbuf.c\<close>),
    \<open>Rtp\<close> (header of \<open>rtp.c\<close>), \<open>G711\<close> (\<open>g711.c\<close>), \<open>Base64\<close> (\<open>b64.c\<close>), \<open>Crc32\<close> (\<open>crc32.c\<close>), \<open>Libre_Regex\<close> (\<open>regex.c\<close>).
  \<^item> Library, pointer structures: \<open>Libre_List\<close> (\<open>list.c\<close>: doubly linked lists in a store of addresses), \<open>Libre_Tmr\<close>
    (\<open>tmr.c\<close>: the timers on top of these lists).
  \<^item> \<open>Libre_Tcp\<close> (\<open>tcp.c\<close>, \<open>tcp_high.c\<close>): connections with their send queues. That a send takes all of a message or nothing
    (\<open>tcp_all_or_nothing\<close>) is what \<open>World\<close> records as traffic.
  \<^item> Library, STUN: \<open>Libre_Stun\<close> (\<open>hdr.c\<close>, \<open>addr.c\<close>, \<open>attr.c\<close>, \<open>msg.c\<close>), \<open>Stun_Trans\<close> (\<open>ctrans.c\<close>, \<open>stun.c\<close>, \<open>req.c\<close>, \<open>rep.c\<close>, \<open>ind.c\<close>, what they use
    of \<open>udp.c\<close>), \<open>Stun_Discovery\<close> (\<open>stun_client.c\<close> on top of this stack).
  \<^item> Library, HTTP: \<open>Libre_Http\<close> (\<open>msg.c\<close>, \<open>re_http.h\<close>, \<open>hash/func.c\<close>, \<open>ctype.c\<close>), \<open>Http_Parse\<close> (what the parser accepts and that
    complete messages are stable), \<open>Http_Roundtrip\<close> (texts of messages), \<open>Http_Conn\<close> (\<open>http/server.c\<close> with the program's handler);
    the replies of \<open>http/server.c\<close> are in \<open>Http_Server\<close>.
  \<^item> Devices: \<open>Audio_In\<close> (\<open>audio_in_win.c\<close>: ring buffer), \<open>Audio_Out\<close> (\<open>audio_out_win.c\<close>), \<open>Camera\<close> (\<open>camera_win.c\<close>: test
    pattern, encoder output, parameter sets).
  \<^item> \<open>H264_Rtp\<close>: the packets (single unit, FU-A) that \<open>session.c\<close> and \<open>rtsp_server.c\<close> build from a video frame; the locale
    \<open>nalu_sender\<close> is the contract both senders meet.
  \<^item> \<open>World\<close>: the devices as one state, the traffic, and the environment's answers.
  \<^item> RTSP: \<open>Rtsp_Auth\<close> (\<open>rtsp_auth.c\<close>), \<open>Rtsp_Parse\<close>, \<open>Rtsp_Server\<close>, \<open>Rtsp_Handlers\<close> (\<open>rtsp_server.c\<close>), \<open>Rtsp_Inv\<close> (invariant),
    \<open>Rtsp_Props\<close> (transition system, protocol properties).
  \<^item> \<open>Session\<close> (\<open>session.c\<close>): a call with its timers.
  \<^item> \<open>Relay_Client\<close> (\<open>relay_client.c\<close>), \<open>Relay_Server\<close> (\<open>relay_server.c\<close>), \<open>Relay_Bridge\<close> (both ends against each other, and
    the RTSP server as the acceptor of relayed connections).
  \<^item> \<open>Stun_Client\<close> (\<open>stun_client.c\<close>), \<open>Http_Server\<close> (\<open>http_server.c\<close>), \<open>Main_Program\<close> (\<open>main.c\<close> and the event loop).

  \<^bold>\<open>How code becomes definitions.\<close> A \<open>struct\<close> or a file's globals is a \<open>record\<close>, a function a definition of the same name on
  explicit state, an error code an \<open>errno option\<close> or the left of a sum. Integers keep their width where they
  wrap. \<open>devices\<close> is extended by \<open>rtsp_world\<close> and that by \<open>intercom_world\<close>, the state of the whole program; functions of a
  smaller part are polymorphic in the extension and so apply to the larger state as they are. What the
  sources call but do not contain (allocation, random numbers, sockets, name resolution, drivers, the H.264
  encoder, MD5, files, the clock) is the record \<open>env\<close> of functions of a call counter: no answer is
  used twice, and a theorem over all \<open>env\<close> covers every behaviour. \<open>good_env\<close> is a concrete environment for the
  witnesses. Where a theorem needs the network to work, it says \<open>network_up env\<close>. The relay server runs one thread
  per connection; its threads' program points are a datatype and a step of the system is one system call or
  one locked region of one thread.

  \<^bold>\<open>What is shown.\<close>

  \<^item> Data paths: the microphone ring keeps the newest samples in order; base64, RTP headers, u-law, addresses,
    RTSP, HTTP and STUN messages and interleaved frames survive their round trips; the CRC is the
    polynomial division; a video frame is reassembled from what either sender puts on the wire; a tone is played as it was sent.
  \<^item> Access: a request passes authentication only with the right digest for the current nonce, a nonce is
    used once, a correct client is admitted, a refused request changes nothing; authentication is on as configured; HTTP
    requests read files only below their directory and leave the RTSP side alone; the relay registers only holders
    of the token.
  \<^item> State: the invariants of the RTSP server, of the relay client, of the relay server's table under all
    interleavings, and of the whole program (\<open>program_inv\<close>) hold in all reachable states.
  \<^item> Behaviour: PLAY, TEARDOWN, calls, doorbell, registration, hand-over and exit do what the handlers are for, on
    success and on failure; calls and the relay client keep going; a client of the relay gets its device; an HTTP
    request is served once however it is cut into pieces; an unanswered STUN request ends after its retransmissions.
  \<^item> Library structures: list and timer operations refine sequences and leave everything else alone; polling the timers and
    sorting end; a STUN response handler is called at most once and no freed transaction is used; what an HTTP connection
    may keep is bounded; a TCP connection delivers exactly what was sent, in order, once it is established.
  \<^item> Two theorems state what the code fails to do: bytes that are queued before a TCP connection is established are never
    sent (\<open>tcp_early_send_stuck\<close>); and the program's STUN socket has no receive handler, so no public
    address is ever found (\<open>stun_never_discovers\<close>), although the stack below it would report one (\<open>stun_response_reported\<close>).

  \<^bold>\<open>Interfaces.\<close> The locales state what one part relies on in another and are interpreted on the model: \<open>nalu_sender\<close> by
  the RTSP client and by the session, \<open>conn_acceptor\<close> by the RTSP server's \<open>rtsp_accept_relay_conn\<close>, \<open>timer_handlers\<close> and its
  extension \<open>own_timer_handlers\<close> (what a handler may do with the timers while they are polled) by the periodic handlers of
  \<open>Libre_Tmr\<close>, \<open>closing_handler\<close> by the program's \<open>http_req_handler\<close>, and those of the message buffer and the devices in their
  theories.

  \<^bold>\<open>Termination and bounds.\<close> Loops over input are total functions: the receive loops, the line loops and the attributes of a STUN
  message by the length of the remaining input, the drain of the microphone by the samples in excess. Loops that follow pointers
  (\<open>Libre_List\<close>, \<open>Libre_Tmr\<close>) may run forever on a broken list and are partial functions with result \<open>None\<close>; theorems show that they
  return on every well-formed list. There is no fuel. Sizes of the C
  buffers appear as literals at the place where the code has them.

  \<^bold>\<open>Not modelled.\<close> Log output; the event loop's own scheduling (any order of callbacks is allowed); failure to create
  threads and the listening socket of the relay server; the Windows socket variants beside the POSIX ones; IPv6
  text formats (arguments of \<open>Libre_Sa\<close>); UNIX sockets; TLS and client certificates of the HTTP server; listening TCP
  sockets and the event loop's system calls; \<open>session_old.c\<close>, which is not built; the Android client, the web page and the go2rtc configuration; the
  modules of libre that the program does not call.
\<close>

end
